(* ===== verification/Ems_Prelude.thy ===== *)
theory Ems_Prelude
  imports Complex_Main
begin

text \<open>
  Shared vocabulary of the development.

  \<^item> \<open>watts\<close>, \<open>percent\<close>, \<open>seconds\<close>: the Python numbers of the control loop, as exact
    rationals. Python mixes \<open>int\<close> and \<open>float\<close> freely there; both are read as \<open>rat\<close>, so the
    theorems are about the arithmetic the code writes down, without binary rounding error.
  \<^item> \<open>py_round\<close>, \<open>py_int\<close>: Python's \<open>round\<close> (half to even) and \<open>int\<close> (towards zero).
  \<^item> \<open>pyfloat\<close> and \<open>pyval\<close>: dynamically typed values, where the code inspects their type
    or their finiteness.
  \<^item> Generic lemmas on sums over lists and on list updates, collected in \<open>list_sum\<close>.
  \<^item> \<open>run_steps\<close> and the locale \<open>stepwise_invariant\<close>: an invariant kept by every step of a
    machine is kept by every run of it.
\<close>

named_theorems list_sum "sums over lists and index updates"

type_synonym watts = rat
type_synonym percent = rat
type_synonym seconds = rat

section \<open>Python numbers\<close>

definition py_int :: "rat \<Rightarrow> int" where
  "py_int x = (if 0 \<le> x then \<lfloor>x\<rfloor> else \<lceil>x\<rceil>)"

definition py_round :: "rat \<Rightarrow> int" where
  "py_round x =
     (let f = \<lfloor>x\<rfloor>; d = x - of_int f
      in if d < 1 / 2 then f
         else if 1 / 2 < d then f + 1
         else if even f then f else f + 1)"

lemma py_int_of_int [simp]: "py_int (of_int n) = n"
  by (simp add: py_int_def)

lemma py_round_of_int [simp]: "py_round (of_int n) = n"
  by (simp add: py_round_def)

lemma py_round_0 [simp]: "py_round 0 = 0"
  using py_round_of_int [of 0] by simp

lemma py_round_numeral [simp]: "py_round (numeral n) = numeral n"
  using py_round_of_int [of "numeral n"] by simp

lemma py_round_cases: "py_round x = \<lfloor>x\<rfloor> \<or> py_round x = \<lfloor>x\<rfloor> + 1"
  by (simp add: py_round_def Let_def)

lemma py_round_error: "\<bar>of_int (py_round x) - x\<bar> \<le> 1 / 2"
proof -
  have "of_int \<lfloor>x\<rfloor> \<le> x \<and> x < of_int (\<lfloor>x\<rfloor> + 1)"
    by (rule floor_correct)
  then show ?thesis
    by (auto simp: py_round_def Let_def abs_le_iff)
qed

lemma py_round_le: "of_int (py_round x) \<le> x + 1 / 2"
  using py_round_error [of x] by linarith

lemma py_round_ge: "x - 1 / 2 \<le> of_int (py_round x)"
  using py_round_error [of x] by linarith

lemma py_round_mono_int: "x \<le> of_int n \<Longrightarrow> py_round x \<le> n"
proof (rule ccontr)
  assume x: "x \<le> of_int n" and "\<not> py_round x \<le> n"
  then have "n + 1 \<le> py_round x" by simp
  then have "of_int (n + 1) \<le> (of_int (py_round x) :: rat)" by (rule of_int_le_iff [THEN iffD2])
  with py_round_le [of x] x show False by simp
qed

lemma py_round_ge_int: "of_int n \<le> x \<Longrightarrow> n \<le> py_round x"
proof (rule ccontr)
  assume x: "of_int n \<le> x" and "\<not> n \<le> py_round x"
  then have "py_round x + 1 \<le> n" by simp
  then have "of_int (py_round x + 1) \<le> (of_int n :: rat)" by (rule of_int_le_iff [THEN iffD2])
  with py_round_ge [of x] x show False by simp
qed

lemma py_round_nonneg [simp]: "0 \<le> x \<Longrightarrow> 0 \<le> py_round x"
  using py_round_ge_int [of 0 x] by simp

lemma py_round_nonpos [simp]: "x \<le> 0 \<Longrightarrow> py_round x \<le> 0"
  using py_round_mono_int [of x 0] by simp

section \<open>Dynamically typed values\<close>

datatype pyfloat = Fin rat | PosInf | NegInf | NaN

datatype pyval = PyNone | PyBool bool | PyInt int | PyFloat pyfloat | PyStr string

text \<open>\<open>isinstance(v, (int, float)) and not isinstance(v, bool)\<close>, with the number as a float.\<close>

fun py_number :: "pyval \<Rightarrow> pyfloat option" where
  "py_number (PyInt n) = Some (Fin (of_int n))"
| "py_number (PyFloat x) = Some x"
| "py_number _ = None"

fun isfinite :: "pyfloat \<Rightarrow> bool" where
  "isfinite (Fin _) = True"
| "isfinite _ = False"

fun finite_part :: "pyfloat \<Rightarrow> rat option" where
  "finite_part (Fin x) = Some x"
| "finite_part _ = None"

text \<open>The truth value of \<open>v\<close> in Python, as \<open>v or d\<close> tests it.\<close>

fun py_truthy :: "pyval \<Rightarrow> bool" where
  "py_truthy PyNone = False"
| "py_truthy (PyBool b) = b"
| "py_truthy (PyInt n) = (n \<noteq> 0)"
| "py_truthy (PyFloat x) = (x \<noteq> Fin 0)"
| "py_truthy (PyStr s) = (s \<noteq> [])"

lemma finite_part_Some [simp]: "finite_part x = Some r \<longleftrightarrow> x = Fin r"
  by (cases x) auto

section \<open>Strings and optional arguments\<close>

fun py_join :: "string \<Rightarrow> string list \<Rightarrow> string" where
  "py_join sep [] = []"
| "py_join sep [s] = s"
| "py_join sep (s # t # ts) = s @ sep @ py_join sep (t # ts)"

text \<open>\<open>str.strip\<close> and \<open>str.lower\<close>, on characters up to 255.\<close>

definition py_space :: "char \<Rightarrow> bool" where
  "py_space c \<longleftrightarrow> (let n = (of_char c :: nat) in
     9 \<le> n \<and> n \<le> 13 \<or> 28 \<le> n \<and> n \<le> 32 \<or> n = 133 \<or> n = 160)"

definition py_strip :: "string \<Rightarrow> string" where
  "py_strip s = rev (dropWhile py_space (rev (dropWhile py_space s)))"

definition py_lower_char :: "char \<Rightarrow> char" where
  "py_lower_char c =
     (let n = (of_char c :: nat) in if 65 \<le> n \<and> n \<le> 90 then char_of (n + 32) else c)"

definition py_lower :: "string \<Rightarrow> string" where
  "py_lower s = map py_lower_char s"

text \<open>\<open>xs[i] if xs else None\<close> for an optional list argument; an empty list is false.\<close>

definition arg_at :: "'a list option \<Rightarrow> nat \<Rightarrow> 'a option" where
  "arg_at xs i =
     (case xs of None \<Rightarrow> None | Some ys \<Rightarrow> if ys = [] then None else Some (ys ! i))"

section \<open>Sums over lists\<close>

lemma sum_list_nonneg_rat [list_sum]: "(\<And>x. x \<in> set xs \<Longrightarrow> (0::rat) \<le> x) \<Longrightarrow> 0 \<le> sum_list xs"
  by (rule sum_list_nonneg)

lemma sum_list_update_rat [list_sum]:
  "i < length xs \<Longrightarrow> sum_list (xs[i := v]) = sum_list xs - xs ! i + (v :: rat)"
  by (induction xs arbitrary: i) (auto split: nat.splits)

lemma sum_list_pointwise_mono [list_sum]:
  assumes "length xs = length ys" and "\<And>i. i < length xs \<Longrightarrow> xs ! i \<le> (ys ! i :: rat)"
  shows "sum_list xs \<le> sum_list ys"
  using assms
proof (induction xs ys rule: list_induct2)
  case Nil
  then show ?case by simp
next
  case (Cons x xs y ys)
  have "x \<le> y" using Cons.prems [of 0] by simp
  moreover have "xs ! i \<le> ys ! i" if "i < length xs" for i
    using Cons.prems [of "Suc i"] that by simp
  ultimately show ?case using Cons.IH by simp
qed

lemma sum_list_map_distinct:
  "distinct is \<Longrightarrow> sum_list (map f is) = (\<Sum>i \<in> set is. (f i :: rat))"
  by (simp add: sum_list_distinct_conv_sum_set)

lemma sum_list_partition [list_sum]:
  "sum_list (map f xs) =
     sum_list (map f (filter P xs)) + sum_list (map f (filter (\<lambda>x. \<not> P x) xs))"
  for f :: "'a \<Rightarrow> rat"
  by (induction xs) auto

lemma sum_list_nth_sum: "sum_list xs = (\<Sum>i < length xs. (xs ! i :: rat))"
  by (simp add: sum_list_sum_nth atLeast0LessThan)

lemma nth_le_sum_list:
  assumes "\<And>x. x \<in> set xs \<Longrightarrow> (0::rat) \<le> x" and "i < length xs"
  shows "xs ! i \<le> sum_list xs"
  using assms by (metis member_le_sum_list nth_mem)

section \<open>Machines and their runs\<close>

definition run_steps :: "('s \<Rightarrow> 'e \<Rightarrow> 's) \<Rightarrow> 's \<Rightarrow> 'e list \<Rightarrow> 's" where
  "run_steps step s es = foldl step s es"

lemma run_steps_Nil [simp]: "run_steps step s [] = s"
  by (simp add: run_steps_def)

lemma run_steps_Cons [simp]: "run_steps step s (e # es) = run_steps step (step s e) es"
  by (simp add: run_steps_def)

lemma run_steps_append: "run_steps step s (es @ fs) = run_steps step (run_steps step s es) fs"
  by (simp add: run_steps_def)

text \<open>
  What a component with mutable state promises: \<open>inv\<close> holds of its fresh states and every
  operation \<open>step\<close> keeps it, given that the operation's arguments are \<open>ok\<close>.
\<close>

locale stepwise_invariant =
  fixes step :: "'s \<Rightarrow> 'e \<Rightarrow> 's"
    and ok :: "'e \<Rightarrow> bool"
    and inv :: "'s \<Rightarrow> bool"
  assumes step_inv: "inv s \<Longrightarrow> ok e \<Longrightarrow> inv (step s e)"
begin

lemma run_inv: "inv s \<Longrightarrow> list_all ok es \<Longrightarrow> inv (run_steps step s es)"
  by (induction es arbitrary: s) (auto intro: step_inv)

lemma run_inv_prefix: "inv s \<Longrightarrow> list_all ok (es @ fs) \<Longrightarrow> inv (run_steps step s es)"
  by (rule run_inv) auto

end

end
