(* ===== verification/Power_Direction.thy ===== *)
theory Power_Direction
  imports Ems_Prelude
begin

text \<open>
  The device report (\<open>ems/models.py\<close>), the direction vocabulary every transport shares
  (\<open>ems/power_direction.py\<close>) and the atomic ZenSDK power command (\<open>ems/power_command.py\<close>).

  A report is the record \<open>device_state\<close>, one field per field of the dataclass
  \<open>DeviceState\<close> with the type the dataclass declares (\<open>float\<close> as \<open>rat\<close>, \<open>int\<close> as \<open>int\<close>,
  \<open>int | None\<close> as an option). On those types the \<open>isinstance\<close> filters inside
  \<open>power_direction.py\<close> pass every value through. A \<open>dict\<close> that is written and compared
  key by key is an association list in insertion order.

  Proved here: the command carries the signed target and nothing else (it can be read back,
  and never asks for output and input at once), how the direction predicates exclude one
  another, and which target changes may pre-empt a command in flight.
\<close>

section \<open>The device report\<close>

record device_state =
  soc :: percent
  min_soc :: percent
  max_soc :: percent
  solar :: watts
  output_w :: watts
  pack_in :: watts
  pack_out :: watts
  temp :: rat
  voltage :: rat
  rssi :: int
  remain_minutes :: rat
  solar1 :: watts
  solar2 :: watts
  solar3 :: watts
  solar4 :: watts
  output_limit :: watts
  soc_limit :: int
  pack_state :: int
  fault_level :: int
  smart_mode :: int
  grid_off_mode :: int
  ac_mode :: int
  ac_status :: int
  dc_status :: int
  grid_state :: int
  input_limit_w :: int
  charge_max_limit_w :: "int option"
  grid_input :: int
  grid_reverse :: int
  pack_num :: "int option"
  soc_status :: int
  battery_calibration_time :: "int option"
  ac_mode_reported :: bool
  min_soc_reported :: bool
  max_soc_reported :: bool
  smart_mode_reported :: bool
  grid_off_mode_reported :: bool
  input_limit_reported :: bool
  setting_properties :: "(string \<times> pyval) list"

record device_capabilities =
  can_charge :: bool
  can_discharge :: bool
  can_export :: bool
  can_ac_charge :: bool
  reason :: string
  export_held :: bool

datatype battery = BATTERY_PRESENT | BATTERY_ABSENT | BATTERY_UNKNOWN

fun parse_pack_count :: "int option \<Rightarrow> int option" where
  "parse_pack_count None = None"
| "parse_pack_count (Some n) = (if n < 0 then None else Some n)"

definition battery_presence :: "device_state \<Rightarrow> battery" where
  "battery_presence s =
     (case parse_pack_count (pack_num s) of
        None \<Rightarrow> BATTERY_UNKNOWN
      | Some packs \<Rightarrow> if 0 < packs then BATTERY_PRESENT else BATTERY_ABSENT)"

definition zero_device_state :: device_state where
  "zero_device_state =
     \<lparr>soc = 0, min_soc = 0, max_soc = 0, solar = 0, output_w = 0, pack_in = 0, pack_out = 0,
      temp = 0, voltage = 0, rssi = 0, remain_minutes = 0,
      solar1 = 0, solar2 = 0, solar3 = 0, solar4 = 0,
      output_limit = 0, soc_limit = 0, pack_state = 0, fault_level = 0,
      smart_mode = 0, grid_off_mode = 0, ac_mode = 0, ac_status = 0, dc_status = 0,
      grid_state = 0, input_limit_w = 0, charge_max_limit_w = None, grid_input = 0,
      grid_reverse = 0, pack_num = None, soc_status = 0, battery_calibration_time = None,
      ac_mode_reported = False, min_soc_reported = False, max_soc_reported = False,
      smart_mode_reported = False, grid_off_mode_reported = False,
      input_limit_reported = False, setting_properties = []\<rparr>"

section \<open>Directions\<close>

datatype operation = OPERATION_DISCHARGE | OPERATION_IDLE | OPERATION_CHARGE

definition AC_MODE_INPUT :: int where "AC_MODE_INPUT = 1"
definition AC_MODE_OUTPUT :: int where "AC_MODE_OUTPUT = 2"
definition AC_STATUS_CHARGING :: int where "AC_STATUS_CHARGING = 2"
definition DEFAULT_SAFETY_PREEMPT_MARGIN_W :: watts where "DEFAULT_SAFETY_PREEMPT_MARGIN_W = 300"

lemmas ac_codes [simp] = AC_MODE_INPUT_def AC_MODE_OUTPUT_def AC_STATUS_CHARGING_def

definition operation_for_target :: "int \<Rightarrow> operation" where
  "operation_for_target target_w =
     (if 0 < target_w then OPERATION_DISCHARGE
      else if target_w < 0 then OPERATION_CHARGE
      else OPERATION_IDLE)"

definition in_ac_input_direction :: "device_state \<Rightarrow> bool" where
  "in_ac_input_direction s \<longleftrightarrow> ac_mode s = AC_MODE_INPUT \<or> ac_status s = AC_STATUS_CHARGING"

definition out_of_charge :: "device_state \<Rightarrow> bool" where
  "out_of_charge s =
     (if \<not> in_ac_input_direction s
      then (ac_mode_reported s \<and> ac_mode s = AC_MODE_OUTPUT) \<or> grid_input s = 0
      else ac_status s \<noteq> AC_STATUS_CHARGING \<and> input_limit_w s = 0 \<and> grid_input s = 0)"

definition settling_out_of_charge :: "device_state \<Rightarrow> bool" where
  "settling_out_of_charge s =
     (if ac_mode s \<noteq> AC_MODE_OUTPUT then False else input_limit_w s = 0)"

definition found_in_ac_input :: "device_state \<Rightarrow> bool" where
  "found_in_ac_input s \<longleftrightarrow> in_ac_input_direction s \<and> \<not> settling_out_of_charge s"

definition safety_reduction :: "watts \<Rightarrow> watts \<Rightarrow> watts \<Rightarrow> watts \<Rightarrow> bool" where
  "safety_reduction previous_w target_w margin_w tolerance_w =
     (if target_w = previous_w then False
      else if target_w = 0 then True
      else if (target_w < 0) \<noteq> (previous_w < 0) then True
      else if target_w < 0 \<or> previous_w \<le> target_w then False
      else margin_w \<le> previous_w - target_w \<and> tolerance_w < previous_w - target_w)"

definition num_or_0 :: "watts option \<Rightarrow> watts" where
  "num_or_0 v = (case v of None \<Rightarrow> 0 | Some w \<Rightarrow> w)"

definition derive_house_load_w :: "watts option \<Rightarrow> watts option \<Rightarrow> watts option \<Rightarrow> watts" where
  "derive_house_load_w inverter_output_w grid_power_w inverter_charge_w =
     max 0 (num_or_0 inverter_output_w - num_or_0 inverter_charge_w + num_or_0 grid_power_w)"

section \<open>The atomic power command\<close>

datatype zensdk_error = ZenSdkOperationError

type_synonym properties = "(string \<times> int) list"

record zensdk_power_operation =
  zop_operation :: operation
  zop_properties :: properties
  zop_expected_properties :: properties

fun build_zensdk_power_operation :: "pyval \<Rightarrow> zensdk_error + zensdk_power_operation" where
  "build_zensdk_power_operation (PyInt target_w) =
     (let operation = operation_for_target target_w;
          properties =
            (if operation = OPERATION_CHARGE
             then [(''smartMode'', 1), (''acMode'', AC_MODE_INPUT),
                   (''outputLimit'', 0), (''inputLimit'', \<bar>target_w\<bar>)]
             else [(''smartMode'', 1), (''acMode'', AC_MODE_OUTPUT),
                   (''outputLimit'', target_w), (''inputLimit'', 0)])
      in Inr \<lparr>zop_operation = operation, zop_properties = properties,
               zop_expected_properties = properties\<rparr>)"
| "build_zensdk_power_operation _ = Inl ZenSdkOperationError"

section \<open>Laws of the direction predicates\<close>

lemma battery_presence_absent_iff: "battery_presence s = BATTERY_ABSENT \<longleftrightarrow> pack_num s = Some 0"
  by (cases "pack_num s") (auto simp: battery_presence_def)

lemma battery_presence_unknown_iff:
  "battery_presence s = BATTERY_UNKNOWN \<longleftrightarrow> (\<forall>n. pack_num s = Some n \<longrightarrow> n < 0)"
  by (cases "pack_num s") (auto simp: battery_presence_def)

lemma settling_not_found: "settling_out_of_charge s \<Longrightarrow> \<not> found_in_ac_input s"
  by (simp add: found_in_ac_input_def)

lemma out_of_charge_no_charging:
  "out_of_charge s \<Longrightarrow> ac_status s \<noteq> AC_STATUS_CHARGING"
  by (auto simp: out_of_charge_def in_ac_input_direction_def split: if_splits)

lemma out_of_charge_no_input_draw:
  assumes "out_of_charge s" and "ac_mode s \<noteq> AC_MODE_OUTPUT"
  shows "grid_input s = 0"
  using assms by (auto simp: out_of_charge_def split: if_splits)

text \<open>
  The ZenSDK command is total on integer targets and lossless: the written set holds
  \<open>smartMode = 1\<close>, never asks for output and input power at once, and the signed target is
  \<open>outputLimit - inputLimit\<close>, with \<open>acMode\<close> pointing to input exactly for a charge.
\<close>

lemma zensdk_command_carries_target:
  "\<exists>op m out inp.
     build_zensdk_power_operation (PyInt t) = Inr op \<and>
     map_of (zop_properties op) ''smartMode'' = Some 1 \<and>
     map_of (zop_properties op) ''acMode'' = Some m \<and>
     map_of (zop_properties op) ''outputLimit'' = Some out \<and>
     map_of (zop_properties op) ''inputLimit'' = Some inp \<and>
     zop_expected_properties op = zop_properties op \<and>
     out - inp = t \<and> 0 \<le> out \<and> 0 \<le> inp \<and> (out = 0 \<or> inp = 0) \<and>
     (m = AC_MODE_INPUT \<longleftrightarrow> t < 0) \<and> (m = AC_MODE_OUTPUT \<longleftrightarrow> 0 \<le> t)"
  by (auto simp: operation_for_target_def Let_def)

text \<open>
  A safety reduction is exactly a stop, a change of direction, or a discharge cut of at
  least the margin and more than the tolerance; once a discharge cut qualifies, every deeper
  cut down to zero qualifies too, so a stronger stop is never held back behind a weaker one.
\<close>

lemma safety_reduction_deeper:
  assumes "safety_reduction prev t margin tol" and "0 \<le> t'" and "t' \<le> t" and "t \<le> prev"
  shows "safety_reduction prev t' margin tol"
  using assms by (auto simp: safety_reduction_def split: if_splits)

lemma safety_reduction_direction_change:
  "(t < 0) \<noteq> (prev < 0) \<Longrightarrow> safety_reduction prev t margin tol"
  by (auto simp: safety_reduction_def)

lemma safety_reduction_stop: "prev \<noteq> 0 \<Longrightarrow> safety_reduction prev 0 margin tol"
  by (simp add: safety_reduction_def)

end
