(* ===== verification/Allocation.thy ===== *)
theory Allocation
  imports Ems_Prelude
begin

text \<open>
  The two power-splitting loops of \<open>ems/target_control.py\<close>, which the discharge side, the
  battery top-up and the AC-charge side all share.

  \<^item> \<open>weighted_limited_allocation\<close>: split a total by weights under per-device limits. The
    \<open>while\<close> loop is \<open>wla_loop\<close>, a recursion on the shrinking list of active devices. It is
    shown to compute the water level allocation: one common level \<open>l\<close> such that every
    candidate gets \<open>min limit (l * weight)\<close>, the sum being the total or all the room there is.
  \<^item> the redistribution loop of \<open>apply_constraints_and_redistribute\<close>: \<open>rd_pass\<close> is one
    \<open>for\<close> pass over the devices with headroom and \<open>rd_loop\<close> the \<open>while\<close> around it. Its
    termination is proved (each pass fills a device or moves at least one watt).

  What the clients rely on is the locale \<open>limited_allocator\<close>, interpreted at the end on
  \<open>weighted_limited_allocation\<close>. Weights and limits are lists of one length, as every caller
  builds them in one loop over the devices.
\<close>

section \<open>Adding along an index list\<close>

definition add_at :: "(nat \<Rightarrow> rat) \<Rightarrow> nat list \<Rightarrow> rat list \<Rightarrow> rat list" where
  "add_at f is a = foldl (\<lambda>a i. a[i := a ! i + f i]) a is"

lemma add_at_Nil [simp]: "add_at f [] a = a"
  by (simp add: add_at_def)

lemma add_at_Cons [simp]: "add_at f (i # is) a = add_at f is (a[i := a ! i + f i])"
  by (simp add: add_at_def)

lemma length_add_at [simp]: "length (add_at f is a) = length a"
  by (induction "is" arbitrary: a) auto

lemma nth_add_at_notin: "j \<notin> set is \<Longrightarrow> add_at f is a ! j = a ! j"
  by (induction "is" arbitrary: a) auto

lemma nth_add_at:
  assumes "distinct is" and "set is \<subseteq> {..<length a}"
  shows "add_at f is a ! j = a ! j + (if j \<in> set is then f j else 0)"
  using assms
proof (induction "is" arbitrary: a)
  case Nil
  then show ?case by simp
next
  case (Cons i "is")
  then show ?case by (cases "j = i") (auto simp: nth_add_at_notin)
qed

lemma sum_add_at [list_sum]:
  assumes "set is \<subseteq> {..<length a}"
  shows "sum_list (add_at f is a) = sum_list a + sum_list (map f is)"
  using assms
proof (induction "is" arbitrary: a)
  case Nil
  then show ?case by simp
next
  case (Cons i "is")
  then have "sum_list (add_at f is (a[i := a ! i + f i])) =
      sum_list (a[i := a ! i + f i]) + sum_list (map f is)"
    by (intro Cons.IH) auto
  with Cons.prems show ?case by (simp add: list_sum)
qed

section \<open>Weighted allocation under limits\<close>

function wla_loop :: "rat list \<Rightarrow> rat list \<Rightarrow> rat list \<Rightarrow> nat list \<Rightarrow> rat \<Rightarrow> rat list" where
  "wla_loop weights limits allocation active remaining =
     (if active = [] \<or> remaining \<le> 0 then allocation
      else
        let weight_total = sum_list (map ((!) weights) active)
        in if weight_total \<le> 0 then allocation
           else
             let share = (\<lambda>i. remaining * weights ! i / weight_total);
                 headroom = (\<lambda>i. limits ! i - allocation ! i);
                 saturated = filter (\<lambda>i. headroom i \<le> share i) active
             in if saturated = [] then add_at share active allocation
                else
                  let allocation' = add_at headroom saturated allocation
                  in wla_loop weights limits allocation'
                       (filter (\<lambda>i. i \<notin> set saturated \<and> allocation' ! i < limits ! i) active)
                       (remaining - sum_list (map headroom saturated)))"
  by pat_completeness auto

lemma length_filter_drops:
  "x \<in> set xs \<Longrightarrow> \<not> P x \<Longrightarrow> length (filter P xs) < length xs"
  by (induction xs) (auto simp: less_Suc_eq_le)

lemma filter_excluding_shorter:
  assumes "filter P xs \<noteq> []"
  shows "length (filter (\<lambda>i. i \<notin> set (filter P xs) \<and> Q i) xs) < length xs"
proof -
  obtain x where "x \<in> set (filter P xs)" using assms by (cases "filter P xs") auto
  then show ?thesis by (intro length_filter_drops [of x]) auto
qed

termination wla_loop
  by (relation "measure (\<lambda>(w, l, a, active, r). length active)")
     (use filter_excluding_shorter in \<open>auto simp: Let_def\<close>)

declare wla_loop.simps [simp del]

definition weighted_limited_allocation :: "rat \<Rightarrow> rat list \<Rightarrow> rat list \<Rightarrow> rat list" where
  "weighted_limited_allocation total_w weights limits =
     wla_loop weights limits (replicate (length weights) 0)
       (filter (\<lambda>i. 0 < limits ! i \<and> 0 < weights ! i) [0..<length limits]) total_w"


subsection \<open>The water level\<close>

text \<open>
  What the loop keeps: the active devices are distinct candidates with positive weight and
  limit that hold nothing yet.
\<close>

definition wla_ok :: "rat list \<Rightarrow> rat list \<Rightarrow> rat list \<Rightarrow> nat list \<Rightarrow> bool" where
  "wla_ok weights limits a active \<longleftrightarrow>
     distinct active \<and> set active \<subseteq> {..<length a} \<and>
     (\<forall>i \<in> set active. 0 < weights ! i \<and> 0 < limits ! i \<and> a ! i = 0)"

lemma wla_okD:
  assumes "wla_ok weights limits a active"
  shows "distinct active" and "set active \<subseteq> {..<length a}"
    and "i \<in> set active \<Longrightarrow> 0 < weights ! i" and "i \<in> set active \<Longrightarrow> 0 < limits ! i"
    and "i \<in> set active \<Longrightarrow> a ! i = 0"
  using assms by (auto simp: wla_ok_def)

lemma wla_weight_total_pos:
  assumes "wla_ok weights limits a active" and "active \<noteq> []"
  shows "0 < sum_list (map ((!) weights) active)"
proof -
  obtain i "is" where "active = i # is" using assms(2) by (cases active) auto
  moreover have "0 \<le> sum_list (map ((!) weights) is)"
    using wla_okD(3) [OF assms(1)] calculation by (intro sum_list_nonneg) (auto intro: less_imp_le)
  ultimately show ?thesis using wla_okD(3) [OF assms(1), of i] by simp
qed

text \<open>One round of the loop, with its candidates split into saturated and open ones.\<close>

definition wla_saturated :: "rat list \<Rightarrow> rat list \<Rightarrow> nat list \<Rightarrow> rat \<Rightarrow> nat list" where
  "wla_saturated weights limits active r =
     filter (\<lambda>i. limits ! i \<le> r * weights ! i / sum_list (map ((!) weights) active)) active"

definition wla_open :: "rat list \<Rightarrow> rat list \<Rightarrow> nat list \<Rightarrow> rat \<Rightarrow> nat list" where
  "wla_open weights limits active r =
     filter (\<lambda>i. \<not> limits ! i \<le> r * weights ! i / sum_list (map ((!) weights) active)) active"

lemma wla_round:
  assumes ok: "wla_ok weights limits a active" and ne: "active \<noteq> []" and r: "0 < r"
  shows "wla_loop weights limits a active r =
    (let sat = wla_saturated weights limits active r
     in if sat = []
        then add_at (\<lambda>i. r * weights ! i / sum_list (map ((!) weights) active)) active a
        else wla_loop weights limits (add_at ((!) limits) sat a)
               (wla_open weights limits active r)
               (r - sum_list (map ((!) limits) sat)))"
proof -
  let ?W = "sum_list (map ((!) weights) active)"
  let ?sat = "filter (\<lambda>i. limits ! i - a ! i \<le> r * weights ! i / ?W) active"
  have sat: "?sat = wla_saturated weights limits active r"
    unfolding wla_saturated_def by (rule filter_cong) (auto simp: wla_okD(5) [OF ok])
  have sub: "set ?sat \<subseteq> set active" by auto
  have add_eq: "add_at (\<lambda>i. limits ! i - a ! i) is b = add_at ((!) limits) is b"
    if "set is \<subseteq> set active" for "is" b
    using that by (induction "is" arbitrary: b) (auto simp: wla_okD(5) [OF ok])
  have "add_at ((!) limits) ?sat a ! i = 0" if "i \<in> set active" "i \<notin> set ?sat" for i
    using that wla_okD(5) [OF ok] by (subst nth_add_at_notin) auto
  then have "filter (\<lambda>i. i \<notin> set ?sat \<and> add_at ((!) limits) ?sat a ! i < limits ! i) active
      = filter (\<lambda>i. i \<notin> set ?sat) active"
    using wla_okD(4) [OF ok] by (intro filter_cong) auto
  also have "\<dots> = wla_open weights limits active r"
    unfolding wla_open_def by (rule filter_cong) (auto simp: wla_okD(5) [OF ok])
  finally have opn: "filter (\<lambda>i. i \<notin> set ?sat \<and> add_at ((!) limits) ?sat a ! i < limits ! i) active
      = wla_open weights limits active r" .
  have sums: "sum_list (map (\<lambda>i. limits ! i - a ! i) ?sat) = sum_list (map ((!) limits) ?sat)"
    using wla_okD(5) [OF ok] sub by (intro arg_cong [where f = sum_list] map_cong) auto
  show ?thesis
    using ne r wla_weight_total_pos [OF ok ne] add_eq [OF sub] opn sums sat
    by (subst wla_loop.simps) (simp add: Let_def)
qed

lemma wla_ok_open:
  assumes "wla_ok weights limits a active"
  shows "wla_ok weights limits (add_at ((!) limits) (wla_saturated weights limits active r) a)
           (wla_open weights limits active r)"
proof -
  have "i \<notin> set (wla_saturated weights limits active r)"
    if "i \<in> set (wla_open weights limits active r)" for i
    using that by (auto simp: wla_open_def wla_saturated_def)
  then show ?thesis
    using assms by (auto simp: wla_ok_def wla_open_def nth_add_at_notin)
qed

lemma wla_split_sum:
  "sum_list (map f active) =
     sum_list (map f (wla_saturated w l active r)) + sum_list (map (f :: nat \<Rightarrow> rat) (wla_open w l active r))"
  unfolding wla_saturated_def wla_open_def by (rule sum_list_partition)

lemma wla_open_shorter:
  assumes "wla_saturated weights limits active r \<noteq> []"
  shows "length (wla_open weights limits active r) < length active"
  using filter_excluding_shorter [OF assms [unfolded wla_saturated_def], where Q = "\<lambda>_. True"]
  by (simp add: wla_open_def cong: filter_cong conj_cong)


text \<open>Within one round, the saturated devices take no more than the level's share of the total.\<close>

lemma wla_saturated_le:
  assumes ok: "wla_ok weights limits a active" and ne: "active \<noteq> []"
  shows "sum_list (map ((!) limits) (wla_saturated weights limits active r)) \<le>
    r / sum_list (map ((!) weights) active) *
      sum_list (map ((!) weights) (wla_saturated weights limits active r))"
  unfolding sum_list_const_mult [symmetric]
  by (rule sum_list_mono) (simp add: wla_saturated_def)

lemma wla_remaining_level:
  assumes ok: "wla_ok weights limits a active" and ne: "active \<noteq> []" and r: "0 < r"
  shows "r / sum_list (map ((!) weights) active) *
      sum_list (map ((!) weights) (wla_open weights limits active r))
    \<le> r - sum_list (map ((!) limits) (wla_saturated weights limits active r))"
proof -
  let ?W = "sum_list (map ((!) weights) active)"
  have "r = r / ?W * ?W" using wla_weight_total_pos [OF ok ne] by simp
  also have "\<dots> = r / ?W * sum_list (map ((!) weights) (wla_saturated weights limits active r))
      + r / ?W * sum_list (map ((!) weights) (wla_open weights limits active r))"
    by (subst (2) wla_split_sum [of "(!) weights" active weights limits r]) (rule distrib_left)
  finally show ?thesis using wla_saturated_le [OF ok ne, of r] by linarith
qed

lemma wla_remaining_pos:
  assumes ok: "wla_ok weights limits a active" and ne: "active \<noteq> []" and r: "0 < r"
    and opn: "wla_open weights limits active r \<noteq> []"
  shows "0 < r - sum_list (map ((!) limits) (wla_saturated weights limits active r))"
proof -
  have "0 < r / sum_list (map ((!) weights) active) *
      sum_list (map ((!) weights) (wla_open weights limits active r))"
    using r wla_weight_total_pos [OF ok ne] wla_weight_total_pos [OF wla_ok_open [OF ok] opn]
    by simp
  then show ?thesis using wla_remaining_level [OF ok ne r] by linarith
qed

lemma wla_sum:
  assumes "wla_ok weights limits a active" and "0 \<le> r"
  shows "sum_list (wla_loop weights limits a active r) =
    sum_list a + min r (sum_list (map ((!) limits) active))"
  using assms
proof (induction "length active" arbitrary: a active r rule: less_induct)
  case less
  note ok = less.prems(1)
  show ?case
  proof (cases "active = [] \<or> r \<le> 0")
    case True
    have "0 \<le> sum_list (map ((!) limits) active)"
      using wla_okD(4) [OF ok] by (intro sum_list_nonneg) (auto intro: less_imp_le)
    with True less.prems(2) show ?thesis by (subst wla_loop.simps) auto
  next
    case False
    then have ne: "active \<noteq> []" and r: "0 < r" by auto
    let ?S = "wla_saturated weights limits active r" and ?O = "wla_open weights limits active r"
    let ?W = "sum_list (map ((!) weights) active)"
    show ?thesis
    proof (cases "?S = []")
      case True
      have W: "0 < ?W" using ok ne by (rule wla_weight_total_pos)
      have "sum_list (map (\<lambda>i. r * weights ! i / ?W) active) = r / ?W * ?W"
        by (subst sum_list_const_mult [symmetric]) simp
      with W have shares: "sum_list (map (\<lambda>i. r * weights ! i / ?W) active) = r" by simp
      have "i \<notin> set ?S" for i using True by simp
      then have "sum_list (map (\<lambda>i. r * weights ! i / ?W) active) \<le> sum_list (map ((!) limits) active)"
        by (intro sum_list_mono) (fastforce simp: wla_saturated_def)
      with shares True show ?thesis
        by (simp add: wla_round [OF ok ne r] sum_add_at [OF wla_okD(2) [OF ok]])
    next
      case False
      have subS: "set ?S \<subseteq> {..<length a}"
        using wla_okD(2) [OF ok] by (auto simp: wla_saturated_def)
      have r': "0 \<le> r - sum_list (map ((!) limits) ?S)"
      proof (cases "?O = []")
        case True
        then show ?thesis using wla_remaining_level [OF ok ne r] by simp
      next
        case False
        then show ?thesis using wla_remaining_pos [OF ok ne r] by simp
      qed
      have "sum_list (wla_loop weights limits (add_at ((!) limits) ?S a) ?O
            (r - sum_list (map ((!) limits) ?S))) =
          sum_list (add_at ((!) limits) ?S a) +
            min (r - sum_list (map ((!) limits) ?S)) (sum_list (map ((!) limits) ?O))"
        by (rule less.hyps [OF wla_open_shorter [OF False] wla_ok_open [OF ok] r'])
      then show ?thesis
        using False wla_split_sum [of "(!) limits" active weights limits r]
        by (simp add: wla_round [OF ok ne r] sum_add_at [OF subS] min_def Let_def)
    qed
  qed
qed


lemma wla_level:
  assumes "wla_ok weights limits a active" and "active \<noteq> []" and "0 < r"
  shows "\<exists>l \<ge> r / sum_list (map ((!) weights) active).
    length (wla_loop weights limits a active r) = length a \<and>
    (\<forall>i. wla_loop weights limits a active r ! i =
       (if i \<in> set active then min (limits ! i) (l * weights ! i) else a ! i))"
  using assms
proof (induction "length active" arbitrary: a active r rule: less_induct)
  case less
  note ok = less.prems(1) and ne = less.prems(2) and r = less.prems(3)
  let ?S = "wla_saturated weights limits active r" and ?O = "wla_open weights limits active r"
  let ?W = "sum_list (map ((!) weights) active)"
  let ?a = "add_at ((!) limits) ?S a"
  have W: "0 < ?W" using ok ne by (rule wla_weight_total_pos)
  have S: "limits ! i \<le> r / ?W * weights ! i" if "i \<in> set ?S" for i
    using that by (simp add: wla_saturated_def)
  have O: "r / ?W * weights ! i < limits ! i" if "i \<in> set active" "i \<notin> set ?S" for i
    using that by (auto simp: wla_saturated_def)
  have nth_a: "?a ! i = (if i \<in> set ?S then limits ! i else a ! i)" for i
    using wla_okD(1,2,5) [OF ok] by (subst nth_add_at) (auto simp: wla_saturated_def)
  have nth_w: "add_at (\<lambda>i. r * weights ! i / ?W) active a ! i =
      (if i \<in> set active then r / ?W * weights ! i else a ! i)" for i
    using wla_okD(1,2,5) [OF ok] by (subst nth_add_at) auto
  have subS: "i \<in> set ?S \<Longrightarrow> i \<in> set active" for i by (simp add: wla_saturated_def)
  have memO: "i \<in> set ?O \<longleftrightarrow> i \<in> set active \<and> i \<notin> set ?S" for i
    by (auto simp: wla_open_def wla_saturated_def)
  show ?case
  proof (cases "?S = []")
    case True
    then have "min (limits ! i) (r / ?W * weights ! i) = r / ?W * weights ! i"
      if "i \<in> set active" for i
      using O [OF that] by simp
    with True show ?thesis
      by (intro exI [of _ "r / ?W"]) (simp add: wla_round [OF ok ne r] nth_w)
  next
    case False
    note round = wla_round [OF ok ne r]
    show ?thesis
    proof (cases "?O = []")
      case True
      have "wla_loop weights limits a active r = ?a"
        using False True by (simp add: round Let_def) (simp add: wla_loop.simps)
      moreover have "i \<in> set ?S \<longleftrightarrow> i \<in> set active" for i
        using memO [of i] True subS by auto
      ultimately show ?thesis
        using S nth_a by (intro exI [of _ "r / ?W"]) auto
    next
      case O_ne: False
      let ?r = "r - sum_list (map ((!) limits) ?S)"
      have W': "0 < sum_list (map ((!) weights) ?O)"
        using wla_ok_open [OF ok] O_ne by (rule wla_weight_total_pos)
      obtain l where l: "?r / sum_list (map ((!) weights) ?O) \<le> l"
        and len: "length (wla_loop weights limits ?a ?O ?r) = length ?a"
        and nth: "\<And>i. wla_loop weights limits ?a ?O ?r ! i =
            (if i \<in> set ?O then min (limits ! i) (l * weights ! i) else ?a ! i)"
        using less.hyps [OF wla_open_shorter [OF False] wla_ok_open [OF ok] O_ne
            wla_remaining_pos [OF ok ne r O_ne]] by blast
      have "r / ?W \<le> ?r / sum_list (map ((!) weights) ?O)"
        using W' wla_remaining_level [OF ok ne r] by (subst pos_le_divide_eq) auto
      with l have rl: "r / ?W \<le> l" by simp
      have full: "limits ! i \<le> l * weights ! i" if "i \<in> set ?S" for i
      proof -
        have "r / ?W * weights ! i \<le> l * weights ! i"
          using rl wla_okD(3) [OF ok subS [OF that]] by (intro mult_right_mono) auto
        with S [OF that] show ?thesis by simp
      qed
      show ?thesis
        using rl len False full memO subS
        by (intro exI [of _ l]) (auto simp: round Let_def nth nth_a)
    qed
  qed
qed


section \<open>Redistributing clamped power\<close>

text \<open>One \<open>for\<close> pass over the devices with headroom; the result adds the power moved.\<close>

fun rd_pass :: "rat list \<Rightarrow> rat \<Rightarrow> nat list \<Rightarrow> rat list \<Rightarrow> rat \<Rightarrow> rat \<Rightarrow> rat list \<times> rat \<times> rat" where
  "rd_pass limits share [] redistributed excess moved = (redistributed, excess, moved)"
| "rd_pass limits share (i # is) redistributed excess moved =
     (let headroom = limits ! i - redistributed ! i;
          add = min (min headroom share) excess;
          redistributed' = redistributed[i := redistributed ! i + add];
          excess' = excess - add;
          moved' = moved + add
      in if excess' \<le> 0 then (redistributed', excess', moved')
         else rd_pass limits share is redistributed' excess' moved')"

definition rd_candidates :: "rat list \<Rightarrow> rat list \<Rightarrow> nat list" where
  "rd_candidates limits redistributed =
     filter (\<lambda>i. redistributed ! i < limits ! i) [0..<length redistributed]"

function rd_loop :: "rat list \<Rightarrow> rat list \<Rightarrow> rat \<Rightarrow> rat list \<times> rat" where
  "rd_loop limits redistributed excess =
     (if excess \<le> 0 then (redistributed, excess)
      else
        let candidates = rd_candidates limits redistributed
        in if candidates = [] then (redistributed, excess)
           else
             let share = max 1 (of_int (py_round (excess / of_nat (length candidates))))
             in case rd_pass limits share candidates redistributed excess 0 of
                  (redistributed', excess', moved) \<Rightarrow>
                    if moved \<le> 0 then (redistributed', excess')
                    else rd_loop limits redistributed' excess')"
  by pat_completeness auto

text \<open>
  What a pass does to devices that are within their limits: it only raises candidates, never
  past their limit, and moves exactly what it takes from the excess.
\<close>

lemma rd_pass_step:
  assumes "rd_pass limits share is red e m = (red', e', m')"
    and "set is \<subseteq> {..<length red}" and "0 \<le> share" and "0 \<le> e"
    and "\<forall>i \<in> set is. red ! i \<le> limits ! i" and "distinct is"
  shows "length red' = length red \<and> 0 \<le> e' \<and> e' \<le> e \<and>
    sum_list red' + e' = sum_list red + e \<and> m' - m = e - e' \<and>
    (\<forall>j. j \<notin> set is \<longrightarrow> red' ! j = red ! j) \<and>
    (\<forall>j \<in> set is. red ! j \<le> red' ! j \<and> red' ! j \<le> limits ! j)"
  using assms
proof (induction "is" arbitrary: red e m)
  case Nil
  then show ?case by simp
next
  case (Cons i "is")
  define add where "add = min (min (limits ! i - red ! i) share) e"
  have add: "0 \<le> add" "add \<le> e" "red ! i + add \<le> limits ! i"
    using Cons.prems by (auto simp: add_def)
  have i: "i < length red" "i \<notin> set is" using Cons.prems by auto
  show ?case
  proof (cases "e - add \<le> 0")
    case True
    with Cons.prems(1) have "red' = red[i := red ! i + add]" "e' = e - add" "m' = m + add"
      by (auto simp: add_def Let_def)
    then show ?thesis using add i Cons.prems(5) by (auto simp: list_sum nth_list_update)
  next
    case False
    with Cons.prems(1) have rest: "rd_pass limits share is (red[i := red ! i + add]) (e - add) (m + add)
        = (red', e', m')"
      by (auto simp: add_def Let_def)
    have "\<forall>j \<in> set is. red[i := red ! i + add] ! j \<le> limits ! j"
      using Cons.prems(5) i by (auto simp: nth_list_update)
    note IH = Cons.IH [OF rest _ Cons.prems(3) _ this]
    have "length red' = length red \<and> 0 \<le> e' \<and> e' \<le> e - add \<and>
        sum_list red' + e' = sum_list (red[i := red ! i + add]) + (e - add) \<and>
        m' - (m + add) = e - add - e' \<and>
        (\<forall>j. j \<notin> set is \<longrightarrow> red' ! j = red[i := red ! i + add] ! j) \<and>
        (\<forall>j \<in> set is. red[i := red ! i + add] ! j \<le> red' ! j \<and> red' ! j \<le> limits ! j)"
      using IH Cons.prems(2,6) False by simp
    then show ?thesis using add i by (auto simp: list_sum nth_list_update split: if_splits)
  qed
qed

text \<open>A pass that leaves excess filled its first device or moved at least one watt.\<close>

lemma rd_pass_progress:
  assumes p: "rd_pass limits share (i # is) red e m = (red', e', m')"
    and "set (i # is) \<subseteq> {..<length red}" and "1 \<le> share" and "0 < e"
    and "\<forall>i \<in> set (i # is). red ! i \<le> limits ! i" and "distinct (i # is)" and "0 < e'"
  shows "red' ! i = limits ! i \<or> e' \<le> e - 1"
proof -
  define add where "add = min (min (limits ! i - red ! i) share) e"
  have "\<not> e - add \<le> 0" using p \<open>0 < e'\<close> by (auto simp: add_def Let_def split: if_splits)
  with p have "rd_pass limits share is (red[i := red ! i + add]) (e - add) (m + add) = (red', e', m')"
    by (auto simp: add_def Let_def)
  from rd_pass_step [OF this] have "red' ! i = red ! i + add" and "e' \<le> e - add"
    using assms \<open>\<not> e - add \<le> 0\<close> by (auto simp: nth_list_update add_def)
  moreover have "add = limits ! i - red ! i \<or> 1 \<le> add"
    using \<open>\<not> e - add \<le> 0\<close> \<open>1 \<le> share\<close> by (auto simp: add_def min_def split: if_splits)
  ultimately show ?thesis by auto
qed

lemma rd_candidates_props:
  "set (rd_candidates limits red) \<subseteq> {..<length red}" "distinct (rd_candidates limits red)"
  "\<forall>i \<in> set (rd_candidates limits red). red ! i \<le> limits ! i"
  by (auto simp: rd_candidates_def)

lemma rd_candidates_shrink:
  assumes "length red' = length red"
    and "\<And>j. j \<notin> set (rd_candidates limits red) \<Longrightarrow> red' ! j = red ! j"
  shows "length (rd_candidates limits red') \<le> length (rd_candidates limits red)"
    and "i \<in> set (rd_candidates limits red) \<Longrightarrow> red' ! i = limits ! i \<Longrightarrow>
      length (rd_candidates limits red') < length (rd_candidates limits red)"
proof -
  have sub: "set (rd_candidates limits red') \<subseteq> set (rd_candidates limits red)"
    using assms by (force simp: rd_candidates_def)
  have d: "distinct (rd_candidates limits red)" "distinct (rd_candidates limits red')"
    by (simp_all add: rd_candidates_def)
  show "length (rd_candidates limits red') \<le> length (rd_candidates limits red)"
    using card_mono [OF _ sub] d by (simp add: distinct_card)
  show "length (rd_candidates limits red') < length (rd_candidates limits red)"
    if "i \<in> set (rd_candidates limits red)" "red' ! i = limits ! i"
  proof -
    have "i \<notin> set (rd_candidates limits red')" using that(2) by (simp add: rd_candidates_def)
    then have "set (rd_candidates limits red') \<subset> set (rd_candidates limits red)" using sub that(1) by blast
    then have "card (set (rd_candidates limits red')) < card (set (rd_candidates limits red))"
      by (intro psubset_card_mono) auto
    then show ?thesis using d by (simp add: distinct_card)
  qed
qed

lemma nat_ceiling_less: "(0::rat) < e \<Longrightarrow> e' \<le> e - 1 \<Longrightarrow> nat \<lceil>e'\<rceil> < nat \<lceil>e\<rceil>"
  by (metis ceiling_diff_one ceiling_mono diff_ge_0_iff_ge less_le_not_le nat_mono_iff
      zero_less_ceiling le_less_trans zless_add1_eq diff_add_cancel)

lemma rd_round_decreases:
  assumes e: "0 < e" and c: "rd_candidates limits red = i # is"
    and p: "rd_pass limits share (i # is) red e 0 = (red', e', m')" and share: "1 \<le> share"
  shows "length (rd_candidates limits red') < length (rd_candidates limits red) \<or>
    length (rd_candidates limits red') = length (rd_candidates limits red) \<and> nat \<lceil>e'\<rceil> < nat \<lceil>e\<rceil>"
proof -
  note props = rd_candidates_props [of limits red, unfolded c]
  note s = rd_pass_step [OF p props(1) _ _ props(3) props(2)]
  have len: "length red' = length red" and keep: "\<And>j. j \<notin> set (i # is) \<Longrightarrow> red' ! j = red ! j"
    and e': "0 \<le> e'"
    using s e share by auto
  note shrink = rd_candidates_shrink [OF len, of limits, unfolded c, OF keep]
  show ?thesis
  proof (cases "e' \<le> 0")
    case True
    then have "nat \<lceil>e'\<rceil> < nat \<lceil>e\<rceil>" using e e' by simp
    then show ?thesis using shrink(1) c by auto
  next
    case False
    then have "red' ! i = limits ! i \<or> e' \<le> e - 1"
      using rd_pass_progress [OF p props(1) share e props(3) props(2)] by simp
    then show ?thesis
      using shrink(1) shrink(2) [of i] nat_ceiling_less [OF e] c by auto
  qed
qed

termination rd_loop
proof (relation "measures [\<lambda>(l, r, e). length (rd_candidates l r), \<lambda>(l, r, e). nat \<lceil>e\<rceil>]", goal_cases)
  case 1
  then show ?case by simp
next
  case (2 limits red e c share red' y e' m')
  then obtain i "is" where c: "rd_candidates limits red = i # is"
    by (cases "rd_candidates limits red") auto
  have "rd_pass limits share (i # is) red e 0 = (red', e', m')" using 2 c by simp
  from rd_round_decreases [OF _ c this] show ?case using 2 by auto
qed

declare rd_loop.simps [simp del]

lemma rd_pass_moves:
  assumes p: "rd_pass limits share (i # is) red e m = (red', e', m')"
    and "set (i # is) \<subseteq> {..<length red}" and "1 \<le> share" and "0 < e"
    and "\<forall>i \<in> set (i # is). red ! i \<le> limits ! i" and "distinct (i # is)" and "red ! i < limits ! i"
  shows "e' < e"
proof -
  define add where "add = min (min (limits ! i - red ! i) share) e"
  have add: "0 < add" using assms by (auto simp: add_def)
  show ?thesis
  proof (cases "e - add \<le> 0")
    case True
    with p add show ?thesis by (auto simp: add_def Let_def)
  next
    case False
    with p have "rd_pass limits share is (red[i := red ! i + add]) (e - add) (m + add) = (red', e', m')"
      by (auto simp: add_def Let_def)
    from rd_pass_step [OF this] have "e' \<le> e - add"
      using assms False by (auto simp: nth_list_update)
    with add show ?thesis by simp
  qed
qed

text \<open>
  The whole loop: power is conserved between the devices and the excess, no device passes its
  limit, and excess is left only when every device is full.
\<close>

lemma rd_loop_spec:
  assumes "rd_loop limits red e = (red', e')" and "0 \<le> e"
  shows "length red' = length red \<and> 0 \<le> e' \<and> sum_list red' + e' = sum_list red + e \<and>
    (\<forall>i < length red. red ! i \<le> red' ! i \<and> red' ! i \<le> max (red ! i) (limits ! i)) \<and>
    (0 < e' \<longrightarrow> (\<forall>i < length red. limits ! i \<le> red' ! i))"
  using assms
proof (induction limits red e rule: rd_loop.induct)
  case (1 limits red e)
  show ?case
  proof (cases "e \<le> 0 \<or> rd_candidates limits red = []")
    case True
    then have "red' = red" "e' = e" using "1.prems"(1) by (auto simp: rd_loop.simps [of limits red e] Let_def split: if_splits)
    moreover have "limits ! i \<le> red ! i" if "0 < e" "i < length red" for i
      using True that by (auto simp: rd_candidates_def filter_empty_conv not_less)
    ultimately show ?thesis using "1.prems"(2) by auto
  next
    case False
    then obtain i "is" where c: "rd_candidates limits red = i # is"
      by (cases "rd_candidates limits red") auto
    define share where "share = max 1 (rat_of_int (py_round (e / of_nat (length (i # is)))))"
    obtain r1 e1 m1 where p: "rd_pass limits share (i # is) red e 0 = (r1, e1, m1)"
      by (cases "rd_pass limits share (i # is) red e 0") auto
    have share: "1 \<le> share" and e: "0 < e" using False by (auto simp: share_def)
    note props = rd_candidates_props [of limits red, unfolded c]
    have i: "red ! i < limits ! i" using c by (auto simp: rd_candidates_def filter_eq_Cons_iff)
    note s = rd_pass_step [OF p props(1) _ _ props(3) props(2)]
    have s1: "length r1 = length red" "0 \<le> e1" "sum_list r1 + e1 = sum_list red + e" "m1 = e - e1"
      "\<forall>j. j \<notin> set (i # is) \<longrightarrow> r1 ! j = red ! j"
      "\<forall>j \<in> set (i # is). red ! j \<le> r1 ! j \<and> r1 ! j \<le> limits ! j"
      using s share e by auto
    have "e1 < e" by (rule rd_pass_moves [OF p props(1) share e props(3) props(2) i])
    then have loop: "rd_loop limits red e = rd_loop limits r1 e1"
      using e c p s1(4) by (subst rd_loop.simps) (simp add: Let_def share_def)
    have mono: "red ! j \<le> r1 ! j" "r1 ! j \<le> max (red ! j) (limits ! j)" for j
      using s1(5,6) by (cases "j \<in> set (i # is)"; fastforce)+
    have "length red' = length r1 \<and> 0 \<le> e' \<and> sum_list red' + e' = sum_list r1 + e1 \<and>
        (\<forall>i < length r1. r1 ! i \<le> red' ! i \<and> red' ! i \<le> max (r1 ! i) (limits ! i)) \<and>
        (0 < e' \<longrightarrow> (\<forall>i < length r1. limits ! i \<le> red' ! i))"
      using "1.IH" [of "i # is" share r1 "(e1, m1)" e1 m1]
        "1.prems" e c p s1 \<open>e1 < e\<close> loop by (auto simp: share_def)
    then have res: "length red' = length r1" "0 \<le> e'" "sum_list red' + e' = sum_list r1 + e1"
      "\<And>j. j < length r1 \<Longrightarrow> r1 ! j \<le> red' ! j \<and> red' ! j \<le> max (r1 ! j) (limits ! j)"
      "0 < e' \<Longrightarrow> \<forall>j < length r1. limits ! j \<le> red' ! j" by auto
    have "red ! j \<le> red' ! j \<and> red' ! j \<le> max (red ! j) (limits ! j)" if "j < length red" for j
      using res(4) [of j] mono [of j] that s1(1) by linarith
    then show ?thesis using s1(1,3) res by auto
  qed
qed

section \<open>The contract of an allocator\<close>

text \<open>
  The devices that can take anything, and the room they have together.
\<close>

definition candidates :: "rat list \<Rightarrow> rat list \<Rightarrow> nat list" where
  "candidates weights limits = filter (\<lambda>i. 0 < limits ! i \<and> 0 < weights ! i) [0..<length limits]"

definition room :: "rat list \<Rightarrow> rat list \<Rightarrow> rat" where
  "room weights limits = sum_list (map ((!) limits) (candidates weights limits))"

lemma room_eq:
  "room weights limits =
     sum_list (map (\<lambda>i. if 0 < limits ! i \<and> 0 < weights ! i then limits ! i else 0) [0..<length limits])"
  unfolding room_def candidates_def by (simp add: sum_list_map_filter' [symmetric])

lemma room_nonneg: "0 \<le> room weights limits"
  unfolding room_def candidates_def by (rule sum_list_nonneg) auto

text \<open>
  What a client of an allocator may rely on: one water level for all candidates, nothing for
  the others, and a sum that is the total unless the room runs out.
\<close>

locale limited_allocator =
  fixes alloc :: "rat \<Rightarrow> rat list \<Rightarrow> rat list \<Rightarrow> rat list"
  assumes length_alloc: "length ws = length ls \<Longrightarrow> length (alloc t ws ls) = length ws"
    and alloc_level: "length ws = length ls \<Longrightarrow>
      \<exists>l \<ge> 0. \<forall>i < length ws. alloc t ws ls ! i =
        (if 0 < ls ! i \<and> 0 < ws ! i then min (ls ! i) (l * ws ! i) else 0)"
    and sum_alloc: "length ws = length ls \<Longrightarrow> sum_list (alloc t ws ls) = min (max 0 t) (room ws ls)"
begin

lemma alloc_nonneg:
  assumes "length ws = length ls" and "i < length ws"
  shows "0 \<le> alloc t ws ls ! i"
  using alloc_level [OF assms(1), of t] assms(2) by auto

lemma alloc_le_limit:
  assumes "length ws = length ls" and "i < length ws"
  shows "alloc t ws ls ! i \<le> max 0 (ls ! i)"
  using alloc_level [OF assms(1), of t] assms(2) by auto

lemma alloc_no_weight:
  assumes "length ws = length ls" and "i < length ws" and "ws ! i \<le> 0 \<or> ls ! i \<le> 0"
  shows "alloc t ws ls ! i = 0"
proof -
  have "\<not> (0 < ls ! i \<and> 0 < ws ! i)" using assms(3) by auto
  then show ?thesis using alloc_level [OF assms(1), of t] assms(2) by metis
qed

lemma alloc_pos:
  assumes "length ws = length ls" and "i < length ws" and "0 < alloc t ws ls ! i"
  shows "0 < ws ! i" and "0 < ls ! i"
  using alloc_no_weight [OF assms(1,2), of t] assms(3) by force+

lemma alloc_fair:
  assumes "length ws = length ls" and "i < length ws" and "j < length ws"
    and "0 < ws ! i" and "0 < ws ! j"
    and "alloc t ws ls ! i < ls ! i" and "alloc t ws ls ! j < ls ! j"
  shows "alloc t ws ls ! i * ws ! j = alloc t ws ls ! j * ws ! i"
proof -
  obtain l where l: "\<forall>i < length ws. alloc t ws ls ! i =
      (if 0 < ls ! i \<and> 0 < ws ! i then min (ls ! i) (l * ws ! i) else 0)"
    using alloc_level [OF assms(1)] by blast
  have "0 < ls ! i" "0 < ls ! j"
    using assms alloc_nonneg [OF assms(1), of _ t] by (meson le_less_trans)+
  then have "alloc t ws ls ! i = l * ws ! i" "alloc t ws ls ! j = l * ws ! j"
    using l assms by (auto simp: min_def split: if_splits)
  then show ?thesis by simp
qed

lemma alloc_sum_le: "length ws = length ls \<Longrightarrow> sum_list (alloc t ws ls) \<le> max 0 t"
  by (simp add: sum_alloc)

lemma alloc_elem_nonneg: "length ws = length ls \<Longrightarrow> x \<in> set (alloc t ws ls) \<Longrightarrow> 0 \<le> x"
  using alloc_nonneg [of ws ls] by (auto simp: in_set_conv_nth length_alloc)

lemma alloc_sum_nonneg: "length ws = length ls \<Longrightarrow> 0 \<le> sum_list (alloc t ws ls)"
  by (rule sum_list_nonneg) (rule alloc_elem_nonneg)

text \<open>Serving one group first and another from the rest stays within the total.\<close>

lemma serve_first_sum_le:
  assumes "length ws = length ls" and "length vs = length ls" and "length ms = length ls"
  shows "sum_list (alloc t ws ls) + sum_list (alloc (max 0 (t - sum_list (alloc t ws ls))) vs ms)
    \<le> max 0 t"
  using alloc_sum_le [OF assms(1), of t] alloc_sum_le [of vs ms "max 0 (t - sum_list (alloc t ws ls))"]
    assms by (auto simp: max_def split: if_splits)

end

lemma wla_ok_init:
  assumes "length weights = length limits"
  shows "wla_ok weights limits (replicate (length weights) 0) (candidates weights limits)"
  using assms by (auto simp: wla_ok_def candidates_def)

lemma weighted_limited_allocation_candidates:
  "weighted_limited_allocation t weights limits =
     wla_loop weights limits (replicate (length weights) 0) (candidates weights limits) t"
  by (simp add: weighted_limited_allocation_def candidates_def)

lemma wla_loop_nothing: "active = [] \<or> r \<le> 0 \<Longrightarrow> wla_loop weights limits a active r = a"
  by (subst wla_loop.simps) simp

interpretation wla: limited_allocator weighted_limited_allocation
proof
  fix ws ls :: "rat list" and t :: rat
  assume len: "length ws = length ls"
  note ok = wla_ok_init [OF len] and eq = weighted_limited_allocation_candidates [of t ws ls]
  let ?res = "weighted_limited_allocation t ws ls" and ?c = "candidates ws ls"
  have "length ?res = length ws \<and> (\<exists>l \<ge> 0. \<forall>i < length ws. ?res ! i =
      (if 0 < ls ! i \<and> 0 < ws ! i then min (ls ! i) (l * ws ! i) else 0))"
  proof (cases "?c = [] \<or> t \<le> 0")
    case True
    then have "?res = replicate (length ws) 0" by (simp add: eq wla_loop_nothing)
    then show ?thesis by (auto intro!: exI [of _ 0])
  next
    case False
    obtain l where l: "t / sum_list (map ((!) ws) ?c) \<le> l" and "length ?res = length ws"
      and nth: "\<And>i. ?res ! i = (if i \<in> set ?c then min (ls ! i) (l * ws ! i)
        else replicate (length ws) 0 ! i)"
      using wla_level [OF ok, of t] False unfolding eq by auto
    moreover have "0 \<le> t / sum_list (map ((!) ws) ?c)"
      using wla_weight_total_pos [OF ok] False by auto
    ultimately show ?thesis
      using len by (intro conjI exI [of _ l]) (auto simp: candidates_def)
  qed
  then show "length ?res = length ws"
    and "\<exists>l \<ge> 0. \<forall>i < length ws. ?res ! i =
      (if 0 < ls ! i \<and> 0 < ws ! i then min (ls ! i) (l * ws ! i) else 0)" by blast+
  show "sum_list ?res = min (max 0 t) (room ws ls)"
  proof (cases "t \<le> 0")
    case True
    then show ?thesis using room_nonneg [of ws ls] by (simp add: eq wla_loop_nothing min_absorb1 sum_list_replicate)
  next
    case False
    then show ?thesis using wla_sum [OF ok, of t] by (simp add: eq room_def sum_list_replicate)
  qed
qed


text \<open>
  C8. \<open>weighted_limited_allocation\<close> is the water level split: there is one level \<open>l\<close> such
  that every device with a positive weight and limit gets \<open>min limit (l * weight)\<close>, every other
  device gets nothing, and the sum is the requested total whenever the devices have that much
  room, else all the room they have.
\<close>

theorem weighted_limited_allocation_water_level:
  assumes "length weights = length limits"
  shows "\<exists>l \<ge> 0.
    weighted_limited_allocation t weights limits =
      map (\<lambda>(w, m). if 0 < m \<and> 0 < w then min m (l * w) else 0) (zip weights limits) \<and>
    sum_list (weighted_limited_allocation t weights limits) =
      min (max 0 t) (sum_list (map (\<lambda>(w, m). if 0 < m \<and> 0 < w then m else 0) (zip weights limits)))"
proof -
  have "room weights limits =
      sum_list (map (\<lambda>i. if 0 < limits ! i \<and> 0 < weights ! i then limits ! i else 0) [0..<length limits])"
    by (rule room_eq)
  also have "map (\<lambda>i. if 0 < limits ! i \<and> 0 < weights ! i then limits ! i else 0) [0..<length limits] =
      map (\<lambda>(w, m). if 0 < m \<and> 0 < w then m else 0) (zip weights limits)"
    using assms by (intro nth_equalityI) auto
  finally have room: "room weights limits =
      sum_list (map (\<lambda>(w, m). if 0 < m \<and> 0 < w then m else 0) (zip weights limits))" .
  obtain l where "0 \<le> l" and "\<forall>i < length weights. weighted_limited_allocation t weights limits ! i =
      (if 0 < limits ! i \<and> 0 < weights ! i then min (limits ! i) (l * weights ! i) else 0)"
    using wla.alloc_level [OF assms] by blast
  then show ?thesis
    using assms wla.sum_alloc [OF assms, of t] wla.length_alloc [OF assms, of t] room
    by (intro exI [of _ l]) (auto intro!: nth_equalityI)
qed

theorem weighted_limited_allocation_water_level_witness:
  "weighted_limited_allocation 900 [1, 2, 1] [800, 300, 0] = [600, 300, 0] \<and>
   (\<exists>l \<ge> 0. weighted_limited_allocation 900 [1, 2, 1] [800, 300, 0] =
      map (\<lambda>(w, m). if 0 < m \<and> 0 < w then min m (l * w) else 0) (zip [1, 2, 1] [800, 300, 0]))"
proof -
  have "length [1, 2, 1 :: rat] = length [800, 300, 0 :: rat]" by simp
  moreover have "weighted_limited_allocation 900 [1, 2, 1] [800, 300, 0] = [600, 300, 0]"
    by (simp add: weighted_limited_allocation_def wla_loop.simps numeral_2_eq_2 upt_rec)
  ultimately show ?thesis
    using weighted_limited_allocation_water_level [of "[1, 2, 1]" "[800, 300, 0]" 900] by blast
qed

end
