(* ===== verification/Target_Control.thy ===== *)
theory Target_Control
  imports Power_Direction Allocation
begin

text \<open>
  \<open>ems/target_control.py\<close>: from the device reports and the total the regulator wants to the
  watt target of every inverter.

  \<open>control_config\<close> holds the module-level settings of \<open>ems.config\<close> the file reads,
  \<open>device_config\<close> the attributes it reads of a configured device. The optional arguments of
  the Python functions (\<open>device_configs\<close>, \<open>capabilities\<close>, \<open>commandable\<close>,
  \<open>target_limits\<close>) are optional lists, read with \<open>arg_at\<close>, one entry per device.
  \<open>calculate_targets\<close> is split at the comments of the source: \<open>requested_new_total\<close> (the
  clamped total), \<open>pv_first_targets\<close> (case 1), \<open>battery_discharge_targets\<close> (case 2) and the
  final \<open>apply_constraints_and_redistribute\<close>. The diagnostic explanation and the log lines do
  not feed back into the targets and are left out.

  Proved: every target lies between 0 and the device's ceiling and a device that cannot export
  gets 0; with PV covering the request no device is asked for more than its own PV; the targets
  never exceed the request by more than rounding; redistribution conserves power.
\<close>

section \<open>Configuration\<close>

record control_config =
  MAX_DEVICE_POWER :: watts
  BATTERY_KWH_WEIGHTING :: bool
  PV_KWP_WEIGHTING :: bool
  PV_CHARGE_BALANCE_ENABLED :: bool
  PV_CHARGE_BALANCE_DEADBAND_PERCENT :: percent
  PV_CHARGE_BALANCE_FULL_BIAS_PERCENT :: percent
  PV_CHARGE_BALANCE_STRENGTH :: rat
  REDISTRIBUTE_CLAMPED_POWER :: bool

record device_config =
  dev_name :: string
  dev_max_power :: watts
  dev_pv_kwp :: rat
  dev_pv_priority_factor :: rat
  dev_battery_kwh :: rat
  dev_max_charge_power_w :: int

section \<open>Reading a report\<close>

definition pv_power :: "device_state \<Rightarrow> watts" where
  "pv_power s =
     max (solar s) (sum_list (map (\<lambda>v. max 0 v) [solar1 s, solar2 s, solar3 s, solar4 s]))"

definition detect_capabilities :: "device_state \<Rightarrow> device_capabilities" where
  "detect_capabilities s =
     (let fault_observed = 0 < fault_level s;
          pv_evidence = 0 < solar s;
          output_evidence = 0 < output_w s;
          output_limit_evidence = 0 < output_limit s;
          ac_evidence = ac_status s \<noteq> 0;
          discharge_evidence = (dc_status s \<noteq> 0 \<or> 0 < pack_in s \<or> output_evidence);
          export_evidence =
            (pv_evidence \<or> output_evidence \<or> output_limit_evidence \<or> ac_evidence);
          paths_inactive = (dc_status s = 0 \<and> ac_status s = 0);
          charge = soc_limit s \<noteq> 1;
          discharge = (soc_limit s \<noteq> 2 \<and> discharge_evidence);
          export = (export_evidence \<or> (soc_limit s \<noteq> 2 \<and> \<not> paths_inactive));
          ac_charge = (ac_status s = 2 \<and> charge);
          reasons =
            (if soc_limit s = 1 then [''charge_inhibit''] else []) @
            (if soc_limit s = 2 then [''discharge_inhibit''] else []) @
            (if dc_status s = 0 then [''dc_inactive''] else []) @
            (if ac_status s = 0 then [''ac_inactive''] else []) @
            (if pack_state s = 0 then [''pack_standby''] else []) @
            (if fault_observed then [''fault_observed''] else []) @
            (if pv_evidence then [''pv_evidence''] else []) @
            (if output_evidence then [''output_evidence''] else []) @
            (if output_limit_evidence then [''output_limit_evidence''] else []) @
            (if ac_evidence then [''ac_evidence''] else [])
      in \<lparr>can_charge = charge, can_discharge = discharge, can_export = export,
           can_ac_charge = ac_charge,
           reason = (if reasons \<noteq> [] then py_join '','' reasons else ''normal''),
           export_held = False\<rparr>)"

datatype soc_runtime = SOC_FULL | SOC_EMPTY | SOC_NORMAL

definition derive_soc_runtime_state :: "device_state \<Rightarrow> soc_runtime" where
  "derive_soc_runtime_state s =
     (if soc_limit s = 1 \<or> (0 < max_soc s \<and> max_soc s \<le> soc s) then SOC_FULL
      else if soc_limit s = 2 \<or> soc s \<le> min_soc s then SOC_EMPTY
      else SOC_NORMAL)"

definition firmware_recovery_or_ac_charge_active :: "device_state \<Rightarrow> bool" where
  "firmware_recovery_or_ac_charge_active s \<longleftrightarrow>
     ac_status s = 2 \<or> soc_limit s = 2 \<or> (0 < min_soc s \<and> soc s \<le> min_soc s) \<or> 0 < pack_out s"

section \<open>Weights and ceilings of a device\<close>

definition get_device_max_power :: "control_config \<Rightarrow> device_config option \<Rightarrow> watts" where
  "get_device_max_power cfg dc =
     (case dc of None \<Rightarrow> MAX_DEVICE_POWER cfg | Some d \<Rightarrow> dev_max_power d)"

definition get_device_pv_kwp :: "device_config option \<Rightarrow> rat" where
  "get_device_pv_kwp dc = (case dc of None \<Rightarrow> 1 | Some d \<Rightarrow> max (1 / 100) (dev_pv_kwp d))"

definition get_device_pv_priority_factor :: "device_config option \<Rightarrow> rat" where
  "get_device_pv_priority_factor dc =
     (case dc of None \<Rightarrow> 1 | Some d \<Rightarrow> max (1 / 100) (dev_pv_priority_factor d))"

definition get_device_battery_kwh :: "device_config option \<Rightarrow> rat" where
  "get_device_battery_kwh dc =
     (case dc of None \<Rightarrow> 1 | Some d \<Rightarrow> max (1 / 100) (dev_battery_kwh d))"

text \<open>\<open>cap and not cap.flag\<close>, for an optional capability.\<close>

definition denies :: "(device_capabilities \<Rightarrow> bool) \<Rightarrow> device_capabilities option \<Rightarrow> bool" where
  "denies flag cap = (case cap of None \<Rightarrow> False | Some c \<Rightarrow> \<not> flag c)"

definition usable_battery_weight ::
  "control_config \<Rightarrow> device_state \<Rightarrow> device_config option \<Rightarrow> device_capabilities option \<Rightarrow> rat" where
  "usable_battery_weight cfg s dc cap =
     (if denies can_discharge cap then 0
      else if battery_presence s = BATTERY_ABSENT then 0
      else if max_soc s \<le> 0 then 0
      else
        let usable_percent = max 0 (soc s - min_soc s)
        in if \<not> BATTERY_KWH_WEIGHTING cfg then usable_percent
           else max 0 (get_device_battery_kwh dc * usable_percent / 100))"

definition pv_first_weight :: "control_config \<Rightarrow> watts \<Rightarrow> device_config option \<Rightarrow> rat" where
  "pv_first_weight cfg pv_only dc =
     (if pv_only \<le> 0 then 0
      else if \<not> PV_KWP_WEIGHTING cfg then pv_only
      else pv_only * get_device_pv_kwp dc * get_device_pv_priority_factor dc)"

definition is_full_soc_device :: "device_state \<Rightarrow> bool" where
  "is_full_soc_device s \<longleftrightarrow>
     soc_limit s = 1 \<or> (0 < max_soc s \<and> max_soc s \<le> soc s) \<or>
     derive_soc_runtime_state s = SOC_FULL"

definition uncommanded_delivery_ceiling :: "device_state \<Rightarrow> watts" where
  "uncommanded_delivery_ceiling s =
     max 0 (if 0 < output_limit s then output_limit s else output_w s)"

definition cannot_absorb_pv :: "device_state \<Rightarrow> bool" where
  "cannot_absorb_pv s \<longleftrightarrow> battery_presence s = BATTERY_ABSENT \<or> is_full_soc_device s"

record balance_context =
  bc_min_soc :: percent
  bc_max_soc :: percent
  soc_gap :: percent
  balance_factor :: rat
  balance_strength :: rat

definition pv_charge_balance_context ::
  "control_config \<Rightarrow> device_state list \<Rightarrow> balance_context" where
  "pv_charge_balance_context cfg states =
     (let soc_values = map soc
            (filter (\<lambda>s. 0 < max_soc s \<and> battery_presence s \<noteq> BATTERY_ABSENT) states)
      in if soc_values = []
         then \<lparr>bc_min_soc = 0, bc_max_soc = 0, soc_gap = 0,
               balance_factor = 0, balance_strength = 0\<rparr>
         else
           let lowest = Min (set soc_values);
               highest = Max (set soc_values);
               gap = highest - lowest;
               deadband = max 0 (PV_CHARGE_BALANCE_DEADBAND_PERCENT cfg);
               full_bias = max 0 (PV_CHARGE_BALANCE_FULL_BIAS_PERCENT cfg);
               factor =
                 (if \<not> PV_CHARGE_BALANCE_ENABLED cfg \<or> gap \<le> deadband then 0
                  else min 1 ((gap - deadband) / max 1 (full_bias - deadband)));
               configured_strength = min 1 (max 0 (PV_CHARGE_BALANCE_STRENGTH cfg))
           in \<lparr>bc_min_soc = lowest, bc_max_soc = highest, soc_gap = gap,
               balance_factor = factor, balance_strength = factor * configured_strength\<rparr>)"

definition pv_charge_balance_multiplier ::
  "device_state \<Rightarrow> watts \<Rightarrow> balance_context \<Rightarrow> rat" where
  "pv_charge_balance_multiplier s pv_only ctx =
     (let strength = balance_strength ctx
      in if pv_only \<le> 0 \<or> strength \<le> 0 \<or> max_soc s \<le> 0 \<or> soc_gap ctx \<le> 0 \<or>
            battery_presence s = BATTERY_ABSENT
         then 1
         else
           let position = min 1 (max 0 ((soc s - bc_min_soc ctx) / max 1 (soc_gap ctx)))
           in max 0 (1 + strength * (2 * position - 1)))"


section \<open>Allocation\<close>

text \<open>\<open>commandable is not None and not commandable[i]\<close>.\<close>

definition uncommandable :: "bool list option \<Rightarrow> nat \<Rightarrow> bool" where
  "uncommandable commandable i = (case commandable of None \<Rightarrow> False | Some cs \<Rightarrow> \<not> cs ! i)"

definition full_candidate ::
  "device_state list \<Rightarrow> watts list \<Rightarrow> device_capabilities list option \<Rightarrow> nat \<Rightarrow> bool" where
  "full_candidate states pv_only_limits capabilities i \<longleftrightarrow>
     \<not> denies can_export (arg_at capabilities i) \<and> cannot_absorb_pv (states ! i) \<and>
     0 < pv_only_limits ! i"

definition full_claim_limit ::
  "control_config \<Rightarrow> device_state list \<Rightarrow> watts list \<Rightarrow> device_config list option \<Rightarrow>
   bool list option \<Rightarrow> nat \<Rightarrow> watts" where
  "full_claim_limit cfg states pv_only_limits device_configs commandable i =
     (let claim = min (pv_only_limits ! i) (get_device_max_power cfg (arg_at device_configs i))
      in if uncommandable commandable i
         then min claim (uncommanded_delivery_ceiling (states ! i))
         else claim)"

definition allocate_full_soc_pv_first ::
  "control_config \<Rightarrow> watts \<Rightarrow> device_state list \<Rightarrow> rat list \<Rightarrow> watts list \<Rightarrow>
   device_config list option \<Rightarrow> device_capabilities list option \<Rightarrow> bool list option \<Rightarrow>
   (watts list \<times> nat list) option" where
  "allocate_full_soc_pv_first cfg requested_total states pv_weights pv_only_limits
       device_configs capabilities commandable =
     (let idx = [0..<length states];
          full = full_candidate states pv_only_limits capabilities;
          full_limits = map (\<lambda>i. if full i
            then full_claim_limit cfg states pv_only_limits device_configs commandable i else 0) idx;
          full_weights = map (\<lambda>i. if full i then pv_weights ! i else 0) idx;
          normal_limits = map (\<lambda>i. if full i then 0 else pv_only_limits ! i) idx;
          normal_weights = map (\<lambda>i. if full i then 0 else pv_weights ! i) idx;
          full_indices = filter full idx
      in if full_indices = [] then None
         else
           let full_targets = weighted_limited_allocation requested_total full_weights full_limits;
               remaining = max 0 (requested_total - sum_list full_targets);
               normal_targets = weighted_limited_allocation remaining normal_weights normal_limits
           in Some (map2 (+) full_targets normal_targets, full_indices))"

text \<open>Headroom and weight of one device in the top-up; \<open>(0, 0)\<close> where the source skips it.\<close>

definition topup_share ::
  "control_config \<Rightarrow> device_state list \<Rightarrow> device_config list option \<Rightarrow>
   device_capabilities list option \<Rightarrow> bool list option \<Rightarrow> watts list \<Rightarrow> nat \<Rightarrow> rat \<times> watts" where
  "topup_share cfg states device_configs capabilities commandable targets i =
     (let s = states ! i;
          dc = arg_at device_configs i;
          cap = arg_at capabilities i;
          free = max 0 (get_device_max_power cfg dc - targets ! i);
          headroom =
            (if uncommandable commandable i
             then max 0 (min free (uncommanded_delivery_ceiling s - targets ! i))
             else free)
      in if denies can_export cap then (0, 0)
         else if denies can_discharge cap then (0, 0)
         else if soc s \<le> min_soc s then (0, 0)
         else if headroom \<le> 0 then (0, 0)
         else (usable_battery_weight cfg s dc cap, headroom))"

definition deliverable_targets ::
  "control_config \<Rightarrow> watts list \<Rightarrow> device_config list option \<Rightarrow>
   device_capabilities list option \<Rightarrow> watts list" where
  "deliverable_targets cfg targets device_configs capabilities =
     map (\<lambda>i. let max_power =
                  (if denies can_export (arg_at capabilities i) then 0
                   else get_device_max_power cfg (arg_at device_configs i))
              in max 0 (min max_power (targets ! i)))
       [0..<length targets]"

definition apply_battery_topup_after_pv_first ::
  "control_config \<Rightarrow> watts list \<Rightarrow> device_state list \<Rightarrow> device_config list option \<Rightarrow>
   device_capabilities list option \<Rightarrow> watts \<Rightarrow> bool list option \<Rightarrow> watts list \<times> bool" where
  "apply_battery_topup_after_pv_first cfg targets states device_configs capabilities
       requested_total commandable =
     (let targets = deliverable_targets cfg targets device_configs capabilities;
          missing = max 0 (requested_total - sum_list targets)
      in if missing \<le> 0 then (targets, False)
         else
           let shares = map (topup_share cfg states device_configs capabilities commandable targets)
                          [0..<length states];
               topup = weighted_limited_allocation missing (map fst shares) (map snd shares);
               topup_total = sum_list topup
           in (if 0 < topup_total then map2 (+) targets topup else targets, 0 < topup_total))"

definition constraint_limits ::
  "control_config \<Rightarrow> nat \<Rightarrow> device_config list option \<Rightarrow> device_capabilities list option \<Rightarrow>
   watts list option \<Rightarrow> watts list" where
  "constraint_limits cfg device_count device_configs capabilities target_limits =
     map (\<lambda>i. let limit = (if denies can_export (arg_at capabilities i) then 0
                           else get_device_max_power cfg (arg_at device_configs i))
              in case arg_at target_limits i of
                   None \<Rightarrow> limit
                 | Some t \<Rightarrow> min limit (max 0 t))
       [0..<device_count]"

definition clamp_targets :: "watts list \<Rightarrow> watts list \<Rightarrow> watts list \<times> watts" where
  "clamp_targets targets limits =
     (let clamped = map2 (\<lambda>t m. max 0 (min m (of_int (py_round t)))) targets limits
      in (clamped, sum_list (map2 (\<lambda>t v. max 0 (of_int (py_round t) - v)) targets clamped)))"

definition apply_constraints_and_redistribute ::
  "control_config \<Rightarrow> watts list \<Rightarrow> device_config list option \<Rightarrow>
   device_capabilities list option \<Rightarrow> watts list option \<Rightarrow> watts list \<times> watts" where
  "apply_constraints_and_redistribute cfg targets device_configs capabilities target_limits =
     (let limits = constraint_limits cfg (length targets) device_configs capabilities target_limits
      in case clamp_targets targets limits of
           (clamped, excess) \<Rightarrow>
             if \<not> REDISTRIBUTE_CLAMPED_POWER cfg \<or> excess \<le> 0 then (clamped, excess)
             else rd_loop limits clamped excess)"

definition apply_min_output_limit :: "watts \<Rightarrow> watts \<Rightarrow> watts" where
  "apply_min_output_limit target min_output_limit =
     (if min_output_limit \<le> 0 then target else max target min_output_limit)"

section \<open>The target calculation\<close>

definition requested_new_total :: "watts \<Rightarrow> watts \<Rightarrow> watts \<Rightarrow> watts option \<Rightarrow> watts" where
  "requested_new_total current_total load max_power requested_total =
     (case requested_total of
        None \<Rightarrow> max 0 (min max_power (current_total + load))
      | Some r \<Rightarrow> max 0 (min max_power r))"

definition pv_only_limit ::
  "device_state list \<Rightarrow> device_capabilities list option \<Rightarrow> nat \<Rightarrow> watts" where
  "pv_only_limit devices capabilities i =
     (if denies can_export (arg_at capabilities i) then 0
      else max 0 (solar (devices ! i) - pack_in (devices ! i)))"

definition pv_weight ::
  "control_config \<Rightarrow> device_state list \<Rightarrow> device_config list option \<Rightarrow>
   device_capabilities list option \<Rightarrow> nat \<Rightarrow> rat" where
  "pv_weight cfg devices device_configs capabilities i =
     (let pv_only = pv_only_limit devices capabilities i
      in pv_first_weight cfg pv_only (arg_at device_configs i) *
         pv_charge_balance_multiplier (devices ! i) pv_only (pv_charge_balance_context cfg devices))"

text \<open>Case 1, enough solar: the raw targets, and the PV-only limits where they stay binding.\<close>

definition pv_first_targets ::
  "control_config \<Rightarrow> device_state list \<Rightarrow> device_config list option \<Rightarrow>
   device_capabilities list option \<Rightarrow> bool list option \<Rightarrow> watts \<Rightarrow>
   watts list \<times> watts list option" where
  "pv_first_targets cfg devices device_configs capabilities commandable new_total =
     (let idx = [0..<length devices];
          pv_only_limits = map (pv_only_limit devices capabilities) idx;
          pv_weights = map (pv_weight cfg devices device_configs capabilities) idx;
          pv_only_total = sum_list pv_only_limits
      in if 0 < pv_only_total
         then
           let targets =
                 (case allocate_full_soc_pv_first cfg new_total devices pv_weights pv_only_limits
                         device_configs capabilities commandable of
                    Some (ts, full_soc_indices) \<Rightarrow> ts
                  | None \<Rightarrow> weighted_limited_allocation new_total pv_weights pv_only_limits)
           in case apply_battery_topup_after_pv_first cfg targets devices device_configs
                     capabilities new_total commandable of
                (targets', battery_topup_used) \<Rightarrow>
                  (targets',
                   if new_total \<le> pv_only_total \<and> \<not> battery_topup_used
                   then Some pv_only_limits else None)
         else if 0 < new_total
         then
           (fst (apply_battery_topup_after_pv_first cfg (replicate (length devices) 0) devices
                   device_configs capabilities new_total commandable), None)
         else (replicate (length devices) 0, None))"

text \<open>Case 2, battery discharge required.\<close>

definition exportable_solar :: "device_state list \<Rightarrow> device_capabilities list option \<Rightarrow> nat \<Rightarrow> watts" where
  "exportable_solar devices capabilities i =
     (if denies can_export (arg_at capabilities i) then 0 else solar (devices ! i))"

definition battery_discharge_targets ::
  "control_config \<Rightarrow> device_state list \<Rightarrow> device_config list option \<Rightarrow>
   device_capabilities list option \<Rightarrow> watts \<Rightarrow> watts list" where
  "battery_discharge_targets cfg devices device_configs capabilities new_total =
     (let idx = [0..<length devices];
          targets = map (exportable_solar devices capabilities) idx;
          remaining = max 0 (new_total - sum_list targets);
          weights = map (\<lambda>i. if max_soc (devices ! i) \<le> 0 then 0
            else usable_battery_weight cfg (devices ! i) (arg_at device_configs i)
                   (arg_at capabilities i)) idx;
          weight_total = sum_list weights
      in if 0 < weight_total
         then map2 (\<lambda>t w. t + remaining * (w / weight_total)) targets weights
         else targets)"

definition calculate_targets ::
  "control_config \<Rightarrow> watts \<Rightarrow> device_state list \<Rightarrow> watts \<Rightarrow> device_config list option \<Rightarrow>
   device_capabilities list option \<Rightarrow> watts option \<Rightarrow> bool list option \<Rightarrow>
   watts list \<times> watts \<times> watts" where
  "calculate_targets cfg load devices max_power device_configs capabilities requested_total
       commandable =
     (if devices = [] then ([], 0, 0)
      else
        let current_total = sum_list (map output_w devices);
            solar_total = sum_list (map solar devices);
            new_total = requested_new_total current_total load max_power requested_total
        in case (if new_total \<le> solar_total
                 then pv_first_targets cfg devices device_configs capabilities commandable new_total
                 else (battery_discharge_targets cfg devices device_configs capabilities new_total,
                       None)) of
             (raw_targets, final_target_limits) \<Rightarrow>
               (fst (apply_constraints_and_redistribute cfg raw_targets device_configs capabilities
                       final_target_limits),
                current_total, new_total))"


section \<open>Laws of the final constraints\<close>

lemma map2_nth [simp]:
  "length xs = length ys \<Longrightarrow> i < length xs \<Longrightarrow> map2 f xs ys ! i = f (xs ! i) (ys ! i)"
  by simp

lemma sum_list_map2_add [list_sum]:
  "length xs = length ys \<Longrightarrow> sum_list (map2 (+) xs ys) = sum_list xs + (sum_list ys :: rat)"
  by (induction xs ys rule: list_induct2) auto

lemma length_constraint_limits [simp]:
  "length (constraint_limits cfg n dcs caps tls) = n"
  by (simp add: constraint_limits_def)

definition device_ceiling ::
  "control_config \<Rightarrow> device_config list option \<Rightarrow> device_capabilities list option \<Rightarrow> nat \<Rightarrow> watts" where
  "device_ceiling cfg dcs caps i =
     (if denies can_export (arg_at caps i) then 0 else get_device_max_power cfg (arg_at dcs i))"

lemma constraint_limits_le_ceiling:
  "i < n \<Longrightarrow> constraint_limits cfg n dcs caps tls ! i \<le> device_ceiling cfg dcs caps i"
  by (simp add: constraint_limits_def device_ceiling_def Let_def split: option.split)

lemma constraint_limits_le_target_limit:
  "i < n \<Longrightarrow> ls \<noteq> [] \<Longrightarrow> constraint_limits cfg n dcs caps (Some ls) ! i \<le> max 0 (ls ! i)"
  by (simp add: constraint_limits_def arg_at_def Let_def)

lemma clamp_targets_spec:
  assumes "clamp_targets ts limits = (clamped, excess)" and "length ts = length limits"
  shows "length clamped = length ts" and "0 \<le> excess"
    and "sum_list clamped + excess = sum_list (map (\<lambda>t. max 0 (of_int (py_round t))) ts)"
    and "i < length ts \<Longrightarrow> 0 \<le> clamped ! i \<and> clamped ! i \<le> max 0 (limits ! i)"
proof -
  have c: "clamped = map2 (\<lambda>t m. max 0 (min m (of_int (py_round t)))) ts limits"
    and e: "excess = sum_list (map2 (\<lambda>t v. max 0 (of_int (py_round t) - v)) ts clamped)"
    using assms(1) by (auto simp: clamp_targets_def Let_def)
  show len: "length clamped = length ts" using assms(2) by (simp add: c)
  show "0 \<le> excess" unfolding e by (rule sum_list_nonneg) auto
  show "i < length ts \<Longrightarrow> 0 \<le> clamped ! i \<and> clamped ! i \<le> max 0 (limits ! i)"
    using assms(2) by (simp add: c)
  have "sum_list clamped + excess =
      sum_list (map2 (+) clamped (map2 (\<lambda>t v. max 0 (of_int (py_round t) - v)) ts clamped))"
    using len by (subst sum_list_map2_add) (auto simp: e)
  also have "map2 (+) clamped (map2 (\<lambda>t v. max 0 (of_int (py_round t) - v)) ts clamped) =
      map (\<lambda>t. max 0 (of_int (py_round t))) ts"
    using assms(2) len by (intro nth_equalityI) (auto simp: c)
  finally show "sum_list clamped + excess = sum_list (map (\<lambda>t. max 0 (of_int (py_round t))) ts)" .
qed

lemma apply_constraints_spec:
  assumes "apply_constraints_and_redistribute cfg ts dcs caps tls = (res, undistributed)"
  defines "limits \<equiv> constraint_limits cfg (length ts) dcs caps tls"
  shows "length res = length ts" and "0 \<le> undistributed"
    and "sum_list res + undistributed = sum_list (map (\<lambda>t. max 0 (of_int (py_round t))) ts)"
    and "i < length ts \<Longrightarrow> 0 \<le> res ! i \<and> res ! i \<le> max 0 (limits ! i)"
    and "REDISTRIBUTE_CLAMPED_POWER cfg \<Longrightarrow> 0 < undistributed \<Longrightarrow> i < length ts \<Longrightarrow>
      max 0 (limits ! i) = res ! i"
proof -
  obtain clamped excess where ce: "clamp_targets ts limits = (clamped, excess)"
    by (cases "clamp_targets ts limits") auto
  note c = clamp_targets_spec [OF ce]
  have len: "length ts = length limits" by (simp add: limits_def)
  have res: "(res, undistributed) =
      (if \<not> REDISTRIBUTE_CLAMPED_POWER cfg \<or> excess \<le> 0 then (clamped, excess)
       else rd_loop limits clamped excess)"
    using assms(1) ce
    by (auto simp: apply_constraints_and_redistribute_def Let_def limits_def split: if_splits)
  have "length res = length ts \<and> 0 \<le> undistributed \<and>
      sum_list res + undistributed = sum_list clamped + excess \<and>
      (\<forall>i < length ts. 0 \<le> res ! i \<and> res ! i \<le> max 0 (limits ! i)) \<and>
      (REDISTRIBUTE_CLAMPED_POWER cfg \<and> 0 < undistributed \<longrightarrow>
         (\<forall>i < length ts. max 0 (limits ! i) \<le> res ! i))"
  proof (cases "\<not> REDISTRIBUTE_CLAMPED_POWER cfg \<or> excess \<le> 0")
    case True
    then show ?thesis using res c(1,2,4) len by auto
  next
    case False
    then have loop: "rd_loop limits clamped excess = (res, undistributed)" and "0 \<le> excess"
      using res by auto
    note r = rd_loop_spec [OF this]
    have bnd: "clamped ! j \<le> res ! j \<and> res ! j \<le> max (clamped ! j) (limits ! j)"
      "0 \<le> clamped ! j" "clamped ! j \<le> max 0 (limits ! j)" if "j < length ts" for j
      using r c(1) [OF len] c(4) [OF len, of j] that by auto
    then have "0 \<le> res ! j \<and> res ! j \<le> max 0 (limits ! j)" if "j < length ts" for j
      using that by (meson max.bounded_iff max.cobounded2 order_trans)
    then show ?thesis using r c(1) [OF len] bnd by auto
  qed
  then show "length res = length ts" and "0 \<le> undistributed"
    and "sum_list res + undistributed = sum_list (map (\<lambda>t. max 0 (of_int (py_round t))) ts)"
    and "i < length ts \<Longrightarrow> 0 \<le> res ! i \<and> res ! i \<le> max 0 (limits ! i)"
    and "REDISTRIBUTE_CLAMPED_POWER cfg \<Longrightarrow> 0 < undistributed \<Longrightarrow> i < length ts \<Longrightarrow>
      max 0 (limits ! i) = res ! i"
    using c(3) [OF len] by (auto intro: antisym)
qed


section \<open>Laws of the raw targets\<close>

lemma usable_battery_weight_nonneg: "0 \<le> usable_battery_weight cfg s dc cap"
  by (simp add: usable_battery_weight_def Let_def)

lemma pv_only_limit_nonneg [simp]: "0 \<le> pv_only_limit devices caps i"
  by (simp add: pv_only_limit_def)

text \<open>Both stages of the full-SoC priority, as one list with its bounds.\<close>

lemma allocate_full_soc_spec:
  assumes "allocate_full_soc_pv_first cfg t states ws ls dcs caps commandable = Some (ts, full)"
    and "length ws = length states" and "length ls = length states"
    and "\<And>i. i < length states \<Longrightarrow> 0 \<le> ls ! i" and "0 \<le> t"
  shows "length ts = length states" and "sum_list ts \<le> t"
    and "i < length states \<Longrightarrow> 0 \<le> ts ! i \<and> ts ! i \<le> ls ! i"
proof -
  let ?idx = "[0..<length states]" and ?full = "full_candidate states ls caps"
  let ?fl = "map (\<lambda>i. if ?full i then full_claim_limit cfg states ls dcs commandable i else 0) ?idx"
  let ?fw = "map (\<lambda>i. if ?full i then ws ! i else 0) ?idx"
  let ?nl = "map (\<lambda>i. if ?full i then 0 else ls ! i) ?idx"
  let ?nw = "map (\<lambda>i. if ?full i then 0 else ws ! i) ?idx"
  let ?f = "weighted_limited_allocation t ?fw ?fl"
  let ?n = "weighted_limited_allocation (max 0 (t - sum_list ?f)) ?nw ?nl"
  have ts: "ts = map2 (+) ?f ?n"
    using assms(1) by (auto simp: allocate_full_soc_pv_first_def Let_def split: if_splits)
  have len: "length ?f = length states" "length ?n = length states"
    by (simp_all add: wla.length_alloc)
  show "length ts = length states" by (simp add: ts len)
  show "sum_list ts \<le> t"
    using wla.serve_first_sum_le [of ?fw ?fl ?nw ?nl t] assms(5) len
    by (simp add: ts sum_list_map2_add)
  show "0 \<le> ts ! i \<and> ts ! i \<le> ls ! i" if i: "i < length states"
  proof -
    have nonneg: "0 \<le> ?f ! i" "0 \<le> ?n ! i" using i by (simp_all add: wla.alloc_nonneg)
    have "?f ! i \<le> max 0 (?fl ! i)" "?n ! i \<le> max 0 (?nl ! i)"
      using i by (simp_all only: wla.alloc_le_limit length_map length_upt diff_zero)
    then have "?f ! i + ?n ! i \<le> ls ! i"
      using i assms(4) [OF i] nonneg
      by (cases "?full i") (auto simp: full_claim_limit_def Let_def max_def split: if_splits)
    then show ?thesis using nonneg i len by (simp add: ts)
  qed
qed

lemma deliverable_targets_nth:
  "i < length ts \<Longrightarrow>
     deliverable_targets cfg ts dcs caps ! i = max 0 (min (device_ceiling cfg dcs caps i) (ts ! i))"
  by (simp add: deliverable_targets_def device_ceiling_def)

lemma clamp_id: "0 \<le> x \<Longrightarrow> x \<le> max 0 c \<Longrightarrow> max 0 (min c x) = x" for x :: rat
  by (auto simp: max_def min_def split: if_splits)

lemma deliverable_targets_spec:
  assumes "i < length ts"
  shows "0 \<le> deliverable_targets cfg ts dcs caps ! i"
    and "0 \<le> ts ! i \<Longrightarrow> deliverable_targets cfg ts dcs caps ! i \<le> ts ! i"
    and "deliverable_targets cfg ts dcs caps ! i \<le> max 0 (device_ceiling cfg dcs caps i)"
  using assms by (auto simp: deliverable_targets_def device_ceiling_def Let_def)

lemma length_deliverable_targets [simp]: "length (deliverable_targets cfg ts dcs caps) = length ts"
  by (simp add: deliverable_targets_def)

lemma topup_spec:
  assumes "apply_battery_topup_after_pv_first cfg ts states dcs caps t commandable = (res, used)"
    and "length ts = length states" and "\<And>i. i < length states \<Longrightarrow> 0 \<le> ts ! i"
    and "sum_list ts \<le> t"
  shows "length res = length states" and "sum_list res \<le> t"
    and "i < length states \<Longrightarrow> 0 \<le> res ! i"
    and "\<not> used \<Longrightarrow> res = deliverable_targets cfg ts dcs caps"
proof -
  let ?d = "deliverable_targets cfg ts dcs caps"
  let ?sh = "map (topup_share cfg states dcs caps commandable ?d) [0..<length states]"
  let ?u = "weighted_limited_allocation (max 0 (t - sum_list ?d)) (map fst ?sh) (map snd ?sh)"
  have res: "(res, used) =
      (if max 0 (t - sum_list ?d) \<le> 0 then (?d, False)
       else (if 0 < sum_list ?u then map2 (+) ?d ?u else ?d, 0 < sum_list ?u))"
    using assms(1) by (auto simp: apply_battery_topup_after_pv_first_def Let_def split: if_splits)
  have len: "length ?d = length states" "length ?u = length states"
    using assms(2) by (simp_all add: wla.length_alloc)
  have "sum_list ?d \<le> sum_list ts"
    using assms(2,3) deliverable_targets_spec(2) by (intro sum_list_pointwise_mono) auto
  then have d: "sum_list ?d \<le> t" using assms(4) by simp
  have u: "sum_list ?u \<le> max 0 (t - sum_list ?d)" 
    using wla.alloc_sum_le [of "map fst ?sh" "map snd ?sh" "max 0 (t - sum_list ?d)"] by simp
  show "length res = length states" using res len by (auto split: if_splits)
  show "sum_list res \<le> t" using res d u len by (auto simp: sum_list_map2_add split: if_splits)
  show "0 \<le> res ! i" if "i < length states"
    using res that len assms(2) deliverable_targets_spec(1) [of i ts cfg dcs caps]
      wla.alloc_nonneg [of "map fst ?sh" "map snd ?sh" i "max 0 (t - sum_list ?d)"]
    by (auto split: if_splits)
  show "res = ?d" if "\<not> used" using res that by (auto split: if_splits)
qed

lemma pv_first_allocation_bounds:
  fixes cfg devices dcs caps commandable t
  assumes "0 \<le> t"
  defines "a \<equiv> (case allocate_full_soc_pv_first cfg t devices
      (map (pv_weight cfg devices dcs caps) [0..<length devices])
      (map (pv_only_limit devices caps) [0..<length devices]) dcs caps commandable of
      Some (ts, full) \<Rightarrow> ts
    | None \<Rightarrow> weighted_limited_allocation t (map (pv_weight cfg devices dcs caps) [0..<length devices])
        (map (pv_only_limit devices caps) [0..<length devices]))"
  shows "length a = length devices \<and> sum_list a \<le> t \<and>
    (\<forall>i < length devices. 0 \<le> a ! i \<and> a ! i \<le> pv_only_limit devices caps i)"
proof -
  let ?ls = "map (pv_only_limit devices caps) [0..<length devices]"
  let ?ws = "map (pv_weight cfg devices dcs caps) [0..<length devices]"
  show ?thesis
  proof (cases "allocate_full_soc_pv_first cfg t devices ?ws ?ls dcs caps commandable")
    case None
    then show ?thesis
      using assms(1) wla.alloc_sum_le [of ?ws ?ls t] wla.alloc_le_limit [of ?ws ?ls _ t]
      by (auto simp: a_def wla.length_alloc wla.alloc_nonneg)
  next
    case (Some p)
    obtain ts full where "p = (ts, full)" by (cases p)
    with Some have al: "allocate_full_soc_pv_first cfg t devices ?ws ?ls dcs caps commandable
        = Some (ts, full)" by simp
    show ?thesis
      using allocate_full_soc_spec [OF al _ _ _ assms(1)] al by (simp add: a_def)
  qed
qed

text \<open>
  Case 1 as a whole: the raw targets share out at most the request, none is negative, and
  where the PV-only limits stay in force they are the devices' own PV and bound the targets.
\<close>

lemma pv_first_targets_spec:
  assumes "pv_first_targets cfg devices dcs caps commandable t = (raw, limits)" and "0 \<le> t"
  shows "length raw = length devices" and "sum_list raw \<le> t"
    and "i < length devices \<Longrightarrow> 0 \<le> raw ! i"
    and "limits = Some ls \<Longrightarrow> ls = map (pv_only_limit devices caps) [0..<length devices]"
    and "limits = Some ls \<Longrightarrow> i < length devices \<Longrightarrow> raw ! i \<le> pv_only_limit devices caps i"
proof -
  let ?idx = "[0..<length devices]"
  let ?ls = "map (pv_only_limit devices caps) ?idx"
  let ?ws = "map (pv_weight cfg devices dcs caps) ?idx"
  define a where "a = (case allocate_full_soc_pv_first cfg t devices ?ws ?ls dcs caps commandable of
      Some (ts, full) \<Rightarrow> ts | None \<Rightarrow> weighted_limited_allocation t ?ws ?ls)"
  have a: "length a = length devices \<and> sum_list a \<le> t \<and>
      (\<forall>i < length devices. 0 \<le> a ! i \<and> a ! i \<le> pv_only_limit devices caps i)"
    using pv_first_allocation_bounds [OF assms(2)] by (simp add: a_def)
  let ?z = "replicate (length devices) (0::rat)"
  consider
    (pv) used where "0 < sum_list ?ls"
      "apply_battery_topup_after_pv_first cfg a devices dcs caps t commandable = (raw, used)"
      "limits = (if t \<le> sum_list ?ls \<and> \<not> used then Some ?ls else None)"
  | (topup) used where
      "apply_battery_topup_after_pv_first cfg ?z devices dcs caps t commandable = (raw, used)"
      "limits = None"
  | (zero) "raw = ?z" "limits = None"
  proof -
    have eq: "(raw, limits) =
        (if 0 < sum_list ?ls
         then (case apply_battery_topup_after_pv_first cfg a devices dcs caps t commandable of
                 (ts, used) \<Rightarrow> (ts, if t \<le> sum_list ?ls \<and> \<not> used then Some ?ls else None))
         else if 0 < t
         then (fst (apply_battery_topup_after_pv_first cfg ?z devices dcs caps t commandable), None)
         else (?z, None))"
      unfolding assms(1) [symmetric] pv_first_targets_def Let_def a_def by (rule refl)
    obtain ra ua where ra: "apply_battery_topup_after_pv_first cfg a devices dcs caps t commandable
        = (ra, ua)" by (rule prod.exhaust)
    obtain rz uz where rz: "apply_battery_topup_after_pv_first cfg ?z devices dcs caps t commandable
        = (rz, uz)" by (rule prod.exhaust)
    show thesis
      using eq that ra rz by (auto simp only: prod.case fst_conv prod.inject split: if_splits)
  qed
  then have "length raw = length devices \<and> sum_list raw \<le> t \<and> (\<forall>i < length devices. 0 \<le> raw ! i) \<and>
      (\<forall>ls. limits = Some ls \<longrightarrow> ls = ?ls \<and> (\<forall>i < length devices. raw ! i \<le> pv_only_limit devices caps i))"
  proof cases
    case pv
    note u = topup_spec [OF pv(2)]
    have "raw ! i \<le> pv_only_limit devices caps i" if "limits \<noteq> None" "i < length devices" for i
      using that pv(3) u(4) a deliverable_targets_spec(2) [of i a cfg dcs caps]
      by (fastforce split: if_splits)
    then show ?thesis using u a pv(3) by (auto split: if_splits)
  next
    case topup
    then show ?thesis using topup_spec [OF topup(1)] assms(2) by (auto simp: sum_list_replicate)
  next
    case zero
    then show ?thesis using assms(2) by (auto simp: sum_list_replicate)
  qed
  then show "length raw = length devices" and "sum_list raw \<le> t"
    and "i < length devices \<Longrightarrow> 0 \<le> raw ! i"
    and "limits = Some ls \<Longrightarrow> ls = map (pv_only_limit devices caps) [0..<length devices]"
    and "limits = Some ls \<Longrightarrow> i < length devices \<Longrightarrow> raw ! i \<le> pv_only_limit devices caps i"
    by auto
qed


lemma battery_discharge_targets_spec:
  fixes cfg devices dcs caps t
  defines "ex \<equiv> map (exportable_solar devices caps) [0..<length devices]"
  assumes "\<And>d. d \<in> set devices \<Longrightarrow> 0 \<le> solar d" and "sum_list ex \<le> t"
  shows "length (battery_discharge_targets cfg devices dcs caps t) = length devices"
    and "i < length devices \<Longrightarrow> 0 \<le> battery_discharge_targets cfg devices dcs caps t ! i"
    and "sum_list (battery_discharge_targets cfg devices dcs caps t) \<le> t"
proof -
  define ws where "ws = map (\<lambda>i. if max_soc (devices ! i) \<le> 0 then 0
      else usable_battery_weight cfg (devices ! i) (arg_at dcs i) (arg_at caps i)) [0..<length devices]"
  let ?add = "map (\<lambda>w. (t - sum_list ex) * (w / sum_list ws)) ws"
  have eq: "battery_discharge_targets cfg devices dcs caps t =
      (if 0 < sum_list ws then map2 (+) ex ?add else ex)"
    using assms(3)
    by (auto simp: battery_discharge_targets_def Let_def ws_def ex_def zip_map2 intro!: nth_equalityI)
  have ws: "0 \<le> w" if "w \<in> set ws" for w
    using that by (auto simp: ws_def usable_battery_weight_nonneg)
  have ex: "0 \<le> ex ! i" if "i < length devices" for i
    using that assms(2) by (simp add: ex_def exportable_solar_def)
  have len: "length ex = length devices" "length ws = length devices" by (simp_all add: ex_def ws_def)
  show "length (battery_discharge_targets cfg devices dcs caps t) = length devices"
    by (simp add: eq len)
  show "0 \<le> battery_discharge_targets cfg devices dcs caps t ! i" if "i < length devices"
    using that ex [OF that] len ws [of "ws ! i"] assms(3) by (simp add: eq)
  have "sum_list ?add = (t - sum_list ex) * (sum_list ws / sum_list ws)"
    by (simp only: sum_list_const_mult) (simp add: divide_inverse sum_list_mult_const)
  then show "sum_list (battery_discharge_targets cfg devices dcs caps t) \<le> t"
    using assms(3) len by (simp add: eq sum_list_map2_add)
qed

lemma exportable_solar_sum_le:
  assumes "\<And>d. d \<in> set devices \<Longrightarrow> 0 \<le> solar d"
  shows "sum_list (map (exportable_solar devices caps) [0..<length devices]) \<le> sum_list (map solar devices)"
  using assms by (intro sum_list_pointwise_mono) (auto simp: exportable_solar_def)

lemma requested_new_total_bounds:
  "0 \<le> requested_new_total c l m r" "requested_new_total c l m r \<le> max 0 m"
  by (auto simp: requested_new_total_def split: option.split)

text \<open>The raw targets and limits behind a result of \<open>calculate_targets\<close>.\<close>

definition raw_targets ::
  "control_config \<Rightarrow> device_state list \<Rightarrow> device_config list option \<Rightarrow>
   device_capabilities list option \<Rightarrow> bool list option \<Rightarrow> watts \<Rightarrow> watts list \<times> watts list option" where
  "raw_targets cfg devices dcs caps commandable t =
     (if t \<le> sum_list (map solar devices)
      then pv_first_targets cfg devices dcs caps commandable t
      else (battery_discharge_targets cfg devices dcs caps t, None))"

lemma calculate_targets_raw:
  assumes "calculate_targets cfg load devices mp dcs caps req commandable = (ts, cur, new)"
    and "devices \<noteq> []" and "raw_targets cfg devices dcs caps commandable new = (raw, lims)"
  obtains und where "apply_constraints_and_redistribute cfg raw dcs caps lims = (ts, und)"
    and "new = requested_new_total (sum_list (map output_w devices)) load mp req"
proof -
  have new: "new = requested_new_total (sum_list (map output_w devices)) load mp req"
    using assms(1,2) by (auto simp: calculate_targets_def Let_def split: prod.splits if_splits)
  with assms have "ts = fst (apply_constraints_and_redistribute cfg raw dcs caps lims)"
    by (simp add: calculate_targets_def raw_targets_def Let_def split: if_splits)
  then show thesis using that new by (metis prod.collapse)
qed

lemma raw_targets_length:
  assumes "raw_targets cfg devices dcs caps commandable t = (raw, lims)" and "0 \<le> t"
  shows "length raw = length devices"
  using assms pv_first_targets_spec(1)
  by (auto simp: raw_targets_def battery_discharge_targets_def Let_def split: if_splits)

text \<open>
  C1. Safety of the target calculation, in both modes and for every setting: one target per
  device, never negative, never above the device's own ceiling, and 0 for a device that may not
  export.
\<close>

theorem calculate_targets_within_limits:
  assumes "calculate_targets cfg load devices mp dcs caps req commandable = (ts, cur, new)"
  shows "length ts = length devices \<and>
    (\<forall>i < length devices. 0 \<le> ts ! i \<and>
       ts ! i \<le> max 0 (get_device_max_power cfg (arg_at dcs i)) \<and>
       (denies can_export (arg_at caps i) \<longrightarrow> ts ! i = 0))"
proof (cases "devices = []")
  case True
  then show ?thesis using assms by (simp add: calculate_targets_def)
next
  case False
  obtain raw lims where raw: "raw_targets cfg devices dcs caps commandable new = (raw, lims)"
    by (rule prod.exhaust)
  obtain und where ac: "apply_constraints_and_redistribute cfg raw dcs caps lims = (ts, und)"
    and new: "new = requested_new_total (sum_list (map output_w devices)) load mp req"
    using calculate_targets_raw [OF assms False raw] .
  have len: "length raw = length devices"
    using raw_targets_length [OF raw] new requested_new_total_bounds(1) by simp
  have bound: "0 \<le> ts ! i \<and> ts ! i \<le> max 0 (device_ceiling cfg dcs caps i)"
    if "i < length devices" for i
    using apply_constraints_spec(4) [OF ac, of i]
      constraint_limits_le_ceiling [of i "length raw" cfg dcs caps lims] that len by auto
  have "0 \<le> ts ! i \<and> ts ! i \<le> max 0 (get_device_max_power cfg (arg_at dcs i)) \<and>
      (denies can_export (arg_at caps i) \<longrightarrow> ts ! i = 0)" if "i < length devices" for i
    using bound [OF that] by (cases "denies can_export (arg_at caps i)") (auto simp: device_ceiling_def)
  then show ?thesis using apply_constraints_spec(1) [OF ac] len by simp
qed

text \<open>
  The targets together never exceed the request by more than rounding: half a watt per
  device, and the request itself lies between 0 and the configured maximum.
\<close>

lemma calculate_targets_total_bounded:
  assumes "calculate_targets cfg load devices mp dcs caps req commandable = (ts, cur, new)"
    and "\<And>d. d \<in> set devices \<Longrightarrow> 0 \<le> solar d"
  shows "sum_list ts \<le> new + of_nat (length devices) / 2 \<and> 0 \<le> new \<and> new \<le> max 0 mp"
proof (cases "devices = []")
  case True
  then show ?thesis using assms by (simp add: calculate_targets_def)
next
  case False
  obtain raw lims where raw: "raw_targets cfg devices dcs caps commandable new = (raw, lims)"
    by (rule prod.exhaust)
  obtain und where ac: "apply_constraints_and_redistribute cfg raw dcs caps lims = (ts, und)"
    and new: "new = requested_new_total (sum_list (map output_w devices)) load mp req"
    using calculate_targets_raw [OF assms(1) False raw] .
  have t: "0 \<le> new" "new \<le> max 0 mp" using requested_new_total_bounds new by auto
  have raw_props: "length raw = length devices" "sum_list raw \<le> new" "\<forall>i < length devices. 0 \<le> raw ! i"
  proof -
    note bd = battery_discharge_targets_spec [where devices = devices and caps = caps and t = new and cfg = cfg and dcs = dcs, OF assms(2)]
    have "length raw = length devices \<and> sum_list raw \<le> new \<and> (\<forall>i < length devices. 0 \<le> raw ! i)"
    proof (cases "new \<le> sum_list (map solar devices)")
      case True
      then show ?thesis using raw pv_first_targets_spec(1-3) t(1) by (simp add: raw_targets_def)
    next
      case False
      then have "sum_list (map (exportable_solar devices caps) [0..<length devices]) \<le> new"
        using exportable_solar_sum_le [of devices caps, OF assms(2)] by simp
      then show ?thesis using raw bd False by (auto simp: raw_targets_def)
    qed
    then show "length raw = length devices" "sum_list raw \<le> new" "\<forall>i < length devices. 0 \<le> raw ! i"
      by auto
  qed
  have "sum_list ts \<le> sum_list (map (\<lambda>t. max 0 (of_int (py_round t))) raw)"
    using apply_constraints_spec(2,3) [OF ac] by simp
  also have "\<dots> \<le> sum_list (map (\<lambda>t. t + 1 / 2) raw)"
    using raw_props py_round_le by (intro sum_list_mono) (auto simp: in_set_conv_nth)
  also have "\<dots> = sum_list raw + of_nat (length raw) / 2"
    by (simp add: sum_list_addf sum_list_triv)
  finally show ?thesis using raw_props t by simp
qed

text \<open>The conditions under which PV alone can serve a request through the devices that have it.\<close>

definition pv_serves ::
  "control_config \<Rightarrow> device_state list \<Rightarrow> device_config list option \<Rightarrow>
   device_capabilities list option \<Rightarrow> bool list option \<Rightarrow> watts \<Rightarrow> bool" where
  "pv_serves cfg devices dcs caps commandable t \<longleftrightarrow>
     0 < t \<and> t \<le> sum_list (map (pv_only_limit devices caps) [0..<length devices]) \<and>
     (\<forall>i \<in> set [0..<length devices].
        0 \<le> solar (devices ! i) \<and> 0 \<le> pack_in (devices ! i) \<and>
        (0 < pv_only_limit devices caps i \<longrightarrow>
           0 < pv_weight cfg devices dcs caps i \<and>
           pv_only_limit devices caps i \<le> get_device_max_power cfg (arg_at dcs i) \<and>
           \<not> uncommandable commandable i))"

lemma pv_serves_allocation:
  fixes cfg devices dcs caps commandable t
  defines "ls \<equiv> map (pv_only_limit devices caps) [0..<length devices]"
    and "ws \<equiv> map (pv_weight cfg devices dcs caps) [0..<length devices]"
  assumes "pv_serves cfg devices dcs caps commandable t"
  shows "sum_list (case allocate_full_soc_pv_first cfg t devices ws ls dcs caps commandable of
      Some (ts, full) \<Rightarrow> ts | None \<Rightarrow> weighted_limited_allocation t ws ls) = t"
proof -
  note pv = assms(3) [unfolded pv_serves_def]
  have len: "length ws = length ls" "length ls = length devices" by (simp_all add: ls_def ws_def)
  have t: "0 < t" "t \<le> sum_list ls" using pv by (simp_all add: ls_def)
  have pos: "0 < ws ! i" "ls ! i \<le> get_device_max_power cfg (arg_at dcs i)" "\<not> uncommandable commandable i"
    if "i < length devices" "0 < ls ! i" for i
    using that pv by (auto simp: ls_def ws_def)
  have ls_eq: "ls = map (\<lambda>i. ls ! i) [0..<length devices]" by (simp add: ls_def)
  have cond: "ls ! i = 0" if "i < length devices" "\<not> (0 < ls ! i \<and> 0 < ws ! i)" for i
    using that pos(1) [OF that(1)] by (cases "0 < ls ! i") (auto simp: ls_def intro: antisym)
  show ?thesis
  proof (cases "allocate_full_soc_pv_first cfg t devices ws ls dcs caps commandable")
    case None
    have "room ws ls = sum_list (map (\<lambda>i. ls ! i) [0..<length devices])"
      using cond len by (subst room_eq) (auto intro!: arg_cong [where f = sum_list] map_cong)
    then show ?thesis using None wla.sum_alloc [OF len(1), of t] t ls_eq by (simp add: min_absorb1)
  next
    case (Some p)
    let ?idx = "[0..<length devices]" and ?full = "full_candidate devices ls caps"
    let ?fl = "map (\<lambda>i. if ?full i then full_claim_limit cfg devices ls dcs commandable i else 0) ?idx"
    let ?fw = "map (\<lambda>i. if ?full i then ws ! i else 0) ?idx"
    let ?nl = "map (\<lambda>i. if ?full i then 0 else ls ! i) ?idx"
    let ?nw = "map (\<lambda>i. if ?full i then 0 else ws ! i) ?idx"
    let ?f = "weighted_limited_allocation t ?fw ?fl"
    let ?n = "weighted_limited_allocation (max 0 (t - sum_list ?f)) ?nw ?nl"
    have p: "fst p = map2 (+) ?f ?n"
      using Some by (auto simp: allocate_full_soc_pv_first_def Let_def split: if_splits)
    have claim: "full_claim_limit cfg devices ls dcs commandable i = ls ! i"
      if "i < length devices" "?full i" for i
      using that pos [of i] by (simp add: full_claim_limit_def full_candidate_def Let_def)
    have fr: "room ?fw ?fl = sum_list (map (\<lambda>i. if ?full i then ls ! i else 0) ?idx)"
      using cond claim by (subst room_eq) (auto intro!: arg_cong [where f = sum_list] map_cong)
    have nr: "room ?nw ?nl = sum_list (map (\<lambda>i. if ?full i then 0 else ls ! i) ?idx)"
      using cond by (subst room_eq) (auto intro!: arg_cong [where f = sum_list] map_cong)
    have "room ?fw ?fl + room ?nw ?nl = sum_list (map (\<lambda>i. ls ! i) ?idx)"
      unfolding fr nr sum_list_addf [symmetric]
      by (auto intro!: arg_cong [where f = sum_list] map_cong)
    then have rooms: "t \<le> room ?fw ?fl + room ?nw ?nl" using t(2) ls_eq by simp
    have "sum_list (fst p) = sum_list ?f + sum_list ?n"
      by (simp add: p sum_list_map2_add wla.length_alloc)
    also have "\<dots> = t"
      using rooms t(1) room_nonneg [of ?nw ?nl]
        wla.sum_alloc [of ?fw ?fl t] wla.sum_alloc [of ?nw ?nl "max 0 (t - sum_list ?f)"]
      by (auto simp: min_def max_def split: if_splits)
    finally show ?thesis using Some by (cases p) simp
  qed
qed

lemma pv_serves_no_topup:
  assumes "pv_serves cfg devices dcs caps commandable t"
  obtains raw where "pv_first_targets cfg devices dcs caps commandable t =
    (raw, Some (map (pv_only_limit devices caps) [0..<length devices]))" and "sum_list raw = t"
proof -
  let ?idx = "[0..<length devices]"
  let ?ls = "map (pv_only_limit devices caps) ?idx"
  let ?ws = "map (pv_weight cfg devices dcs caps) ?idx"
  define a where "a = (case allocate_full_soc_pv_first cfg t devices ?ws ?ls dcs caps commandable of
      Some (ts, full) \<Rightarrow> ts | None \<Rightarrow> weighted_limited_allocation t ?ws ?ls)"
  note pv = assms [unfolded pv_serves_def]
  have t: "0 < t" "t \<le> sum_list ?ls" using pv by auto
  have a: "length a = length devices" "\<And>i. i < length devices \<Longrightarrow> 0 \<le> a ! i \<and> a ! i \<le> ?ls ! i"
    using pv_first_allocation_bounds [of t cfg devices dcs caps commandable] t(1)
    by (simp_all add: a_def)
  have ceil: "?ls ! i \<le> max 0 (device_ceiling cfg dcs caps i)" if "i < length devices" for i
    using that pv by (cases "0 < pv_only_limit devices caps i")
      (auto simp: device_ceiling_def pv_only_limit_def)
  have d: "deliverable_targets cfg a dcs caps = a"
  proof (rule nth_equalityI)
    fix i
    assume "i < length (deliverable_targets cfg a dcs caps)"
    then have i: "i < length devices" using a(1) by simp
    have "0 \<le> a ! i" "a ! i \<le> max 0 (device_ceiling cfg dcs caps i)"
      using a(2) [OF i] ceil [OF i] by auto
    then show "deliverable_targets cfg a dcs caps ! i = a ! i"
      using i a(1) by (simp add: deliverable_targets_nth clamp_id)
  qed simp
  have sum_a: "sum_list a = t" unfolding a_def by (rule pv_serves_allocation [OF assms])
  then have "apply_battery_topup_after_pv_first cfg a devices dcs caps t commandable = (a, False)"
    by (simp add: apply_battery_topup_after_pv_first_def d)
  then have "pv_first_targets cfg devices dcs caps commandable t = (a, Some ?ls)"
    using t by (simp add: pv_first_targets_def Let_def a_def)
  then show thesis using that sum_a by blast
qed


text \<open>
  C10. The final clamp conserves power: what the devices are given plus what is reported as
  undistributed is the sum of the rounded raw targets, and with redistribution on something is
  left over only when every device already stands at its limit.
\<close>

theorem redistribution_conserves_power:
  assumes "apply_constraints_and_redistribute cfg ts dcs caps tls = (res, undistributed)"
  shows "sum_list res + undistributed = sum_list (map (\<lambda>t. max 0 (of_int (py_round t))) ts) \<and>
    0 \<le> undistributed \<and>
    (REDISTRIBUTE_CLAMPED_POWER cfg \<and> 0 < undistributed \<longrightarrow>
       (\<forall>i < length ts. res ! i = max 0 (constraint_limits cfg (length ts) dcs caps tls ! i)))"
  using apply_constraints_spec(2,3) [OF assms] apply_constraints_spec(5) [OF assms] by auto

section \<open>A two-inverter installation\<close>

definition demo_config :: control_config where
  "demo_config =
     \<lparr>MAX_DEVICE_POWER = 800, BATTERY_KWH_WEIGHTING = True, PV_KWP_WEIGHTING = True,
      PV_CHARGE_BALANCE_ENABLED = True, PV_CHARGE_BALANCE_DEADBAND_PERCENT = 5,
      PV_CHARGE_BALANCE_FULL_BIAS_PERCENT = 15, PV_CHARGE_BALANCE_STRENGTH = 1,
      REDISTRIBUTE_CLAMPED_POWER = True\<rparr>"

definition demo_device :: device_config where
  "demo_device =
     \<lparr>dev_name = ''WR1'', dev_max_power = 800, dev_pv_kwp = 1, dev_pv_priority_factor = 1,
      dev_battery_kwh = 2, dev_max_charge_power_w = 0\<rparr>"

definition demo_state :: "watts \<Rightarrow> percent \<Rightarrow> device_state" where
  "demo_state pv level =
     zero_device_state\<lparr>soc := level, min_soc := 10, max_soc := 100, solar := pv,
       dc_status := 1, pack_num := Some 2\<rparr>"

definition demo_targets :: "device_state list \<Rightarrow> watts \<Rightarrow> watts list \<times> watts \<times> watts" where
  "demo_targets ds w =
     calculate_targets demo_config 0 ds 1600 (Some (map (\<lambda>_. demo_device) ds))
       (Some (map detect_capabilities ds)) (Some w) None"

theorem calculate_targets_within_limits_witness:
  "demo_targets [demo_state 100 50, demo_state 0 90] 1500 = ([700, 800], 0, 1500) \<and>
   [700, 800 :: rat] ! 0 \<le> 800 \<and> [700, 800 :: rat] ! 1 \<le> 800"
proof -
  let ?ds = "[demo_state 100 50, demo_state 0 90]"
  have r: "demo_targets ?ds 1500 = ([700, 800], 0, 1500)" by code_simp
  have ceil: "get_device_max_power demo_config (arg_at (Some (map (\<lambda>_. demo_device) ?ds)) i) = 800"
    if "i < 2" for i :: nat
    using that by (auto simp: arg_at_def get_device_max_power_def demo_device_def less_2_cases_iff)
  note b = calculate_targets_within_limits [OF r [unfolded demo_targets_def]]
  have "[700, 800 :: rat] ! i \<le> 800" if "i < 2" for i :: nat
    using b ceil [OF that] that by (auto simp: numeral_2_eq_2)
  from this [of 0] this [of 1] r show ?thesis by simp
qed


theorem redistribution_conserves_power_witness:
  "apply_constraints_and_redistribute demo_config [1000, 300, 500] None None (Some [600, 700, 100])
     = ([600, 700, 100], 400) \<and> sum_list [600, 700, 100 :: rat] + 400 = 1000 + 300 + 500"
proof -
  have r: "apply_constraints_and_redistribute demo_config [1000, 300, 500] None None
      (Some [600, 700, 100]) = ([600, 700, 100], 400)" by code_simp
  show ?thesis using r redistribution_conserves_power [OF r] by simp
qed

text \<open>The rounding slack is reached: two equal shares of 803 W are rounded up to 402 W each.\<close>

lemma rounded_targets_exceed_request:
  "demo_targets [demo_state 600 50, demo_state 600 50] 803 = ([402, 402], 0, 803)"
  by code_simp

end
