(* ===== verification/Ac_Charge_Control.thy ===== *)
theory Ac_Charge_Control
  imports Target_Control
begin

text \<open>
  \<open>ems/ac_charge_control.py\<close>: when the system changes into and out of AC charging, and how a
  charge total is split over the devices.

  The carried state is \<open>charge_direction_state\<close>; \<open>decide_charge_direction\<close> is one cycle of the
  decision and \<open>direction_step\<close> threads the state through a sequence of cycles. Proved over
  whole runs: charging starts at most \<open>max_entries_per_hour\<close> times in any hour, only on enough
  surplus observations inside the configured window, and ends in the very cycle that forbids it
  or no longer has the surplus. \<open>allocate_charge_targets\<close> reuses the allocator of
  \<open>Allocation\<close>; its concentrating loop is \<open>concentrate\<close>, which terminates because each round
  takes the weight of one device away.
\<close>

section \<open>The direction decision\<close>

datatype charge_reason =
    REASON_NOT_POSSIBLE | REASON_HELD | REASON_CONFIRMING | REASON_ENTERED
  | REASON_LEFT_BELOW_STOP | REASON_ENTRY_RATE_LIMITED

definition SECONDS_PER_HOUR :: seconds where "SECONDS_PER_HOUR = 3600"

record charge_direction_settings =
  start_w :: watts
  stop_w :: watts
  entry_confirm_cycles :: int
  entry_window_cycles :: int
  max_entries_per_hour :: int

definition entry_window :: "charge_direction_settings \<Rightarrow> int" where
  "entry_window settings =
     max 1 (max (entry_confirm_cycles settings) (entry_window_cycles settings))"

record charge_direction_state =
  charging :: bool
  window :: "bool list"
  entries :: "seconds list"

record charge_direction_decision =
  dec_charging :: bool
  dec_state :: charge_direction_state
  dec_reason :: charge_reason
  dec_rate_limited :: bool

definition recent_entries :: "seconds list \<Rightarrow> seconds \<Rightarrow> seconds list" where
  "recent_entries es now = filter (\<lambda>t. now - t < SECONDS_PER_HOUR) es"

text \<open>\<open>xs[-n:]\<close> for positive \<open>n\<close>.\<close>

definition last_n :: "nat \<Rightarrow> 'a list \<Rightarrow> 'a list" where
  "last_n n xs = drop (length xs - n) xs"

definition record_entry_observation ::
  "charge_direction_state \<Rightarrow> bool \<Rightarrow> charge_direction_settings \<Rightarrow> charge_direction_state" where
  "record_entry_observation previous observed settings =
     previous\<lparr>window := last_n (nat (entry_window settings)) (window previous @ [observed])\<rparr>"

definition charge_entries_within_limit ::
  "seconds list \<Rightarrow> seconds \<Rightarrow> charge_direction_settings \<Rightarrow> seconds list \<times> bool" where
  "charge_entries_within_limit es now settings =
     (let recent = recent_entries es now
      in (recent, int (length recent) < max 1 (max_entries_per_hour settings)))"

definition entry_rate_limited ::
  "charge_direction_state \<Rightarrow> seconds \<Rightarrow> charge_direction_settings \<Rightarrow> bool" where
  "entry_rate_limited s now settings = (\<not> snd (charge_entries_within_limit (entries s) now settings))"

definition entry_confirmed :: "charge_direction_state \<Rightarrow> charge_direction_settings \<Rightarrow> bool" where
  "entry_confirmed s settings =
     (max 1 (entry_confirm_cycles settings) \<le> int (length (filter id (window s))))"

record direction_input =
  charging_possible :: bool
  commanded_total_w :: watts
  desired_total_w :: watts
  filtered_load_w :: watts
  now :: seconds

definition entry_observed :: "charge_direction_settings \<Rightarrow> direction_input \<Rightarrow> bool" where
  "entry_observed settings x \<longleftrightarrow>
     commanded_total_w x \<le> 0 \<and> filtered_load_w x \<le> - start_w settings"

definition decide_charge_direction ::
  "charge_direction_settings \<Rightarrow> charge_direction_state \<Rightarrow> direction_input \<Rightarrow> charge_direction_decision" where
  "decide_charge_direction settings previous x =
     (let recent = recent_entries (entries previous) (now x)
      in if \<not> charging_possible x
         then \<lparr>dec_charging = False,
               dec_state = \<lparr>charging = False, window = [], entries = recent\<rparr>,
               dec_reason = REASON_NOT_POSSIBLE, dec_rate_limited = False\<rparr>
         else if charging previous
         then (if - stop_w settings \<le> desired_total_w x
               then \<lparr>dec_charging = False,
                     dec_state = \<lparr>charging = False, window = [], entries = recent\<rparr>,
                     dec_reason = REASON_LEFT_BELOW_STOP, dec_rate_limited = False\<rparr>
               else \<lparr>dec_charging = True,
                     dec_state = previous\<lparr>entries := recent\<rparr>,
                     dec_reason = REASON_HELD, dec_rate_limited = False\<rparr>)
         else
           let observed = entry_observed settings x;
               observing = record_entry_observation
                 \<lparr>charging = False, window = window previous, entries = recent\<rparr> observed settings
           in if \<not> entry_confirmed observing settings
              then \<lparr>dec_charging = False, dec_state = observing,
                    dec_reason = (if observed then REASON_CONFIRMING else REASON_HELD),
                    dec_rate_limited = False\<rparr>
              else if entry_rate_limited observing (now x) settings
              then \<lparr>dec_charging = False,
                    dec_state = \<lparr>charging = False, window = window observing, entries = recent\<rparr>,
                    dec_reason = REASON_ENTRY_RATE_LIMITED, dec_rate_limited = True\<rparr>
              else \<lparr>dec_charging = True,
                    dec_state = \<lparr>charging = True, window = [], entries = recent @ [now x]\<rparr>,
                    dec_reason = REASON_ENTERED, dec_rate_limited = False\<rparr>)"

section \<open>Supervising and sizing a charge\<close>

definition CHARGE_SILENCE_CYCLES :: int where "CHARGE_SILENCE_CYCLES = 6"

definition count_silent_charge_cycles :: "int \<Rightarrow> watts \<Rightarrow> int \<Rightarrow> bool \<Rightarrow> int \<Rightarrow> int" where
  "count_silent_charge_cycles previous_count commanded_w measured_w online charging_status =
     (if \<not> online then 0
      else if 0 \<le> py_int commanded_w then 0
      else if 0 < measured_w then 0
      else if charging_status = AC_STATUS_CHARGING then 0
      else max 0 previous_count + 1)"

definition resolve_max_charge_power_w :: "device_config \<Rightarrow> device_state option \<Rightarrow> int \<Rightarrow> int" where
  "resolve_max_charge_power_w dc s rated_w =
     (let explicit = dev_max_charge_power_w dc;
          raw_reported = (case s of None \<Rightarrow> None | Some st \<Rightarrow> charge_max_limit_w st);
          ceil = (case raw_reported of None \<Rightarrow> max 0 rated_w | Some r \<Rightarrow> max 0 r)
      in if raw_reported \<noteq> None \<and> ceil \<le> 0 then 0
         else if 0 < explicit then (if 0 < ceil then min explicit ceil else explicit)
         else ceil)"

definition charge_headroom_weight ::
  "device_state \<Rightarrow> device_config option \<Rightarrow> device_capabilities option \<Rightarrow> rat" where
  "charge_headroom_weight s dc cap =
     (if denies can_charge cap then 0
      else if (case pack_num s of None \<Rightarrow> 0 | Some n \<Rightarrow> max 0 n) \<le> 0 then 0
      else if max_soc s \<le> 0 then 0
      else
        let headroom_percent = max 0 (max_soc s - soc s)
        in if headroom_percent \<le> 0 then 0
           else max 0 (get_device_battery_kwh dc * headroom_percent / 100))"

datatype charge_refusal =
  REFUSAL_PACK_COUNT_UNREPORTED | REFUSAL_MAX_SOC_UNREPORTED | REFUSAL_MODEL_UNIDENTIFIED

text \<open>\<open>profile\<close> is the hardware profile of the catalogue, of which only its presence is read.\<close>

definition unreported_charge_inputs :: "device_state \<Rightarrow> 'profile option \<Rightarrow> charge_refusal list" where
  "unreported_charge_inputs s profile =
     (if battery_presence s = BATTERY_UNKNOWN then [REFUSAL_PACK_COUNT_UNREPORTED] else []) @
     (if max_soc s \<le> 0 then [REFUSAL_MAX_SOC_UNREPORTED] else []) @
     (if profile = None then [REFUSAL_MODEL_UNIDENTIFIED] else [])"

definition MIN_DEVICE_CHARGE_W :: watts where "MIN_DEVICE_CHARGE_W = 50"

definition OWN_DRAIN_MARGIN_W :: watts where "OWN_DRAIN_MARGIN_W = 60"

definition minimum_share_w :: "nat \<Rightarrow> bool list option \<Rightarrow> watts" where
  "minimum_share_w i charging_now =
     (case charging_now of
        None \<Rightarrow> MIN_DEVICE_CHARGE_W
      | Some cs \<Rightarrow> if i < length cs \<and> cs ! i then MIN_DEVICE_CHARGE_W / 2 else MIN_DEVICE_CHARGE_W)"

section \<open>Concentrating a charge\<close>

definition under_minimum :: "bool list option \<Rightarrow> watts list \<Rightarrow> nat list" where
  "under_minimum charging_now allocation =
     filter (\<lambda>i. 0 < allocation ! i \<and> allocation ! i < minimum_share_w i charging_now)
       [0..<length allocation]"

text \<open>\<open>min(under, key=...)\<close>: the first index of the smallest share.\<close>

fun smallest_share :: "watts list \<Rightarrow> nat \<Rightarrow> nat list \<Rightarrow> nat" where
  "smallest_share allocation best [] = best"
| "smallest_share allocation best (i # is) =
     smallest_share allocation (if allocation ! i < allocation ! best then i else best) is"

lemma smallest_share_in: "smallest_share a b is \<in> insert b (set is)"
  by (induction "is" arbitrary: b) (auto split: if_splits)

lemma wla_loop_frame: "i \<notin> set active \<Longrightarrow> wla_loop w l a active r ! i = a ! i"
proof (induction w l a active r rule: wla_loop.induct)
  case (1 w l a active r)
  then show ?case
    by (subst wla_loop.simps) (auto simp: Let_def nth_add_at_notin)
qed

lemma length_wla_loop: "length (wla_loop w l a active r) = length a"
proof (induction w l a active r rule: wla_loop.induct)
  case (1 w l a active r)
  then show ?case by (subst wla_loop.simps) (auto simp: Let_def)
qed

lemma allocation_needs_weight:
  assumes "i < length (weighted_limited_allocation t w l)" and "0 < weighted_limited_allocation t w l ! i"
  shows "i < length w" and "0 < w ! i"
proof -
  show "i < length w" using assms(1) by (simp add: weighted_limited_allocation_def length_wla_loop)
  then show "0 < w ! i"
    using assms(2) wla_loop_frame [of i "filter (\<lambda>i. 0 < l ! i \<and> 0 < w ! i) [0..<length l]" w l]
    by (fastforce simp: weighted_limited_allocation_def)
qed

function concentrate :: "watts \<Rightarrow> rat list \<Rightarrow> watts list \<Rightarrow> bool list option \<Rightarrow> watts list" where
  "concentrate t weights limits charging_now =
     (let allocation = weighted_limited_allocation t weights limits
      in if length (filter (\<lambda>v. 0 < v) allocation) \<le> 1 then allocation
         else
           case under_minimum charging_now allocation of
             [] \<Rightarrow> allocation
           | u # us \<Rightarrow>
               concentrate t (weights[smallest_share allocation u us := 0]) limits charging_now)"
  by pat_completeness auto

lemma drop_positive_weight:
  "i < length w \<Longrightarrow> 0 < w ! i \<Longrightarrow>
     length (filter (\<lambda>x. 0 < x) (w[i := 0])) < length (filter (\<lambda>x. (0::rat) < x) w)"
  by (induction w arbitrary: i) (auto split: nat.splits)

lemma smallest_share_loses_weight:
  assumes "under_minimum c (weighted_limited_allocation t w l) = u # us"
  shows "smallest_share (weighted_limited_allocation t w l) u us < length w"
    and "0 < w ! smallest_share (weighted_limited_allocation t w l) u us"
proof -
  let ?a = "weighted_limited_allocation t w l"
  have "smallest_share ?a u us \<in> set (under_minimum c ?a)"
    using smallest_share_in [of ?a u us] assms by simp
  then have "smallest_share ?a u us < length ?a \<and> 0 < ?a ! smallest_share ?a u us"
    by (simp add: under_minimum_def)
  then show "smallest_share ?a u us < length w" and "0 < w ! smallest_share ?a u us"
    using allocation_needs_weight by blast+
qed

termination concentrate
  by (relation "measure (\<lambda>(t, w, l, c). length (filter (\<lambda>x. 0 < x) w))")
     (auto intro!: drop_positive_weight intro: smallest_share_loses_weight)

declare concentrate.simps [simp del]

definition charge_weights ::
  "device_state list \<Rightarrow> device_config list \<Rightarrow> device_capabilities list \<Rightarrow> bool list \<Rightarrow> rat list" where
  "charge_weights states device_configs capabilities chargeable =
     map (\<lambda>i. if \<not> chargeable ! i then 0
              else charge_headroom_weight (states ! i) (Some (device_configs ! i))
                     (if i < length capabilities then Some (capabilities ! i) else None))
       [0..<length states]"

definition charge_limits :: "nat \<Rightarrow> bool list \<Rightarrow> int list \<Rightarrow> watts list" where
  "charge_limits n chargeable ceilings =
     map (\<lambda>i. if \<not> chargeable ! i then 0 else of_int (max 0 (ceilings ! i))) [0..<n]"

definition allocate_charge_targets ::
  "watts \<Rightarrow> device_state list \<Rightarrow> device_config list \<Rightarrow> device_capabilities list \<Rightarrow>
   bool list \<Rightarrow> int list \<Rightarrow> bool list option \<Rightarrow> int list" where
  "allocate_charge_targets total_charge_w states device_configs capabilities chargeable ceilings
       charging_now =
     map (\<lambda>v. - py_round v)
       (concentrate (max 0 total_charge_w)
          (charge_weights states device_configs capabilities chargeable)
          (charge_limits (length states) chargeable ceilings) charging_now)"

section \<open>Runs of the direction decision\<close>

definition direction_step ::
  "charge_direction_settings \<Rightarrow> charge_direction_state \<Rightarrow> direction_input \<Rightarrow> charge_direction_state" where
  "direction_step settings s x = dec_state (decide_charge_direction settings s x)"

definition initial_direction_state :: charge_direction_state where
  "initial_direction_state = \<lparr>charging = False, window = [], entries = []\<rparr>"

definition direction_run ::
  "charge_direction_settings \<Rightarrow> direction_input list \<Rightarrow> charge_direction_state" where
  "direction_run settings xs = run_steps (direction_step settings) initial_direction_state xs"

definition enters :: "charge_direction_settings \<Rightarrow> charge_direction_state \<Rightarrow> direction_input \<Rightarrow> bool" where
  "enters settings s x \<longleftrightarrow> dec_reason (decide_charge_direction settings s x) = REASON_ENTERED"

text \<open>The times at which a run entered charging, oldest first.\<close>

fun entry_times ::
  "charge_direction_settings \<Rightarrow> charge_direction_state \<Rightarrow> direction_input list \<Rightarrow> seconds list" where
  "entry_times settings s [] = []"
| "entry_times settings s (x # xs) =
     (if enters settings s x then [now x] else []) @
     entry_times settings (direction_step settings s x) xs"

lemma direction_run_Nil [simp]: "direction_run settings [] = initial_direction_state"
  by (simp add: direction_run_def)

lemma direction_run_snoc [simp]:
  "direction_run settings (xs @ [x]) = direction_step settings (direction_run settings xs) x"
  by (simp add: direction_run_def run_steps_append)

lemma entry_times_snoc:
  "entry_times settings s (xs @ [x]) = entry_times settings s xs @
     (if enters settings (run_steps (direction_step settings) s xs) x then [now x] else [])"
  by (induction xs arbitrary: s) auto

lemma last_n_length: "length (last_n n xs) \<le> n"
  by (simp add: last_n_def)

lemma last_n_Nil [simp]: "last_n n [] = []"
  by (simp add: last_n_def)

lemma set_last_n: "set (last_n n xs) \<subseteq> set xs"
  by (simp add: last_n_def set_drop_subset)

lemma last_n_map: "last_n n (map f xs) = map f (last_n n xs)"
  by (simp add: last_n_def drop_map)

lemma last_n_snoc: "n \<le> length xs \<Longrightarrow> last_n n xs @ [x] = last_n (Suc n) (xs @ [x])"
  by (simp add: last_n_def)

lemma last_n_last_n: "k \<le> n \<Longrightarrow> last_n k (last_n n xs) = last_n k xs"
  by (cases "n \<le> length xs") (simp_all add: last_n_def)

lemma entry_window_pos: "1 \<le> entry_window settings"
  by (simp add: entry_window_def)

section \<open>Invariant of the carried state\<close>

text \<open>While charging no observation is kept, and the window never outgrows its setting.\<close>

definition direction_ok :: "charge_direction_settings \<Rightarrow> charge_direction_state \<Rightarrow> bool" where
  "direction_ok settings s \<longleftrightarrow>
     (charging s \<longrightarrow> window s = []) \<and> int (length (window s)) \<le> entry_window settings"

lemmas direction_defs =
  direction_step_def decide_charge_direction_def record_entry_observation_def enters_def Let_def

lemma nat_entry_window: "int (length (last_n (nat (entry_window settings)) xs)) \<le> entry_window settings"
  using last_n_length [of "nat (entry_window settings)" xs] entry_window_pos [of settings] by linarith

interpretation dir: stepwise_invariant "direction_step settings" "\<lambda>_. True" "direction_ok settings"
  for settings
proof
  fix s :: charge_direction_state and x :: direction_input
  assume "direction_ok settings s"
  then show "direction_ok settings (direction_step settings s x)"
    using entry_window_pos [of settings] nat_entry_window [of settings]
    by (auto simp: direction_ok_def direction_defs)
qed

lemma direction_run_ok: "direction_ok settings (direction_run settings xs)"
  unfolding direction_run_def
  by (rule dir.run_inv)
     (use entry_window_pos [of settings] in \<open>auto simp: direction_ok_def initial_direction_state_def list_all_iff\<close>)

text \<open>The window is what the last cycles observed, all of them cycles that permitted a charge.\<close>

definition window_reads :: "charge_direction_settings \<Rightarrow> charge_direction_state \<Rightarrow> direction_input list \<Rightarrow> bool" where
  "window_reads settings s xs \<longleftrightarrow>
     length (window s) \<le> length xs \<and>
     window s = map (entry_observed settings) (last_n (length (window s)) xs) \<and>
     list_all charging_possible (last_n (length (window s)) xs)"

lemma window_reads_Nil: "window s = [] \<Longrightarrow> window_reads settings s xs"
  by (simp add: window_reads_def last_n_def)

lemma window_reads_observe:
  assumes "window_reads settings s xs" and "charging_possible x"
    and "window s' = last_n n (window s @ [entry_observed settings x])"
  shows "window_reads settings s' (xs @ [x])"
proof -
  let ?k = "length (window s)" and ?ys = "last_n (length (window s)) xs @ [x]"
  have k: "?k \<le> length xs" and w: "window s = map (entry_observed settings) (last_n ?k xs)"
    and p: "list_all charging_possible (last_n ?k xs)"
    using assms(1) by (simp_all add: window_reads_def)
  have ys: "?ys = last_n (Suc ?k) (xs @ [x])" using k by (rule last_n_snoc)
  have w': "window s' = map (entry_observed settings) (last_n n ?ys)"
    by (subst assms(3), subst w) (simp flip: last_n_map)
  have lys: "length ?ys = Suc ?k" using k by (simp add: last_n_def)
  have len: "length (window s') = min n (Suc ?k)"
    unfolding w' using lys by (simp add: last_n_def)
  have "last_n n ?ys = last_n (min n (Suc ?k)) ?ys"
    using lys by (simp add: last_n_def min_def)
  also have "\<dots> = last_n (length (window s')) (xs @ [x])"
    unfolding ys len by (rule last_n_last_n) simp
  finally have eq: "last_n n ?ys = last_n (length (window s')) (xs @ [x])" .
  moreover have "list_all charging_possible (last_n n ?ys)"
    using p assms(2) set_last_n [of n ?ys] by (auto simp: list_all_iff)
  ultimately show ?thesis
    using w' len k by (simp add: window_reads_def)
qed

lemma direction_run_window: "window_reads settings (direction_run settings xs) xs"
proof (induction xs rule: rev_induct)
  case Nil
  then show ?case by (simp add: window_reads_Nil initial_direction_state_def)
next
  case (snoc x xs)
  let ?s = "direction_run settings xs"
  have "window (direction_step settings ?s x) = [] \<or> charging_possible x \<and>
      window (direction_step settings ?s x) =
        last_n (nat (entry_window settings)) (window ?s @ [entry_observed settings x])"
    using direction_run_ok [of settings xs] by (auto simp: direction_ok_def direction_defs)
  then show ?case
    using window_reads_observe [OF snoc.IH] by (auto intro: window_reads_Nil)
qed

section \<open>The hourly limit over a run\<close>

lemma recent_recent: "m \<le> n \<Longrightarrow> recent_entries (recent_entries es m) n = recent_entries es n"
  by (auto simp: recent_entries_def intro!: filter_cong)

lemma recent_append: "recent_entries (es @ fs) n = recent_entries es n @ recent_entries fs n"
  by (simp add: recent_entries_def)

lemma direction_step_entries:
  "entries (direction_step settings s x) =
     recent_entries (entries s) (now x) @ (if enters settings s x then [now x] else [])"
  by (auto simp: direction_defs)

lemma enters_within_limit:
  "enters settings s x \<Longrightarrow>
     int (length (recent_entries (entries s) (now x))) < max 1 (max_entries_per_hour settings)"
  by (auto simp: direction_defs entry_rate_limited_def charge_entries_within_limit_def recent_recent
      split: if_splits)

text \<open>The entries inside the hour that ends at \<open>t\<close>.\<close>

definition entries_in_hour :: "seconds \<Rightarrow> seconds list \<Rightarrow> nat" where
  "entries_in_hour t es = length (filter (\<lambda>e. t - SECONDS_PER_HOUR < e \<and> e \<le> t) es)"

lemma entries_in_hour_recent:
  assumes "n \<le> t"
  shows "entries_in_hour t es \<le> length (recent_entries es n)"
proof -
  have "filter (\<lambda>e. t - SECONDS_PER_HOUR < e \<and> e \<le> t) es =
      filter (\<lambda>e. t - SECONDS_PER_HOUR < e \<and> e \<le> t) (recent_entries es n)"
    using assms by (auto simp: recent_entries_def intro!: filter_cong)
  then show ?thesis by (simp add: entries_in_hour_def)
qed

text \<open>The times at which a machine's calls entered, oldest first.\<close>

fun times_entered ::
  "('s \<Rightarrow> 'x \<Rightarrow> 's) \<Rightarrow> ('x \<Rightarrow> seconds) \<Rightarrow> ('s \<Rightarrow> 'x \<Rightarrow> bool) \<Rightarrow> 's \<Rightarrow> 'x list \<Rightarrow> seconds list" where
  "times_entered step clock enter s [] = []"
| "times_entered step clock enter s (x # xs) =
     (if enter s x then [clock x] else []) @ times_entered step clock enter (step s x) xs"

lemma times_entered_snoc:
  "times_entered step clock enter s (xs @ [x]) = times_entered step clock enter s xs @
     (if enter (run_steps step s xs) x then [clock x] else [])"
  by (induction xs arbitrary: s) auto

text \<open>
  What a machine with an hourly limit promises: it keeps the entry times that are still recent, and
  enters only while fewer than the limit are.
\<close>

locale hourly_limiter =
  fixes step :: "'s \<Rightarrow> 'x \<Rightarrow> 's" and clock :: "'x \<Rightarrow> seconds" and enter :: "'s \<Rightarrow> 'x \<Rightarrow> bool"
    and counted :: "'s \<Rightarrow> seconds list" and limit :: int
  assumes counted_step: "clock x \<le> n \<Longrightarrow> recent_entries (counted (step s x)) n =
      recent_entries (counted s @ (if enter s x then [clock x] else [])) n"
    and enter_within: "enter s x \<Longrightarrow> int (length (recent_entries (counted s) (clock x))) < max 1 limit"
begin

lemma run_counted:
  assumes "sorted (map clock xs)" and "\<forall>x \<in> set xs. clock x \<le> n" and "counted s = []"
  shows "recent_entries (counted (run_steps step s xs)) n =
    recent_entries (times_entered step clock enter s xs) n"
  using assms
proof (induction xs arbitrary: n rule: rev_induct)
  case (snoc x xs)
  then show ?case
    by (simp add: sorted_append run_steps_append counted_step recent_append times_entered_snoc)
qed (simp add: recent_entries_def)

lemma entries_limited:
  assumes "sorted (map clock xs)" and "counted s = []"
  shows "int (entries_in_hour t (times_entered step clock enter s xs)) \<le> max 1 limit"
  using assms(1)
proof (induction xs rule: rev_induct)
  case Nil
  then show ?case by (simp add: entries_in_hour_def)
next
  case (snoc x xs)
  let ?log = "times_entered step clock enter s xs" and ?s = "run_steps step s xs"
  have ih: "int (entries_in_hour t ?log) \<le> max 1 limit"
    using snoc by (simp add: sorted_append)
  show ?case
  proof (cases "enter ?s x \<and> t - SECONDS_PER_HOUR < clock x \<and> clock x \<le> t")
    case True
    have "recent_entries (counted ?s) (clock x) = recent_entries ?log (clock x)"
      using snoc.prems assms(2) by (intro run_counted) (auto simp: sorted_append)
    then have "int (length (recent_entries ?log (clock x))) < max 1 limit"
      using enter_within True by metis
    then have "int (entries_in_hour t ?log) < max 1 limit"
      using entries_in_hour_recent [of "clock x" t ?log] True by linarith
    then show ?thesis
      using True by (simp add: times_entered_snoc entries_in_hour_def)
  next
    case False
    then have "entries_in_hour t (times_entered step clock enter s (xs @ [x])) = entries_in_hour t ?log"
      by (auto simp: times_entered_snoc entries_in_hour_def)
    then show ?thesis using ih by simp
  qed
qed

end

interpretation hourly: hourly_limiter "direction_step settings" now "enters settings" entries
  "max_entries_per_hour settings" for settings
  by unfold_locales
    (simp_all add: direction_step_entries recent_append recent_recent enters_within_limit)

lemma entry_times_entered: "entry_times settings s xs = times_entered (direction_step settings) now (enters settings) s xs"
  by (induction xs arbitrary: s) auto

text \<open>
  C2. Charging is entered at most \<open>max_entries_per_hour\<close> times (at least once being allowed) in
  any window of an hour, over every run of the decision whose clock does not go back, whatever
  the measurements, thresholds and permissions of its cycles.
\<close>

theorem charge_entries_rate_limited:
  assumes "sorted (map now xs)"
  shows "int (entries_in_hour t (entry_times settings initial_direction_state xs))
    \<le> max 1 (max_entries_per_hour settings)"
  using hourly.entries_limited [OF assms, of initial_direction_state t settings]
  by (simp add: entry_times_entered initial_direction_state_def)

definition demo_settings :: charge_direction_settings where
  "demo_settings = \<lparr>start_w = 150, stop_w = 100, entry_confirm_cycles = 2, entry_window_cycles = 3,
     max_entries_per_hour = 1\<rparr>"

definition demo_cycle :: "seconds \<Rightarrow> watts \<Rightarrow> watts \<Rightarrow> direction_input" where
  "demo_cycle t desired load = \<lparr>charging_possible = True, commanded_total_w = 0,
     desired_total_w = desired, filtered_load_w = load, now = t\<rparr>"

definition demo_cycles :: "direction_input list" where
  "demo_cycles = [demo_cycle 0 0 (-200), demo_cycle 5 (-200) (-200), demo_cycle 10 0 0,
     demo_cycle 15 0 (-200), demo_cycle 20 (-200) (-200), demo_cycle 25 (-200) (-200)]"

theorem charge_entries_rate_limited_witness:
  "entry_times demo_settings initial_direction_state demo_cycles = [5] \<and>
   int (entries_in_hour 25 (entry_times demo_settings initial_direction_state demo_cycles)) \<le> 1 \<and>
   dec_rate_limited (decide_charge_direction demo_settings
     (direction_run demo_settings (butlast demo_cycles)) (last demo_cycles))"
proof -
  have "sorted (map now demo_cycles)" by code_simp
  from charge_entries_rate_limited [OF this, of 25 demo_settings]
  have "int (entries_in_hour 25 (entry_times demo_settings initial_direction_state demo_cycles)) \<le> 1"
    by (simp add: demo_settings_def)
  moreover have "entry_times demo_settings initial_direction_state demo_cycles = [5]" by code_simp
  moreover have "dec_rate_limited (decide_charge_direction demo_settings
     (direction_run demo_settings (butlast demo_cycles)) (last demo_cycles))" by code_simp
  ultimately show ?thesis by blast
qed

text \<open>
  C11. Charging is entered only on evidence: the cycle that enters is the last of at most
  \<open>entry_window\<close> cycles of the run, each of which permitted a charge, and at least
  \<open>entry_confirm_cycles\<close> of which saw the discharge side at its floor and the start
  threshold's surplus.
\<close>

theorem charge_entry_needs_evidence:
  assumes "dec_reason (decide_charge_direction settings (direction_run settings xs) x) = REASON_ENTERED"
  shows "\<exists>k \<le> length (xs @ [x]). int k \<le> entry_window settings \<and>
    list_all charging_possible (last_n k (xs @ [x])) \<and>
    max 1 (entry_confirm_cycles settings)
      \<le> int (length (filter (entry_observed settings) (last_n k (xs @ [x]))))"
proof -
  let ?s = "direction_run settings xs"
  let ?w = "last_n (nat (entry_window settings)) (window ?s @ [entry_observed settings x])"
  let ?s' = "?s\<lparr>window := ?w\<rparr>"
  have possible: "charging_possible x"
    and confirmed: "max 1 (entry_confirm_cycles settings) \<le> int (length (filter id ?w))"
    using assms by (auto simp: direction_defs entry_confirmed_def split: if_splits)
  have reads: "window_reads settings ?s' (xs @ [x])"
    by (rule window_reads_observe [OF direction_run_window possible]) simp
  then have w: "?w = map (entry_observed settings) (last_n (length ?w) (xs @ [x]))"
    by (simp add: window_reads_def)
  have "filter id ?w = map (entry_observed settings)
      (filter (entry_observed settings) (last_n (length ?w) (xs @ [x])))"
    by (subst w) (simp add: filter_map comp_def)
  then have "length (filter id ?w) =
      length (filter (entry_observed settings) (last_n (length ?w) (xs @ [x])))" by simp
  then show ?thesis
    using reads confirmed nat_entry_window [of settings]
    by (intro exI [of _ "length ?w"]) (simp add: window_reads_def)
qed

theorem charge_entry_needs_evidence_witness:
  "\<exists>k \<le> 2. int k \<le> 3 \<and>
    list_all charging_possible (last_n k (take 2 demo_cycles)) \<and>
    2 \<le> int (length (filter (entry_observed demo_settings) (last_n k (take 2 demo_cycles))))"
proof -
  have split: "take 1 demo_cycles @ [demo_cycles ! 1] = take 2 demo_cycles" by code_simp
  have "dec_reason (decide_charge_direction demo_settings (direction_run demo_settings (take 1 demo_cycles))
    (demo_cycles ! 1)) = REASON_ENTERED" by code_simp
  from charge_entry_needs_evidence [OF this, unfolded split] show ?thesis
    by (simp add: demo_settings_def entry_window_def demo_cycles_def numeral_2_eq_2)
qed

text \<open>
  A charge runs in a cycle only while it is permitted and needed: every cycle that charges
  permits it, and either continues a charge whose desired total is still below the stop threshold
  or enters one; in particular no counter and no rate limit delays the way back.
\<close>

lemma charging_is_permitted_and_needed:
  "dec_charging (decide_charge_direction settings s x) \<longleftrightarrow>
     charging_possible x \<and>
     (if charging s then desired_total_w x < - stop_w settings
      else dec_reason (decide_charge_direction settings s x) = REASON_ENTERED)"
  by (auto simp: direction_defs)

section \<open>What concentrating keeps\<close>

text \<open>
  The result is the split over the weights that are left: some devices lost theirs, each of them
  for a share below its minimum, so each of them costs less than \<open>MIN_DEVICE_CHARGE_W\<close>.
\<close>

definition usable_shares :: "bool list option \<Rightarrow> watts list \<Rightarrow> bool" where
  "usable_shares charging_now allocation \<longleftrightarrow>
     length (filter (\<lambda>v. 0 < v) allocation) \<le> 1 \<or> under_minimum charging_now allocation = []"

lemma minimum_share_le: "minimum_share_w i c \<le> MIN_DEVICE_CHARGE_W"
  by (simp add: minimum_share_w_def MIN_DEVICE_CHARGE_W_def split: option.splits)

lemma room_pos:
  assumes "length ws = length ls" and "j < length ws" and "0 < ws ! j" and "0 < ls ! j"
  shows "0 < room ws ls"
proof -
  let ?f = "\<lambda>j. if 0 < ls ! j \<and> 0 < ws ! j then ls ! j else 0"
  have "map ?f [0..<length ls] ! j \<le> sum_list (map ?f [0..<length ls])"
    using assms by (intro nth_le_sum_list) auto
  then show ?thesis using assms by (simp add: room_eq)
qed

lemma two_positive_other:
  assumes "1 < length (filter (\<lambda>v. 0 < v) (a :: rat list))"
  shows "\<exists>j < length a. j \<noteq> i \<and> 0 < a ! j"
proof (rule ccontr)
  assume "\<not> ?thesis"
  then have "{j. j < length a \<and> 0 < a ! j} \<subseteq> {i}" by auto
  then have "card {j. j < length a \<and> 0 < a ! j} \<le> 1" by (metis card.empty card_insert_disjoint card_mono empty_iff finite.emptyI finite.insertI One_nat_def)
  then show False using assms by (simp add: length_filter_conv_card)
qed

lemma dropped_share_costs_little:
  assumes "length ws = length ls" and "i < length ws" and "0 < weighted_limited_allocation t ws ls ! i"
  shows "min (max 0 t) (room ws ls) - weighted_limited_allocation t ws ls ! i
    \<le> min (max 0 t) (room (ws[i := 0]) ls)"
proof -
  let ?a = "weighted_limited_allocation t ws ls"
  have pos: "0 < ws ! i" "0 < ls ! i" using wla.alloc_pos [OF assms] by blast+
  have "?a ! i \<le> ls ! i" using wla.alloc_le_limit [OF assms(1,2), of t] pos by simp
  have "sum_list (?a[i := 0]) \<le> room (ws[i := 0]) ls"
    unfolding room_eq
  proof (rule sum_list_pointwise_mono)
    show "length (?a[i := 0]) = length (map (\<lambda>j. if 0 < ls ! j \<and> 0 < (ws[i := 0]) ! j then ls ! j else 0)
        [0..<length ls])" using assms by (simp add: wla.length_alloc)
  next
    fix j assume "j < length (?a[i := 0])"
    then have j: "j < length ws" using assms by (simp add: wla.length_alloc)
    show "(?a[i := 0]) ! j \<le> map (\<lambda>j. if 0 < ls ! j \<and> 0 < (ws[i := 0]) ! j then ls ! j else 0)
        [0..<length ls] ! j"
      using j assms wla.alloc_le_limit [OF assms(1) j, of t] wla.alloc_no_weight [OF assms(1) j, of t]
      by (auto simp: nth_list_update wla.length_alloc not_less)
  qed
  then have "sum_list ?a - ?a ! i \<le> room (ws[i := 0]) ls"
    using assms by (simp add: sum_list_update_rat wla.length_alloc)
  then show ?thesis using assms(3) by (simp add: wla.sum_alloc [OF assms(1)] min_le_iff_disj)
qed

definition thins :: "watts \<Rightarrow> watts list \<Rightarrow> rat list \<Rightarrow> rat list \<Rightarrow> bool" where
  "thins t ls ws vs \<longleftrightarrow>
     length vs = length ws \<and> (\<forall>i < length ws. vs ! i = ws ! i \<or> vs ! i = 0) \<and>
     min (max 0 t) (room ws ls) - MIN_DEVICE_CHARGE_W * of_nat (length (filter (\<lambda>w. 0 < w) ws)) \<le>
       min (max 0 t) (room vs ls) - MIN_DEVICE_CHARGE_W * of_nat (length (filter (\<lambda>w. 0 < w) vs)) \<and>
     (0 < room ws ls \<longrightarrow> 0 < room vs ls)"

lemma thins_refl: "thins t ls ws ws"
  by (simp add: thins_def)

lemma thins_trans: "thins t ls ws vs \<Longrightarrow> thins t ls vs us \<Longrightarrow> thins t ls ws us"
  unfolding thins_def by (elim conjE, intro conjI) (simp, metis, linarith, blast)

lemma thins_total:
  "thins t ls ws vs \<Longrightarrow> min (max 0 t) (room ws ls) -
     MIN_DEVICE_CHARGE_W * of_nat (length (filter (\<lambda>w. 0 < w) ws)) \<le> min (max 0 t) (room vs ls)"
  unfolding thins_def
  by (elim conjE, erule order.trans) (subst diff_le_eq, simp add: MIN_DEVICE_CHARGE_W_def)

lemma thins_drop:
  assumes len: "length ws = length ls" and u: "under_minimum c (weighted_limited_allocation t ws ls) = u # us"
    and two: "1 < length (filter (\<lambda>v. 0 < v) (weighted_limited_allocation t ws ls))"
  shows "thins t ls ws (ws[smallest_share (weighted_limited_allocation t ws ls) u us := 0])"
proof -
  let ?a = "weighted_limited_allocation t ws ls"
  let ?i = "smallest_share ?a u us" and ?ws = "ws[smallest_share ?a u us := 0]"
  have i: "?i < length ws" and wi: "0 < ws ! ?i" using smallest_share_loses_weight [OF u] by blast+
  have "?i \<in> set (under_minimum c ?a)" using smallest_share_in [of ?a u us] u by simp
  then have ai: "0 < ?a ! ?i" "?a ! ?i < MIN_DEVICE_CHARGE_W"
    using minimum_share_le [of ?i c] by (auto simp: under_minimum_def)
  obtain j where j: "j < length ws" "j \<noteq> ?i" "0 < ?a ! j"
    using two_positive_other [OF two, of ?i] len by (auto simp: wla.length_alloc)
  then have room: "0 < room ?ws ls"
    using wla.alloc_pos [OF len j(1,3)] len by (intro room_pos [of _ _ j]) auto
  have "(of_nat (Suc (length (filter (\<lambda>w. 0 < w) ?ws))) :: rat) \<le> of_nat (length (filter (\<lambda>w. 0 < w) ws))"
    using drop_positive_weight [OF i wi] by (simp only: of_nat_le_iff Suc_le_eq)
  then have "min (max 0 t) (room ws ls) - MIN_DEVICE_CHARGE_W * of_nat (length (filter (\<lambda>w. 0 < w) ws)) \<le>
      min (max 0 t) (room ?ws ls) - MIN_DEVICE_CHARGE_W * of_nat (length (filter (\<lambda>w. 0 < w) ?ws))"
    using dropped_share_costs_little [OF len i ai(1)] ai
    unfolding MIN_DEVICE_CHARGE_W_def of_nat_Suc by linarith
  then show ?thesis using room i by (auto simp: thins_def nth_list_update)
qed

lemma concentrate_spec:
  assumes "length ws = length ls"
  shows "\<exists>vs. thins t ls ws vs \<and> concentrate t ws ls c = weighted_limited_allocation t vs ls \<and>
    usable_shares c (concentrate t ws ls c)"
  using assms
proof (induction t ws ls c rule: concentrate.induct)
  case (1 t ws ls c)
  let ?a = "weighted_limited_allocation t ws ls"
  show ?case
  proof (cases "usable_shares c ?a")
    case True
    then have "concentrate t ws ls c = ?a"
      by (subst concentrate.simps) (auto simp: usable_shares_def Let_def)
    then show ?thesis using True thins_refl by fastforce
  next
    case False
    then have two: "\<not> length (filter (\<lambda>v. 0 < v) ?a) \<le> 1" by (simp add: usable_shares_def)
    obtain u us where u: "under_minimum c ?a = u # us"
      using False by (auto simp: usable_shares_def neq_Nil_conv)
    let ?ws = "ws[smallest_share ?a u us := 0]"
    have eq: "concentrate t ws ls c = concentrate t ?ws ls c"
      using two u by (subst concentrate.simps) (simp add: Let_def)
    have "thins t ls ws ?ws" using thins_drop [OF 1(2) u] two by simp
    then show ?thesis
      using 1(1) [OF refl two u] 1(2) unfolding eq by (auto intro: thins_trans)
  qed
qed

lemma usable_shares_worth:
  assumes "usable_shares c a" and "length a = n" and "\<And>i. i < n \<Longrightarrow> 0 \<le> a ! i"
  shows "length (filter (\<lambda>v. 0 < v) a) \<le> 1 \<or>
    list_all (\<lambda>i. a ! i = 0 \<or> minimum_share_w i c \<le> a ! i) [0..<n]"
  using assms by (fastforce simp: usable_shares_def under_minimum_def filter_empty_conv list_all_iff)

lemma length_charge_weights [simp]: "length (charge_weights states dcs caps ok) = length states"
  by (simp add: charge_weights_def)

lemma length_charge_limits [simp]: "length (charge_limits n ok cs) = n"
  by (simp add: charge_limits_def)

lemma charge_limit_nth: "i < n \<Longrightarrow> charge_limits n ok cs ! i = (if ok ! i then of_int (max 0 (cs ! i)) else 0)"
  by (simp add: charge_limits_def)

lemma charge_limit_nonneg: "i < n \<Longrightarrow> 0 \<le> charge_limits n ok cs ! i"
  by (simp add: charge_limit_nth)

text \<open>The unrounded shares of a charge total.\<close>

definition charge_shares ::
  "watts \<Rightarrow> device_state list \<Rightarrow> device_config list \<Rightarrow> device_capabilities list \<Rightarrow>
   bool list \<Rightarrow> int list \<Rightarrow> bool list option \<Rightarrow> watts list" where
  "charge_shares total_charge_w states device_configs capabilities chargeable ceilings charging_now =
     concentrate (max 0 total_charge_w)
       (charge_weights states device_configs capabilities chargeable)
       (charge_limits (length states) chargeable ceilings) charging_now"

lemma charge_shares_spec:
  obtains vs where "length vs = length states"
    and "thins (max 0 t) (charge_limits (length states) ok cs) (charge_weights states dcs caps ok) vs"
    and "charge_shares t states dcs caps ok cs c =
      weighted_limited_allocation (max 0 t) vs (charge_limits (length states) ok cs)"
    and "usable_shares c (charge_shares t states dcs caps ok cs c)"
  using concentrate_spec [of "charge_weights states dcs caps ok" "charge_limits (length states) ok cs" "max 0 t" c]
  by (auto simp: charge_shares_def thins_def)

lemma charge_shares_bounds:
  shows "length (charge_shares t states dcs caps ok cs c) = length states"
    and "i < length states \<Longrightarrow> 0 \<le> charge_shares t states dcs caps ok cs c ! i"
    and "i < length states \<Longrightarrow> charge_shares t states dcs caps ok cs c ! i \<le>
      charge_limits (length states) ok cs ! i"
    and "sum_list (charge_shares t states dcs caps ok cs c) \<le> max 0 t"
proof -
  obtain vs where l: "length vs = length states" and eq: "charge_shares t states dcs caps ok cs c =
      weighted_limited_allocation (max 0 t) vs (charge_limits (length states) ok cs)"
    using charge_shares_spec by metis
  have len: "length vs = length (charge_limits (length states) ok cs)" using l by simp
  show "length (charge_shares t states dcs caps ok cs c) = length states"
    unfolding eq wla.length_alloc [OF len] by (rule l)
  show "0 \<le> charge_shares t states dcs caps ok cs c ! i" if "i < length states"
    unfolding eq using wla.alloc_nonneg [OF len] l that by simp
  show "charge_shares t states dcs caps ok cs c ! i \<le> charge_limits (length states) ok cs ! i"
    if "i < length states"
    unfolding eq using wla.alloc_le_limit [OF len, of i "max 0 t"] l that
    by (simp add: max_absorb2 charge_limit_nonneg)
  show "sum_list (charge_shares t states dcs caps ok cs c) \<le> max 0 t"
    unfolding eq using wla.alloc_sum_le [OF len, of "max 0 t"] by simp
qed

lemma allocate_charge_targets_shares:
  "allocate_charge_targets t states dcs caps ok cs c =
     map (\<lambda>v. - py_round v) (charge_shares t states dcs caps ok cs c)"
  by (simp add: allocate_charge_targets_def charge_shares_def)

lemma sum_rounded_ge: "- sum_list xs - of_nat (length xs) / 2 \<le> of_int (sum_list (map (\<lambda>v. - py_round v) xs))"
proof (induction xs)
  case Nil
  then show ?case by simp
next
  case (Cons x xs)
  then show ?case using py_round_le [of x] by (simp add: field_simps)
qed

text \<open>
  Charge targets are draws within the limits: every target is between the negated ceiling of
  its device and zero, a device that may not charge gets zero, and together the devices draw no
  more than the requested total, up to half a watt of rounding each.
\<close>

lemma charge_targets_within_ceilings:
  assumes "length device_configs = length states" and "length chargeable = length states"
    and "length ceilings = length states" and "i < length states"
  shows "- max 0 (ceilings ! i)
      \<le> allocate_charge_targets total_charge_w states device_configs capabilities chargeable ceilings charging_now ! i \<and>
    allocate_charge_targets total_charge_w states device_configs capabilities chargeable ceilings charging_now ! i \<le> 0 \<and>
    (\<not> chargeable ! i \<longrightarrow>
      allocate_charge_targets total_charge_w states device_configs capabilities chargeable ceilings charging_now ! i = 0) \<and>
    - max 0 total_charge_w - of_nat (length states) / 2 \<le>
      of_int (sum_list
        (allocate_charge_targets total_charge_w states device_configs capabilities chargeable ceilings charging_now))"
proof -
  let ?s = "charge_shares total_charge_w states device_configs capabilities chargeable ceilings charging_now"
  note b = charge_shares_bounds [where t = total_charge_w and states = states and dcs = device_configs
      and caps = capabilities and ok = chargeable and cs = ceilings and c = charging_now]
  have lo: "0 \<le> ?s ! i" and hi: "?s ! i \<le> charge_limits (length states) chargeable ceilings ! i"
    using b(2,3) assms(4) by blast+
  have "py_round (?s ! i) \<le> (if chargeable ! i then max 0 (ceilings ! i) else 0)"
    using hi assms(4) by (intro py_round_mono_int) (simp add: charge_limit_nth split: if_splits)
  moreover have "0 \<le> py_round (?s ! i)" using lo by simp
  moreover have "- max 0 total_charge_w - of_nat (length states) / 2 \<le>
      of_int (sum_list (map (\<lambda>v. - py_round v) ?s))"
    using sum_rounded_ge [of ?s] b(1,4) by linarith
  ultimately show ?thesis
    using b(1) assms(4) by (auto simp: allocate_charge_targets_shares split: if_splits)
qed

text \<open>
  A small charge is concentrated, not lost: after the concentrating loop either at most one
  device takes a share, or every share taken is worth a direction change
  (\<open>minimum_share_w\<close>); the shares absorb the requested total, or all the room the willing
  devices have, up to 50 W for every device that was dropped; and a positive total that some
  device can take is never dropped altogether.
\<close>

lemma charge_is_concentrated_not_lost:
  assumes "0 < charge_weights states device_configs capabilities chargeable ! j"
    and "j < length states" and "chargeable ! j" and "0 < ceilings ! j" and "0 < total_charge_w"
  shows "let shares =
      charge_shares total_charge_w states device_configs capabilities chargeable ceilings charging_now
    in (length (filter (\<lambda>v. 0 < v) shares) \<le> 1 \<or>
        list_all (\<lambda>i. shares ! i = 0 \<or> minimum_share_w i charging_now \<le> shares ! i) [0..<length states]) \<and>
      0 < sum_list shares \<and>
      min total_charge_w (room (charge_weights states device_configs capabilities chargeable)
          (charge_limits (length states) chargeable ceilings)) -
        MIN_DEVICE_CHARGE_W * of_nat (length states) \<le> sum_list shares"
proof -
  let ?ls = "charge_limits (length states) chargeable ceilings"
  let ?ws = "charge_weights states device_configs capabilities chargeable"
  let ?shares = "charge_shares total_charge_w states device_configs capabilities chargeable ceilings charging_now"
  obtain vs where l: "length vs = length states" and th: "thins (max 0 total_charge_w) ?ls ?ws vs"
    and eq: "?shares = weighted_limited_allocation (max 0 total_charge_w) vs ?ls"
    and us: "usable_shares charging_now ?shares"
    using charge_shares_spec by metis
  have sum: "sum_list ?shares = min total_charge_w (room vs ?ls)"
    unfolding eq using wla.sum_alloc [of vs ?ls] l assms(5) by simp
  have "length (filter (\<lambda>v. 0 < v) ?shares) \<le> 1 \<or>
      list_all (\<lambda>i. ?shares ! i = 0 \<or> minimum_share_w i charging_now \<le> ?shares ! i) [0..<length states]"
    by (rule usable_shares_worth [OF us charge_shares_bounds(1,2)])
  moreover have "0 < room ?ws ?ls"
    using assms(1-4) by (intro room_pos [of _ _ j]) (auto simp: charge_limit_nth)
  then have "0 < sum_list ?shares"
    unfolding sum using th assms(5) by (simp add: thins_def)
  moreover have "(of_nat (length (filter (\<lambda>w. 0 < w) ?ws)) :: rat) \<le> of_nat (length states)"
    using length_filter_le [of _ ?ws] by (simp only: of_nat_le_iff length_charge_weights)
  then have "min total_charge_w (room ?ws ?ls) - MIN_DEVICE_CHARGE_W * of_nat (length states) \<le> sum_list ?shares"
    using thins_total [OF th] assms(5) unfolding sum MIN_DEVICE_CHARGE_W_def by linarith
  ultimately show ?thesis unfolding Let_def by blast
qed

end
