(* ===== verification/Output_Regulation.thy ===== *)
theory Output_Regulation
  imports Ac_Charge_Control
begin

text \<open>
  The output regulation of \<open>ems/controller.py\<close>: filtering the meter reading, integrating it into
  one commanded total, ramping the total and the devices' targets, and deciding who may charge.

  \<open>regulator_state\<close> holds the controller's attributes of this loop; a method returns the changed
  state and its result. Configuration values are read as finite numbers and each is raised to the
  minimum the code gives it. Logging is left out. What the controller asks elsewhere in the cycle
  (which device's output may be controlled, whose charge is the system's own, how old telemetry
  is) enters as arguments.

  Proved: the filter stays within the range of what the meter showed and does not contradict a
  large reading; the total stays between the charge floor and the maximum, follows the filtered
  load without overshooting it and within the ramp; each device's target stays within its own
  limits and ramp and leaves a charge at once; and a charge direction is entered only with
  capacity that outlasts the exit.
\<close>

section \<open>Configuration and state\<close>

record output_control_config =
  filter_enabled :: bool
  median_window :: int
  filter_method :: string
  ema_alpha :: rat
  sign_change_fast_response_enabled :: bool
  sign_change_threshold_w :: watts
  sign_change_filter_reset_factor :: rat
  load_deadband_w :: watts
  target_deadband_w :: watts
  ramp_enabled :: bool
  ramp_up_w_per_cycle :: watts
  ramp_down_w_per_cycle :: watts
  bypass_ramp_multiplier :: rat
  stale_telemetry_ramp_factor :: rat
  large_import_bypass_w :: watts
  large_export_bypass_w :: watts
  device_ramp_enabled :: bool
  device_ramp_up_w_per_cycle :: watts
  device_ramp_down_w_per_cycle :: watts
  telemetry_max_age_seconds :: seconds
  max_total_charge_power_w :: int

record regulator_state =
  load_history :: "watts list"
  filtered_load :: "watts option"
  commanded_total :: "watts option"
  desired_total :: "watts option"
  commanded_device_targets :: "string \<rightharpoonup> watts"
  charge_direction :: charge_direction_state
  charge_capacity_w :: int
  device_charge_limits :: "string \<rightharpoonup> int"
  grid_meter_holding :: bool
  charges_being_left :: "string list"

definition reset_output_control_state :: "regulator_state \<Rightarrow> regulator_state" where
  "reset_output_control_state st =
     st\<lparr>commanded_total := None, filtered_load := None, desired_total := None, load_history := [],
        commanded_device_targets := Map.empty\<rparr>"

definition update_grid_meter_holding :: "bool \<Rightarrow> regulator_state \<Rightarrow> regulator_state \<times> bool" where
  "update_grid_meter_holding holding st =
     ((if holding \<noteq> grid_meter_holding st
       then st\<lparr>load_history := [], filtered_load := None\<rparr> else st)\<lparr>grid_meter_holding := holding\<rparr>,
      holding)"

section \<open>Filtering the meter\<close>

definition output_control_bypass_active :: "output_control_config \<Rightarrow> watts \<Rightarrow> bool" where
  "output_control_bypass_active c raw_load \<longleftrightarrow>
     max 0 (large_import_bypass_w c) \<le> raw_load \<or> raw_load \<le> - max 0 (large_export_bypass_w c)"

definition median :: "watts list \<Rightarrow> watts" where
  "median xs =
     (let values = sort xs; mid = length values div 2
      in if odd (length values) then values ! mid
         else (values ! (mid - 1) + values ! mid) / 2)"

definition filter_output_control_load ::
  "output_control_config \<Rightarrow> watts \<Rightarrow> regulator_state \<Rightarrow> regulator_state \<times> watts" where
  "filter_output_control_load c raw_load st =
     (if \<not> filter_enabled c then (st, raw_load)
      else
        let window = nat (max 1 (median_window c));
            history = last_n window (last_n window (load_history st) @ [raw_load]);
            st1 = st\<lparr>load_history := history\<rparr>;
            m = median history
        in if filter_method c \<noteq> ''median_ema'' then (st1, raw_load)
           else
             let alpha = min 1 (max 0 (ema_alpha c));
                 normal_filtered =
                   (case filtered_load st of None \<Rightarrow> m
                    | Some previous_filtered \<Rightarrow> alpha * m + (1 - alpha) * previous_filtered);
                 st2 = st1\<lparr>filtered_load := Some normal_filtered\<rparr>
             in if \<not> sign_change_fast_response_enabled c then (st2, normal_filtered)
                else
                  let threshold = max 0 (sign_change_threshold_w c);
                      export_mismatch = (raw_load \<le> - threshold \<and> 0 < normal_filtered);
                      import_mismatch = (threshold \<le> raw_load \<and> normal_filtered < 0)
                  in if \<not> export_mismatch \<and> \<not> import_mismatch then (st2, normal_filtered)
                     else
                       let reset_factor = min 1 (max 0 (sign_change_filter_reset_factor c));
                           adjusted_filtered =
                             reset_factor * raw_load + (1 - reset_factor) * normal_filtered
                       in (st2\<lparr>filtered_load := Some adjusted_filtered\<rparr>, adjusted_filtered))"

section \<open>The commanded total\<close>

definition usable_charge_capacity_w :: "output_control_config \<Rightarrow> regulator_state \<Rightarrow> int" where
  "usable_charge_capacity_w c st =
     min (max 0 (max_total_charge_power_w c)) (max 0 (charge_capacity_w st))"

definition commanded_total_floor_w :: "output_control_config \<Rightarrow> regulator_state \<Rightarrow> int" where
  "commanded_total_floor_w c st =
     (if \<not> charging (charge_direction st) then 0 else - usable_charge_capacity_w c st)"

text \<open>\<open>own_charge ! i\<close> is \<open>charge_commanded_by_ems\<close> of device \<open>i\<close>.\<close>

definition initialize_commanded_total ::
  "output_control_config \<Rightarrow> bool list \<Rightarrow> device_state list \<Rightarrow> watts \<Rightarrow> regulator_state \<Rightarrow> regulator_state" where
  "initialize_commanded_total c own_charge states max_power st =
     (let limit_total = sum_list (map output_limit (filter (\<lambda>s. 0 < output_limit s) states));
          output_total = sum_list (map output_w states);
          initial =
            (if charging (charge_direction st)
             then output_total -
               of_int (sum_list (map (\<lambda>(own, s). if own then max 0 (grid_input s) else 0) (zip own_charge states)))
             else if 0 < limit_total then limit_total
             else output_total)
      in st\<lparr>commanded_total := Some (max (of_int (commanded_total_floor_w c st)) (min max_power initial))\<rparr>)"

definition telemetry_stale :: "output_control_config \<Rightarrow> seconds option list \<Rightarrow> bool" where
  "telemetry_stale c ages =
     (let max_age = max 0 (telemetry_max_age_seconds c)
      in if max_age \<le> 0 then True
         else list_ex (\<lambda>age. case age of None \<Rightarrow> False | Some a \<Rightarrow> max_age < a) ages)"

definition telemetry_fresh :: "output_control_config \<Rightarrow> seconds option \<Rightarrow> bool" where
  "telemetry_fresh c age =
     (let max_age = max 0 (telemetry_max_age_seconds c)
      in if max_age \<le> 0 then False
         else case age of None \<Rightarrow> False | Some a \<Rightarrow> a \<le> max_age)"

definition state_has_positive_pv :: "device_state \<Rightarrow> bool" where
  "state_has_positive_pv s \<longleftrightarrow> 0 < pv_power s"

definition has_output_control_export_capacity ::
  "device_state list \<Rightarrow> device_capabilities list \<Rightarrow> nat list \<Rightarrow> bool" where
  "has_output_control_export_capacity states capabilities active_indexes =
     list_ex (\<lambda>i. \<not> export_held (capabilities ! i) \<and>
       (state_has_positive_pv (states ! i) \<or> can_discharge (capabilities ! i) \<or> 0 < output_w (states ! i)))
       active_indexes"

text \<open>The ramp of one cycle, for a nonzero change \<open>delta\<close> of the total.\<close>

definition total_ramp_limit :: "output_control_config \<Rightarrow> watts \<Rightarrow> watts \<Rightarrow> bool \<Rightarrow> bool \<Rightarrow> bool \<times> watts" where
  "total_ramp_limit c commanded delta bypass stale =
     (let base = max 0 (if 0 < delta then ramp_up_w_per_cycle c else ramp_down_w_per_cycle c);
          limited = (0 < base);
          ramp_limit = (if bypass then base * max 1 (bypass_ramp_multiplier c) else base);
          stale_limit = ramp_limit * max 0 (stale_telemetry_ramp_factor c)
      in (limited,
          if stale
          then (if commanded < 0 \<and> 0 < delta
                then max stale_limit (min ramp_limit (- commanded)) else stale_limit)
          else ramp_limit))"

definition ramp_total ::
  "output_control_config \<Rightarrow> watts \<Rightarrow> watts \<Rightarrow> bool \<Rightarrow> bool \<Rightarrow> bool \<Rightarrow> watts" where
  "ramp_total c commanded desired held bypass stale =
     (let delta = desired - commanded
      in if \<not> held \<and> ramp_enabled c \<and> delta \<noteq> 0
         then let (limited, ramp_limit) = total_ramp_limit c commanded delta bypass stale
              in if limited \<and> ramp_limit < \<bar>delta\<bar>
                 then (if 0 < delta then commanded + ramp_limit else commanded - ramp_limit)
                 else desired
         else desired)"

definition clamp :: "watts \<Rightarrow> watts \<Rightarrow> watts \<Rightarrow> watts" where
  "clamp lo hi x = max lo (min hi x)"

text \<open>
  The decision of a cycle from the filtered load and the total commanded \<open>before\<close>: the total
  wanted before the ramp, and the total commanded now.
\<close>

definition regulate_total ::
  "output_control_config \<Rightarrow> watts \<Rightarrow> watts \<Rightarrow> bool \<Rightarrow> watts \<Rightarrow> bool \<Rightarrow> watts \<Rightarrow> watts \<Rightarrow> watts \<Rightarrow>
   watts \<times> watts" where
  "regulate_total c raw_load max_power has_export_capacity standby_total_w stale floor_w filtered before =
     (let no_capacity = (0 < raw_load \<and> \<not> has_export_capacity \<and> 0 \<le> before);
          commanded = (if no_capacity then min before standby_total_w else before);
          held1 = (no_capacity \<or> \<bar>filtered\<bar> \<le> max 0 (load_deadband_w c));
          desired1 = clamp floor_w max_power (if held1 then commanded else commanded + filtered);
          settled = (\<not> held1 \<and> \<bar>desired1 - commanded\<bar> \<le> max 0 (target_deadband_w c));
          desired = (if settled then commanded else desired1)
      in (desired, clamp floor_w max_power (ramp_total c commanded desired (held1 \<or> settled)
            (output_control_bypass_active c raw_load) stale)))"

definition stabilized_total_target ::
  "output_control_config \<Rightarrow> watts \<Rightarrow> device_state list \<Rightarrow> watts \<Rightarrow> bool \<Rightarrow> watts \<Rightarrow> bool list \<Rightarrow> bool \<Rightarrow>
   regulator_state \<Rightarrow> regulator_state \<times> watts" where
  "stabilized_total_target c raw_load states max_power has_export_capacity standby_total_w own_charge
       stale st0 =
     (let st1 = (if commanded_total st0 = None
                 then initialize_commanded_total c own_charge states max_power st0 else st0);
          (st2, filtered) = filter_output_control_load c raw_load st1;
          (desired, ramped) = regulate_total c raw_load max_power has_export_capacity standby_total_w stale
            (of_int (commanded_total_floor_w c st2)) filtered (the (commanded_total st2))
      in (st2\<lparr>desired_total := Some desired, commanded_total := Some ramped\<rparr>, ramped))"

section \<open>The devices' targets\<close>

definition device_charge_floor_w :: "regulator_state \<Rightarrow> string \<Rightarrow> int" where
  "device_charge_floor_w st name =
     (if \<not> charging (charge_direction st) then 0
      else - max 0 (case device_charge_limits st name of None \<Rightarrow> 0 | Some w \<Rightarrow> w))"

definition device_ramp_limit :: "output_control_config \<Rightarrow> bool \<Rightarrow> watts \<Rightarrow> watts" where
  "device_ramp_limit c bypass delta =
     max 0 (if 0 < delta then device_ramp_up_w_per_cycle c else device_ramp_down_w_per_cycle c) *
     (if bypass then max 1 (bypass_ramp_multiplier c) else 1)"

text \<open>What one device's discharge ramps from: zero, once the charge direction is left.\<close>

definition ramp_origin :: "regulator_state \<Rightarrow> watts \<Rightarrow> watts" where
  "ramp_origin st previous =
     (if previous < 0 \<and> \<not> charging (charge_direction st) then 0 else previous)"

definition ramp_device_target ::
  "output_control_config \<Rightarrow> bool \<Rightarrow> device_config \<Rightarrow> regulator_state \<Rightarrow> watts \<Rightarrow> watts" where
  "ramp_device_target c bypass dev st target =
     (case commanded_device_targets st (dev_name dev) of
        None \<Rightarrow> target
      | Some commanded \<Rightarrow>
          let previous = ramp_origin st commanded;
              delta = target - previous;
              limit = device_ramp_limit c bypass delta;
              ramped = (if 0 < limit \<and> limit < \<bar>delta\<bar>
                        then (if 0 < delta then previous + limit else previous - limit) else target)
          in clamp (of_int (device_charge_floor_w st (dev_name dev))) (dev_max_power dev) ramped)"

text \<open>
  One pass over the devices; \<open>allowed\<close> is \<open>device_output_control_allowed\<close> of each, in order.
\<close>

fun apply_device_ramp_loop ::
  "output_control_config \<Rightarrow> bool \<Rightarrow> (device_config \<times> bool \<times> watts) list \<Rightarrow> regulator_state \<Rightarrow>
   regulator_state \<times> watts list" where
  "apply_device_ramp_loop c bypass [] st = (st, [])"
| "apply_device_ramp_loop c bypass ((dev, allowed, target) # rest) st =
     (let ramped =
            (if \<not> allowed then 0
             else if device_ramp_enabled c then ramp_device_target c bypass dev st target
             else target);
          (st', ts) = apply_device_ramp_loop c bypass rest
            (st\<lparr>commanded_device_targets := (commanded_device_targets st)(dev_name dev \<mapsto> ramped)\<rparr>)
      in (st', ramped # ts))"

definition apply_device_ramp ::
  "output_control_config \<Rightarrow> device_config list \<Rightarrow> bool list \<Rightarrow> watts list \<Rightarrow> watts \<Rightarrow> regulator_state \<Rightarrow>
   regulator_state \<times> watts list" where
  "apply_device_ramp c devices allowed targets raw_load st =
     apply_device_ramp_loop c (output_control_bypass_active c raw_load)
       (zip devices (zip allowed targets)) st"

section \<open>Who may charge\<close>

text \<open>
  The permission axes of one device in one cycle: the feature, the operator's switch, the model,
  reachability and activation, the claim on its AC mode, the assist's hold and the system's own
  charge.
\<close>

record charge_axes =
  feature_enabled :: bool
  device_switch :: bool
  model_supports_charge :: bool
  device_online :: bool
  device_enabled :: bool
  intent_allows_command :: bool
  assist_holds_direction :: bool
  own_charge_running :: bool
  rated_charge_power_w :: int
  charge_bounded_by_max_power :: bool

definition charge_permitted :: "charge_axes \<Rightarrow> bool" where
  "charge_permitted a \<longleftrightarrow> feature_enabled a \<and> device_switch a \<and> model_supports_charge a"

definition device_active :: "charge_axes \<Rightarrow> bool" where
  "device_active a \<longleftrightarrow> device_online a \<and> device_enabled a"

definition pack_drained_from_outside :: "device_state \<Rightarrow> bool" where
  "pack_drained_from_outside s =
     (let drain = max 0 (py_int (pack_in s))
      in if drain \<le> 0 then False
         else
           let fed = max 0 (py_int (output_w s))
           in \<not> (0 < max 0 (py_int (output_limit s)) \<and> 0 < fed \<and>
                  of_int drain \<le> of_int fed + OWN_DRAIN_MARGIN_W))"

definition device_charge_allowed ::
  "charge_axes \<Rightarrow> device_state \<Rightarrow> device_config \<Rightarrow> device_capabilities option \<Rightarrow> bool" where
  "device_charge_allowed a s dev capability =
     (if \<not> charge_permitted a then False
      else if \<not> device_active a then False
      else if denies can_charge capability then False
      else if \<not> intent_allows_command a then False
      else if assist_holds_direction a then False
      else if charge_headroom_weight s (Some dev) capability \<le> 0 then False
      else own_charge_running a \<or> \<not> pack_drained_from_outside s)"

definition device_charge_ceiling_w :: "charge_axes \<Rightarrow> device_config \<Rightarrow> device_state \<Rightarrow> int" where
  "device_charge_ceiling_w a dev s =
     (let ceil = resolve_max_charge_power_w dev (Some s) (rated_charge_power_w a);
          max_power = max 0 (py_int (dev_max_power dev))
      in if charge_bounded_by_max_power a \<and> 0 < max_power then min ceil max_power else ceil)"

definition charge_capacity_outlasts_the_exit ::
  "output_control_config \<Rightarrow> charge_direction_settings \<Rightarrow> regulator_state \<Rightarrow> bool" where
  "charge_capacity_outlasts_the_exit c settings st \<longleftrightarrow>
     stop_w settings < of_int (usable_charge_capacity_w c st)"

definition eligible_ceiling :: "charge_axes \<times> device_config \<times> device_state \<times> device_capabilities \<Rightarrow> int" where
  "eligible_ceiling d =
     (case d of (a, dev, s, capability) \<Rightarrow>
        if device_charge_allowed a s dev (Some capability) then device_charge_ceiling_w a dev s else 0)"

definition resolve_charge_eligibility ::
  "output_control_config \<Rightarrow> charge_direction_settings \<Rightarrow>
   (charge_axes \<times> device_config \<times> device_state \<times> device_capabilities) list \<Rightarrow> regulator_state \<Rightarrow>
   regulator_state \<times> bool list" where
  "resolve_charge_eligibility c settings ds st =
     (let ceilings = map eligible_ceiling ds;
          chargeable = map (\<lambda>w. 0 < w) ceilings;
          limits = fold (\<lambda>(d, w) m. m(dev_name (fst (snd d)) \<mapsto> w)) (zip ds ceilings) Map.empty;
          st1 = st\<lparr>device_charge_limits := limits,
                   charge_capacity_w := sum_list (map (\<lambda>n. the (limits n)) (remdups (map (\<lambda>d. dev_name (fst (snd d))) ds)))\<rparr>
      in (st1, if list_ex id chargeable \<and> \<not> charge_capacity_outlasts_the_exit c settings st1
               then replicate (length chargeable) False else chargeable))"

text \<open>The one writer of the charge direction.\<close>

definition take_charge_decision ::
  "charge_direction_settings \<Rightarrow> bool \<Rightarrow> watts \<Rightarrow> watts \<Rightarrow> watts \<Rightarrow> bool list \<Rightarrow> watts \<Rightarrow> seconds \<Rightarrow>
   regulator_state \<Rightarrow> regulator_state \<times> charge_direction_decision" where
  "take_charge_decision settings meter_fresh commanded desired filtered chargeable releasable_output_w n st =
     (let filtered1 = (if grid_meter_holding st then 0 else filtered);
          decision = decide_charge_direction settings (charge_direction st)
            \<lparr>charging_possible = list_ex id chargeable \<and> meter_fresh, commanded_total_w = commanded,
             desired_total_w = desired, filtered_load_w = filtered1 + max 0 releasable_output_w, now = n\<rparr>
      in (st\<lparr>charge_direction := dec_state decision\<rparr>, decision))"

section \<open>Leaving a charge\<close>

text \<open>\<open>owed ! i\<close>: the system's own charge is on device \<open>i\<close>, or its one found exit is due.\<close>

fun devices_leaving_a_charge ::
  "(string \<times> bool \<times> bool \<times> device_state) list \<Rightarrow> string list \<Rightarrow>
   string list \<times> device_state list \<times> bool" where
  "devices_leaving_a_charge [] names = (names, [], False)"
| "devices_leaving_a_charge ((name, online, owed, s) # rest) names =
     (if \<not> online then devices_leaving_a_charge rest names
      else
        let gone = (\<not> owed \<and> name \<in> set names \<and> \<not> (settling_out_of_charge s \<and> 0 < grid_input s));
            names1 = (if owed then List.insert name names
                      else if gone then removeAll name names else names);
            (names2, leaving, left) = devices_leaving_a_charge rest names1
        in (names2, if name \<in> set names1 then s # leaving else leaving, gone \<or> left))"

definition discharge_total_leaving_a_charge ::
  "(string \<times> bool \<times> bool \<times> device_state) list \<Rightarrow> watts \<Rightarrow> watts \<Rightarrow> watts \<Rightarrow> bool \<Rightarrow> watts \<Rightarrow>
   regulator_state \<Rightarrow> regulator_state \<times> watts" where
  "discharge_total_leaving_a_charge ds load total_cmd max_power has_export_capacity standby_total_w st =
     (if grid_meter_holding st then (st, total_cmd)
      else
        let (names, leaving, left) = devices_leaving_a_charge ds (charges_being_left st);
            st1 = st\<lparr>charges_being_left := names\<rparr>
        in if leaving = [] \<and> \<not> left then (st1, total_cmd)
           else
             let draw_w = sum_list (map (\<lambda>s. max 0 (grid_input s)) leaving);
                 house_w = derive_house_load_w
                   (Some (sum_list (map (\<lambda>(_, _, _, s). output_w s) ds))) (Some load) (Some (of_int draw_w));
                 sized = (if has_export_capacity then house_w else min house_w standby_total_w);
                 commanded = min max_power sized
             in (st1\<lparr>commanded_total := Some commanded, load_history := [], filtered_load := None\<rparr>, commanded))"

section \<open>The filter stays within what the meter showed\<close>

definition in_band :: "watts \<Rightarrow> watts \<Rightarrow> watts \<Rightarrow> bool" where
  "in_band lo hi x \<longleftrightarrow> lo \<le> x \<and> x \<le> hi"

lemma in_band_mix:
  assumes "0 \<le> a" "a \<le> 1" "in_band lo hi x" "in_band lo hi y"
  shows "in_band lo hi (a * x + (1 - a) * y)"
proof -
  have "a * lo \<le> a * x" "a * x \<le> a * hi" "(1 - a) * lo \<le> (1 - a) * y" "(1 - a) * y \<le> (1 - a) * hi"
    using assms by (simp_all add: in_band_def mult_left_mono)
  then show ?thesis unfolding in_band_def by (simp add: algebra_simps)
qed

lemma in_band_median:
  assumes "xs \<noteq> []" and "\<And>x. x \<in> set xs \<Longrightarrow> in_band lo hi x"
  shows "in_band lo hi (median xs)"
proof -
  have nth: "in_band lo hi (sort xs ! i)" if "i < length xs" for i
    using assms(2) nth_mem [of i "sort xs"] that by simp
  have "in_band lo hi (sort xs ! (length xs div 2))" and "in_band lo hi (sort xs ! (length xs div 2 - 1))"
    using assms(1) by (intro nth; cases xs; simp)+
  then show ?thesis by (auto simp: median_def in_band_def Let_def)
qed

definition filter_ok :: "watts \<Rightarrow> watts \<Rightarrow> regulator_state \<Rightarrow> bool" where
  "filter_ok lo hi st \<longleftrightarrow> (\<forall>x \<in> set (load_history st). in_band lo hi x) \<and>
     (\<forall>f. filtered_load st = Some f \<longrightarrow> in_band lo hi f)"

definition filtered_history :: "output_control_config \<Rightarrow> watts \<Rightarrow> regulator_state \<Rightarrow> watts list" where
  "filtered_history c raw st =
     (let window = nat (max 1 (median_window c))
      in last_n window (last_n window (load_history st) @ [raw]))"

definition ema_load :: "output_control_config \<Rightarrow> watts \<Rightarrow> regulator_state \<Rightarrow> watts" where
  "ema_load c raw st =
     (let m = median (filtered_history c raw st); alpha = min 1 (max 0 (ema_alpha c))
      in case filtered_load st of None \<Rightarrow> m | Some f \<Rightarrow> alpha * m + (1 - alpha) * f)"

lemma filtered_history_set: "set (filtered_history c raw st) \<subseteq> insert raw (set (load_history st))"
proof -
  let ?n = "nat (max 1 (median_window c))"
  have "set (filtered_history c raw st) \<subseteq> set (last_n ?n (load_history st) @ [raw])"
    unfolding filtered_history_def Let_def by (rule set_last_n)
  then show ?thesis using set_last_n [of ?n "load_history st"] by auto
qed

lemma filtered_history_ok:
  assumes "filter_ok lo hi st" and "in_band lo hi raw"
  shows "filtered_history c raw st \<noteq> []" and "\<forall>x \<in> set (filtered_history c raw st). in_band lo hi x"
proof -
  show "filtered_history c raw st \<noteq> []" by (simp add: filtered_history_def last_n_def Let_def)
  show "\<forall>x \<in> set (filtered_history c raw st). in_band lo hi x"
    using assms filtered_history_set [of c raw st] unfolding filter_ok_def by blast
qed

lemma ema_load_within:
  assumes "filter_ok lo hi st" and "in_band lo hi raw"
  shows "in_band lo hi (ema_load c raw st)"
proof -
  have "in_band lo hi (median (filtered_history c raw st))"
    using filtered_history_ok [OF assms] by (intro in_band_median) auto
  then show ?thesis
    using assms(1) in_band_mix [of "min 1 (max 0 (ema_alpha c))"]
    by (auto simp: ema_load_def filter_ok_def Let_def split: option.splits)
qed

lemma filter_output_control_load_eq:
  "filter_output_control_load c raw st =
     (if \<not> filter_enabled c then (st, raw)
      else if filter_method c \<noteq> ''median_ema'' then (st\<lparr>load_history := filtered_history c raw st\<rparr>, raw)
      else
        let f = ema_load c raw st;
            threshold = max 0 (sign_change_threshold_w c);
            mismatch = (raw \<le> - threshold \<and> 0 < f \<or> threshold \<le> raw \<and> f < 0);
            factor = min 1 (max 0 (sign_change_filter_reset_factor c));
            g = (if sign_change_fast_response_enabled c \<and> mismatch then factor * raw + (1 - factor) * f else f)
        in (st\<lparr>load_history := filtered_history c raw st, filtered_load := Some g\<rparr>, g))"
  by (auto simp: filter_output_control_load_def ema_load_def filtered_history_def Let_def)

lemma filter_step_ok:
  assumes "filter_ok lo hi st" and "in_band lo hi raw"
  shows "filter_ok lo hi (fst (filter_output_control_load c raw st))"
    and "in_band lo hi (snd (filter_output_control_load c raw st))"
  using assms filtered_history_ok [OF assms] ema_load_within [OF assms, of c]
    in_band_mix [of "min 1 (max 0 (sign_change_filter_reset_factor c))" lo hi raw "ema_load c raw st"]
  by (auto simp: filter_output_control_load_eq filter_ok_def Let_def)

definition filter_step :: "output_control_config \<Rightarrow> regulator_state \<Rightarrow> watts \<Rightarrow> regulator_state" where
  "filter_step c st raw = fst (filter_output_control_load c raw st)"

interpretation flt: stepwise_invariant "filter_step c" "in_band lo hi" "filter_ok lo hi" for c lo hi
  by unfold_locales (simp add: filter_step_def filter_step_ok)

text \<open>
  The filtered load never leaves the range of the meter: from a cleared filter, after any
  sequence of readings between \<open>lo\<close> and \<open>hi\<close>, the value the regulation uses for the next such
  reading is between \<open>lo\<close> and \<open>hi\<close>, for every filter configuration.
\<close>

lemma filtered_load_within_meter_range:
  assumes "load_history st = []" and "filtered_load st = None"
    and "list_all (\<lambda>x. lo \<le> x \<and> x \<le> hi) raws" and "lo \<le> raw" and "raw \<le> hi"
  shows "lo \<le> snd (filter_output_control_load c raw (run_steps (filter_step c) st raws)) \<and>
    snd (filter_output_control_load c raw (run_steps (filter_step c) st raws)) \<le> hi"
proof -
  have "list_all (in_band lo hi) raws" using assms(3) by (simp add: list_all_iff in_band_def)
  then have "filter_ok lo hi (run_steps (filter_step c) st raws)"
    using assms(1,2) by (intro flt.run_inv) (simp_all add: filter_ok_def)
  from filter_step_ok(2) [OF this, of raw c] assms(4,5) show ?thesis by (simp add: in_band_def)
qed

definition demo_control :: output_control_config where
  "demo_control = \<lparr>filter_enabled = True, median_window = 3, filter_method = ''median_ema'', ema_alpha = 1/2,
     sign_change_fast_response_enabled = True, sign_change_threshold_w = 50,
     sign_change_filter_reset_factor = 1, load_deadband_w = 5, target_deadband_w = 10,
     ramp_enabled = True, ramp_up_w_per_cycle = 300, ramp_down_w_per_cycle = 500,
     bypass_ramp_multiplier = 3/2, stale_telemetry_ramp_factor = 1/2, large_import_bypass_w = 600,
     large_export_bypass_w = 500, device_ramp_enabled = True, device_ramp_up_w_per_cycle = 250,
     device_ramp_down_w_per_cycle = 400, telemetry_max_age_seconds = 10,
     max_total_charge_power_w = 1200\<rparr>"

definition demo_regulator :: regulator_state where
  "demo_regulator = \<lparr>load_history = [], filtered_load = None, commanded_total = Some 200,
     desired_total = None, commanded_device_targets = [''a'' \<mapsto> -900], charge_direction = initial_direction_state,
     charge_capacity_w = 0, device_charge_limits = Map.empty, grid_meter_holding = False,
     charges_being_left = []\<rparr>"

text \<open>
  The filter never answers a large reading with the wrong direction: with the fast response
  on and a full reset, a reading of at least the threshold of import never yields an export
  value, and one of at least the threshold of export never yields an import value, whatever the
  filter remembers.
\<close>

lemma filter_agrees_with_large_reading:
  assumes "sign_change_fast_response_enabled c" and "1 \<le> sign_change_filter_reset_factor c"
    and "max 0 (sign_change_threshold_w c) \<le> \<bar>raw\<bar>"
  shows "(0 \<le> raw \<longrightarrow> 0 \<le> snd (filter_output_control_load c raw st)) \<and>
    (raw \<le> 0 \<longrightarrow> snd (filter_output_control_load c raw st) \<le> 0)"
proof -
  have one: "min 1 (max 0 (sign_change_filter_reset_factor c)) = 1" using assms(2) by simp
  show ?thesis
    using assms(1,3) unfolding filter_output_control_load_eq Let_def one by (auto simp: abs_if split: if_splits)
qed

section \<open>The commanded total\<close>

lemma filter_frame [simp]:
  "commanded_total (fst (filter_output_control_load c raw st)) = commanded_total st"
  "charge_direction (fst (filter_output_control_load c raw st)) = charge_direction st"
  "charge_capacity_w (fst (filter_output_control_load c raw st)) = charge_capacity_w st"
  by (simp_all add: filter_output_control_load_eq Let_def)

lemma floor_frame [simp]:
  "commanded_total_floor_w c (fst (filter_output_control_load c raw st)) = commanded_total_floor_w c st"
  by (simp add: commanded_total_floor_w_def usable_charge_capacity_w_def)

lemma floor_nonpos: "commanded_total_floor_w c st \<le> 0"
  by (simp add: commanded_total_floor_w_def usable_charge_capacity_w_def)

lemma clamp_bounds: "lo \<le> hi \<Longrightarrow> lo \<le> clamp lo hi x \<and> clamp lo hi x \<le> hi"
  by (simp add: clamp_def)

lemma clamp_inside: "lo \<le> x \<Longrightarrow> x \<le> hi \<Longrightarrow> clamp lo hi x = x"
  by (simp add: clamp_def)

lemma ramp_limit_nonneg: "0 \<le> snd (total_ramp_limit c p d b stale)"
  by (simp add: total_ramp_limit_def Let_def le_max_iff_disj)

lemma ramp_total_between:
  "min p d \<le> ramp_total c p d held bypass stale \<and> ramp_total c p d held bypass stale \<le> max p d"
  using ramp_limit_nonneg [of c p "d - p" bypass stale]
  by (auto simp: ramp_total_def Let_def min_def max_def abs_if split: prod.splits)

lemma ramp_limit_le:
  assumes "stale_telemetry_ramp_factor c \<le> 1"
  shows "snd (total_ramp_limit c p d bypass stale) \<le>
    max 0 (if 0 < d then ramp_up_w_per_cycle c else ramp_down_w_per_cycle c) *
      (if bypass then max 1 (bypass_ramp_multiplier c) else 1)"
proof -
  define l where "l = max 0 (if 0 < d then ramp_up_w_per_cycle c else ramp_down_w_per_cycle c) *
      (if bypass then max 1 (bypass_ramp_multiplier c) else 1)"
  have "0 \<le> l" by (simp add: l_def)
  then have "l * max 0 (stale_telemetry_ramp_factor c) \<le> l"
    using assms mult_left_le [of "max 0 (stale_telemetry_ramp_factor c)" l] by simp
  moreover have "snd (total_ramp_limit c p d bypass stale) =
      (if stale then (if p < 0 \<and> 0 < d then max (l * max 0 (stale_telemetry_ramp_factor c)) (min l (- p))
        else l * max 0 (stale_telemetry_ramp_factor c)) else l)"
    by (simp add: total_ramp_limit_def Let_def l_def)
  ultimately show ?thesis unfolding l_def [symmetric] by auto
qed

lemma ramp_total_step:
  assumes "ramp_enabled c" and "fst (total_ramp_limit c p (d - p) bypass stale)" and "held \<longrightarrow> d = p"
  shows "\<bar>ramp_total c p d held bypass stale - p\<bar> \<le> snd (total_ramp_limit c p (d - p) bypass stale)"
proof (cases "held \<or> d = p")
  case True
  then have "ramp_total c p d held bypass stale = p" using assms(3) by (auto simp: ramp_total_def Let_def)
  then show ?thesis using ramp_limit_nonneg by simp
next
  case False
  then have "ramp_total c p d held bypass stale =
      (if snd (total_ramp_limit c p (d - p) bypass stale) < \<bar>d - p\<bar>
       then (if 0 < d - p then p + snd (total_ramp_limit c p (d - p) bypass stale)
             else p - snd (total_ramp_limit c p (d - p) bypass stale)) else d)"
    using assms(1,2) by (simp add: ramp_total_def Let_def split_beta)
  then show ?thesis using ramp_limit_nonneg [of c p "d - p" bypass stale] by (simp add: not_less)
qed

lemma regulate_total_bounds:
  assumes "lo \<le> hi"
  shows "lo \<le> snd (regulate_total c raw hi cap standby stale lo F p) \<and>
    snd (regulate_total c raw hi cap standby stale lo F p) \<le> hi"
  unfolding regulate_total_def Let_def snd_conv by (rule clamp_bounds [OF assms])

lemma regulate_total_cases:
  assumes "cap \<or> raw \<le> 0 \<or> p < 0" and lo: "lo \<le> p" and hi: "p \<le> hi"
  obtains d held where
    "snd (regulate_total c raw hi cap standby stale lo F p) =
       ramp_total c p d held (output_control_bypass_active c raw) stale"
    and "held \<longrightarrow> d = p" and "d = p \<or> d = clamp lo hi (p + F)"
proof -
  define quiet where "quiet \<longleftrightarrow> \<bar>F\<bar> \<le> max 0 (load_deadband_w c)"
  define d1 where "d1 = clamp lo hi (if quiet then p else p + F)"
  define settled where "settled \<longleftrightarrow> \<not> quiet \<and> \<bar>d1 - p\<bar> \<le> max 0 (target_deadband_w c)"
  define d where "d = (if settled then p else d1)"
  let ?r = "ramp_total c p d (quiet \<or> settled) (output_control_bypass_active c raw) stale"
  have cap: "(0 < raw \<and> \<not> cap \<and> 0 \<le> p) = False" using assms(1) by auto
  have "snd (regulate_total c raw hi cap standby stale lo F p) = clamp lo hi ?r"
    unfolding regulate_total_def Let_def snd_conv cap if_False simp_thms
      quiet_def [symmetric] d1_def [symmetric] settled_def [symmetric] d_def [symmetric] by simp
  moreover have q: "quiet \<Longrightarrow> d1 = p" using lo hi by (simp add: d1_def clamp_inside)
  have dd: "d = p \<or> d = clamp lo hi (p + F)" using q by (auto simp: d_def d1_def)
  have "lo \<le> d \<and> d \<le> hi" using dd clamp_bounds [of lo hi "p + F"] lo hi by auto
  then have "clamp lo hi ?r = ?r"
    using ramp_total_between [of p d c "quiet \<or> settled" "output_control_bypass_active c raw" stale] lo hi
    by (intro clamp_inside) linarith+
  moreover have "quiet \<or> settled \<longrightarrow> d = p" using q by (auto simp: d_def)
  ultimately show thesis using dd that [of d "quiet \<or> settled"] by simp
qed

lemma stabilized_total_known:
  "commanded_total st = Some p \<Longrightarrow>
     snd (stabilized_total_target c raw states hi cap standby own stale st) =
       snd (regulate_total c raw hi cap standby stale (of_int (commanded_total_floor_w c st))
         (snd (filter_output_control_load c raw st)) p)"
  by (simp add: stabilized_total_target_def Let_def split_beta)

lemma initialize_frame [simp]:
  "charge_direction (initialize_commanded_total c own states hi st) = charge_direction st"
  "commanded_total_floor_w c (initialize_commanded_total c own states hi st) = commanded_total_floor_w c st"
  by (simp_all add: initialize_commanded_total_def commanded_total_floor_w_def usable_charge_capacity_w_def Let_def)

lemma stabilized_total_shape:
  "\<exists>F p. snd (stabilized_total_target c raw states hi cap standby own stale st) =
     snd (regulate_total c raw hi cap standby stale (of_int (commanded_total_floor_w c st)) F p)"
  by (auto simp: stabilized_total_target_def Let_def split_beta intro!: exI)

lemma stabilized_state:
  "commanded_total (fst (stabilized_total_target c raw states hi cap standby own stale st)) =
     Some (snd (stabilized_total_target c raw states hi cap standby own stale st))"
  "commanded_total_floor_w c (fst (stabilized_total_target c raw states hi cap standby own stale st)) =
     commanded_total_floor_w c st"
  by (simp_all add: stabilized_total_target_def Let_def split_beta)
     (simp_all add: commanded_total_floor_w_def usable_charge_capacity_w_def initialize_commanded_total_def Let_def)

lemma floor_lower:
  "- max 0 (max_total_charge_power_w c) \<le> commanded_total_floor_w c st"
  "\<not> charging (charge_direction st) \<Longrightarrow> commanded_total_floor_w c st = 0"
  by (simp_all add: commanded_total_floor_w_def usable_charge_capacity_w_def)

text \<open>
  C4. The commanded total stays within its bounds in every cycle, from every state: it never
  exceeds the maximum, never goes below the charge floor, is at least zero in the first cycle
  after the charge direction is left, and is what the state keeps for the next cycle.
\<close>

theorem commanded_total_within_bounds:
  assumes "0 \<le> max_power"
  shows "let (st', w) = stabilized_total_target c raw_load states max_power has_export_capacity
        standby_total_w own_charge stale st
    in of_int (commanded_total_floor_w c st) \<le> w \<and> w \<le> max_power \<and> commanded_total st' = Some w \<and>
       commanded_total_floor_w c st' = commanded_total_floor_w c st \<and>
       - of_int (max 0 (max_total_charge_power_w c)) \<le> w \<and> (charging (charge_direction st) \<or> 0 \<le> w)"
proof -
  let ?w = "snd (stabilized_total_target c raw_load states max_power has_export_capacity
        standby_total_w own_charge stale st)"
  have "of_int (commanded_total_floor_w c st) \<le> max_power"
    using floor_nonpos [of c st] assms by (meson of_int_le_0_iff order_trans)
  then have b: "of_int (commanded_total_floor_w c st) \<le> ?w \<and> ?w \<le> max_power"
    using stabilized_total_shape [of c raw_load states max_power has_export_capacity
        standby_total_w own_charge stale st] regulate_total_bounds by metis
  have "of_int (- max 0 (max_total_charge_power_w c)) \<le> (of_int (commanded_total_floor_w c st) :: rat)"
    using floor_lower(1) by (simp only: of_int_le_iff)
  then have "- of_int (max 0 (max_total_charge_power_w c)) \<le> ?w" using b by simp
  moreover have "charging (charge_direction st) \<or> 0 \<le> ?w"
    using b floor_lower(2) [of st c] by (cases "charging (charge_direction st)") simp_all
  ultimately show ?thesis using b by (simp add: split_beta Let_def stabilized_state)
qed

theorem commanded_total_within_bounds_witness:
  "snd (stabilized_total_target demo_control 700 [] 800 True 0 [] False demo_regulator) = 650 \<and>
   snd (stabilized_total_target demo_control 700 [] 800 True 0 [] False demo_regulator) \<le> 800"
proof -
  have "snd (stabilized_total_target demo_control 700 [] 800 True 0 [] False demo_regulator) = 650" by code_simp
  with commanded_total_within_bounds [of 800 demo_control 700 "[]" True 0 "[]" False demo_regulator]
  show ?thesis by (simp add: Let_def split_beta)
qed

text \<open>
  The regulation follows the load and does not overshoot it: with capacity to serve the load,
  the new total lies between the old one and the old one plus the filtered load, so it moves in
  the direction of the load, by at most the load, and not at all when the filtered load is zero.
\<close>

lemma commanded_total_follows_load:
  assumes "commanded_total st = Some p" and "of_int (commanded_total_floor_w c st) \<le> p" and "p \<le> max_power"
    and "has_export_capacity \<or> raw_load \<le> 0 \<or> p < 0"
  shows "let F = snd (filter_output_control_load c raw_load st);
      w = snd (stabilized_total_target c raw_load states max_power has_export_capacity standby_total_w
        own_charge stale st)
    in min p (p + F) \<le> w \<and> w \<le> max p (p + F)"
proof -
  let ?F = "snd (filter_output_control_load c raw_load st)"
  obtain d held where w: "snd (stabilized_total_target c raw_load states max_power has_export_capacity
      standby_total_w own_charge stale st) = ramp_total c p d held (output_control_bypass_active c raw_load) stale"
    and d: "d = p \<or> d = clamp (of_int (commanded_total_floor_w c st)) max_power (p + ?F)"
    using regulate_total_cases [OF assms(4,2,3)] unfolding stabilized_total_known [OF assms(1)] by blast
  have "min p (p + ?F) \<le> d \<and> d \<le> max p (p + ?F)"
    using d assms(2,3) by (auto simp: clamp_def min_def max_def)
  then show ?thesis
    unfolding Let_def w using ramp_total_between [of p d c held "output_control_bypass_active c raw_load" stale]
    by linarith
qed

text \<open>
  The total is ramped: with the ramp on, one cycle moves the total by at most the configured
  step in that direction, times the bypass factor when the load is very large; stale telemetry
  never widens the step.
\<close>

lemma commanded_total_ramped:
  assumes "commanded_total st = Some p" and "of_int (commanded_total_floor_w c st) \<le> p" and "p \<le> max_power"
    and "has_export_capacity \<or> raw_load \<le> 0 \<or> p < 0"
    and "ramp_enabled c" and "0 < ramp_up_w_per_cycle c" and "0 < ramp_down_w_per_cycle c"
    and "stale_telemetry_ramp_factor c \<le> 1"
  shows "let factor = (if output_control_bypass_active c raw_load then max 1 (bypass_ramp_multiplier c) else 1);
      w = snd (stabilized_total_target c raw_load states max_power has_export_capacity standby_total_w
        own_charge stale st)
    in w \<le> p + ramp_up_w_per_cycle c * factor \<and> p - ramp_down_w_per_cycle c * factor \<le> w"
proof -
  let ?b = "output_control_bypass_active c raw_load"
  let ?factor = "if ?b then max 1 (bypass_ramp_multiplier c) else 1"
  obtain d held where w: "snd (stabilized_total_target c raw_load states max_power has_export_capacity
      standby_total_w own_charge stale st) = ramp_total c p d held ?b stale" and held: "held \<longrightarrow> d = p"
    using regulate_total_cases [OF assms(4,2,3)] unfolding stabilized_total_known [OF assms(1)] by blast
  have "fst (total_ramp_limit c p (d - p) ?b stale)"
    using assms(6,7) by (simp add: total_ramp_limit_def Let_def)
  from ramp_total_step [OF assms(5) this held]
  have "\<bar>ramp_total c p d held ?b stale - p\<bar> \<le> (if 0 < d - p then ramp_up_w_per_cycle c else ramp_down_w_per_cycle c) * ?factor"
    using ramp_limit_le [OF assms(8), of p "d - p" ?b stale] assms(6,7) by (simp split: if_splits)
  moreover have "if 0 < d - p then p \<le> ramp_total c p d held ?b stale else ramp_total c p d held ?b stale \<le> p"
    using ramp_total_between [of p d c held ?b stale] by (cases "p < d") (simp_all add: min_def max_def)
  moreover have "0 \<le> ramp_up_w_per_cycle c * ?factor" and "0 \<le> ramp_down_w_per_cycle c * ?factor"
    using assms(6,7) by simp_all
  ultimately have "ramp_total c p d held ?b stale \<le> p + ramp_up_w_per_cycle c * ?factor \<and>
      p - ramp_down_w_per_cycle c * ?factor \<le> ramp_total c p d held ?b stale"
    by (cases "0 < d - p") (simp_all only: if_True if_False, linarith+)
  then show ?thesis unfolding Let_def w .
qed

section \<open>The devices' targets\<close>

lemma device_floor_nonpos: "device_charge_floor_w st name \<le> 0"
  by (simp add: device_charge_floor_w_def)

lemma device_ramp_limit_nonneg: "0 \<le> device_ramp_limit c bypass delta"
  by (simp add: device_ramp_limit_def)

lemma limited_step:
  "0 \<le> l \<Longrightarrow> l = 0 \<or>
     \<bar>(if 0 < l \<and> l < \<bar>t - q\<bar> then (if 0 < t - q then q + l else q - l) else t) - q\<bar> \<le> (l :: watts)"
  by auto

lemma ramp_device_frame:
  "dev_name dev \<noteq> n \<Longrightarrow> ramp_device_target c bypass dev (st\<lparr>commanded_device_targets := (commanded_device_targets st)(n \<mapsto> w)\<rparr>) t =
     ramp_device_target c bypass dev st t"
  by (simp add: ramp_device_target_def ramp_origin_def device_charge_floor_w_def Let_def split: option.splits)

text \<open>For devices with distinct names the pass is pointwise and records each target.\<close>

definition ramped_target :: "output_control_config \<Rightarrow> bool \<Rightarrow> regulator_state \<Rightarrow> device_config \<times> bool \<times> watts \<Rightarrow> watts" where
  "ramped_target c bypass st d =
     (case d of (dev, allowed, target) \<Rightarrow>
        if \<not> allowed then 0
        else if device_ramp_enabled c then ramp_device_target c bypass dev st target else target)"

lemma ramped_target_frame:
  "dev_name (fst d) \<noteq> n \<Longrightarrow> ramped_target c bypass (st\<lparr>commanded_device_targets := (commanded_device_targets st)(n \<mapsto> w)\<rparr>) d =
     ramped_target c bypass st d"
  by (cases d) (simp add: ramped_target_def ramp_device_frame)

lemma apply_device_ramp_loop_map:
  "distinct (map (dev_name \<circ> fst) ds) \<Longrightarrow>
     snd (apply_device_ramp_loop c bypass ds st) = map (ramped_target c bypass st) ds"
proof (induction ds arbitrary: st)
  case Nil
  then show ?case by simp
next
  case (Cons d ds)
  obtain dev allowed t where d: "d = (dev, allowed, t)" by (cases d) auto
  have "\<forall>e \<in> set ds. dev_name (fst e) \<noteq> dev_name dev" using Cons.prems d by (auto simp: image_iff)
  then show ?case
    using Cons.IH Cons.prems
    by (auto simp: d Let_def split_beta ramped_target_def [of c bypass st "(dev, allowed, t)"]
        ramped_target_frame intro!: map_cong)
qed

text \<open>
  Each device's target is ramped within its own limits: a device whose output is not
  controlled gets zero; a device with a known previous target gets one between its charge floor
  and its maximum, at most one ramp step from where it was; and out of the charge direction the
  step is counted from zero and no target is negative, so a charge is left in one cycle.
\<close>

lemma device_targets_ramped:
  assumes "distinct (map dev_name devices)" and "length allowed = length devices"
    and "length targets = length devices" and "i < length devices" and "device_ramp_enabled c"
    and "commanded_device_targets st (dev_name (devices ! i)) = Some p" and "0 \<le> dev_max_power (devices ! i)"
  shows "let w = snd (apply_device_ramp c devices allowed targets raw_load st) ! i;
      q = ramp_origin st p;
      limit = device_ramp_limit c (output_control_bypass_active c raw_load) (targets ! i - q)
    in if allowed ! i
       then of_int (device_charge_floor_w st (dev_name (devices ! i))) \<le> w \<and> w \<le> dev_max_power (devices ! i) \<and>
         (limit = 0 \<or> w = of_int (device_charge_floor_w st (dev_name (devices ! i))) \<or>
          w = dev_max_power (devices ! i) \<or> \<bar>w - q\<bar> \<le> limit) \<and>
         (charging (charge_direction st) \<or> 0 \<le> w)
       else w = 0"
proof -
  let ?b = "output_control_bypass_active c raw_load" and ?dev = "devices ! i"
  let ?fl = "of_int (device_charge_floor_w st (dev_name ?dev)) :: rat"
  let ?q = "ramp_origin st p"
  let ?l = "device_ramp_limit c ?b (targets ! i - ?q)"
  let ?x = "if 0 < ?l \<and> ?l < \<bar>targets ! i - ?q\<bar>
    then (if 0 < targets ! i - ?q then ?q + ?l else ?q - ?l) else targets ! i"
  let ?ds = "zip devices (zip allowed targets)"
  have "map (dev_name \<circ> fst) ?ds = map dev_name devices"
    using assms(2,3) by (intro nth_equalityI) auto
  then have "snd (apply_device_ramp c devices allowed targets raw_load st) ! i =
      ramped_target c ?b st (devices ! i, allowed ! i, targets ! i)"
    using apply_device_ramp_loop_map [of ?ds c ?b st] assms(1-4) by (simp add: apply_device_ramp_def)
  also have "\<dots> = (if allowed ! i then clamp ?fl (dev_max_power ?dev) ?x else 0)"
    using assms(5,6) by (simp add: ramped_target_def ramp_device_target_def Let_def)
  finally have w: "snd (apply_device_ramp c devices allowed targets raw_load st) ! i =
      (if allowed ! i then clamp ?fl (dev_max_power ?dev) ?x else 0)" .
  have fl: "?fl \<le> 0" using device_floor_nonpos by (simp only: of_int_le_0_iff)
  then have bounds: "?fl \<le> clamp ?fl (dev_max_power ?dev) ?x \<and> clamp ?fl (dev_max_power ?dev) ?x \<le> dev_max_power ?dev"
    using assms(7) by (intro clamp_bounds) linarith
  have shape: "clamp ?fl (dev_max_power ?dev) ?x = ?fl \<or> clamp ?fl (dev_max_power ?dev) ?x = dev_max_power ?dev \<or>
      clamp ?fl (dev_max_power ?dev) ?x = ?x" by (simp add: clamp_def min_def max_def)
  have step: "?l = 0 \<or> \<bar>?x - ?q\<bar> \<le> ?l"
    by (rule limited_step [OF device_ramp_limit_nonneg])
  from shape step have near: "?l = 0 \<or> clamp ?fl (dev_max_power ?dev) ?x = ?fl \<or>
      clamp ?fl (dev_max_power ?dev) ?x = dev_max_power ?dev \<or> \<bar>clamp ?fl (dev_max_power ?dev) ?x - ?q\<bar> \<le> ?l"
    by (elim disjE) (simp_all only: simp_thms)
  have left: "charging (charge_direction st) \<or> 0 \<le> clamp ?fl (dev_max_power ?dev) ?x"
    by (simp add: device_charge_floor_w_def clamp_def)
  show ?thesis
  proof (cases "allowed ! i")
    case True
    show ?thesis unfolding Let_def w if_P [OF True] using bounds near left by (intro conjI) blast+
  next
    case False
    show ?thesis unfolding Let_def w if_not_P [OF False] by (rule refl)
  qed
qed

section \<open>Charge eligibility\<close>

lemma eligible_ceiling_pos:
  "0 < eligible_ceiling (a, dev, s, cap) \<Longrightarrow>
     device_charge_allowed a s dev (Some cap) \<and> 0 < device_charge_ceiling_w a dev s"
  by (simp add: eligible_ceiling_def split: if_splits)

text \<open>
  A charge is offered only to devices that may and can take one, and only if the fleet can
  hold it: a device is chargeable only if the feature, its switch, its model, its reachability
  and the claim on its AC mode all permit it and it has battery headroom and a positive ceiling,
  and whenever any device is chargeable the charge floor lies below the stop threshold, so the
  exit does not fire on the charge that was just entered.
\<close>

lemma chargeable_devices_can_hold_a_charge:
  assumes "resolve_charge_eligibility c settings ds st = (st', chargeable)"
    and "i < length ds" and "ds ! i = (a, dev, s, cap)" and "chargeable ! i"
  shows "charge_permitted a \<and> device_active a \<and> intent_allows_command a \<and> \<not> assist_holds_direction a \<and>
    can_charge cap \<and> 0 < charge_headroom_weight s (Some dev) (Some cap) \<and>
    0 < device_charge_ceiling_w a dev s \<and>
    (charging (charge_direction st') \<longrightarrow> of_int (commanded_total_floor_w c st') < - stop_w settings)"
proof -
  have len: "length (map (\<lambda>w. (0::int) < w) (map eligible_ceiling ds)) = length ds" by simp
  have ok: "\<not> (list_ex id (map (\<lambda>w. 0 < w) (map eligible_ceiling ds)) \<and> \<not> charge_capacity_outlasts_the_exit c settings st')"
    and ch: "chargeable = map (\<lambda>w. 0 < w) (map eligible_ceiling ds)"
    using assms(1,2,4) by (auto simp: resolve_charge_eligibility_def Let_def split: if_splits)
  have pos: "0 < eligible_ceiling (a, dev, s, cap)" using ch assms(2-4) by simp
  then have "list_ex id chargeable" using ch assms(2,3) nth_mem [OF assms(2)] by (auto simp: list_ex_iff)
  then have "stop_w settings < of_int (usable_charge_capacity_w c st')"
    using ok ch by (simp add: charge_capacity_outlasts_the_exit_def)
  then show ?thesis
    using eligible_ceiling_pos [OF pos]
    by (auto simp: device_charge_allowed_def denies_def commanded_total_floor_w_def not_le split: if_splits)
qed

section \<open>Leaving a charge\<close>

lemma leaving_is_reported:
  "x \<in> set (fst (snd (devices_leaving_a_charge ds names))) \<Longrightarrow> \<exists>d \<in> set ds. fst (snd d) \<and> x = snd (snd (snd d))"
proof (induction ds arbitrary: names)
  case Nil
  then show ?case by simp
next
  case (Cons d ds)
  obtain name online owed s where d: "d = (name, online, owed, s)" by (cases d) auto
  have "online \<and> x = s \<or> (\<exists>ns. x \<in> set (fst (snd (devices_leaving_a_charge ds ns))))"
    using Cons.prems by (auto simp: d Let_def split_beta split: if_splits)
  then show ?case using Cons.IH by (auto simp: d)
qed

lemma leaving_are_reported:
  "set (fst (snd (devices_leaving_a_charge ds names))) \<subseteq> set (map (\<lambda>(_, _, _, s). s) (filter (\<lambda>(_, online, _, _). online) ds))"
  using leaving_is_reported by (fastforce simp: image_iff split_beta)

text \<open>
  While a charge is left, the house is served and not the charge: when the meter shows what
  the house draws, less what the devices feed out, plus the AC input of the devices that are
  leaving a charge, the commanded total is exactly the house's draw (within the maximum and, with
  nothing to export, the standby total), and the filter starts afresh; only devices that answered
  count as leaving.
\<close>

lemma leaving_a_charge_serves_the_house:
  assumes "\<not> grid_meter_holding st"
    and "devices_leaving_a_charge ds (charges_being_left st) = (names, leaving, left)"
    and "leaving \<noteq> [] \<or> left" and "0 \<le> house"
    and "load = house - sum_list (map (\<lambda>(_, _, _, s). output_w s) ds) +
      of_int (sum_list (map (\<lambda>s. max 0 (grid_input s)) leaving))"
  shows "let (st', w) = discharge_total_leaving_a_charge ds load t max_power cap standby st
    in w = min max_power (if cap then house else min house standby) \<and> commanded_total st' = Some w \<and>
       load_history st' = [] \<and> filtered_load st' = None \<and> charges_being_left st' = names \<and>
       set leaving \<subseteq> set (map (\<lambda>(_, _, _, s). s) (filter (\<lambda>(_, online, _, _). online) ds))"
proof -
  have "derive_house_load_w (Some (sum_list (map (\<lambda>(_, _, _, s). output_w s) ds))) (Some load)
      (Some (of_int (sum_list (map (\<lambda>s. max 0 (grid_input s)) leaving)))) = house"
    using assms(4,5) by (simp add: derive_house_load_w_def num_or_0_def)
  then show ?thesis
    using assms(1-3) leaving_are_reported [of ds "charges_being_left st"]
    by (auto simp: discharge_total_leaving_a_charge_def Let_def)
qed

end
