(* ===== verification/Command_State.thy ===== *)
theory Command_State
  imports Power_Direction
begin

text \<open>
  \<open>ems/mqtt_control/command_state.py\<close> and \<open>ems/mqtt_control/confirmation.py\<close>: the life of one
  power command, from the queue to a terminal outcome.

  \<open>command_record\<close> is the mutable record of the code; every operation returns the changed record
  and what the code returns. Replies and telemetry are maps from keys to dynamically typed values
  (\<open>pyval\<close>); \<open>None\<close> is a value that is no mapping. The record's own time stamps are finite clock
  readings; those that telemetry carries are arbitrary values. \<open>response_code\<close> and
  \<open>response_message\<close> hold the value that the code renders as a string.

  Proved: a terminal command never changes again, in any order of operations; a command is
  confirmed only after an acknowledgement (or, without a reply contract, after its publication)
  and only by telemetry that is at least as new as the publication and matches every required
  property; a reply for another command changes nothing; every active command that is timed out
  often enough becomes terminal.
\<close>

section \<open>Records\<close>

datatype command_status =
    STATE_QUEUED | STATE_PUBLISHED | STATE_ACKNOWLEDGED | STATE_TELEMETRY_CONFIRMED
  | STATE_COMPLETED_UNCONFIRMED | STATE_CONFIRMATION_TIMED_OUT | STATE_REJECTED
  | STATE_TIMED_OUT | STATE_SUPERSEDED

definition TERMINAL_STATES :: "command_status list" where
  "TERMINAL_STATES =
     [STATE_TELEMETRY_CONFIRMED, STATE_COMPLETED_UNCONFIRMED, STATE_CONFIRMATION_TIMED_OUT,
      STATE_REJECTED, STATE_TIMED_OUT, STATE_SUPERSEDED]"

datatype freshness_reason =
    FRESHNESS_FRESH | FRESHNESS_STALE | FRESHNESS_MISSING_COMMAND_TIME
  | FRESHNESS_MISSING_METRIC_TIME | FRESHNESS_UNTRUSTED_SNAPSHOT | FRESHNESS_NOT_OBSERVED

record freshness_result =
  fr_reason :: freshness_reason
  fr_observed_monotonic :: "seconds option"

record property_confirmation =
  pc_key :: string
  pc_expected :: pyval
  pc_observed :: "pyval option"
  pc_required :: bool
  pc_matches :: bool
  pc_freshness :: freshness_reason
  pc_confirmed :: bool

datatype block_reason =
    Missing_or_invalid string | Mismatch string | Not_fresh string freshness_reason
  | Confirmation_unavailable | No_fresh_snapshot string | Not_observed string

record command_record =
  message_id :: int
  device_id :: string
  operation_of :: operation
  target_w :: int
  created_monotonic :: seconds
  status :: command_status
  response_code :: "pyval option"
  response_message :: "pyval option"
  expected_properties :: "(string \<times> pyval) list option"
  published_monotonic :: "seconds option"
  acknowledged_monotonic :: "seconds option"
  confirmed_monotonic :: "seconds option"
  timeout_monotonic :: "seconds option"
  confirmation_block_reason :: "block_reason option"
  confirmation_evidence :: "property_confirmation list"

definition is_terminal :: "command_record \<Rightarrow> bool" where
  "is_terminal r \<longleftrightarrow> status r \<in> set TERMINAL_STATES"

definition is_active :: "command_record \<Rightarrow> bool" where
  "is_active r \<longleftrightarrow> status r \<in> set [STATE_QUEUED, STATE_PUBLISHED, STATE_ACKNOWLEDGED]"

definition acknowledged :: "command_record \<Rightarrow> bool" where
  "acknowledged r \<longleftrightarrow> status r \<in> set [STATE_ACKNOWLEDGED, STATE_TELEMETRY_CONFIRMED]"

definition confirmed :: "command_record \<Rightarrow> bool" where
  "confirmed r \<longleftrightarrow> status r = STATE_TELEMETRY_CONFIRMED"

section \<open>Replies\<close>

type_synonym reply = "string \<rightharpoonup> pyval"

text \<open>\<open>v == n\<close> for an \<open>int\<close> \<open>n\<close>: Python compares numbers by value, booleans included.\<close>

fun py_eq_int :: "pyval \<Rightarrow> int \<Rightarrow> bool" where
  "py_eq_int (PyInt m) n = (m = n)"
| "py_eq_int (PyBool b) n = ((if b then 1 else 0) = n)"
| "py_eq_int (PyFloat (Fin x)) n = (x = of_int n)"
| "py_eq_int _ n = False"

definition reply_matches :: "command_record \<Rightarrow> reply option \<Rightarrow> bool" where
  "reply_matches r reply =
     (case reply of
        None \<Rightarrow> False
      | Some m \<Rightarrow>
          (case m ''messageId'' of None \<Rightarrow> False | Some v \<Rightarrow> py_eq_int v (message_id r)) \<and>
          m ''deviceId'' = Some (PyStr (device_id r)))"

text \<open>
  \<open>str(v or "").strip().lower() == "success"\<close>. The rendering of a number, a boolean or \<open>None\<close>
  is never \<open>success\<close>, so only strings are normalised.
\<close>

fun output_is_success :: "pyval option \<Rightarrow> bool" where
  "output_is_success (Some (PyStr s)) = (py_lower (py_strip s) = ''success'')"
| "output_is_success _ = False"

text \<open>\<open>a or b\<close> for optional values, \<open>None\<close> being the missing one.\<close>

definition py_or :: "pyval option \<Rightarrow> pyval option \<Rightarrow> pyval option" where
  "py_or a b = (case a of Some v \<Rightarrow> if py_truthy v then Some v else b | None \<Rightarrow> b)"

definition mark_published :: "command_record \<Rightarrow> seconds option \<Rightarrow> command_record" where
  "mark_published r now_monotonic =
     (if status r = STATE_QUEUED
      then r\<lparr>status := STATE_PUBLISHED, published_monotonic := now_monotonic\<rparr> else r)"

definition mark_publish_failed :: "command_record \<Rightarrow> command_record" where
  "mark_publish_failed r =
     (if status r = STATE_QUEUED
      then r\<lparr>status := STATE_REJECTED, response_code := Some (PyStr ''publish_failed'')\<rparr> else r)"

definition mark_superseded :: "command_record \<Rightarrow> seconds option \<Rightarrow> command_record \<times> bool" where
  "mark_superseded r now_monotonic =
     (if is_active r
      then (r\<lparr>status := STATE_SUPERSEDED, timeout_monotonic := now_monotonic\<rparr>, True)
      else (r, False))"

definition apply_reply ::
  "command_record \<Rightarrow> reply option \<Rightarrow> seconds option \<Rightarrow> command_record \<times> bool" where
  "apply_reply r reply now_monotonic =
     (if status r \<noteq> STATE_PUBLISHED then (r, False)
      else if \<not> reply_matches r reply then (r, False)
      else
        let m = the reply;
            success = (case m ''success'' of None \<Rightarrow> False | Some v \<Rightarrow> py_eq_int v 1)
        in if success \<or> output_is_success (m ''output'')
           then (r\<lparr>status := STATE_ACKNOWLEDGED, acknowledged_monotonic := now_monotonic,
                  response_code := py_or (m ''output'') (py_or (m ''code'') (Some (PyStr ''success'')))\<rparr>, True)
           else
             (r\<lparr>status := STATE_REJECTED,
               response_code := py_or (m ''output'') (py_or (m ''code'') (Some (PyStr ''error''))),
               response_message :=
                 (case py_or (m ''message'') (m ''output'') of
                    Some PyNone \<Rightarrow> None | v \<Rightarrow> v)\<rparr>, True))"

section \<open>Timeouts\<close>

definition apply_timeout :: "command_record \<Rightarrow> seconds \<Rightarrow> seconds \<Rightarrow> command_record \<times> bool" where
  "apply_timeout r now_monotonic timeout_s =
     (if status r = STATE_PUBLISHED \<and> timeout_s \<le> now_monotonic - created_monotonic r
      then (r\<lparr>status := STATE_TIMED_OUT, timeout_monotonic := Some now_monotonic\<rparr>, True)
      else (r, False))"

definition elapsed :: "seconds option \<Rightarrow> seconds \<Rightarrow> seconds \<Rightarrow> bool" where
  "elapsed since now_monotonic timeout_s =
     (case since of None \<Rightarrow> False | Some t \<Rightarrow> timeout_s \<le> now_monotonic - t)"

definition apply_confirmation_timeout ::
  "command_record \<Rightarrow> seconds \<Rightarrow> seconds \<Rightarrow> bool \<Rightarrow> command_record \<times> bool" where
  "apply_confirmation_timeout r now_monotonic timeout_s from_published =
     (if status r = STATE_ACKNOWLEDGED \<and> elapsed (acknowledged_monotonic r) now_monotonic timeout_s
      then (r\<lparr>status := STATE_CONFIRMATION_TIMED_OUT, timeout_monotonic := Some now_monotonic\<rparr>, True)
      else if from_published \<and> status r = STATE_PUBLISHED \<and>
        elapsed (published_monotonic r) now_monotonic timeout_s
      then (r\<lparr>status := STATE_CONFIRMATION_TIMED_OUT, timeout_monotonic := Some now_monotonic\<rparr>, True)
      else (r, False))"

definition complete_unconfirmed :: "command_record \<Rightarrow> seconds option \<Rightarrow> command_record \<times> bool" where
  "complete_unconfirmed r now_monotonic =
     (if status r \<in> set [STATE_ACKNOWLEDGED, STATE_PUBLISHED]
      then (r\<lparr>status := STATE_COMPLETED_UNCONFIRMED, confirmed_monotonic := now_monotonic\<rparr>, True)
      else (r, False))"

section \<open>Freshness and matching of telemetry\<close>

definition usable_monotonic :: "pyval \<Rightarrow> seconds option" where
  "usable_monotonic v = (case py_number v of None \<Rightarrow> None | Some x \<Rightarrow> finite_part x)"

definition stamp :: "seconds option \<Rightarrow> pyval" where
  "stamp t = (case t of None \<Rightarrow> PyNone | Some x \<Rightarrow> PyFloat (Fin x))"

definition metric_confirmation_freshness :: "pyval \<Rightarrow> pyval \<Rightarrow> pyval \<Rightarrow> bool \<Rightarrow> freshness_result" where
  "metric_confirmation_freshness command_published_monotonic metric_observed_monotonic
       snapshot_observed_monotonic metric_was_in_snapshot =
     (case usable_monotonic command_published_monotonic of
        None \<Rightarrow> \<lparr>fr_reason = FRESHNESS_MISSING_COMMAND_TIME, fr_observed_monotonic = None\<rparr>
      | Some command_time \<Rightarrow>
          let metric_time = usable_monotonic metric_observed_monotonic;
              observed_time =
                (if metric_time = None \<and> metric_was_in_snapshot
                 then usable_monotonic snapshot_observed_monotonic else metric_time)
          in case observed_time of
               None \<Rightarrow>
                 \<lparr>fr_reason = (if usable_monotonic snapshot_observed_monotonic \<noteq> None
                    then FRESHNESS_UNTRUSTED_SNAPSHOT else FRESHNESS_MISSING_METRIC_TIME),
                  fr_observed_monotonic = None\<rparr>
             | Some t \<Rightarrow>
                 if t < command_time
                 then \<lparr>fr_reason = FRESHNESS_STALE, fr_observed_monotonic = Some t\<rparr>
                 else \<lparr>fr_reason = FRESHNESS_FRESH, fr_observed_monotonic = Some t\<rparr>)"

definition fresh :: "freshness_result \<Rightarrow> bool" where
  "fresh f \<longleftrightarrow> fr_reason f = FRESHNESS_FRESH"

definition metric_is_fresh ::
  "string \<Rightarrow> pyval \<Rightarrow> pyval \<Rightarrow> (string \<rightharpoonup> pyval) option \<Rightarrow> bool \<Rightarrow> bool" where
  "metric_is_fresh key published telemetry metric_monotonic metric_was_in_snapshot =
     fresh (metric_confirmation_freshness published
       (case metric_monotonic of None \<Rightarrow> PyNone
          | Some m \<Rightarrow> (case m key of None \<Rightarrow> PyNone | Some v \<Rightarrow> v))
       telemetry metric_was_in_snapshot)"

definition WATT_PROPERTY_KEYS :: "string list" where
  "WATT_PROPERTY_KEYS = [''outputLimit'', ''inputLimit'', ''gridInputPower'']"

definition OPTIONAL_EXPECTED_KEYS :: "string list" where
  "OPTIONAL_EXPECTED_KEYS = [''smartMode'', ''inputLimit'']"

definition CHARGE_OPTIONAL_EXPECTED_KEYS :: "string list" where
  "CHARGE_OPTIONAL_EXPECTED_KEYS = [''smartMode'', ''outputLimit'']"

definition optional_expected_keys :: "operation \<Rightarrow> string list" where
  "optional_expected_keys op =
     (if op = OPERATION_CHARGE then CHARGE_OPTIONAL_EXPECTED_KEYS else OPTIONAL_EXPECTED_KEYS)"

type_synonym metrics = "string \<rightharpoonup> pyval"

definition observed_number :: "metrics \<Rightarrow> string \<Rightarrow> pyfloat option" where
  "observed_number metrics key = (case metrics key of None \<Rightarrow> None | Some v \<Rightarrow> py_number v)"

definition evidence_key_for :: "operation \<Rightarrow> string \<Rightarrow> metrics \<Rightarrow> string" where
  "evidence_key_for op key metrics =
     (if op = OPERATION_CHARGE \<and> key = ''inputLimit'' \<and> observed_number metrics key = None \<and>
         observed_number metrics ''gridInputPower'' \<noteq> None
      then ''gridInputPower'' else key)"

fun exact_state_number :: "pyval \<Rightarrow> int option" where
  "exact_state_number (PyInt n) = Some n"
| "exact_state_number (PyFloat (Fin x)) = (if of_int (py_int x) = x then Some (py_int x) else None)"
| "exact_state_number _ = None"

definition property_matches :: "string \<Rightarrow> pyval \<Rightarrow> pyval \<Rightarrow> int \<Rightarrow> bool" where
  "property_matches key observed expected watt_tolerance =
     (case (py_number observed, py_number expected) of
        (Some a, Some b) \<Rightarrow>
          if key \<in> set WATT_PROPERTY_KEYS
          then (case (finite_part a, finite_part b) of
                  (Some x, Some y) \<Rightarrow> \<bar>x - y\<bar> \<le> of_int watt_tolerance | _ \<Rightarrow> False)
          else (case (exact_state_number observed, exact_state_number expected) of
                  (Some m, Some n) \<Rightarrow> m = n | _ \<Rightarrow> False)
      | _ \<Rightarrow> False)"

section \<open>Confirmation\<close>

definition CONFIRM_TOLERANCE_W :: int where "CONFIRM_TOLERANCE_W = 25"

definition eligible :: "command_record \<Rightarrow> bool \<Rightarrow> bool" where
  "eligible r allow_from_published \<longleftrightarrow>
     status r = STATE_ACKNOWLEDGED \<or> allow_from_published \<and> status r = STATE_PUBLISHED"

definition confirm_from_telemetry ::
  "command_record \<Rightarrow> pyval \<Rightarrow> int \<Rightarrow> seconds option \<Rightarrow> pyval \<Rightarrow> string \<Rightarrow> bool \<Rightarrow>
   command_record \<times> bool" where
  "confirm_from_telemetry r observed_output_w tolerance_w now_monotonic telemetry_monotonic metric_key
       allow_from_published =
     (if \<not> eligible r allow_from_published then (r, False)
      else
        case py_number observed_output_w of
          None \<Rightarrow> (r\<lparr>confirmation_block_reason := Some (Missing_or_invalid metric_key)\<rparr>, False)
        | Some observed \<Rightarrow>
            let freshness = metric_confirmation_freshness (stamp (published_monotonic r))
                  telemetry_monotonic PyNone False
            in if \<not> fresh freshness
               then (r\<lparr>confirmation_block_reason := Some (Not_fresh metric_key (fr_reason freshness))\<rparr>, False)
               else if (case observed of
                   Fin x \<Rightarrow> \<bar>x - of_int (target_w r)\<bar> \<le> of_int tolerance_w | _ \<Rightarrow> False)
               then (r\<lparr>status := STATE_TELEMETRY_CONFIRMED, confirmed_monotonic := now_monotonic,
                      confirmation_block_reason := None\<rparr>, True)
               else (r\<lparr>confirmation_block_reason := Some (Mismatch metric_key)\<rparr>, False))"

text \<open>One round of the loop over the expected properties.\<close>

definition property_evidence ::
  "command_record \<Rightarrow> metrics \<Rightarrow> int \<Rightarrow> pyval \<Rightarrow> metrics option \<Rightarrow> string list \<Rightarrow>
   string \<times> pyval \<Rightarrow> property_confirmation" where
  "property_evidence r metrics tolerance_w telemetry_monotonic metric_monotonic observed_keys expectation =
     (let (expected_key, target) = expectation;
          required = (\<not> expected_key \<in> set (optional_expected_keys (operation_of r)));
          key = evidence_key_for (operation_of r) expected_key metrics
      in case observed_number metrics key of
           None \<Rightarrow>
             \<lparr>pc_key = key, pc_expected = target, pc_observed = metrics key, pc_required = required,
              pc_matches = False, pc_freshness = FRESHNESS_NOT_OBSERVED,
              pc_confirmed = (\<not> required \<and> metrics key = None)\<rparr>
         | Some numeric_observed \<Rightarrow>
             let matches = property_matches key (PyFloat numeric_observed) target tolerance_w;
                 metric_time = (case metric_monotonic of None \<Rightarrow> PyNone
                   | Some m \<Rightarrow> (case m key of None \<Rightarrow> PyNone | Some v \<Rightarrow> v));
                 freshness = metric_confirmation_freshness (stamp (published_monotonic r)) metric_time
                   telemetry_monotonic (key \<in> set observed_keys)
             in \<lparr>pc_key = key, pc_expected = target, pc_observed = metrics key, pc_required = required,
                 pc_matches = matches, pc_freshness = fr_reason freshness,
                 pc_confirmed = (matches \<and> fresh freshness)\<rparr>)"

definition evaluate_expected_properties_confirmation ::
  "command_record \<Rightarrow> metrics option \<Rightarrow> int \<Rightarrow> pyval \<Rightarrow> metrics option \<Rightarrow> string list option \<Rightarrow>
   property_confirmation list" where
  "evaluate_expected_properties_confirmation r metrics tolerance_w telemetry_monotonic metric_monotonic
       snapshot_observed_keys =
     (case expected_properties r of
        None \<Rightarrow> []
      | Some [] \<Rightarrow> []
      | Some expected \<Rightarrow>
          (case metrics of
             None \<Rightarrow> []
           | Some ms \<Rightarrow>
               map (property_evidence r ms tolerance_w telemetry_monotonic metric_monotonic
                      (case snapshot_observed_keys of None \<Rightarrow> [] | Some ks \<Rightarrow> ks)) expected))"

fun property_failure_reason :: "property_confirmation list \<Rightarrow> block_reason option" where
  "property_failure_reason [] = None"
| "property_failure_reason (item # rest) =
     (if pc_confirmed item then property_failure_reason rest
      else if pc_freshness item = FRESHNESS_NOT_OBSERVED then Some (Missing_or_invalid (pc_key item))
      else if \<not> pc_matches item then Some (Mismatch (pc_key item))
      else Some (Not_fresh (pc_key item) (pc_freshness item)))"

definition confirm_from_expected_properties ::
  "command_record \<Rightarrow> metrics option \<Rightarrow> int \<Rightarrow> seconds option \<Rightarrow> pyval \<Rightarrow> metrics option \<Rightarrow>
   string list option \<Rightarrow> bool \<Rightarrow> command_record \<times> bool" where
  "confirm_from_expected_properties r metrics tolerance_w now_monotonic telemetry_monotonic
       metric_monotonic snapshot_observed_keys allow_from_published =
     (if \<not> eligible r allow_from_published then (r, False)
      else
        let evidence = evaluate_expected_properties_confirmation r metrics tolerance_w
              telemetry_monotonic metric_monotonic snapshot_observed_keys;
            r1 = r\<lparr>confirmation_evidence := evidence\<rparr>
        in if evidence = []
           then (r1\<lparr>confirmation_block_reason := Some Confirmation_unavailable\<rparr>, False)
           else case property_failure_reason evidence of
             Some why \<Rightarrow> (r1\<lparr>confirmation_block_reason := Some why\<rparr>, False)
           | None \<Rightarrow> (r1\<lparr>status := STATE_TELEMETRY_CONFIRMED, confirmed_monotonic := now_monotonic,
                        confirmation_block_reason := None\<rparr>, True))"

section \<open>Confirmation policy and reply contract of a write profile\<close>

datatype write_profile =
  WRITE_PROFILE_ZENSDK_PROPERTIES | WRITE_PROFILE_LEGACY_HUB | WRITE_PROFILE_LEGACY_OBJECT
  | WRITE_PROFILE_TELEMETRY_ONLY

definition CONFIRMABLE_WRITE_PROFILES :: "write_profile list" where
  "CONFIRMABLE_WRITE_PROFILES =
     [WRITE_PROFILE_ZENSDK_PROPERTIES, WRITE_PROFILE_LEGACY_HUB, WRITE_PROFILE_LEGACY_OBJECT]"

record telemetry_confirmation_policy =
  telemetry_confirmation_supported :: bool
  confirmation_metric :: "string option"
  confirmation_tolerance_w :: int
  confirmation_timeout_seconds :: seconds

definition resolve_confirmation_policy ::
  "write_profile option \<Rightarrow> seconds option \<Rightarrow> watts option \<Rightarrow> bool option \<Rightarrow>
   telemetry_confirmation_policy" where
  "resolve_confirmation_policy write_profile timeout_seconds tolerance_w supported_override =
     (let supported = (case supported_override of Some b \<Rightarrow> b | None \<Rightarrow> write_profile \<in> Some ` set CONFIRMABLE_WRITE_PROFILES)
      in \<lparr>telemetry_confirmation_supported = supported,
          confirmation_metric = (if supported then Some ''outputLimit'' else None),
          confirmation_tolerance_w =
            (case tolerance_w of Some w \<Rightarrow> if 0 < w then py_int w else 25 | None \<Rightarrow> 25),
          confirmation_timeout_seconds =
            (case timeout_seconds of Some t \<Rightarrow> if 0 < t then t else 30 | None \<Rightarrow> 30)\<rparr>)"

record command_reply_contract =
  request_suffix :: string
  reply_suffixes :: "string list"
  correlation_fields :: "string list"
  supports_acknowledgement :: bool

definition INVOKE_REPLY_CONTRACT :: command_reply_contract where
  "INVOKE_REPLY_CONTRACT = \<lparr>request_suffix = ''function/invoke'',
     reply_suffixes = [''function/invoke/reply''], correlation_fields = [''messageId'', ''deviceId''],
     supports_acknowledgement = True\<rparr>"

definition NO_ACK_REPLY_CONTRACT :: command_reply_contract where
  "NO_ACK_REPLY_CONTRACT = \<lparr>request_suffix = ''properties/write'', reply_suffixes = [],
     correlation_fields = [''messageId'', ''deviceId''], supports_acknowledgement = False\<rparr>"

definition reply_contract_for_write_profile :: "write_profile option \<Rightarrow> command_reply_contract" where
  "reply_contract_for_write_profile wp =
     (if wp \<in> set [Some WRITE_PROFILE_LEGACY_HUB, Some WRITE_PROFILE_LEGACY_OBJECT]
      then INVOKE_REPLY_CONTRACT else NO_ACK_REPLY_CONTRACT)"

section \<open>The command as a machine\<close>

text \<open>What can happen to a command, with the arguments of each operation.\<close>

datatype command_event =
    Published "seconds option" | Publish_failed | Superseded "seconds option"
  | Reply "reply option" "seconds option"
  | Timeout seconds seconds
  | Confirmation_timeout seconds seconds bool
  | Complete_unconfirmed "seconds option"
  | Telemetry pyval int "seconds option" pyval string bool
  | Properties "metrics option" int "seconds option" pyval "metrics option" "string list option" bool

fun command_step :: "command_record \<Rightarrow> command_event \<Rightarrow> command_record" where
  "command_step r (Published t) = mark_published r t"
| "command_step r Publish_failed = mark_publish_failed r"
| "command_step r (Superseded t) = fst (mark_superseded r t)"
| "command_step r (Reply m t) = fst (apply_reply r m t)"
| "command_step r (Timeout t d) = fst (apply_timeout r t d)"
| "command_step r (Confirmation_timeout t d b) = fst (apply_confirmation_timeout r t d b)"
| "command_step r (Complete_unconfirmed t) = fst (complete_unconfirmed r t)"
| "command_step r (Telemetry v tol t tm k b) = fst (confirm_from_telemetry r v tol t tm k b)"
| "command_step r (Properties ms tol t tm mm ks b) =
     fst (confirm_from_expected_properties r ms tol t tm mm ks b)"

definition command_run :: "command_record \<Rightarrow> command_event list \<Rightarrow> command_record" where
  "command_run r es = run_steps command_step r es"

lemmas command_defs =
  mark_published_def mark_publish_failed_def mark_superseded_def apply_reply_def apply_timeout_def
  apply_confirmation_timeout_def complete_unconfirmed_def confirm_from_telemetry_def
  confirm_from_expected_properties_def eligible_def Let_def

lemmas status_defs = is_terminal_def is_active_def TERMINAL_STATES_def

lemma terminal_iff_not_active: "is_terminal r \<longleftrightarrow> \<not> is_active r"
  by (cases "status r") (simp_all add: status_defs)

lemma terminal_status: "is_terminal r \<Longrightarrow>
    status r \<noteq> STATE_QUEUED \<and> status r \<noteq> STATE_PUBLISHED \<and> status r \<noteq> STATE_ACKNOWLEDGED"
  by (auto simp: status_defs)

lemma command_step_terminal: "is_terminal r \<Longrightarrow> command_step r e = r"
  using terminal_status [of r] terminal_iff_not_active [of r]
  by (cases e) (simp_all add: command_defs)

text \<open>
  A terminal outcome is final: once a command is confirmed, completed, timed out, rejected or
  superseded, no later sequence of replies, telemetry, timeouts or publications changes anything
  of its record. Every record is either active or terminal.
\<close>

lemma terminal_command_is_final:
  assumes "\<not> is_active r"
  shows "is_terminal r \<and> command_run r es = r"
proof -
  have t: "is_terminal r" using assms terminal_iff_not_active by blast
  then have "command_run r es = r"
    by (induction es) (simp_all add: command_run_def command_step_terminal)
  with t show ?thesis by blast
qed

section \<open>What confirms a command\<close>

lemma usable_stamp [simp]: "usable_monotonic (stamp t) = t"
  by (cases t) (simp_all add: usable_monotonic_def stamp_def)

lemma usable_PyNone [simp]: "usable_monotonic PyNone = None"
  by (simp add: usable_monotonic_def)

text \<open>When the value of a property was observed, as far as its provenance can be trusted.\<close>

definition observation_time :: "pyval \<Rightarrow> pyval \<Rightarrow> bool \<Rightarrow> seconds option" where
  "observation_time metric snapshot in_snapshot =
     (case usable_monotonic metric of
        Some t \<Rightarrow> Some t
      | None \<Rightarrow> if in_snapshot then usable_monotonic snapshot else None)"

lemma fresh_iff:
  "fresh (metric_confirmation_freshness command metric snapshot in_snapshot) \<longleftrightarrow>
     (\<exists>c t. usable_monotonic command = Some c \<and>
        observation_time metric snapshot in_snapshot = Some t \<and> c \<le> t)"
  by (auto simp: fresh_def metric_confirmation_freshness_def observation_time_def Let_def
      split: option.splits if_splits)

definition reported_time :: "metrics option \<Rightarrow> string \<Rightarrow> pyval" where
  "reported_time metric_monotonic key =
     (case metric_monotonic of None \<Rightarrow> PyNone
      | Some m \<Rightarrow> (case m key of None \<Rightarrow> PyNone | Some v \<Rightarrow> v))"

text \<open>A property is proven when its evidence was observed after the publication and matches.\<close>

definition property_proven ::
  "command_record \<Rightarrow> metrics \<Rightarrow> int \<Rightarrow> pyval \<Rightarrow> metrics option \<Rightarrow> string list \<Rightarrow> string \<Rightarrow> pyval \<Rightarrow> bool" where
  "property_proven r ms tol snapshot ages observed_keys key target \<longleftrightarrow>
     (\<exists>x c t. observed_number ms key = Some x \<and> property_matches key (PyFloat x) target tol \<and>
        published_monotonic r = Some c \<and>
        observation_time (reported_time ages key) snapshot (key \<in> set observed_keys) = Some t \<and> c \<le> t)"

lemma property_evidence_confirmed:
  "pc_confirmed (property_evidence r ms tol snapshot ages ks (k, target)) \<longleftrightarrow>
     (let key = evidence_key_for (operation_of r) k ms
      in property_proven r ms tol snapshot ages ks key target \<or>
         k \<in> set (optional_expected_keys (operation_of r)) \<and> ms key = None)"
  by (auto simp: property_evidence_def property_proven_def Let_def fresh_iff reported_time_def observed_number_def
      split: option.splits)

lemma property_failure_reason_None: "property_failure_reason es = None \<longleftrightarrow> list_all pc_confirmed es"
  by (induction es) auto

lemma evidence_of_expected:
  "expected_properties r = Some ((k, v) # rest) \<Longrightarrow>
     evaluate_expected_properties_confirmation r (Some ms) tol snapshot ages ks =
       map (property_evidence r ms tol snapshot ages (case ks of None \<Rightarrow> [] | Some l \<Rightarrow> l)) ((k, v) # rest)"
  by (simp add: evaluate_expected_properties_confirmation_def)

lemma evidence_nonempty:
  "evaluate_expected_properties_confirmation r metrics tol snapshot ages ks \<noteq> [] \<Longrightarrow>
     \<exists>expected ms. expected_properties r = Some expected \<and> expected \<noteq> [] \<and> metrics = Some ms \<and>
       evaluate_expected_properties_confirmation r metrics tol snapshot ages ks =
         map (property_evidence r ms tol snapshot ages (case ks of None \<Rightarrow> [] | Some l \<Rightarrow> l)) expected"
  by (auto simp: evaluate_expected_properties_confirmation_def split: option.splits list.splits)

lemma confirm_from_expected_properties_iff:
  "snd (confirm_from_expected_properties r metrics tol now_t snapshot ages ks allow) \<longleftrightarrow>
     eligible r allow \<and>
     (\<exists>expected ms. expected_properties r = Some expected \<and> expected \<noteq> [] \<and> metrics = Some ms \<and>
        (\<forall>(k, target) \<in> set expected. pc_confirmed
           (property_evidence r ms tol snapshot ages (case ks of None \<Rightarrow> [] | Some l \<Rightarrow> l) (k, target))))"
  (is "?lhs \<longleftrightarrow> ?rhs")
proof
  assume ?lhs
  then show ?rhs
    using evidence_nonempty [of r metrics tol snapshot ages ks]
    by (fastforce simp: confirm_from_expected_properties_def Let_def property_failure_reason_None list_all_iff
        split: if_splits option.splits)
next
  assume r: ?rhs
  then obtain k v rest ms where e: "expected_properties r = Some ((k, v) # rest)" and m: "metrics = Some ms"
    by (metis neq_Nil_conv surj_pair)
  let ?ks = "case ks of None \<Rightarrow> [] | Some l \<Rightarrow> l"
  have "list_all pc_confirmed (map (property_evidence r ms tol snapshot ages ?ks) ((k, v) # rest))"
    using r e m by (auto simp: list_all_iff)
  then have "property_failure_reason (map (property_evidence r ms tol snapshot ages ?ks) ((k, v) # rest)) = None"
    by (simp only: property_failure_reason_None)
  then show ?lhs
    using r m by (simp add: confirm_from_expected_properties_def Let_def evidence_of_expected [OF e] del: list.map)
qed

text \<open>
  C3. Telemetry confirms a command exactly when it proves every expected property: the command
  is acknowledged (or published, where no acknowledgement exists), there is something to prove,
  and every expected property is either proven by a matching value whose own observation is not
  older than the publication, or is optional and absent from the report. A stale value, a value
  of unknown age and a value that is not a number prove nothing.
\<close>

theorem confirmed_iff_every_property_proven:
  "snd (confirm_from_expected_properties r metrics tol now_t snapshot ages (Some ks) allow) \<longleftrightarrow>
     (status r = STATE_ACKNOWLEDGED \<or> allow \<and> status r = STATE_PUBLISHED) \<and>
     (\<exists>expected ms. expected_properties r = Some expected \<and> expected \<noteq> [] \<and> metrics = Some ms \<and>
        list_all (\<lambda>(k, target).
          property_proven r ms tol snapshot ages ks (evidence_key_for (operation_of r) k ms) target \<or>
          k \<in> set (optional_expected_keys (operation_of r)) \<and>
            ms (evidence_key_for (operation_of r) k ms) = None) expected)"
  unfolding confirm_from_expected_properties_iff
  by (simp add: eligible_def list_all_iff property_evidence_confirmed Let_def)

section \<open>Acknowledgement before confirmation\<close>

text \<open>The identity of a command: what correlates a reply and what telemetry is compared with.\<close>

definition identity :: "command_record \<Rightarrow> int \<times> string \<times> operation \<times> int \<times> (string \<times> pyval) list option" where
  "identity r = (message_id r, device_id r, operation_of r, target_w r, expected_properties r)"

lemma command_step_identity: "identity (command_step r e) = identity r"
  by (cases e) (auto simp: command_defs identity_def split: option.splits pyfloat.splits)

interpretation cmd: stepwise_invariant command_step "\<lambda>_. True" "\<lambda>r. identity r = i" for i
  by unfold_locales (simp add: command_step_identity)

text \<open>
  What whoever keeps a command promises itself of each operation on it: the command stays the one
  it was, the time of its publication stays, and an operation that reports no effect leaves the
  status and the time of the acknowledgement alone.
\<close>

locale command_operation =
  fixes opn :: "command_record \<Rightarrow> command_record \<times> bool"
  assumes keeps_identity: "identity (fst (opn r)) = identity r"
    and keeps_publication: "published_monotonic (fst (opn r)) = published_monotonic r"
    and no_effect: "\<not> snd (opn r) \<Longrightarrow> status (fst (opn r)) = status r"
    and no_effect_stamp: "\<not> snd (opn r) \<Longrightarrow> acknowledged_monotonic (fst (opn r)) = acknowledged_monotonic r"
begin

lemma keeps_correlation: "message_id (fst (opn r)) = message_id r" "target_w (fst (opn r)) = target_w r"
  using keeps_identity [of r] by (simp_all add: identity_def)

lemma no_effect_active: "\<not> snd (opn r) \<Longrightarrow> is_active (fst (opn r)) = is_active r"
  by (simp add: is_active_def no_effect)

end

interpretation ack_timeout: command_operation "\<lambda>r. apply_timeout r n d" for n d
  by unfold_locales (auto simp: apply_timeout_def identity_def split: if_splits)

interpretation confirmation_timeout: command_operation "\<lambda>r. apply_confirmation_timeout r n d b" for n d b
  by unfold_locales (auto simp: apply_confirmation_timeout_def identity_def split: if_splits)

interpretation replied: command_operation "\<lambda>r. apply_reply r m n" for m n
  by unfold_locales (auto simp: apply_reply_def identity_def Let_def split: if_splits)

interpretation completed: command_operation "\<lambda>r. complete_unconfirmed r n" for n
  by unfold_locales (auto simp: complete_unconfirmed_def identity_def split: if_splits)

interpretation superseded: command_operation "\<lambda>r. mark_superseded r n" for n
  by unfold_locales (auto simp: mark_superseded_def identity_def split: if_splits)

interpretation telemetry: command_operation "\<lambda>r. confirm_from_telemetry r v tol n tm k b" for v tol n tm k b
  by unfold_locales (auto simp: confirm_from_telemetry_def identity_def Let_def split: if_splits option.splits pyfloat.splits)

interpretation proven: command_operation "\<lambda>r. confirm_from_expected_properties r ms tol n tm mm ks b" for ms tol n tm mm ks b
  by unfold_locales (auto simp: confirm_from_expected_properties_def identity_def Let_def split: if_splits option.splits)

lemma command_run_identity: "identity (command_run r es) = identity r"
  unfolding command_run_def by (rule cmd.run_inv) (simp_all add: list_all_iff)

lemma reply_matches_identity: "identity r = identity r' \<Longrightarrow> reply_matches r m = reply_matches r' m"
  by (simp add: identity_def reply_matches_def split: option.splits)

fun allows_from_published :: "command_event \<Rightarrow> bool" where
  "allows_from_published (Telemetry v tol t tm k b) = b"
| "allows_from_published (Properties ms tol t tm mm ks b) = b"
| "allows_from_published _ = False"

fun acknowledges :: "command_record \<Rightarrow> command_event \<Rightarrow> bool" where
  "acknowledges r (Reply m t) = reply_matches r m"
| "acknowledges r _ = False"

lemma acknowledges_identity: "identity r = identity r' \<Longrightarrow> acknowledges r e = acknowledges r' e"
  using reply_matches_identity [of r r'] by (cases e) simp_all

lemma status_apply_reply:
  "status (fst (apply_reply r m t)) = status r \<or> reply_matches r m"
  by (simp add: apply_reply_def Let_def)

lemma status_confirm_from_telemetry:
  "status (fst (confirm_from_telemetry r v tol t tm k b)) = status r \<or> eligible r b"
  by (simp add: confirm_from_telemetry_def)

lemma status_confirm_from_properties:
  "status (fst (confirm_from_expected_properties r ms tol t tm mm ks b)) = status r \<or> eligible r b"
  by (simp add: confirm_from_expected_properties_def)

lemma acknowledged_step:
  assumes "acknowledged (command_step r e)"
  shows "acknowledged r \<or> acknowledges r e \<or> allows_from_published e"
proof (cases "status (command_step r e) = status r")
  case True
  then show ?thesis using assms by (simp add: acknowledged_def)
next
  case False
  show ?thesis
  proof (cases e)
    case (Reply m t)
    then show ?thesis using False status_apply_reply [of r m t] by simp
  next
    case (Telemetry v tol t tm k b)
    then show ?thesis
      using False status_confirm_from_telemetry [of r v tol t tm k b]
      by (auto simp: eligible_def acknowledged_def)
  next
    case (Properties ms tol t tm mm ks b)
    then show ?thesis
      using False status_confirm_from_properties [of r ms tol t tm mm ks b]
      by (auto simp: eligible_def acknowledged_def)
  qed (use assms False in \<open>auto simp: acknowledged_def mark_published_def mark_publish_failed_def
      mark_superseded_def apply_timeout_def apply_confirmation_timeout_def complete_unconfirmed_def
      split: if_splits\<close>)
qed

text \<open>
  A command that has a reply contract is confirmed only after the device acknowledged it: if
  no operation of a run allows confirmation from the published state, a queued command that
  ends up acknowledged or confirmed received a reply with its own message id and device id.
\<close>

lemma confirmed_command_was_acknowledged:
  assumes "status r = STATE_QUEUED" and "list_all (\<lambda>e. \<not> allows_from_published e) es"
    and "acknowledged (command_run r es)"
  shows "\<exists>m t. Reply m t \<in> set es \<and> reply_matches r m"
proof -
  have "\<exists>e \<in> set es. acknowledges r e"
    using assms(2,3)
  proof (induction es rule: rev_induct)
    case Nil
    then show ?case using assms(1) by (simp add: command_run_def acknowledged_def)
  next
    case (snoc e es)
    let ?r = "command_run r es"
    have "acknowledged ?r \<or> acknowledges ?r e"
      using snoc.prems acknowledged_step [of ?r e] by (auto simp: command_run_def run_steps_append)
    then show ?case
      using snoc acknowledges_identity [OF command_run_identity [of r es]] by auto
  qed
  then obtain e where "e \<in> set es" and "acknowledges r e" by blast
  then show ?thesis by - (cases e, auto)
qed

section \<open>No command waits forever\<close>

text \<open>Every stamp a record carries is at most \<open>n\<close>, and an acknowledged record has one.\<close>

definition stamped_by :: "seconds \<Rightarrow> command_record \<Rightarrow> bool" where
  "stamped_by n r \<longleftrightarrow> created_monotonic r \<le> n \<and> status r \<noteq> STATE_QUEUED \<and>
     (status r = STATE_ACKNOWLEDGED \<longrightarrow> (\<exists>t \<le> n. acknowledged_monotonic r = Some t))"

fun reply_stamped_by :: "seconds \<Rightarrow> command_event \<Rightarrow> bool" where
  "reply_stamped_by n (Reply m t) = (\<exists>x \<le> n. t = Some x)"
| "reply_stamped_by n _ = True"

lemma command_step_stamped:
  assumes "stamped_by n r" and "reply_stamped_by n e"
  shows "stamped_by n (command_step r e)"
  using assms
  by (cases e) (auto simp: command_defs stamped_by_def split: option.splits pyfloat.splits)

interpretation stamped: stepwise_invariant command_step "reply_stamped_by n" "stamped_by n" for n
  by unfold_locales (rule command_step_stamped)

text \<open>
  No command keeps the active slot forever: whatever happens to a published command, the two
  timeout checks of a cycle that comes late enough after its creation and its replies leave it
  terminal.
\<close>

lemma timeouts_release_the_slot:
  assumes "status r = STATE_PUBLISHED" and "created_monotonic r \<le> n"
    and "list_all (reply_stamped_by n) es"
    and "n + ack_timeout \<le> late" and "n + confirmation_timeout \<le> late"
  shows "is_terminal (command_run r (es @ [Timeout late ack_timeout,
    Confirmation_timeout late confirmation_timeout from_published]))"
proof -
  let ?r = "command_run r es"
  have "stamped_by n ?r"
    unfolding command_run_def
    by (rule stamped.run_inv) (use assms in \<open>simp_all add: stamped_by_def\<close>)
  then show ?thesis
    using assms(4,5)
    by (cases "status ?r")
       (auto simp: command_run_def run_steps_append stamped_by_def status_defs apply_timeout_def
         apply_confirmation_timeout_def elapsed_def)
qed

section \<open>ZenSDK commands and their telemetry\<close>

text \<open>The record of a ZenSDK command: its operation and the properties that prove it.\<close>

definition expecting :: "zensdk_power_operation \<Rightarrow> command_record \<Rightarrow> command_record" where
  "expecting op r = r\<lparr>operation_of := zop_operation op,
     expected_properties := Some (map (\<lambda>(k, n). (k, PyInt n)) (zop_expected_properties op))\<rparr>"

lemma exact_state_number_of_int [simp]: "exact_state_number (PyFloat (Fin (of_int n))) = Some n"
  by simp

lemma property_matches_echo: "0 \<le> tol \<Longrightarrow> property_matches k (PyFloat (Fin (of_int n))) (PyInt n) tol"
  by (simp add: property_matches_def del: exact_state_number.simps(2))

lemma property_proven_echo:
  assumes "ms k = Some (PyInt n)" and "ages k = Some (PyFloat (Fin a))" and "c \<le> a"
    and "published_monotonic r = Some c" and "0 \<le> tol"
  shows "property_proven r ms tol snapshot (Some ages) ks k (PyInt n)"
  using assms property_matches_echo [of tol k n]
  by (simp add: property_proven_def observed_number_def reported_time_def observation_time_def usable_monotonic_def)

lemma evidence_key_reported: "ms k = Some (PyInt n) \<Longrightarrow> evidence_key_for op k ms = k"
  by (simp add: evidence_key_for_def observed_number_def)

text \<open>
  Every ZenSDK power command can be confirmed: whatever the target, a published command
  whose properties the device reports back, each observed after the publication, is confirmed.
\<close>

lemma zensdk_echo_confirms:
  assumes "build_zensdk_power_operation (PyInt t) = Inr op"
    and "status r = STATE_PUBLISHED" and "published_monotonic r = Some c" and "0 \<le> tol"
    and "list_all (\<lambda>(k, n). ms k = Some (PyInt n) \<and>
      (\<exists>a \<ge> c. ages k = Some (PyFloat (Fin a)))) (zop_properties op)"
  shows "snd (confirm_from_expected_properties (expecting op r) (Some ms) tol now_t snapshot (Some ages) ks True)"
proof -
  have same: "zop_expected_properties op = zop_properties op" and some: "zop_properties op \<noteq> []"
    using assms(1) by (auto simp: Let_def split: if_splits)
  have "pc_confirmed (property_evidence (expecting op r) ms tol snapshot (Some ages) l (k, PyInt n))"
    if mem: "(k, n) \<in> set (zop_properties op)" for k n l
  proof -
    obtain a where "ms k = Some (PyInt n)" and "ages k = Some (PyFloat (Fin a))" and "c \<le> a"
      using assms(5) mem by (fastforce simp: list_all_iff)
    then show ?thesis
      using assms(3,4) property_proven_echo [of ms k n ages a c "expecting op r" tol]
      by (simp add: property_evidence_confirmed evidence_key_reported expecting_def)
  qed
  then show ?thesis
    using assms(2) some
    by (auto simp: confirm_from_expected_properties_iff eligible_def expecting_def same)
qed

text \<open>
  Confirming a ZenSDK command proves its effect: telemetry not older than the publication
  shows the commanded AC direction exactly, and the commanded power within the tolerance, as the
  output limit of a discharge and as the input limit (or, where that is absent, the measured
  grid input) of a charge.
\<close>

lemma zensdk_confirmation_proves_effect:
  assumes "build_zensdk_power_operation (PyInt t) = Inr op"
    and "snd (confirm_from_expected_properties (expecting op r) (Some ms) tol now_t snapshot ages (Some ks) allow)"
  shows "property_proven r ms tol snapshot ages ks ''acMode''
      (PyInt (if t < 0 then AC_MODE_INPUT else AC_MODE_OUTPUT)) \<and>
    (if t < 0
     then (\<exists>k \<in> {''inputLimit'', ''gridInputPower''}. property_proven r ms tol snapshot ages ks k (PyInt (- t)))
     else property_proven r ms tol snapshot ages ks ''outputLimit'' (PyInt t))"
proof -
  let ?r = "expecting op r"
  have proven: "property_proven r ms tol snapshot ages ks (evidence_key_for (zop_operation op) k ms) (PyInt n)"
    if "(k, n) \<in> set (zop_properties op)" and "k \<notin> set (optional_expected_keys (zop_operation op))" for k n
  proof -
    have "pc_confirmed (property_evidence ?r ms tol snapshot ages ks (k, PyInt n))"
      using assms that(1) by (force simp: confirm_from_expected_properties_iff expecting_def Let_def)
    then show ?thesis
      using that(2) by (simp add: property_evidence_confirmed Let_def expecting_def property_proven_def)
  qed
  show ?thesis
  proof (cases "t < 0")
    case True
    then have op: "zop_operation op = OPERATION_CHARGE"
      and "(''acMode'', AC_MODE_INPUT) \<in> set (zop_properties op)"
      and "(''inputLimit'', - t) \<in> set (zop_properties op)"
      using assms(1) by (auto simp: operation_for_target_def Let_def)
    then have "property_proven r ms tol snapshot ages ks ''acMode'' (PyInt AC_MODE_INPUT)"
      and "property_proven r ms tol snapshot ages ks (evidence_key_for OPERATION_CHARGE ''inputLimit'' ms) (PyInt (- t))"
      using proven [of "''acMode''"] proven [of "''inputLimit''"]
      by (auto simp: optional_expected_keys_def CHARGE_OPTIONAL_EXPECTED_KEYS_def evidence_key_for_def [of _ "''acMode''"])
    then show ?thesis
      using True by (auto simp: evidence_key_for_def split: if_splits)
  next
    case False
    then have op: "zop_operation op \<noteq> OPERATION_CHARGE"
      and "(''acMode'', AC_MODE_OUTPUT) \<in> set (zop_properties op)"
      and "(''outputLimit'', t) \<in> set (zop_properties op)"
      using assms(1) by (auto simp: operation_for_target_def Let_def split: if_splits)
    then show ?thesis
      using False proven [of "''acMode''"] proven [of "''outputLimit''"]
      by (auto simp: optional_expected_keys_def OPTIONAL_EXPECTED_KEYS_def evidence_key_for_def)
  qed
qed

end
