(* ===== verification/Power_Write.thy ===== *)
theory Power_Write
  imports Command_State
begin

text \<open>
  What a power write looks like on the wire and when it may be sent:
  \<open>ems/mqtt_control/power_capability.py\<close>, \<open>ems/mqtt_control/zendure_commands.py\<close>,
  \<open>ems/zendure_mqtt/write_protocols.py\<close> and the write builder of
  \<open>ems/zendure_mqtt/device_client.py\<close>.

  A payload is the structure that the code serialises; a topic is a string of bytes. The registry
  of hardware profiles is an argument (\<open>cc_registry\<close>), so everything holds for every registry.

  Proved: every message the builder makes says the target it was made for, when it is decoded the
  way the device's protocol reads it, and is addressed to the device.
\<close>

section \<open>Hardware profiles and capability\<close>

fun write_profile_name :: "write_profile \<Rightarrow> string" where
  "write_profile_name WRITE_PROFILE_ZENSDK_PROPERTIES = ''zensdk_properties_write''"
| "write_profile_name WRITE_PROFILE_LEGACY_HUB = ''legacy_hub_device_automation''"
| "write_profile_name WRITE_PROFILE_LEGACY_OBJECT = ''legacy_object_device_automation''"
| "write_profile_name WRITE_PROFILE_TELEMETRY_ONLY = ''telemetry_only''"

definition IMPLEMENTED_WRITE_PROFILES :: "write_profile list" where
  "IMPLEMENTED_WRITE_PROFILES =
     [WRITE_PROFILE_ZENSDK_PROPERTIES, WRITE_PROFILE_LEGACY_HUB, WRITE_PROFILE_LEGACY_OBJECT]"

record hardware_profile =
  canonical_name :: string
  power_write_profile :: write_profile
  supports_discharge :: bool
  supports_idle :: bool
  supports_charge :: bool
  validation_deferred :: bool
  state_property_writes :: "string list"
  device_settings :: "string list"

definition writable :: "hardware_profile \<Rightarrow> bool" where
  "writable p \<longleftrightarrow> power_write_profile p \<in> set IMPLEMENTED_WRITE_PROFILES"

definition supported_operations :: "hardware_profile \<Rightarrow> operation list" where
  "supported_operations p =
     (if supports_discharge p then [OPERATION_DISCHARGE] else []) @
     (if supports_idle p then [OPERATION_IDLE] else []) @
     (if supports_charge p then [OPERATION_CHARGE] else [])"

definition supports_operation :: "hardware_profile \<Rightarrow> operation \<Rightarrow> bool" where
  "supports_operation p op \<longleftrightarrow> op \<in> set (supported_operations p)"

datatype write_block =
    BLOCK_HARDWARE_PROFILE_MISSING | BLOCK_HARDWARE_PROFILE_UNKNOWN | BLOCK_HARDWARE_PROFILE_DEFERRED
  | BLOCK_TRANSPORT_WRITE_NOT_IMPLEMENTED | BLOCK_OPERATION_UNSUPPORTED
  | BLOCK_BROKER_SOURCE_UNKNOWN | BLOCK_BROKER_SOURCE_WRITE_UNVERIFIED

datatype broker_source = BROKER_SOURCE_LOCAL_MQTT | BROKER_SOURCE_ZENDURE_CLOUD_MQTT

datatype write_family = WRITE_FAMILY_PROPERTIES_WRITE | WRITE_FAMILY_FUNCTION_INVOKE

fun write_family_for_profile :: "write_profile \<Rightarrow> write_family option" where
  "write_family_for_profile WRITE_PROFILE_ZENSDK_PROPERTIES = Some WRITE_FAMILY_PROPERTIES_WRITE"
| "write_family_for_profile WRITE_PROFILE_LEGACY_HUB = Some WRITE_FAMILY_FUNCTION_INVOKE"
| "write_family_for_profile WRITE_PROFILE_LEGACY_OBJECT = Some WRITE_FAMILY_FUNCTION_INVOKE"
| "write_family_for_profile WRITE_PROFILE_TELEMETRY_ONLY = None"

definition JSON_FAMILIES :: "string list" where
  "JSON_FAMILIES = [''legacy_zendure_json'', ''legacy_zendure_json_alt'']"

definition normalize_broker_source :: "string option \<Rightarrow> broker_source option" where
  "normalize_broker_source src =
     (let value = (case src of None \<Rightarrow> [] | Some s \<Rightarrow> py_lower (py_strip s))
      in if value = ''local_mqtt'' then Some BROKER_SOURCE_LOCAL_MQTT
         else if value = ''zendure_cloud_mqtt'' then Some BROKER_SOURCE_ZENDURE_CLOUD_MQTT else None)"

record broker_source_write_support =
  bs_supported :: bool
  bs_broker_source :: "broker_source option"
  bs_block_reason :: "write_block option"

definition resolve_broker_source_write_support ::
  "string option \<Rightarrow> string option \<Rightarrow> broker_source_write_support" where
  "resolve_broker_source_write_support src telemetry_family =
     (case normalize_broker_source src of
        None \<Rightarrow> \<lparr>bs_supported = False, bs_broker_source = None, bs_block_reason = Some BLOCK_BROKER_SOURCE_UNKNOWN\<rparr>
      | Some BROKER_SOURCE_ZENDURE_CLOUD_MQTT \<Rightarrow>
          \<lparr>bs_supported = True, bs_broker_source = Some BROKER_SOURCE_ZENDURE_CLOUD_MQTT, bs_block_reason = None\<rparr>
      | Some BROKER_SOURCE_LOCAL_MQTT \<Rightarrow>
          let family = py_strip (case telemetry_family of None \<Rightarrow> [] | Some f \<Rightarrow> f);
              ok = (family \<in> set JSON_FAMILIES)
          in \<lparr>bs_supported = ok, bs_broker_source = Some BROKER_SOURCE_LOCAL_MQTT,
              bs_block_reason = (if ok then None else Some BLOCK_BROKER_SOURCE_WRITE_UNVERIFIED)\<rparr>)"

record power_write_capability =
  cap_supported :: bool
  cap_profile_id :: "string option"
  cap_write_profile :: "write_profile option"
  cap_operations :: "operation list"
  cap_block_reason :: "write_block option"
  cap_model_supported :: bool
  cap_transport_supported :: bool
  cap_telemetry_family :: "string option"
  cap_write_family :: "write_family option"
  cap_broker_source :: "broker_source option"
  cap_broker_source_supported :: bool

definition resolve_power_write_capability ::
  "(string \<Rightarrow> hardware_profile option) \<Rightarrow> string option \<Rightarrow> string option \<Rightarrow> string option \<Rightarrow> operation option \<Rightarrow>
   power_write_capability" where
  "resolve_power_write_capability registry topic_family pinned src op =
     (let stripped = py_strip (case topic_family of None \<Rightarrow> [] | Some f \<Rightarrow> f);
          family = (if stripped = [] then None else Some stripped);
          support = resolve_broker_source_write_support src family;
          name = (case pinned of None \<Rightarrow> [] | Some n \<Rightarrow> py_strip n);
          base = \<lparr>cap_supported = False, cap_profile_id = None, cap_write_profile = None, cap_operations = [],
            cap_block_reason = None, cap_model_supported = False, cap_transport_supported = False,
            cap_telemetry_family = family, cap_write_family = None,
            cap_broker_source = bs_broker_source support, cap_broker_source_supported = bs_supported support\<rparr>
      in if name = [] then base\<lparr>cap_block_reason := Some BLOCK_HARDWARE_PROFILE_MISSING\<rparr>
         else
           case registry name of
             None \<Rightarrow> base\<lparr>cap_block_reason := Some BLOCK_HARDWARE_PROFILE_UNKNOWN\<rparr>
           | Some profile \<Rightarrow>
               let named = base\<lparr>cap_profile_id := Some (canonical_name profile),
                                cap_write_profile := Some (power_write_profile profile)\<rparr>
               in if \<not> writable profile
                  then named\<lparr>cap_block_reason := Some (if validation_deferred profile
                         then BLOCK_HARDWARE_PROFILE_DEFERRED else BLOCK_HARDWARE_PROFILE_UNKNOWN)\<rparr>
                  else
                    case write_family_for_profile (power_write_profile profile) of
                      None \<Rightarrow> named\<lparr>cap_block_reason := Some BLOCK_TRANSPORT_WRITE_NOT_IMPLEMENTED,
                                    cap_model_supported := True\<rparr>
                    | Some fam \<Rightarrow>
                        let common = named\<lparr>cap_operations := supported_operations profile,
                              cap_model_supported := True, cap_transport_supported := True,
                              cap_write_family := Some fam\<rparr>
                        in if \<not> bs_supported support then common\<lparr>cap_block_reason := bs_block_reason support\<rparr>
                           else if (case op of None \<Rightarrow> False | Some x \<Rightarrow> x \<notin> set (supported_operations profile))
                           then common\<lparr>cap_block_reason := Some BLOCK_OPERATION_UNSUPPORTED\<rparr>
                           else common\<lparr>cap_supported := True\<rparr>)"

section \<open>Messages\<close>

record object_value =
  charging_type :: int
  charging_power :: int
  out_power :: int
  freq :: int
  price :: "int option"
  prices :: "int list option"

datatype auto_model_value = Hub_value int | Object_value object_value

record invoke_payload =
  iv_function :: string
  auto_model_program :: int
  auto_model_value :: auto_model_value
  msg_type :: int
  auto_model :: int
  iv_message_id :: int
  iv_device_key :: string
  iv_device_id :: string
  iv_timestamp :: int

record properties_payload =
  pp_device_id :: string
  pp_message_id :: int
  pp_timestamp :: int
  pp_properties :: properties

datatype mqtt_payload = Invoke invoke_payload | Properties_write properties_payload

record mqtt_message =
  topic :: string
  payload :: mqtt_payload
  qos :: int
  retain :: bool

definition CONTROL_PUBLISH_QOS :: int where "CONTROL_PUBLISH_QOS = 1"

definition MAX_PUBLISH_TOPIC_BYTES :: nat where "MAX_PUBLISH_TOPIC_BYTES = 512"

fun AUTO_MODEL_PROGRAM :: "operation \<Rightarrow> int" where
  "AUTO_MODEL_PROGRAM OPERATION_DISCHARGE = 2"
| "AUTO_MODEL_PROGRAM OPERATION_IDLE = 0"
| "AUTO_MODEL_PROGRAM OPERATION_CHARGE = 1"

fun AUTO_MODEL :: "operation \<Rightarrow> int" where
  "AUTO_MODEL OPERATION_DISCHARGE = 8"
| "AUTO_MODEL OPERATION_IDLE = 0"
| "AUTO_MODEL OPERATION_CHARGE = 8"

definition make_object_value :: "operation \<Rightarrow> int \<Rightarrow> object_value" where
  "make_object_value op watts =
     (if op = OPERATION_CHARGE
      then \<lparr>charging_type = 1, charging_power = watts, out_power = 0, freq = 0,
            price = Some 2, prices = Some (replicate 24 1)\<rparr>
      else \<lparr>charging_type = 0, charging_power = 0, out_power = watts, freq = 0, price = None, prices = None\<rparr>)"

datatype power_command_error = PowerCommandError

record zendure_power_command =
  zc_topic :: string
  zc_payload :: invoke_payload
  zc_operation :: operation
  zc_target_w :: int
  zc_expected_properties :: "properties option"

definition build_power_command ::
  "hardware_profile option \<Rightarrow> pyval \<Rightarrow> string option \<Rightarrow> string \<Rightarrow> int \<Rightarrow> int \<Rightarrow>
   power_command_error + zendure_power_command" where
  "build_power_command profile target product_key device message timestamp =
     (case profile of
        None \<Rightarrow> Inl PowerCommandError
      | Some p \<Rightarrow>
          if power_write_profile p \<notin> set [WRITE_PROFILE_LEGACY_HUB, WRITE_PROFILE_LEGACY_OBJECT]
          then Inl PowerCommandError
          else
            case target of
              PyInt t \<Rightarrow>
                let op = operation_for_target t
                in if \<not> supports_operation p op then Inl PowerCommandError
                   else if product_key = None \<or> product_key = Some [] then Inl PowerCommandError
                   else if device = [] then Inl PowerCommandError
                   else if message \<le> 0 then Inl PowerCommandError
                   else if timestamp \<le> 0 then Inl PowerCommandError
                   else
                     let watts = \<bar>t\<bar>;
                         value = (if power_write_profile p = WRITE_PROFILE_LEGACY_HUB then Hub_value watts
                                  else Object_value (make_object_value op watts))
                     in Inr \<lparr>zc_topic = ''iot/'' @ the product_key @ ''/'' @ device @ ''/function/invoke'',
                          zc_payload = \<lparr>iv_function = ''deviceAutomation'', auto_model_program = AUTO_MODEL_PROGRAM op,
                            auto_model_value = value, msg_type = 1, auto_model = AUTO_MODEL op,
                            iv_message_id = message, iv_device_key = device, iv_device_id = device,
                            iv_timestamp = timestamp\<rparr>,
                          zc_operation = op, zc_target_w = t,
                          zc_expected_properties = (if op = OPERATION_CHARGE
                            then Some [(''acMode'', AC_MODE_INPUT), (''inputLimit'', watts)] else None)\<rparr>
            | _ \<Rightarrow> Inl PowerCommandError)"

text \<open>Whether a topic is refused; a topic of bytes always has an encoding.\<close>

definition publish_topic_error :: "string option \<Rightarrow> string option" where
  "publish_topic_error tp =
     (case tp of
        None \<Rightarrow> Some ''topic_not_a_string''
      | Some raw \<Rightarrow>
          let text = py_strip raw
          in if text = [] then Some ''topic_empty''
             else if CHR ''+'' \<in> set text \<or> CHR ''#'' \<in> set text then Some ''topic_wildcard''
             else if CHR 0x00 \<in> set text then Some ''topic_nul''
             else if MAX_PUBLISH_TOPIC_BYTES < length text then Some ''topic_too_long''
             else None)"

datatype write_protocol = PROTOCOL_LEGACY_PROPERTIES_WRITE | PROTOCOL_CUSTOM_PROPERTIES_WRITE

definition resolve_write_protocol :: "string option \<Rightarrow> write_protocol option" where
  "resolve_write_protocol explicit =
     (case explicit of
        None \<Rightarrow> None
      | Some s \<Rightarrow> if py_lower (py_strip s) = ''custom_properties_write'' then Some PROTOCOL_CUSTOM_PROPERTIES_WRITE
                  else None)"

definition legacy_topic :: "string option \<Rightarrow> string \<Rightarrow> string option" where
  "legacy_topic product_key device =
     (case product_key of
        None \<Rightarrow> None
      | Some k \<Rightarrow> if k = [] \<or> device = [] then None
                  else Some (''iot/'' @ k @ ''/'' @ device @ ''/properties/write''))"

definition build_properties_write_message ::
  "write_protocol \<Rightarrow> properties \<Rightarrow> string option \<Rightarrow> string \<Rightarrow> string option \<Rightarrow> int \<Rightarrow> int \<Rightarrow> int \<Rightarrow> mqtt_message option" where
  "build_properties_write_message protocol props product_key device write_topic message timestamp q =
     (if props = [] then None
      else if py_strip device = [] then None
      else
        let tp = (if protocol = PROTOCOL_CUSTOM_PROPERTIES_WRITE
                  then (case write_topic of None \<Rightarrow> None
                        | Some w \<Rightarrow> if py_strip w = [] then None else Some (py_strip w))
                  else legacy_topic product_key device)
        in if tp = None \<or> publish_topic_error tp \<noteq> None then None
           else Some \<lparr>topic = the tp,
                  payload = Properties_write \<lparr>pp_device_id = device, pp_message_id = message,
                    pp_timestamp = timestamp, pp_properties = props\<rparr>,
                  qos = q, retain = False\<rparr>)"

section \<open>The builder of a device client\<close>

record client_config =
  cc_device_id :: string
  cc_topic_family :: "string option"
  cc_source :: "string option"
  cc_product_key :: "string option"
  cc_write_topic :: "string option"
  cc_write_protocol :: "string option"
  cc_hardware_profile :: "string option"
  cc_power_write_profile :: "string option"
  cc_registry :: "string \<Rightarrow> hardware_profile option"
  cc_max_power :: "watts option"
  cc_ack_timeout_s :: seconds
  cc_confirmation_timeout_s :: seconds
  cc_confirmation_tolerance_w :: "watts option"
  cc_safety_preempt_margin_w :: watts
  cc_telemetry_confirmation :: "bool option"

definition power_profile :: "client_config \<Rightarrow> hardware_profile option" where
  "power_profile c =
     (case cc_hardware_profile c of None \<Rightarrow> None | Some n \<Rightarrow> if n = [] then None else cc_registry c n)"

definition hardware_profile_invalid :: "client_config \<Rightarrow> bool" where
  "hardware_profile_invalid c \<longleftrightarrow>
     (case power_profile c of
        None \<Rightarrow> cc_hardware_profile c \<noteq> None \<and> cc_hardware_profile c \<noteq> Some []
      | Some p \<Rightarrow>
          (case cc_power_write_profile c of
             None \<Rightarrow> False
           | Some w \<Rightarrow> py_strip w \<noteq> [] \<and> py_strip w \<noteq> write_profile_name (power_write_profile p)))"

record write_blocked =
  wb_field :: string
  wb_error :: string

definition blocked :: "string \<Rightarrow> string \<Rightarrow> write_blocked" where
  "blocked field err = \<lparr>wb_field = field, wb_error = err\<rparr>"

fun validate_power_target :: "pyval \<Rightarrow> write_blocked + int" where
  "validate_power_target (PyInt n) = Inr n"
| "validate_power_target _ = Inl (blocked ''outputLimit'' ''invalid_power_target'')"

definition require_supported_operation :: "client_config \<Rightarrow> operation \<Rightarrow> write_blocked option" where
  "require_supported_operation c op =
     (let cap = resolve_power_write_capability (cc_registry c) (cc_topic_family c) (cc_hardware_profile c)
                  (cc_source c) (Some op)
      in if cap_supported cap then None
         else Some (blocked ''outputLimit''
           (case cap_block_reason cap of
              Some BLOCK_OPERATION_UNSUPPORTED \<Rightarrow>
                if op = OPERATION_CHARGE then ''charge_target_unsupported'' else ''unsupported_power_operation''
            | Some BLOCK_TRANSPORT_WRITE_NOT_IMPLEMENTED \<Rightarrow> ''transport_write_not_implemented''
            | Some BLOCK_BROKER_SOURCE_UNKNOWN \<Rightarrow> ''broker_source_unknown''
            | Some BLOCK_BROKER_SOURCE_WRITE_UNVERIFIED \<Rightarrow> ''broker_source_write_unverified''
            | _ \<Rightarrow> ''telemetry_only_hardware'')))"

definition enforce_power_limit :: "client_config \<Rightarrow> int \<Rightarrow> operation \<Rightarrow> write_blocked option" where
  "enforce_power_limit c t op =
     (if op = OPERATION_IDLE then None
      else case cc_max_power c of
             None \<Rightarrow> None
           | Some m \<Rightarrow> if m \<le> 0 then None
                       else if m < of_int \<bar>t\<bar> then Some (blocked ''outputLimit'' ''target_above_maximum'')
                       else None)"

definition precheck_target :: "client_config \<Rightarrow> int \<Rightarrow> write_blocked + operation" where
  "precheck_target c t =
     (if hardware_profile_invalid c then Inl (blocked ''outputLimit'' ''unknown_hardware_profile'')
      else
        let op = operation_for_target t
        in if power_profile c \<noteq> None
           then (case require_supported_operation c op of
                   Some b \<Rightarrow> Inl b
                 | None \<Rightarrow> (case enforce_power_limit c t op of Some b \<Rightarrow> Inl b | None \<Rightarrow> Inr op))
           else if op = OPERATION_CHARGE then Inl (blocked ''outputLimit'' ''charge_target_unsupported'')
           else case enforce_power_limit c t op of
                  Some b \<Rightarrow> Inl b
                | None \<Rightarrow>
                    if resolve_write_protocol (cc_write_protocol c) = None
                    then Inl (blocked ''outputLimit'' ''no_write_protocol'')
                    else if publish_topic_error (cc_write_topic c) \<noteq> None
                    then Inl (blocked ''outputLimit'' ''invalid_write_topic'')
                    else Inr op)"

text \<open>The message, its operation and the telemetry that proves it; message id and wall clock are given.\<close>

definition as_expected :: "properties \<Rightarrow> (string \<times> pyval) list" where
  "as_expected ps = map (\<lambda>(k, v). (k, PyInt v)) ps"

definition build_properties_write ::
  "client_config \<Rightarrow> int \<Rightarrow> int \<Rightarrow> int \<Rightarrow>
   write_blocked + mqtt_message \<times> operation \<times> (string \<times> pyval) list option" where
  "build_properties_write c t message timestamp =
     (case resolve_write_protocol (cc_write_protocol c) of
        None \<Rightarrow> Inl (blocked ''outputLimit'' ''no_write_protocol'')
      | Some protocol \<Rightarrow>
          (case build_properties_write_message protocol [(''outputLimit'', t)] (cc_product_key c) (cc_device_id c)
                  (cc_write_topic c) message timestamp CONTROL_PUBLISH_QOS of
             None \<Rightarrow> Inl (blocked ''outputLimit'' ''no_write_protocol'')
           | Some m \<Rightarrow> Inr (m, operation_for_target t, None)))"

definition build_write ::
  "client_config \<Rightarrow> int \<Rightarrow> int \<Rightarrow> int \<Rightarrow>
   write_blocked + mqtt_message \<times> operation \<times> (string \<times> pyval) list option" where
  "build_write c t message timestamp =
     (case precheck_target c t of
        Inl b \<Rightarrow> Inl b
      | Inr _ \<Rightarrow>
          (case power_profile c of
             None \<Rightarrow> build_properties_write c t message timestamp
           | Some p \<Rightarrow>
               if power_write_profile p \<in> set [WRITE_PROFILE_LEGACY_HUB, WRITE_PROFILE_LEGACY_OBJECT]
               then (case build_power_command (Some p) (PyInt t) (cc_product_key c) (cc_device_id c) message timestamp of
                       Inl _ \<Rightarrow> Inl (blocked ''power_command'' ''unsupported_power_operation'')
                     | Inr cmd \<Rightarrow>
                         Inr (\<lparr>topic = zc_topic cmd, payload = Invoke (zc_payload cmd), qos = CONTROL_PUBLISH_QOS,
                               retain = False\<rparr>, zc_operation cmd, map_option as_expected (zc_expected_properties cmd)))
               else
                 (case build_zensdk_power_operation (PyInt t) of
                    Inl _ \<Rightarrow> Inl (blocked ''outputLimit'' ''unsupported_power_operation'')
                  | Inr contract \<Rightarrow>
                      (case build_properties_write_message PROTOCOL_LEGACY_PROPERTIES_WRITE (zop_properties contract)
                              (cc_product_key c) (cc_device_id c) None message timestamp CONTROL_PUBLISH_QOS of
                         None \<Rightarrow> Inl (blocked ''outputLimit'' ''no_write_protocol'')
                       | Some m \<Rightarrow> Inr (m, zop_operation contract, Some (as_expected (zop_expected_properties contract)))))))"

section \<open>A message says its target\<close>

text \<open>
  How the device reads a payload: an invoke by its program, with the power in the automation value;
  a property write by its output limit, less its input limit where it carries one.
\<close>

definition payload_watts :: "auto_model_value \<Rightarrow> bool \<Rightarrow> int" where
  "payload_watts v charging =
     (case v of Hub_value w \<Rightarrow> w | Object_value ob \<Rightarrow> if charging then charging_power ob else out_power ob)"

fun payload_target :: "mqtt_payload \<Rightarrow> int option" where
  "payload_target (Invoke iv) =
     (if auto_model_program iv = 2 then Some (payload_watts (auto_model_value iv) False)
      else if auto_model_program iv = 0 then Some 0
      else if auto_model_program iv = 1 then Some (- payload_watts (auto_model_value iv) True)
      else None)"
| "payload_target (Properties_write pp) =
     (case map_of (pp_properties pp) ''outputLimit'' of
        None \<Rightarrow> None
      | Some out \<Rightarrow> Some (out - (case map_of (pp_properties pp) ''inputLimit'' of None \<Rightarrow> 0 | Some i \<Rightarrow> i)))"

fun payload_message_id :: "mqtt_payload \<Rightarrow> int" where
  "payload_message_id (Invoke iv) = iv_message_id iv"
| "payload_message_id (Properties_write pp) = pp_message_id pp"

fun payload_device_id :: "mqtt_payload \<Rightarrow> string" where
  "payload_device_id (Invoke iv) = iv_device_id iv"
| "payload_device_id (Properties_write pp) = pp_device_id pp"

lemma invoke_carries:
  assumes "build_power_command p (PyInt t) k d m ts = Inr cmd"
  shows "payload_target (Invoke (zc_payload cmd)) = Some t \<and> iv_message_id (zc_payload cmd) = m \<and>
    iv_device_id (zc_payload cmd) = d \<and> zc_operation cmd = operation_for_target t"
  using assms
  by (auto simp: build_power_command_def make_object_value_def payload_watts_def operation_for_target_def Let_def
      split: option.splits if_splits)

lemma properties_message_shape:
  assumes "build_properties_write_message pr ps k d w m ts q = Some msg"
  shows "payload msg = Properties_write \<lparr>pp_device_id = d, pp_message_id = m, pp_timestamp = ts, pp_properties = ps\<rparr> \<and>
    qos msg = q \<and> \<not> retain msg"
  using assms by (auto simp: build_properties_write_message_def Let_def split: if_splits)

lemma precheck_operation: "precheck_target c t = Inr op \<Longrightarrow> op = operation_for_target t"
  by (auto simp: precheck_target_def Let_def split: if_splits option.splits)

lemma precheck_limit:
  assumes "precheck_target c t = Inr op" and "cc_max_power c = Some m" and "0 < m"
  shows "of_int \<bar>t\<bar> \<le> m"
  using assms
  by (auto simp: precheck_target_def enforce_power_limit_def operation_for_target_def Let_def
      split: if_splits option.splits)

lemma capability_supports:
  assumes "cap_supported (resolve_power_write_capability reg fam pinned src (Some op))"
  shows "\<exists>p. reg (py_strip (the pinned)) = Some p \<and> writable p \<and> supports_operation p op"
  using assms
  by (auto simp: resolve_power_write_capability_def supports_operation_def Let_def split: if_splits option.splits)

lemma build_write_carries:
  assumes "build_write c t message timestamp = Inr (m, op, expected)"
  shows "payload_target (payload m) = Some t \<and> payload_message_id (payload m) = message \<and>
    payload_device_id (payload m) = cc_device_id c \<and> op = operation_for_target t \<and> qos m = 1 \<and> \<not> retain m"
  using assms
  by (auto simp: build_write_def build_properties_write_def CONTROL_PUBLISH_QOS_def Let_def operation_for_target_def
      split: option.splits sum.splits if_splits dest!: invoke_carries properties_message_shape)

text \<open>
  C27. A power write says what it was made for: a message the builder returns carries the signed
  target, the message id and the device id when the device's protocol decodes it, in every write
  profile and on the custom topic; it is sent once with QoS 1 and never retained; the target is
  within the configured maximum, and a charge is written only for a pinned profile.
\<close>

theorem every_write_carries_its_target:
  assumes "build_write c t message timestamp = Inr (m, op, expected)"
  shows "payload_target (payload m) = Some t \<and> payload_message_id (payload m) = message \<and>
    payload_device_id (payload m) = cc_device_id c \<and> op = operation_for_target t \<and>
    qos m = 1 \<and> \<not> retain m \<and>
    (case cc_max_power c of Some limit \<Rightarrow> limit \<le> 0 \<or> of_int \<bar>t\<bar> \<le> limit | None \<Rightarrow> True) \<and>
    (0 \<le> t \<or> power_profile c \<noteq> None)"
proof -
  from assms obtain op' where pre: "precheck_target c t = Inr op'"
    by (auto simp: build_write_def split: sum.splits)
  have limit: "case cc_max_power c of Some limit \<Rightarrow> limit \<le> 0 \<or> of_int \<bar>t\<bar> \<le> limit | None \<Rightarrow> True"
    using precheck_limit [OF pre] by (auto split: option.splits intro: leI)
  have profile: "0 \<le> t \<or> power_profile c \<noteq> None"
    using pre by (auto simp: precheck_target_def operation_for_target_def Let_def split: if_splits)
  show ?thesis using build_write_carries [OF assms] limit profile by blast
qed

definition demo_hyper :: hardware_profile where
  "demo_hyper = \<lparr>canonical_name = ''hyper_2000'', power_write_profile = WRITE_PROFILE_LEGACY_OBJECT,
     supports_discharge = True, supports_idle = True, supports_charge = True, validation_deferred = False,
     state_property_writes = [], device_settings = []\<rparr>"

definition demo_client :: client_config where
  "demo_client = \<lparr>cc_device_id = ''d1'', cc_topic_family = Some ''legacy_zendure_json'', cc_source = Some ''local_mqtt'',
     cc_product_key = Some ''pk'', cc_write_topic = None, cc_write_protocol = None,
     cc_hardware_profile = Some ''hyper_2000'', cc_power_write_profile = None,
     cc_registry = (\<lambda>n. if n = ''hyper_2000'' then Some demo_hyper else None),
     cc_max_power = Some 1200, cc_ack_timeout_s = 10, cc_confirmation_timeout_s = 30,
     cc_confirmation_tolerance_w = None, cc_safety_preempt_margin_w = 100, cc_telemetry_confirmation = None\<rparr>"

theorem every_write_carries_its_target_witness:
  "\<exists>m op e. build_write demo_client (- 600) 7 1000 = Inr (m, op, e) \<and> payload_target (payload m) = Some (- 600)"
proof -
  have "case build_write demo_client (- 600) 7 1000 of Inl _ \<Rightarrow> False | Inr _ \<Rightarrow> True" by code_simp
  then obtain m op e where w: "build_write demo_client (- 600) 7 1000 = Inr (m, op, e)"
    by (auto split: sum.splits)
  from every_write_carries_its_target [OF w] w show ?thesis by blast
qed

section \<open>Property writes\<close>

text \<open>The limits of a property's value; a property without an entry has none.\<close>

definition PROPERTY_VALUE_RANGES :: "string \<Rightarrow> int option \<times> int option" where
  "PROPERTY_VALUE_RANGES key =
     (if key = ''acMode'' then (Some 1, Some 2)
      else if key = ''smartMode'' then (Some 0, Some 1)
      else if key = ''outputLimit'' then (Some 0, None)
      else if key = ''inputLimit'' then (Some 0, None)
      else (None, None))"

text \<open>The loop of \<open>_prepare_property_write\<close>: it stops at the first property it refuses.\<close>

fun validate_properties :: "string list \<Rightarrow> watts option \<Rightarrow> (string \<times> pyval) list \<Rightarrow> write_blocked option" where
  "validate_properties allowed limit [] = None"
| "validate_properties allowed limit ((key, value) # rest) =
     (if key \<notin> set allowed then Some (blocked key ''property_write_unsupported'')
      else
        case value of
          PyInt n \<Rightarrow>
            let (lo, hi) = PROPERTY_VALUE_RANGES key
            in if (case lo of None \<Rightarrow> False | Some l \<Rightarrow> n < l) then Some (blocked key ''invalid_property_value'')
               else if (case hi of None \<Rightarrow> False | Some h \<Rightarrow> h < n) then Some (blocked key ''invalid_property_value'')
               else if key \<in> set [''outputLimit'', ''inputLimit''] \<and>
                       (case limit of None \<Rightarrow> False | Some m \<Rightarrow> 0 < m \<and> m < of_int n)
               then Some (blocked key ''target_above_maximum'')
               else validate_properties allowed limit rest
        | _ \<Rightarrow> Some (blocked key ''invalid_property_value''))"

definition int_properties :: "(string \<times> pyval) list \<Rightarrow> properties" where
  "int_properties ps = map (\<lambda>(k, v). (k, case v of PyInt n \<Rightarrow> n | _ \<Rightarrow> 0)) ps"

text \<open>\<open>None\<close> stands for an argument that is no mapping.\<close>

definition prepare_property_write ::
  "client_config \<Rightarrow> (string \<times> pyval) list option \<Rightarrow> int \<Rightarrow> int \<Rightarrow> write_blocked + mqtt_message" where
  "prepare_property_write c props message timestamp =
     (if hardware_profile_invalid c then Inl (blocked ''properties'' ''unknown_hardware_profile'')
      else
        case power_profile c of
          None \<Rightarrow> Inl (blocked ''properties'' ''property_write_unsupported'')
        | Some p \<Rightarrow>
            if state_property_writes p = [] then Inl (blocked ''properties'' ''property_write_unsupported'')
            else if props = None \<or> props = Some [] then Inl (blocked ''properties'' ''invalid_property_value'')
            else
              case validate_properties (state_property_writes p) (cc_max_power c) (the props) of
                Some b \<Rightarrow> Inl b
              | None \<Rightarrow>
                  (case build_properties_write_message PROTOCOL_LEGACY_PROPERTIES_WRITE (int_properties (the props))
                          (cc_product_key c) (cc_device_id c) None message timestamp CONTROL_PUBLISH_QOS of
                     None \<Rightarrow> Inl (blocked ''properties'' ''no_write_protocol'')
                   | Some m \<Rightarrow> Inr m))"

text \<open>One key of the preflight check: the reason it cannot be written, if any.\<close>

definition check_property :: "string list \<Rightarrow> watts option \<Rightarrow> string \<Rightarrow> pyval \<Rightarrow> string option" where
  "check_property writable_keys limit key value =
     (if key \<notin> set writable_keys then Some ''property_write_unsupported''
      else
        case value of
          PyInt n \<Rightarrow>
            let (lo, hi) = PROPERTY_VALUE_RANGES key
            in if (case lo of None \<Rightarrow> False | Some l \<Rightarrow> n < l) then Some ''invalid_property_value''
               else if (case hi of None \<Rightarrow> False | Some h \<Rightarrow> h < n) then Some ''invalid_property_value''
               else if key \<in> set [''outputLimit'', ''inputLimit''] \<and>
                       (case limit of None \<Rightarrow> False | Some m \<Rightarrow> 0 < m \<and> m < of_int n)
               then Some ''target_above_maximum''
               else None
        | _ \<Rightarrow> Some ''invalid_property_value'')"

definition check_property_writes :: "client_config \<Rightarrow> (string \<times> pyval) list option \<Rightarrow> (string \<times> string) list" where
  "check_property_writes c props =
     (case props of
        None \<Rightarrow> []
      | Some ps \<Rightarrow>
          if hardware_profile_invalid c then map (\<lambda>(k, v). (k, ''unknown_hardware_profile'')) ps
          else
            case power_profile c of
              None \<Rightarrow> map (\<lambda>(k, v). (k, ''property_write_unsupported'')) ps
            | Some p \<Rightarrow>
                if state_property_writes p = [] then map (\<lambda>(k, v). (k, ''property_write_unsupported'')) ps
                else List.map_filter
                       (\<lambda>(k, v). map_option (Pair k) (check_property (state_property_writes p) (cc_max_power c) k v)) ps)"

lemma validate_is_first_check:
  "validate_properties allowed limit ps =
     map_option (\<lambda>(k, e). blocked k e)
       (case List.map_filter (\<lambda>(k, v). map_option (Pair k) (check_property allowed limit k v)) ps of
          [] \<Rightarrow> None | x # _ \<Rightarrow> Some x)"
proof (induction ps)
  case (Cons kv rest)
  obtain k v where "kv = (k, v)" by (cases kv)
  then show ?case
    using Cons by (cases v) (auto simp: check_property_def map_filter_simps Let_def split: prod.splits option.splits)
qed (simp add: map_filter_simps)

text \<open>
  The preflight check agrees with the write it stands for: for a non-empty property set on an
  addressable device the write is prepared exactly when the check reports no property, and where
  the write is refused on a device whose profile allows property writes, its field and error are
  the first key and reason the check reports. A device that allows none reports every key.
\<close>

lemma property_check_agrees_with_write:
  assumes "ps \<noteq> []"
    and "build_properties_write_message PROTOCOL_LEGACY_PROPERTIES_WRITE (int_properties ps)
          (cc_product_key c) (cc_device_id c) None message timestamp CONTROL_PUBLISH_QOS = Some m"
  shows "(prepare_property_write c (Some ps) message timestamp = Inr m \<longleftrightarrow> check_property_writes c (Some ps) = []) \<and>
    (case power_profile c of
       Some p \<Rightarrow>
         if hardware_profile_invalid c \<or> state_property_writes p = []
         then map fst (check_property_writes c (Some ps)) = map fst ps
         else (case check_property_writes c (Some ps) of
                 [] \<Rightarrow> True
               | (k, e) # _ \<Rightarrow> prepare_property_write c (Some ps) message timestamp = Inl (blocked k e))
     | None \<Rightarrow> map fst (check_property_writes c (Some ps)) = map fst ps)"
  using assms
  by (auto simp: prepare_property_write_def check_property_writes_def validate_is_first_check
      split: option.splits list.splits prod.splits)

end
