(* ===== verification/Charge_Record.thy ===== *)
theory Charge_Record
  imports Power_Direction
begin

text \<open>
  \<open>ems/charge_record.py\<close>: the system's own record of a charge it put on one device, and of the
  exit it sends to AC input found after a start.

  \<open>charge_record\<close> holds the attributes of the class; each method is a function on it.
  \<open>record_event\<close> lists the methods that change the record with their arguments, so that
  \<open>record_run\<close> is the object after any sequence of calls. Proved over all such sequences: the
  exit found after a start is attempted at most three times, a resend window apart; an open
  record is closed only by a release or by a report that shows the charge is gone after an exit;
  as long as the device shows the charge, the exit is due again exactly once per window; and
  exits to a charge that only grid draw shows are bounded.
\<close>

definition EXIT_RESEND_SECONDS :: seconds where "EXIT_RESEND_SECONDS = 30"

definition FOUND_EXIT_ATTEMPTS :: int where "FOUND_EXIT_ATTEMPTS = 3"

datatype charge_exit =
  CHARGE_EXIT_TO_OUTPUT | CHARGE_EXIT_IN_INPUT | CHARGE_EXIT_FINAL | CHARGE_EXIT_PENDING

record charge_record =
  resend_after_s :: seconds
  cr_open :: bool
  exit_sent_at :: "seconds option"
  exit_target_w :: "watts option"
  drawn_exits :: int
  exit_drawn :: bool
  drawn :: bool
  found_exit_sent_at :: "seconds option"
  found_exit_attempts :: int
  found_charge_left :: bool
  found_setpoint :: "int option"
  last_setpoint :: "int option"
  commanded_w :: "int option"
  reported_w :: "int option"

definition new_charge_record :: "seconds \<Rightarrow> charge_record" where
  "new_charge_record resend =
     \<lparr>resend_after_s = resend, cr_open = False, exit_sent_at = None, exit_target_w = None,
      drawn_exits = 0, exit_drawn = False, drawn = False, found_exit_sent_at = None,
      found_exit_attempts = 0, found_charge_left = False, found_setpoint = None,
      last_setpoint = None, commanded_w = None, reported_w = None\<rparr>"

definition forget_drawn_exits :: "charge_record \<Rightarrow> charge_record" where
  "forget_drawn_exits r = r\<lparr>drawn_exits := 0, exit_drawn := False, drawn := False\<rparr>"

definition charge_sent :: "charge_record \<Rightarrow> int \<Rightarrow> charge_record" where
  "charge_sent r setpoint_w =
     forget_drawn_exits (r\<lparr>cr_open := True, exit_sent_at := None, exit_target_w := None,
       commanded_w := Some setpoint_w\<rparr>)"

definition exit_sent :: "charge_record \<Rightarrow> seconds \<Rightarrow> watts option \<Rightarrow> charge_record" where
  "exit_sent r n target =
     (if cr_open r
      then r\<lparr>exit_sent_at := Some n, exit_target_w := target, exit_drawn := False\<rparr> else r)"

definition reduction_sent :: "charge_record \<Rightarrow> watts option \<Rightarrow> charge_record" where
  "reduction_sent r target = (if cr_open r then r\<lparr>exit_target_w := target\<rparr> else r)"

definition reduces_exit :: "charge_record \<Rightarrow> watts \<Rightarrow> watts \<Rightarrow> watts \<Rightarrow> bool" where
  "reduces_exit r target margin_w tolerance_w \<longleftrightarrow>
     cr_open r \<and>
     (case exit_target_w r of None \<Rightarrow> False
      | Some previous \<Rightarrow> safety_reduction previous target margin_w tolerance_w)"

definition found_exit_window_over :: "charge_record \<Rightarrow> seconds \<Rightarrow> bool" where
  "found_exit_window_over r n =
     (case found_exit_sent_at r of None \<Rightarrow> True | Some t \<Rightarrow> resend_after_s r \<le> n - t)"

definition found_exit_due :: "charge_record \<Rightarrow> seconds \<Rightarrow> bool" where
  "found_exit_due r n \<longleftrightarrow> found_exit_attempts r < FOUND_EXIT_ATTEMPTS \<and> found_exit_window_over r n"

definition found_exit_exhausted :: "charge_record \<Rightarrow> seconds \<Rightarrow> bool" where
  "found_exit_exhausted r n \<longleftrightarrow> FOUND_EXIT_ATTEMPTS \<le> found_exit_attempts r \<and> found_exit_window_over r n"

definition found_exit_sent :: "charge_record \<Rightarrow> seconds \<Rightarrow> charge_record" where
  "found_exit_sent r n =
     (if \<not> found_exit_due r n then r
      else r\<lparr>found_exit_attempts := found_exit_attempts r + 1, found_exit_sent_at := Some n,
             found_setpoint := last_setpoint r\<rparr>)"

definition drawn_exits_spent :: "charge_record \<Rightarrow> bool" where
  "drawn_exits_spent r \<longleftrightarrow> drawn r \<and> FOUND_EXIT_ATTEMPTS \<le> drawn_exits r"

definition exit_window_passed :: "charge_record \<Rightarrow> seconds \<Rightarrow> bool" where
  "exit_window_passed r n =
     (case exit_sent_at r of None \<Rightarrow> True | Some t \<Rightarrow> resend_after_s r \<le> n - t)"

definition exit_due :: "charge_record \<Rightarrow> seconds \<Rightarrow> bool" where
  "exit_due r n = (if \<not> cr_open r \<or> drawn_exits_spent r then False else exit_window_passed r n)"

definition exit_exhausted :: "charge_record \<Rightarrow> seconds \<Rightarrow> bool" where
  "exit_exhausted r n \<longleftrightarrow> cr_open r \<and> drawn_exits_spent r \<and> exit_window_passed r n"

definition release :: "charge_record \<Rightarrow> charge_record" where
  "release r =
     forget_drawn_exits (r\<lparr>cr_open := False, exit_sent_at := None, exit_target_w := None,
       commanded_w := None, reported_w := None\<rparr>)"

definition observe_drawn_exit :: "charge_record \<Rightarrow> device_state \<Rightarrow> charge_record" where
  "observe_drawn_exit r s =
     (let r1 = r\<lparr>drawn := \<not> in_ac_input_direction s\<rparr>
      in if drawn r1 \<and> \<not> exit_drawn r1
         then r1\<lparr>exit_drawn := True, drawn_exits := drawn_exits r1 + 1\<rparr> else r1)"

definition observe_found_exit :: "charge_record \<Rightarrow> device_state \<Rightarrow> int option \<Rightarrow> charge_record" where
  "observe_found_exit r s setpoint =
     (if found_exit_attempts r = 0 \<or> found_charge_left r then r
      else
        let moved = (setpoint \<noteq> None \<and> found_setpoint r \<noteq> None \<and> setpoint \<noteq> found_setpoint r)
        in if out_of_charge s \<or> moved then r\<lparr>found_charge_left := True\<rparr> else r)"

definition observe :: "charge_record \<Rightarrow> device_state \<Rightarrow> bool \<Rightarrow> charge_record" where
  "observe r s setpoint_reported =
     (let setpoint = (if setpoint_reported then Some (input_limit_w s) else None);
          r1 = (observe_found_exit r s setpoint)\<lparr>last_setpoint := setpoint\<rparr>
      in if \<not> cr_open r1 then r1
         else if exit_sent_at r1 = None
         then (if setpoint \<noteq> None \<and> setpoint \<noteq> Some 0 \<and> in_ac_input_direction s
               then r1\<lparr>reported_w := setpoint\<rparr> else r1)
         else if out_of_charge s \<or>
           (setpoint \<noteq> None \<and> setpoint \<noteq> commanded_w r1 \<and> setpoint \<noteq> reported_w r1)
         then release r1
         else observe_drawn_exit r1 s)"

section \<open>The record as a machine\<close>

datatype record_event =
    Charge_sent int
  | Exit_sent seconds "watts option"
  | Reduction_sent "watts option"
  | Found_exit_sent seconds
  | Observe device_state bool
  | Release

fun record_step :: "charge_record \<Rightarrow> record_event \<Rightarrow> charge_record" where
  "record_step r (Charge_sent w) = charge_sent r w"
| "record_step r (Exit_sent n w) = exit_sent r n w"
| "record_step r (Reduction_sent w) = reduction_sent r w"
| "record_step r (Found_exit_sent n) = found_exit_sent r n"
| "record_step r (Observe s b) = observe r s b"
| "record_step r Release = release r"

definition record_run :: "charge_record \<Rightarrow> record_event list \<Rightarrow> charge_record" where
  "record_run r es = run_steps record_step r es"

lemma record_run_simps [simp]:
  "record_run r [] = r"
  "record_run r (e # es) = record_run (record_step r e) es"
  "record_run r (es @ [e]) = record_step (record_run r es) e"
  by (simp_all add: record_run_def run_steps_append)

lemmas record_defs =
  charge_sent_def exit_sent_def reduction_sent_def found_exit_sent_def release_def
  forget_drawn_exits_def observe_def observe_found_exit_def observe_drawn_exit_def Let_def

lemma observe_found_exit_frame [simp]:
  "cr_open (observe_found_exit r s p) = cr_open r"
  "exit_sent_at (observe_found_exit r s p) = exit_sent_at r"
  "commanded_w (observe_found_exit r s p) = commanded_w r"
  "reported_w (observe_found_exit r s p) = reported_w r"
  "drawn (observe_found_exit r s p) = drawn r"
  "exit_drawn (observe_found_exit r s p) = exit_drawn r"
  "drawn_exits (observe_found_exit r s p) = drawn_exits r"
  "resend_after_s (observe_found_exit r s p) = resend_after_s r"
  "found_exit_sent_at (observe_found_exit r s p) = found_exit_sent_at r"
  "found_exit_attempts (observe_found_exit r s p) = found_exit_attempts r"
  by (simp_all add: observe_found_exit_def Let_def)

section \<open>The exit found after a start\<close>

text \<open>The attempts of a run: the answered exits that were due, oldest first.\<close>

fun found_attempts :: "charge_record \<Rightarrow> record_event list \<Rightarrow> seconds list" where
  "found_attempts r [] = []"
| "found_attempts r (e # es) =
     (case e of Found_exit_sent n \<Rightarrow> if found_exit_due r n then [n] else [] | _ \<Rightarrow> []) @
     found_attempts (record_step r e) es"

lemma record_step_resend [simp]: "resend_after_s (record_step r e) = resend_after_s r"
  by (cases e) (simp_all add: record_defs)

lemma record_step_found:
  "found_attempts r (e # es) = found_attempts (record_step r e) es \<and>
   found_exit_attempts (record_step r e) = found_exit_attempts r \<and>
   found_exit_sent_at (record_step r e) = found_exit_sent_at r \<or>
   (\<exists>n. e = Found_exit_sent n \<and> found_exit_due r n \<and>
     found_exit_attempts (record_step r e) = found_exit_attempts r + 1 \<and>
     found_exit_sent_at (record_step r e) = Some n)"
  by (cases e) (simp_all add: charge_sent_def exit_sent_def reduction_sent_def found_exit_sent_def
    release_def forget_drawn_exits_def observe_def observe_drawn_exit_def Let_def)

lemma found_attempts_from:
  assumes "0 \<le> resend_after_s r" and "0 \<le> found_exit_attempts r" "found_exit_attempts r \<le> FOUND_EXIT_ATTEMPTS"
  shows "int (length (found_attempts r es)) = found_exit_attempts (record_run r es) - found_exit_attempts r \<and>
    found_exit_attempts (record_run r es) \<le> FOUND_EXIT_ATTEMPTS \<and>
    sorted_wrt (\<lambda>t u. t + resend_after_s r \<le> u) (found_attempts r es) \<and>
    (\<forall>t \<in> set (found_attempts r es).
      case found_exit_sent_at r of None \<Rightarrow> True | Some u \<Rightarrow> u + resend_after_s r \<le> t)"
  using assms
proof (induction es arbitrary: r)
  case Nil
  then show ?case by simp
next
  case (Cons e es)
  let ?r = "record_step r e"
  consider (same) "found_attempts r (e # es) = found_attempts ?r es"
      and "found_exit_attempts ?r = found_exit_attempts r" "found_exit_sent_at ?r = found_exit_sent_at r"
    | (sent) n where "e = Found_exit_sent n" and "found_exit_due r n"
      and "found_exit_attempts ?r = found_exit_attempts r + 1" and "found_exit_sent_at ?r = Some n"
    using record_step_found [of r e es] by blast
  then show ?case
  proof cases
    case same
    then show ?thesis using Cons.IH [of ?r, unfolded record_step_resend] Cons.prems by simp
  next
    case sent
    then have win: "case found_exit_sent_at r of None \<Rightarrow> True | Some u \<Rightarrow> u + resend_after_s r \<le> n"
      and lim: "found_exit_attempts r + 1 \<le> FOUND_EXIT_ATTEMPTS"
      by (auto simp: found_exit_due_def found_exit_window_over_def split: option.splits)
    have log: "found_attempts r (e # es) = n # found_attempts ?r es" using sent by simp
    have ih: "int (length (found_attempts ?r es)) = found_exit_attempts (record_run ?r es) - found_exit_attempts ?r"
      "found_exit_attempts (record_run ?r es) \<le> FOUND_EXIT_ATTEMPTS"
      "sorted_wrt (\<lambda>t u. t + resend_after_s r \<le> u) (found_attempts ?r es)"
      "\<forall>t \<in> set (found_attempts ?r es). n + resend_after_s r \<le> t"
      using Cons.IH [of ?r, unfolded record_step_resend sent(3,4)] Cons.prems lim sent(3) by auto
    show ?thesis
      unfolding log using ih win sent(3) Cons.prems(1)
      by (cases "found_exit_sent_at r") fastforce+
  qed
qed

text \<open>
  The exit to AC input found after a start is attempted at most three times and never twice
  within a resend window, in every sequence of commands, reports and releases and whatever clock
  readings the callers pass; the record's counter is the number of attempts.
\<close>

lemma found_exit_attempts_bounded:
  assumes "0 \<le> resend"
  shows "int (length (found_attempts (new_charge_record resend) es)) \<le> 3 \<and>
    sorted_wrt (\<lambda>t u. t + resend \<le> u) (found_attempts (new_charge_record resend) es) \<and>
    found_exit_attempts (record_run (new_charge_record resend) es) =
      int (length (found_attempts (new_charge_record resend) es))"
  using found_attempts_from [of "new_charge_record resend" es] assms
  by (simp add: new_charge_record_def FOUND_EXIT_ATTEMPTS_def)

section \<open>Who closes the record\<close>

text \<open>A report that shows the charge is gone: only after an exit, and only from the device.\<close>

fun charge_gone :: "charge_record \<Rightarrow> record_event \<Rightarrow> bool" where
  "charge_gone r (Observe s b) \<longleftrightarrow> exit_sent_at r \<noteq> None \<and>
     (out_of_charge s \<or> b \<and> Some (input_limit_w s) \<noteq> commanded_w r \<and> Some (input_limit_w s) \<noteq> reported_w r)"
| "charge_gone r _ \<longleftrightarrow> False"

lemma record_step_closes:
  "cr_open r \<Longrightarrow> cr_open (record_step r e) \<longleftrightarrow> \<not> (e = Release \<or> charge_gone r e)"
  by (cases e) (auto simp: record_defs)

lemma record_step_opens: "\<not> cr_open r \<Longrightarrow> cr_open (record_step r e) \<longleftrightarrow> (\<exists>w. e = Charge_sent w)"
  by (cases e) (auto simp: record_defs)

text \<open>
  C28. Only the device or an explicit release closes the record: when an open record is found
  closed after further events, one of them, met while the record was open, was a release or a
  report that came after an exit and showed the device out of the charge or at a setpoint that
  is not the system's. Sending exits, however often, closes nothing.
\<close>

theorem record_closed_only_on_evidence:
  assumes "cr_open (record_run r es)"
    and "\<not> cr_open (record_run r (es @ fs))"
  shows "\<exists>gs e hs. fs = gs @ e # hs \<and> cr_open (record_run r (es @ gs)) \<and>
    (e = Release \<or> charge_gone (record_run r (es @ gs)) e)"
  using assms
proof (induction fs arbitrary: es)
  case Nil
  then show ?case by simp
next
  case (Cons f fs)
  show ?case
  proof (cases "cr_open (record_run r (es @ [f]))")
    case True
    then obtain gs e hs where "fs = gs @ e # hs" "cr_open (record_run r ((es @ [f]) @ gs))"
      "e = Release \<or> charge_gone (record_run r ((es @ [f]) @ gs)) e"
      using Cons.IH [of "es @ [f]"] Cons.prems by auto
    then show ?thesis by (intro exI [of _ "f # gs"] exI [of _ e] exI [of _ hs]) simp
  next
    case False
    then show ?thesis
      using Cons.prems(1) record_step_closes [of "record_run r es" f]
      by (intro exI [of _ "[]"] exI [of _ f] exI [of _ fs]) auto
  qed
qed

definition demo_input :: "int \<Rightarrow> int \<Rightarrow> device_state" where
  "demo_input mode limit = zero_device_state\<lparr>ac_mode := mode, input_limit_w := limit\<rparr>"

theorem record_closed_only_on_evidence_witness:
  "cr_open (record_run (new_charge_record 30)
     [Charge_sent 300, Exit_sent 5 (Some 0), Exit_sent 40 (Some 0), Observe (demo_input AC_MODE_INPUT 300) True]) \<and>
   (\<exists>gs e hs. [Exit_sent 5 (Some 0), Observe (demo_input AC_MODE_OUTPUT 0) True] = gs @ e # hs \<and>
     cr_open (record_run (new_charge_record 30) ([Charge_sent 300] @ gs)) \<and>
     (e = Release \<or> charge_gone (record_run (new_charge_record 30) ([Charge_sent 300] @ gs)) e))"
proof -
  have "cr_open (record_run (new_charge_record 30)
     [Charge_sent 300, Exit_sent 5 (Some 0), Exit_sent 40 (Some 0), Observe (demo_input AC_MODE_INPUT 300) True])"
    by code_simp
  moreover have o: "cr_open (record_run (new_charge_record 30) [Charge_sent 300])" by code_simp
  have c: "\<not> cr_open (record_run (new_charge_record 30)
      ([Charge_sent 300] @ [Exit_sent 5 (Some 0), Observe (demo_input AC_MODE_OUTPUT 0) True]))" by code_simp
  note record_closed_only_on_evidence [OF o c]
  ultimately show ?thesis by blast
qed

section \<open>Exits until the device left\<close>

text \<open>A report that still shows the system's charge, in the AC-input direction.\<close>

fun still_charging :: "charge_record \<Rightarrow> record_event \<Rightarrow> bool" where
  "still_charging r (Observe s b) \<longleftrightarrow> in_ac_input_direction s \<and> \<not> out_of_charge s \<and>
     (b \<longrightarrow> Some (input_limit_w s) = commanded_w r)"
| "still_charging r (Reduction_sent w) \<longleftrightarrow> True"
| "still_charging r (Found_exit_sent n) \<longleftrightarrow> True"
| "still_charging r _ \<longleftrightarrow> False"

definition exit_pending :: "charge_record \<Rightarrow> seconds \<Rightarrow> int option \<Rightarrow> bool" where
  "exit_pending r t w \<longleftrightarrow> cr_open r \<and> exit_sent_at r = Some t \<and> commanded_w r = w \<and>
     (drawn r \<longrightarrow> drawn_exits r < FOUND_EXIT_ATTEMPTS)"

lemma exit_pending_step:
  assumes "exit_pending r t w" and "commanded_w r' = w" and "still_charging r' e"
  shows "exit_pending (record_step r e) t w"
  using assms by (cases e) (auto simp: exit_pending_def record_defs)

lemma exit_pending_run:
  assumes "exit_pending r t w" and "commanded_w r' = w" and "list_all (still_charging r') es"
  shows "exit_pending (record_run r es) t w"
  using assms(1,3) by (induction es arbitrary: r) (auto intro: exit_pending_step [OF _ assms(2)])

lemma record_run_resend [simp]: "resend_after_s (record_run r es) = resend_after_s r"
  by (induction es arbitrary: r) auto

text \<open>
  The exit is repeated until the device leaves, and not more often than the window: after a
  charge and an exit at \<open>t\<close>, as long as every report still shows the charge the system commanded,
  the record stays open and the exit is due again exactly from one resend window after \<open>t\<close> on,
  whatever reductions went out in between.
\<close>

lemma exit_due_once_per_window:
  assumes "list_all (still_charging (charge_sent r w)) es"
  shows "cr_open (record_run (exit_sent (charge_sent r w) t target) es) \<and>
    (exit_due (record_run (exit_sent (charge_sent r w) t target) es) n \<longleftrightarrow>
       resend_after_s r \<le> n - t)"
proof -
  let ?r = "exit_sent (charge_sent r w) t target"
  have "exit_pending ?r t (Some w)"
    by (simp add: exit_pending_def exit_sent_def charge_sent_def forget_drawn_exits_def)
  then have "exit_pending (record_run ?r es) t (Some w)"
    by (rule exit_pending_run [OF _ _ assms]) (simp add: charge_sent_def forget_drawn_exits_def)
  moreover have "resend_after_s ?r = resend_after_s r"
    using record_step_resend [of "charge_sent r w" "Exit_sent t target"]
      record_step_resend [of r "Charge_sent w"] by simp
  ultimately show ?thesis
    by (auto simp: exit_pending_def exit_due_def exit_window_passed_def drawn_exits_spent_def)
qed

section \<open>Charges only grid draw shows\<close>

text \<open>
  A caller that obeys the record sends an exit only when it is due. The reports show grid draw
  over an unknown direction, and no setpoint that is not the system's.
\<close>

fun draw_only :: "charge_record \<Rightarrow> record_event \<Rightarrow> bool" where
  "draw_only r (Observe s b) \<longleftrightarrow> \<not> in_ac_input_direction s \<and> \<not> out_of_charge s \<and> \<not> b"
| "draw_only r (Exit_sent n w) \<longleftrightarrow> exit_due r n"
| "draw_only r (Reduction_sent w) \<longleftrightarrow> True"
| "draw_only r _ \<longleftrightarrow> False"

inductive draw_run :: "charge_record \<Rightarrow> record_event list \<Rightarrow> charge_record \<Rightarrow> bool" where
  draw_nil: "draw_run r [] r"
| draw_snoc: "draw_run r es r' \<Longrightarrow> draw_only r' e \<Longrightarrow> draw_run r (es @ [e]) (record_step r' e)"

text \<open>The same runs, read forwards and executably.\<close>

fun draws :: "charge_record \<Rightarrow> record_event list \<Rightarrow> bool" where
  "draws r [] = True"
| "draws r (e # es) = (draw_only r e \<and> draws (record_step r e) es)"

lemma draw_run_draws:
  "draws r es \<Longrightarrow> draw_run r0 es0 r \<Longrightarrow> draw_run r0 (es0 @ es) (record_run r es)"
proof (induction es arbitrary: r es0)
  case Nil
  then show ?case by simp
next
  case (Cons e es)
  then show ?case using Cons.IH [of "record_step r e" "es0 @ [e]"] by (auto intro: draw_snoc)
qed

text \<open>What is kept while exits are sent only when due and only grid draw is reported.\<close>

definition drawn_ok :: "charge_record \<Rightarrow> bool" where
  "drawn_ok r \<longleftrightarrow> cr_open r \<and> 0 \<le> drawn_exits r \<and> drawn_exits r \<le> FOUND_EXIT_ATTEMPTS \<and>
     (0 < drawn_exits r \<longrightarrow> drawn r) \<and> (drawn_exits r = FOUND_EXIT_ATTEMPTS \<longrightarrow> exit_drawn r) \<and>
     (exit_sent_at r = None \<longrightarrow> \<not> drawn r \<and> drawn_exits r = 0)"

lemma drawn_ok_step: "drawn_ok r \<Longrightarrow> draw_only r e \<Longrightarrow> drawn_ok (record_step r e)"
  by (cases e) (auto simp: drawn_ok_def exit_due_def drawn_exits_spent_def exit_sent_def reduction_sent_def
    observe_def observe_drawn_exit_def Let_def FOUND_EXIT_ATTEMPTS_def)

lemma drawn_ok_run: "draw_run r es r' \<Longrightarrow> drawn_ok r \<Longrightarrow> drawn_ok r'"
  by (induction rule: draw_run.induct) (auto intro: drawn_ok_step)

text \<open>
  C30. A charge that only grid draw shows is not fought forever: whenever callers send exits only
  when they are due, at most three exits are counted against it, and as soon as the third is, no
  exit is due any more and, a window after the last one, the charge is declared the device's.
\<close>

theorem drawn_charge_is_given_up:
  assumes "draw_run (charge_sent r w) es r'"
  shows "drawn_exits r' \<le> 3 \<and> cr_open r' \<and>
    (drawn_exits r' = 3 \<longrightarrow> \<not> exit_due r' n \<and> (exit_exhausted r' n \<longleftrightarrow> exit_window_passed r' n))"
proof -
  have "drawn_ok (charge_sent r w)"
    by (simp add: drawn_ok_def charge_sent_def forget_drawn_exits_def FOUND_EXIT_ATTEMPTS_def)
  from drawn_ok_run [OF assms this] show ?thesis
    by (auto simp: drawn_ok_def exit_due_def exit_exhausted_def drawn_exits_spent_def FOUND_EXIT_ATTEMPTS_def)
qed

definition demo_draw :: device_state where
  "demo_draw = zero_device_state\<lparr>ac_mode := 0, grid_input := 5\<rparr>"

definition demo_draw_events :: "record_event list" where
  "demo_draw_events = concat (map (\<lambda>t. [Exit_sent t None, Observe demo_draw False]) [0, 30, 60])"

lemma demo_draw_run:
  "draw_run (charge_sent (new_charge_record 30) 300) demo_draw_events
     (record_run (charge_sent (new_charge_record 30) 300) demo_draw_events)"
proof -
  have "draws (charge_sent (new_charge_record 30) 300) demo_draw_events" by code_simp
  from draw_run_draws [OF this draw_nil] show ?thesis by simp
qed

theorem drawn_charge_is_given_up_witness:
  "drawn_exits (record_run (charge_sent (new_charge_record 30) 300) demo_draw_events) = 3 \<and>
   \<not> exit_due (record_run (charge_sent (new_charge_record 30) 300) demo_draw_events) 1000"
proof -
  have "drawn_exits (record_run (charge_sent (new_charge_record 30) 300) demo_draw_events) = 3" by code_simp
  with drawn_charge_is_given_up [OF demo_draw_run, of 1000] show ?thesis by simp
qed

end
