(* ===== verification/Device_Client.thy ===== *)
theory Device_Client
  imports Power_Write Charge_Record
begin

text \<open>
  \<open>ems/zendure_mqtt/device_client.py\<close>: the client that owns one MQTT device's command slot, with
  \<open>ems/mqtt_control/dispatch.py\<close>, the outcome it reports.

  At most one command is in flight per device. A repeated target is coalesced, a changed one waits
  in a single pending place or replaces the command, a safety reduction preempts it, and while an
  exit from a charge is out the output targets are held. The command in the slot is a
  \<open>command_record\<close> of \<open>Command_State\<close>, the charge on record one of \<open>Charge_Record\<close>.

  Every method runs under the client's lock, so an interleaving of threads is a sequence of calls:
  \<open>client_event\<close> lists them. What a call meets outside is its argument: the message id, the clock
  and whether the transport accepts the message (\<open>transport\<close>), the report that \<open>fetch\<close> reads.
  \<open>submitted\<close> collects the power commands handed to the transport, \<open>state_writes\<close> the property
  writes, which bypass the slot, and \<open>notices\<close> the results reported to
  the dispatch observer. The delivery receipts of the broker, kept for diagnostics only, are left
  out.

  Proved over all sequences of calls: the slot holds an unfinished command, and it is the last one
  handed to the transport; only targets the device's profile and limits allow are ever handed over;
  a safety reduction is sent at once.
\<close>

section \<open>Dispatch results\<close>

datatype write_dispatch_status =
  PUBLISHED | COALESCED_ACTIVE | QUEUED_LATEST | SUPERSEDED | REJECTED | FAILED | WITHHELD

datatype dispatch_state = In_state command_status | Exit_pending

record write_dispatch_result =
  dr_status :: write_dispatch_status
  dr_target_w :: "int option"
  dr_message_id :: "int option"
  dr_command_state :: "dispatch_state option"
  dr_reason :: "string option"
  dr_correlation_id :: "int option"

definition dispatch_accepted :: "write_dispatch_result \<Rightarrow> bool" where
  "dispatch_accepted d \<longleftrightarrow> dr_status d \<in> {PUBLISHED, COALESCED_ACTIVE, QUEUED_LATEST, WITHHELD}"

definition dispatch_published :: "int option \<Rightarrow> int option \<Rightarrow> dispatch_state option \<Rightarrow> int option \<Rightarrow> write_dispatch_result" where
  "dispatch_published t m st corr = \<lparr>dr_status = PUBLISHED, dr_target_w = t, dr_message_id = m, dr_command_state = st,
     dr_reason = None, dr_correlation_id = corr\<rparr>"

definition dispatch_coalesced :: "int option \<Rightarrow> int option \<Rightarrow> dispatch_state option \<Rightarrow> int option \<Rightarrow> write_dispatch_result" where
  "dispatch_coalesced t m st corr = \<lparr>dr_status = COALESCED_ACTIVE, dr_target_w = t, dr_message_id = m,
     dr_command_state = st, dr_reason = Some ''coalesced_active_target'', dr_correlation_id = corr\<rparr>"

definition dispatch_queued :: "int option \<Rightarrow> dispatch_state option \<Rightarrow> int option \<Rightarrow> write_dispatch_result" where
  "dispatch_queued t st corr = \<lparr>dr_status = QUEUED_LATEST, dr_target_w = t, dr_message_id = None,
     dr_command_state = st, dr_reason = Some ''queued_behind_active'', dr_correlation_id = corr\<rparr>"

definition dispatch_superseded :: "int option \<Rightarrow> int option \<Rightarrow> string \<Rightarrow> write_dispatch_result" where
  "dispatch_superseded t corr why = \<lparr>dr_status = SUPERSEDED, dr_target_w = t, dr_message_id = None,
     dr_command_state = Some (In_state STATE_SUPERSEDED), dr_reason = Some why, dr_correlation_id = corr\<rparr>"

definition dispatch_rejected :: "int option \<Rightarrow> string \<Rightarrow> int option \<Rightarrow> write_dispatch_result" where
  "dispatch_rejected t why corr = \<lparr>dr_status = REJECTED, dr_target_w = t, dr_message_id = None,
     dr_command_state = Some (In_state STATE_REJECTED), dr_reason = Some why, dr_correlation_id = corr\<rparr>"

definition dispatch_failed :: "int option \<Rightarrow> int option \<Rightarrow> int option \<Rightarrow> write_dispatch_result" where
  "dispatch_failed t m corr = \<lparr>dr_status = FAILED, dr_target_w = t, dr_message_id = m,
     dr_command_state = Some (In_state STATE_REJECTED), dr_reason = Some ''publish_failed'', dr_correlation_id = corr\<rparr>"

section \<open>State\<close>

record client =
  active_command :: "command_record option"
  active_correlation_id :: "int option"
  pending_target :: "int option"
  pending_correlation_id :: "int option"
  dispatch_sequence :: int
  charge :: charge_record
  last_confirmed_target :: "int option"
  last_confirmed_monotonic :: "seconds option"
  unconfirmed_own_targets :: "int list"
  foreign_streak :: int
  foreign_last_observed_monotonic :: "seconds option"
  external_control_suspected :: "(int \<times> int \<times> int) option"
  submitted :: "mqtt_message list"
  state_writes :: "mqtt_message list"
  notices :: "write_dispatch_result list"

definition new_client :: "client_config \<Rightarrow> client" where
  "new_client c = \<lparr>active_command = None, active_correlation_id = None, pending_target = None,
     pending_correlation_id = None, dispatch_sequence = 0, charge = new_charge_record (cc_confirmation_timeout_s c),
     last_confirmed_target = None, last_confirmed_monotonic = None, unconfirmed_own_targets = [],
     foreign_streak = 0, foreign_last_observed_monotonic = None, external_control_suspected = None,
     submitted = [], state_writes = [], notices = []\<rparr>"

text \<open>One call's view of the transport: the next message id, the wall clock, and what a publish does.\<close>

record transport =
  tr_message_id :: int
  tr_timestamp :: int
  tr_accepts :: bool
  tr_completed :: seconds

definition client_reply_contract :: "client_config \<Rightarrow> command_reply_contract" where
  "client_reply_contract c =
     (if power_profile c = None \<or> hardware_profile_invalid c then NO_ACK_REPLY_CONTRACT
      else reply_contract_for_write_profile (map_option power_write_profile (power_profile c)))"

definition confirmation_policy :: "client_config \<Rightarrow> telemetry_confirmation_policy" where
  "confirmation_policy c =
     resolve_confirmation_policy
       (if hardware_profile_invalid c then None else map_option power_write_profile (power_profile c))
       (Some (cc_confirmation_timeout_s c)) (cc_confirmation_tolerance_w c) (cc_telemetry_confirmation c)"

definition tolerance_of :: "client_config \<Rightarrow> watts" where
  "tolerance_of c = of_int (confirmation_tolerance_w (confirmation_policy c))"

definition should_preempt :: "client_config \<Rightarrow> int \<Rightarrow> int \<Rightarrow> bool" where
  "should_preempt c active_target new_target =
     safety_reduction (of_int active_target) (of_int new_target) (cc_safety_preempt_margin_w c) (tolerance_of c)"

definition reduces_held_exit :: "client_config \<Rightarrow> int \<Rightarrow> client \<Rightarrow> bool" where
  "reduces_held_exit c t cl = reduces_exit (charge cl) (of_int t) (cc_safety_preempt_margin_w c) (tolerance_of c)"

definition should_supersede_latest :: "client_config \<Rightarrow> command_record \<Rightarrow> bool" where
  "should_supersede_latest c r \<longleftrightarrow>
     status r = STATE_PUBLISHED \<and> \<not> supports_acknowledgement (client_reply_contract c)"

definition exit_held :: "client \<Rightarrow> seconds \<Rightarrow> bool \<Rightarrow> bool" where
  "exit_held cl n found_exit =
     (if cr_open (charge cl) then \<not> exit_due (charge cl) n else found_exit \<and> \<not> found_exit_due (charge cl) n)"

section \<open>Slot and pending place\<close>

definition notify :: "write_dispatch_result \<Rightarrow> client \<Rightarrow> client" where
  "notify d cl = cl\<lparr>notices := notices cl @ [d]\<rparr>"

definition discard_pending_target :: "string \<Rightarrow> client \<Rightarrow> client" where
  "discard_pending_target why cl =
     (let cl1 = cl\<lparr>pending_target := None, pending_correlation_id := None\<rparr>
      in case pending_target cl of
           None \<Rightarrow> cl1
         | Some t \<Rightarrow> notify (dispatch_superseded (Some t) (pending_correlation_id cl) why) cl1)"

definition UNCONFIRMED_OWN_TARGET_HISTORY :: nat where "UNCONFIRMED_OWN_TARGET_HISTORY = 2"

definition remember_unconfirmed_own_target :: "int \<Rightarrow> client \<Rightarrow> client" where
  "remember_unconfirmed_own_target t cl =
     (let ts = unconfirmed_own_targets cl @ [t]
      in cl\<lparr>unconfirmed_own_targets := drop (length ts - UNCONFIRMED_OWN_TARGET_HISTORY) ts\<rparr>)"

definition free_slot :: "client \<Rightarrow> client" where
  "free_slot cl = cl\<lparr>active_command := None, active_correlation_id := None\<rparr>"

definition release_superseded :: "command_record \<Rightarrow> client \<Rightarrow> client" where
  "release_superseded r cl =
     (if published_monotonic r \<noteq> None then remember_unconfirmed_own_target (target_w r) (free_slot cl)
      else free_slot cl)"

definition next_dispatch_correlation_id :: "client \<Rightarrow> client \<times> int" where
  "next_dispatch_correlation_id cl =
     (cl\<lparr>dispatch_sequence := dispatch_sequence cl + 1\<rparr>, dispatch_sequence cl + 1)"

definition queued_record ::
  "client_config \<Rightarrow> transport \<Rightarrow> int \<Rightarrow> seconds \<Rightarrow> operation \<Rightarrow> (string \<times> pyval) list option \<Rightarrow> command_record" where
  "queued_record c tr t n op expected =
     \<lparr>message_id = tr_message_id tr, device_id = cc_device_id c, operation_of = op, target_w = t,
      created_monotonic = n, status = STATE_QUEUED, response_code = None, response_message = None,
      expected_properties = expected, published_monotonic = None, acknowledged_monotonic = None,
      confirmed_monotonic = None, timeout_monotonic = None, confirmation_block_reason = None,
      confirmation_evidence = []\<rparr>"

text \<open>The record once the transport answered.\<close>

definition after_publish :: "client_config \<Rightarrow> transport \<Rightarrow> command_record \<Rightarrow> command_record" where
  "after_publish c tr r =
     (if \<not> tr_accepts tr then mark_publish_failed r
      else
        let r1 = mark_published r (Some (tr_completed tr));
            policy = confirmation_policy c;
            r2 = (if telemetry_confirmation_supported policy \<and> confirmation_metric policy \<noteq> None
                  then r1\<lparr>confirmation_block_reason := Some (No_fresh_snapshot (the (confirmation_metric policy)))\<rparr>
                  else r1)
        in if \<not> supports_acknowledgement (client_reply_contract c) \<and> \<not> telemetry_confirmation_supported policy
           then fst (complete_unconfirmed r2 (Some (tr_completed tr))) else r2)"

text \<open>What the charge record learns of a message the transport took.\<close>

definition charge_after_publish :: "transport \<Rightarrow> int \<Rightarrow> bool \<Rightarrow> bool \<Rightarrow> charge_record \<Rightarrow> charge_record" where
  "charge_after_publish tr t found_exit reduction ch =
     (if t < 0 then charge_sent ch \<bar>t\<bar>
      else if reduction then reduction_sent ch (Some (of_int t))
      else
        let ch1 = exit_sent ch (tr_completed tr) (Some (of_int t))
        in if found_exit then found_exit_sent ch1 (tr_completed tr) else ch1)"

definition publish_target ::
  "client_config \<Rightarrow> transport \<Rightarrow> int \<Rightarrow> seconds \<Rightarrow> int option \<Rightarrow> bool \<Rightarrow> bool \<Rightarrow> client \<Rightarrow> client \<times> write_dispatch_result" where
  "publish_target c tr t n correlation found_exit reduction cl =
     (let (cl1, corr) = (case correlation of Some k \<Rightarrow> (cl, k) | None \<Rightarrow> next_dispatch_correlation_id cl)
      in case build_write c t (tr_message_id tr) (tr_timestamp tr) of
           Inl b \<Rightarrow> (cl1, dispatch_rejected (Some t) (wb_error b) (Some corr))
         | Inr (m, op, expected) \<Rightarrow>
             let r = after_publish c tr (queued_record c tr t n op expected);
                 cl2 = cl1\<lparr>submitted := submitted cl1 @ [m],
                           active_command := (if is_active r then Some r else None),
                           active_correlation_id := (if is_active r then Some corr else None)\<rparr>
             in if tr_accepts tr
                then (cl2\<lparr>charge := charge_after_publish tr t found_exit reduction (charge cl2)\<rparr>,
                      dispatch_published (Some t) (Some (message_id r)) (Some (In_state (status r))) (Some corr))
                else (cl2, dispatch_failed (Some t) (Some (message_id r)) (Some corr)))"

definition flush_pending_target :: "client_config \<Rightarrow> transport \<Rightarrow> seconds \<Rightarrow> client \<Rightarrow> client" where
  "flush_pending_target c tr n cl =
     (if active_command cl \<noteq> None then cl
      else case pending_target cl of
             None \<Rightarrow> cl
           | Some t \<Rightarrow>
               let (cl1, d) = publish_target c tr t n (pending_correlation_id cl) False False
                     (cl\<lparr>pending_target := None, pending_correlation_id := None\<rparr>)
               in notify d cl1)"

section \<open>Deadlines, replies and telemetry\<close>

definition expire_active_command :: "client_config \<Rightarrow> seconds \<Rightarrow> client \<Rightarrow> client" where
  "expire_active_command c n cl =
     (case active_command cl of
        None \<Rightarrow> cl
      | Some r \<Rightarrow>
          let policy = confirmation_policy c;
              (r1, released) =
                (if supports_acknowledgement (client_reply_contract c)
                 then let (ra, timed) = apply_timeout r n (cc_ack_timeout_s c)
                      in if \<not> timed \<and> telemetry_confirmation_supported policy
                         then apply_confirmation_timeout ra n (cc_confirmation_timeout_s c) False else (ra, timed)
                 else if telemetry_confirmation_supported policy
                 then apply_confirmation_timeout r n (cc_confirmation_timeout_s c) True
                 else (r, False))
          in if \<not> released then cl\<lparr>active_command := Some r1\<rparr>
             else if published_monotonic r1 \<noteq> None
             then remember_unconfirmed_own_target (target_w r1) (free_slot cl)
             else free_slot cl)"

definition handle_reply ::
  "client_config \<Rightarrow> transport \<Rightarrow> reply option \<Rightarrow> seconds \<Rightarrow> client \<Rightarrow> client \<times> bool" where
  "handle_reply c tr reply n cl =
     (case active_command cl of
        None \<Rightarrow> (cl, False)
      | Some r \<Rightarrow>
          if \<not> supports_acknowledgement (client_reply_contract c) then (cl, False)
          else if reply = None then (cl, False)
          else
            let (r1, applied) = apply_reply r reply (Some n)
            in if \<not> applied then (cl, False)
               else
                 let r2 = (if status r1 = STATE_ACKNOWLEDGED \<and>
                              \<not> telemetry_confirmation_supported (confirmation_policy c)
                           then fst (complete_unconfirmed r1 (Some n)) else r1)
                 in if is_terminal r2 then (flush_pending_target c tr n (free_slot cl), True)
                    else (cl\<lparr>active_command := Some r2\<rparr>, True))"

record snapshot =
  sn_metrics :: "metrics option"
  sn_last_seen :: pyval
  sn_metric_monotonic :: "metrics option"
  sn_observed :: "string list option"

definition note_local_confirmation :: "command_record \<Rightarrow> seconds \<Rightarrow> client \<Rightarrow> client" where
  "note_local_confirmation r n cl =
     cl\<lparr>last_confirmed_target := Some (target_w r), last_confirmed_monotonic := Some n,
        unconfirmed_own_targets := [], foreign_streak := 0, foreign_last_observed_monotonic := None,
        external_control_suspected := None\<rparr>"

definition trusted_metric_time :: "snapshot \<Rightarrow> string \<Rightarrow> pyval" where
  "trusted_metric_time sn key =
     (case sn_metric_monotonic sn of
        Some m \<Rightarrow> (case m key of Some v \<Rightarrow> v
                     | None \<Rightarrow> if key \<in> set (case sn_observed sn of None \<Rightarrow> [] | Some ks \<Rightarrow> ks)
                               then sn_last_seen sn else PyNone)
      | None \<Rightarrow> if key \<in> set (case sn_observed sn of None \<Rightarrow> [] | Some ks \<Rightarrow> ks) then sn_last_seen sn else PyNone)"

definition confirm_from_snapshot :: "client_config \<Rightarrow> snapshot \<Rightarrow> seconds \<Rightarrow> client \<Rightarrow> client" where
  "confirm_from_snapshot c sn n cl =
     (case active_command cl of
        None \<Rightarrow> cl
      | Some r \<Rightarrow>
          let policy = confirmation_policy c;
              metric = (case confirmation_metric policy of None \<Rightarrow> [] | Some k \<Rightarrow> k)
          in if confirmed r \<or> \<not> telemetry_confirmation_supported policy then cl
             else if (case sn_metrics sn of None \<Rightarrow> True | Some ms \<Rightarrow> ms metric = None)
             then cl\<lparr>active_command := Some (r\<lparr>confirmation_block_reason := Some (Not_observed metric)\<rparr>)\<rparr>
             else
               let allow = (\<not> supports_acknowledgement (client_reply_contract c));
                   (r1, ok) =
                     (if expected_properties r \<noteq> None \<and> expected_properties r \<noteq> Some []
                      then confirm_from_expected_properties r (sn_metrics sn) (confirmation_tolerance_w policy)
                             (Some n) (sn_last_seen sn) (sn_metric_monotonic sn) (sn_observed sn) allow
                      else confirm_from_telemetry r (the (the (sn_metrics sn) metric))
                             (confirmation_tolerance_w policy) (Some n) (trusted_metric_time sn metric) metric allow)
               in if ok then note_local_confirmation r1 n (free_slot cl)
                  else cl\<lparr>active_command := Some r1\<rparr>)"

definition reports_own_target :: "metrics \<Rightarrow> watts \<Rightarrow> int \<Rightarrow> watts \<Rightarrow> bool" where
  "reports_own_target ms observed t tol =
     (if 0 \<le> t then \<bar>observed - of_int t\<bar> \<le> tol
      else if tol < \<bar>observed\<bar> then False
      else case ms ''inputLimit'' of
             None \<Rightarrow> True
           | Some v \<Rightarrow>
               (case py_number v of
                  None \<Rightarrow> True
                | Some x \<Rightarrow> (case finite_part x of None \<Rightarrow> False | Some i \<Rightarrow> \<bar>i - of_int \<bar>t\<bar>\<bar> \<le> tol)))"

text \<open>The time of the report of the output limit, or of the snapshot; both are readings of one clock.\<close>

definition external_observed_time :: "snapshot \<Rightarrow> seconds option" where
  "external_observed_time sn =
     (let metric_time = (case sn_metric_monotonic sn of None \<Rightarrow> None
                         | Some m \<Rightarrow> (case m ''outputLimit'' of None \<Rightarrow> None | Some v \<Rightarrow> usable_monotonic v))
      in case metric_time of None \<Rightarrow> usable_monotonic (sn_last_seen sn) | Some t \<Rightarrow> Some t)"

definition finite_metric :: "metrics \<Rightarrow> string \<Rightarrow> watts option" where
  "finite_metric ms key = (case observed_number ms key of None \<Rightarrow> None | Some x \<Rightarrow> finite_part x)"

definition detect_external_control :: "client_config \<Rightarrow> snapshot \<Rightarrow> client \<Rightarrow> client" where
  "detect_external_control c sn cl =
     (case (last_confirmed_target cl, sn_metrics sn, external_observed_time sn) of
        (Some expected, Some ms, Some t) \<Rightarrow>
          if active_command cl \<noteq> None then cl
          else if (case last_confirmed_monotonic cl of None \<Rightarrow> False | Some s \<Rightarrow> t \<le> s) then cl
          else if (case foreign_last_observed_monotonic cl of None \<Rightarrow> False | Some s \<Rightarrow> t \<le> s) then cl
          else
            (case finite_metric ms ''outputLimit'' of
               None \<Rightarrow> cl
             | Some observed \<Rightarrow>
                 if list_ex (\<lambda>own. reports_own_target ms observed own (tolerance_of c))
                      (expected # unconfirmed_own_targets cl)
                 then cl\<lparr>foreign_streak := 0, foreign_last_observed_monotonic := Some t\<rparr>
                 else
                   let streak = foreign_streak cl + 1;
                       cl1 = cl\<lparr>foreign_streak := streak, foreign_last_observed_monotonic := Some t\<rparr>
                   in if 2 \<le> streak \<and> external_control_suspected cl = None
                      then cl1\<lparr>external_control_suspected := Some (expected, py_int observed, streak)\<rparr>
                      else cl1)
      | _ \<Rightarrow> cl)"

text \<open>
  A fresh report comes with the device state parsed from it and whether its usable metrics carry
  \<open>inputLimit\<close>; \<open>None\<close> is a stale or missing one.
\<close>

definition fetch ::
  "client_config \<Rightarrow> seconds \<Rightarrow> (snapshot \<times> device_state \<times> bool) option \<Rightarrow> client \<Rightarrow> client \<times> device_state option" where
  "fetch c n report cl =
     (case report of
        Some (sn, state, setpoint_reported) \<Rightarrow>
          let cl1 = detect_external_control c sn (confirm_from_snapshot c sn n cl);
              cl2 = cl1\<lparr>charge := observe (charge cl1) state setpoint_reported\<rparr>
          in (expire_active_command c n cl2, Some state)
      | None \<Rightarrow>
          let policy = confirmation_policy c;
              cl1 = (case active_command cl of
                       None \<Rightarrow> cl
                     | Some r \<Rightarrow>
                         if \<not> confirmed r \<and> telemetry_confirmation_supported policy \<and>
                            confirmation_metric policy \<noteq> None
                         then cl\<lparr>active_command :=
                                Some (r\<lparr>confirmation_block_reason :=
                                        Some (No_fresh_snapshot (the (confirmation_metric policy)))\<rparr>)\<rparr>
                         else cl)
          in (expire_active_command c n cl1, None))"

section \<open>Dispatching a target\<close>

text \<open>A target with a command in flight.\<close>

definition dispatch_in_flight ::
  "client_config \<Rightarrow> transport \<Rightarrow> int \<Rightarrow> charge_exit option \<Rightarrow> seconds \<Rightarrow> command_record \<Rightarrow> client \<Rightarrow>
   client \<times> write_dispatch_result" where
  "dispatch_in_flight c tr t charge_exit n r cl =
     (let final = (charge_exit = Some CHARGE_EXIT_FINAL);
          found_exit = (charge_exit = Some CHARGE_EXIT_TO_OUTPUT);
          held = (\<not> final \<and> cr_open (charge cl) \<and> drawn_exits_spent (charge cl));
          preempts = should_preempt c (target_w r) t
      in if held \<and> \<not> preempts
         then (discard_pending_target ''superseded_by_pending_charge_exit'' cl,
               dispatch_coalesced (Some t) None (Some Exit_pending) None)
         else if target_w r = t \<and> \<not> final
         then (discard_pending_target ''superseded_by_active_target'' cl,
               dispatch_coalesced (Some t) (Some (message_id r)) (Some (In_state (status r))) (active_correlation_id cl))
         else if final \<or> preempts
         then publish_target c tr t n None found_exit (held \<and> 0 \<le> t)
                (discard_pending_target ''superseded_by_safety_target''
                  (release_superseded (fst (mark_superseded r (Some n))) cl))
         else if should_supersede_latest c r
         then publish_target c tr t n None found_exit False
                (discard_pending_target ''superseded_by_latest_target''
                  (release_superseded (fst (mark_superseded r (Some n))) cl))
         else
           let (cl1, corr) =
                 (if pending_target cl = Some t \<and> pending_correlation_id cl \<noteq> None
                  then (cl, the (pending_correlation_id cl))
                  else next_dispatch_correlation_id (discard_pending_target ''superseded_by_new_target'' cl))
           in (cl1\<lparr>pending_target := Some t, pending_correlation_id := Some corr\<rparr>,
               dispatch_queued (Some t) (Some (In_state (status r))) (Some corr)))"

text \<open>A target with the slot free.\<close>

definition dispatch_free ::
  "client_config \<Rightarrow> transport \<Rightarrow> int \<Rightarrow> charge_exit option \<Rightarrow> seconds \<Rightarrow> client \<Rightarrow> client \<times> write_dispatch_result" where
  "dispatch_free c tr t charge_exit n cl =
     (let final = (charge_exit = Some CHARGE_EXIT_FINAL);
          found_exit = (charge_exit = Some CHARGE_EXIT_TO_OUTPUT);
          held = (0 \<le> t \<and> \<not> final \<and> exit_held cl n found_exit)
      in if held \<and> \<not> reduces_held_exit c t cl
         then (discard_pending_target ''superseded_by_pending_charge_exit'' cl,
               dispatch_coalesced (Some t) None (Some Exit_pending) None)
         else if pending_target cl = Some t \<and> pending_correlation_id cl \<noteq> None
         then publish_target c tr t n (pending_correlation_id cl) found_exit held
                (cl\<lparr>pending_target := None, pending_correlation_id := None\<rparr>)
         else publish_target c tr t n None found_exit held (discard_pending_target ''superseded_by_fresh_target'' cl))"

definition dispatch_output_limit ::
  "client_config \<Rightarrow> transport \<Rightarrow> pyval \<Rightarrow> charge_exit option \<Rightarrow> seconds \<Rightarrow> client \<Rightarrow> client \<times> write_dispatch_result" where
  "dispatch_output_limit c tr value charge_exit n cl =
     (let cl1 = expire_active_command c n cl
      in case validate_power_target value of
           Inl b \<Rightarrow> (cl1, dispatch_rejected None (wb_error b) None)
         | Inr t \<Rightarrow>
             (case precheck_target c t of
                Inl b \<Rightarrow> (cl1, dispatch_rejected (Some t) (wb_error b) None)
              | Inr _ \<Rightarrow>
                  (case active_command cl1 of
                     Some r \<Rightarrow> if is_active r then dispatch_in_flight c tr t charge_exit n r cl1
                               else dispatch_free c tr t charge_exit n cl1
                   | None \<Rightarrow> dispatch_free c tr t charge_exit n cl1)))"

definition write_output_limit ::
  "client_config \<Rightarrow> transport \<Rightarrow> pyval \<Rightarrow> seconds \<Rightarrow> client \<Rightarrow> client \<times> bool" where
  "write_output_limit c tr value n cl =
     (let (cl1, d) = dispatch_output_limit c tr value None n cl in (cl1, dispatch_accepted d))"

definition write_properties ::
  "client_config \<Rightarrow> transport \<Rightarrow> (string \<times> pyval) list option \<Rightarrow> client \<Rightarrow> client \<times> write_dispatch_result" where
  "write_properties c tr props cl =
     (case prepare_property_write c props (tr_message_id tr) (tr_timestamp tr) of
        Inl b \<Rightarrow> (cl, dispatch_rejected None (wb_error b) None)
      | Inr m \<Rightarrow>
          let cl1 = cl\<lparr>state_writes := state_writes cl @ [m]\<rparr>
          in if tr_accepts tr then (cl1, dispatch_published None (Some (tr_message_id tr)) None None)
             else (cl1, dispatch_failed None (Some (tr_message_id tr)) None))"

section \<open>The client as a machine\<close>

datatype client_event =
    Dispatch transport pyval "charge_exit option" seconds
  | Handle_reply transport "reply option" seconds
  | Fetch seconds "(snapshot \<times> device_state \<times> bool) option"
  | Write_properties transport "(string \<times> pyval) list option"
  | Cancel_pending string
  | Release_charge_record

fun client_step :: "client_config \<Rightarrow> client \<Rightarrow> client_event \<Rightarrow> client" where
  "client_step c cl (Dispatch tr value charge_exit n) = fst (dispatch_output_limit c tr value charge_exit n cl)"
| "client_step c cl (Handle_reply tr reply n) = fst (handle_reply c tr reply n cl)"
| "client_step c cl (Fetch n report) = fst (fetch c n report cl)"
| "client_step c cl (Write_properties tr props) = fst (write_properties c tr props cl)"
| "client_step c cl (Cancel_pending why) = discard_pending_target why cl"
| "client_step c cl Release_charge_record = cl\<lparr>charge := release (charge cl)\<rparr>"

definition client_run :: "client_config \<Rightarrow> client_event list \<Rightarrow> client" where
  "client_run c es = run_steps (client_step c) (new_client c) es"

section \<open>The slot holds the last command sent\<close>

definition tracks :: "client \<Rightarrow> command_record \<Rightarrow> bool" where
  "tracks cl r \<longleftrightarrow> is_active r \<and> published_monotonic r \<noteq> None \<and> submitted cl \<noteq> [] \<and>
     payload_target (payload (last (submitted cl))) = Some (target_w r) \<and>
     payload_message_id (payload (last (submitted cl))) = message_id r"

definition authorised :: "client_config \<Rightarrow> mqtt_message \<Rightarrow> bool" where
  "authorised c m \<longleftrightarrow> payload_device_id (payload m) = cc_device_id c \<and>
     (case payload_target (payload m) of
        None \<Rightarrow> False
      | Some t \<Rightarrow> (case precheck_target c t of Inl _ \<Rightarrow> False | Inr _ \<Rightarrow> True))"

definition client_ok :: "client_config \<Rightarrow> client \<Rightarrow> bool" where
  "client_ok c cl \<longleftrightarrow>
     (case active_command cl of None \<Rightarrow> True | Some r \<Rightarrow> tracks cl r) \<and>
     list_all (authorised c) (submitted cl) \<and>
     length (unconfirmed_own_targets cl) \<le> UNCONFIRMED_OWN_TARGET_HISTORY \<and>
     (pending_target cl = None \<longleftrightarrow> pending_correlation_id cl = None)"

context command_operation
begin

lemma slot_kept: "tracks cl r \<Longrightarrow> \<not> snd (opn r) \<Longrightarrow> tracks cl (fst (opn r))"
  by (simp add: tracks_def keeps_correlation keeps_publication no_effect_active)

end

lemma tracks_submitted: "submitted cl' = submitted cl \<Longrightarrow> tracks cl' r = tracks cl r"
  by (simp add: tracks_def)

lemma tracks_block [simp]: "tracks cl (r\<lparr>confirmation_block_reason := b\<rparr>) = tracks cl r"
  by (simp add: tracks_def is_active_def)

lemma discard_frame [simp]:
  "active_command (discard_pending_target why cl) = active_command cl"
  "submitted (discard_pending_target why cl) = submitted cl"
  "charge (discard_pending_target why cl) = charge cl"
  "unconfirmed_own_targets (discard_pending_target why cl) = unconfirmed_own_targets cl"
  "pending_target (discard_pending_target why cl) = None"
  "pending_correlation_id (discard_pending_target why cl) = None"
  by (simp_all add: discard_pending_target_def notify_def Let_def split: option.splits)

lemma remember_frame [simp]:
  "active_command (remember_unconfirmed_own_target t cl) = active_command cl"
  "submitted (remember_unconfirmed_own_target t cl) = submitted cl"
  "charge (remember_unconfirmed_own_target t cl) = charge cl"
  "pending_target (remember_unconfirmed_own_target t cl) = pending_target cl"
  "pending_correlation_id (remember_unconfirmed_own_target t cl) = pending_correlation_id cl"
  "length (unconfirmed_own_targets (remember_unconfirmed_own_target t cl)) \<le> UNCONFIRMED_OWN_TARGET_HISTORY"
  by (simp_all add: remember_unconfirmed_own_target_def Let_def)

lemma free_slot_frame [simp]:
  "active_command (free_slot cl) = None"
  "submitted (free_slot cl) = submitted cl"
  "charge (free_slot cl) = charge cl"
  "unconfirmed_own_targets (free_slot cl) = unconfirmed_own_targets cl"
  "pending_target (free_slot cl) = pending_target cl"
  "pending_correlation_id (free_slot cl) = pending_correlation_id cl"
  by (simp_all add: free_slot_def)

lemma free_slot_ok: "client_ok c cl \<Longrightarrow> client_ok c (free_slot cl)"
  by (simp add: client_ok_def)

lemma discard_ok: "client_ok c cl \<Longrightarrow> client_ok c (discard_pending_target why cl)"
  by (simp add: client_ok_def tracks_def split: option.splits)

lemma remember_ok: "client_ok c cl \<Longrightarrow> client_ok c (remember_unconfirmed_own_target t cl)"
  by (simp add: client_ok_def tracks_def split: option.splits)

lemma release_superseded_ok: "client_ok c cl \<Longrightarrow> client_ok c (release_superseded r cl)"
  by (simp add: release_superseded_def remember_ok free_slot_ok)

lemma release_superseded_frame [simp]:
  "active_command (release_superseded r cl) = None"
  "submitted (release_superseded r cl) = submitted cl"
  "charge (release_superseded r cl) = charge cl"
  by (simp_all add: release_superseded_def)

lemma pending_cleared_ok: "client_ok c cl \<Longrightarrow> client_ok c (cl\<lparr>pending_target := None, pending_correlation_id := None\<rparr>)"
  by (simp add: client_ok_def tracks_def split: option.splits)

lemma charge_ok: "client_ok c (cl\<lparr>charge := ch\<rparr>) = client_ok c cl"
  by (simp add: client_ok_def tracks_def split: option.splits)

lemma notify_ok: "client_ok c (notify d cl) = client_ok c cl"
  by (simp add: client_ok_def tracks_def notify_def split: option.splits)

lemma slot_update_ok:
  "client_ok c cl \<Longrightarrow> tracks cl r \<Longrightarrow> client_ok c (cl\<lparr>active_command := Some r\<rparr>)"
  by (simp add: client_ok_def tracks_def)

lemma correlation_ok: "client_ok c cl \<Longrightarrow> client_ok c (fst (next_dispatch_correlation_id cl))"
  by (simp add: client_ok_def tracks_def next_dispatch_correlation_id_def split: option.splits)

lemma correlation_frame [simp]:
  "active_command (fst (next_dispatch_correlation_id cl)) = active_command cl"
  "submitted (fst (next_dispatch_correlation_id cl)) = submitted cl"
  by (simp_all add: next_dispatch_correlation_id_def)

lemma after_publish_slot:
  "\<not> is_active (after_publish c tr (queued_record c tr t n op e)) \<or>
     published_monotonic (after_publish c tr (queued_record c tr t n op e)) \<noteq> None"
  "message_id (after_publish c tr (queued_record c tr t n op e)) = tr_message_id tr"
  "target_w (after_publish c tr (queued_record c tr t n op e)) = t"
  by (simp_all add: after_publish_def queued_record_def mark_published_def mark_publish_failed_def
      complete_unconfirmed_def is_active_def Let_def)

lemma build_write_authorised:
  assumes "build_write c t i ts = Inr (m, op, e)"
  shows "payload_target (payload m) = Some t \<and> payload_message_id (payload m) = i \<and> authorised c m"
proof -
  from assms have "payload_target (payload m) = Some t" "payload_message_id (payload m) = i"
    "payload_device_id (payload m) = cc_device_id c"
    using build_write_carries [OF assms] by simp_all
  moreover have "case precheck_target c t of Inl _ \<Rightarrow> False | Inr _ \<Rightarrow> True"
    using assms by (auto simp: build_write_def split: sum.splits)
  ultimately show ?thesis by (simp add: authorised_def)
qed

lemma publish_target_ok:
  assumes "client_ok c cl" and "active_command cl = None"
  shows "client_ok c (fst (publish_target c tr t n corr found red cl))"
proof -
  define p where "p = (case corr of Some k \<Rightarrow> (cl, k) | None \<Rightarrow> next_dispatch_correlation_id cl)"
  have ok: "client_ok c (fst p)" and none: "active_command (fst p) = None"
    using assms correlation_ok [OF assms(1)] by (simp_all add: p_def split: option.splits)
  show ?thesis
  proof (cases "build_write c t (tr_message_id tr) (tr_timestamp tr)")
    case (Inl b)
    then show ?thesis using ok by (simp add: publish_target_def p_def [symmetric] split_beta)
  next
    case (Inr w)
    obtain m op e where w: "w = (m, op, e)" by (cases w) auto
    let ?r = "after_publish c tr (queued_record c tr t n op e)"
    let ?cl = "(fst p)\<lparr>submitted := submitted (fst p) @ [m], active_command := (if is_active ?r then Some ?r else None),
        active_correlation_id := (if is_active ?r then Some (snd p) else None)\<rparr>"
    have "client_ok c ?cl"
      using ok build_write_authorised [OF Inr [unfolded w]] after_publish_slot
      by (auto simp: client_ok_def tracks_def)
    moreover have "fst (publish_target c tr t n corr found red cl) =
        (if tr_accepts tr then ?cl\<lparr>charge := charge_after_publish tr t found red (charge ?cl)\<rparr> else ?cl)"
      using Inr w by (simp add: publish_target_def p_def [symmetric] split_beta Let_def)
    ultimately show ?thesis using charge_ok by presburger
  qed
qed

lemma flush_ok: "client_ok c cl \<Longrightarrow> client_ok c (flush_pending_target c tr n cl)"
  by (simp add: flush_pending_target_def split_beta notify_ok publish_target_ok pending_cleared_ok split: option.splits)

lemma expire_ok:
  assumes "client_ok c cl"
  shows "client_ok c (expire_active_command c n cl)"
proof (cases "active_command cl")
  case None
  then show ?thesis using assms by (simp add: expire_active_command_def)
next
  case (Some r)
  then have r: "tracks cl r" using assms by (simp add: client_ok_def)
  have kept: "client_ok c (cl\<lparr>active_command := Some r'\<rparr>)" if "tracks cl r'" for r'
    using assms that by (rule slot_update_ok)
  show ?thesis
    using Some assms r
    by (auto simp: expire_active_command_def split_beta Let_def intro!: kept remember_ok free_slot_ok
        ack_timeout.slot_kept confirmation_timeout.slot_kept split: if_splits)
qed

lemma handle_reply_ok:
  assumes "client_ok c cl"
  shows "client_ok c (fst (handle_reply c tr reply n cl))"
proof (cases "active_command cl")
  case None
  then show ?thesis using assms by (simp add: handle_reply_def)
next
  case (Some r)
  then have r: "tracks cl r" using assms by (simp add: client_ok_def)
  have live: "tracks cl r'" if "\<not> is_terminal r'" "identity r' = identity r" "published_monotonic r' = published_monotonic r" for r'
    using r that by (cases "status r'") (auto simp: tracks_def identity_def is_active_def is_terminal_def TERMINAL_STATES_def)
  show ?thesis
    using Some assms
    by (auto simp: handle_reply_def split_beta Let_def replied.keeps_identity replied.keeps_publication
        completed.keeps_identity completed.keeps_publication intro!: flush_ok free_slot_ok slot_update_ok live split: if_splits)
qed

lemma confirm_from_snapshot_ok:
  assumes "client_ok c cl"
  shows "client_ok c (confirm_from_snapshot c sn n cl)"
proof (cases "active_command cl")
  case None
  then show ?thesis using assms by (simp add: confirm_from_snapshot_def)
next
  case (Some r)
  then have r: "tracks cl r" using assms by (simp add: client_ok_def)
  have noted: "client_ok c (note_local_confirmation r' n (free_slot cl))" for r'
    using assms by (simp add: client_ok_def note_local_confirmation_def)
  show ?thesis
    using Some assms r
    by (auto simp: confirm_from_snapshot_def split_beta Let_def intro!: noted slot_update_ok
        telemetry.slot_kept proven.slot_kept split: option.splits)
qed

lemma detect_frame [simp]:
  "active_command (detect_external_control c sn cl) = active_command cl"
  "submitted (detect_external_control c sn cl) = submitted cl"
  "unconfirmed_own_targets (detect_external_control c sn cl) = unconfirmed_own_targets cl"
  "pending_target (detect_external_control c sn cl) = pending_target cl"
  "pending_correlation_id (detect_external_control c sn cl) = pending_correlation_id cl"
  by (simp_all add: detect_external_control_def Let_def split: option.splits)

lemma detect_ok: "client_ok c cl \<Longrightarrow> client_ok c (detect_external_control c sn cl)"
  by (simp add: client_ok_def tracks_def split: option.splits)

lemma fetch_ok:
  assumes "client_ok c cl"
  shows "client_ok c (fst (fetch c n report cl))"
  using assms
  by (auto simp: fetch_def Let_def charge_ok client_ok_def [of c cl] split: option.splits
      intro!: expire_ok slot_update_ok detect_ok confirm_from_snapshot_ok)

lemma dispatch_in_flight_ok:
  assumes "client_ok c cl"
  shows "client_ok c (fst (dispatch_in_flight c tr t x n r cl))"
proof -
  have queued: "client_ok c (cl'\<lparr>pending_target := Some t, pending_correlation_id := Some k\<rparr>)" if "client_ok c cl'" for cl' k
    using that by (simp add: client_ok_def tracks_def split: option.splits)
  have again: "client_ok c (cl\<lparr>pending_target := Some t\<rparr>)" if "pending_target cl = Some t"
    using assms that by (simp add: client_ok_def tracks_def split: option.splits)
  show ?thesis
    using assms
    by (auto simp: dispatch_in_flight_def split_beta Let_def
        intro!: again queued publish_target_ok discard_ok release_superseded_ok correlation_ok)
qed

lemma dispatch_free_ok:
  assumes "client_ok c cl" and "active_command cl = None"
  shows "client_ok c (fst (dispatch_free c tr t x n cl))"
  using assms by (auto simp: dispatch_free_def Let_def intro!: publish_target_ok discard_ok pending_cleared_ok)

lemma write_properties_ok: "client_ok c (fst (write_properties c tr props cl)) = client_ok c cl"
  by (simp add: write_properties_def client_ok_def tracks_def Let_def split: sum.splits option.splits)

lemma dispatch_ok:
  assumes "client_ok c cl"
  shows "client_ok c (fst (dispatch_output_limit c tr value x n cl))"
proof -
  have ok: "client_ok c (expire_active_command c n cl)" using assms by (rule expire_ok)
  then have "is_active r" if "active_command (expire_active_command c n cl) = Some r" for r
    using that by (simp add: client_ok_def tracks_def)
  then show ?thesis
    using ok by (auto simp: dispatch_output_limit_def Let_def split: sum.splits option.splits
        intro: dispatch_in_flight_ok dispatch_free_ok)
qed

interpretation slot: stepwise_invariant "client_step c" "\<lambda>_. True" "client_ok c" for c
proof unfold_locales
  fix cl e
  assume "client_ok c cl"
  then show "client_ok c (client_step c cl e)"
    by (cases e) (simp_all add: dispatch_ok handle_reply_ok fetch_ok write_properties_ok discard_ok charge_ok)
qed

lemma client_run_ok: "client_ok c (client_run c es)"
  unfolding client_run_def
  by (rule slot.run_inv) (simp_all add: client_ok_def new_client_def list_all_iff)


definition demo_transport :: "int \<Rightarrow> seconds \<Rightarrow> transport" where
  "demo_transport i t = \<lparr>tr_message_id = i, tr_timestamp = 1000, tr_accepts = True, tr_completed = t\<rparr>"

definition demo_dispatches :: "client_event list" where
  "demo_dispatches =
     [Dispatch (demo_transport 1 1) (PyInt 400) None 0,
      Dispatch (demo_transport 2 3) (PyInt 450) None 2,
      Dispatch (demo_transport 2 4) (PyInt 0) None 3]"




section \<open>A safety reduction is sent at once\<close>

lemma expire_submitted [simp]: "submitted (expire_active_command c n cl) = submitted cl"
  by (simp add: expire_active_command_def split_beta Let_def split: option.splits)

lemma publish_target_sends:
  assumes "build_write c t (tr_message_id tr) (tr_timestamp tr) = Inr (m, op, e)"
    and "publish_target c tr t n corr found red cl = (cl', d)"
  shows "submitted cl' = submitted cl @ [m] \<and> pending_target cl' = pending_target cl \<and>
    dr_status d = (if tr_accepts tr then PUBLISHED else FAILED) \<and> dr_target_w d = Some t \<and>
    (case active_command cl' of None \<Rightarrow> True | Some r' \<Rightarrow> target_w r' = t \<and> message_id r' = tr_message_id tr)"
  using assms after_publish_slot [of c tr t n op e]
  by (auto simp: publish_target_def split_beta Let_def next_dispatch_correlation_id_def dispatch_published_def
      dispatch_failed_def split: option.splits if_splits)

text \<open>
  C5. A safety reduction never waits: when the command in flight is to be replaced by a stop, a
  change of direction or a cut of at least the safety margin, the dispatch hands the new target to
  the transport in the same call, whatever exit is pending and whatever target was waiting; the old
  command leaves the slot, nothing stays queued behind it, and the result is published, or failed
  where the transport refused.
\<close>

theorem safety_reduction_is_sent_at_once:
  assumes "active_command (expire_active_command c n cl) = Some r" and "is_active r"
    and "safety_reduction (of_int (target_w r)) (of_int t) (cc_safety_preempt_margin_w c) (tolerance_of c)"
    and "build_write c t (tr_message_id tr) (tr_timestamp tr) = Inr (m, op, e)"
    and "dispatch_output_limit c tr (PyInt t) x n cl = (cl', d)"
  shows "submitted cl' = submitted cl @ [m] \<and> payload_target (payload m) = Some t \<and>
    pending_target cl' = None \<and> dr_status d = (if tr_accepts tr then PUBLISHED else FAILED) \<and>
    (case active_command cl' of None \<Rightarrow> True | Some r' \<Rightarrow> target_w r' = t \<and> message_id r' = tr_message_id tr)"
proof -
  from assms(4) obtain op' where pre: "precheck_target c t = Inr op'"
    by (auto simp: build_write_def split: sum.splits)
  have "t \<noteq> target_w r" using assms(3) by (auto simp: safety_reduction_def)
  then obtain found red where "publish_target c tr t n None found red
      (discard_pending_target ''superseded_by_safety_target''
        (release_superseded (fst (mark_superseded r (Some n))) (expire_active_command c n cl))) = (cl', d)"
    using assms(1,2,3,5) pre
    by (auto simp: dispatch_output_limit_def dispatch_in_flight_def should_preempt_def Let_def split: if_splits)
  from publish_target_sends [OF assms(4) this] build_write_carries [OF assms(4)] show ?thesis by simp
qed

theorem safety_reduction_is_sent_at_once_witness:
  "\<exists>cl' d. dispatch_output_limit demo_client (demo_transport 2 4) (PyInt 0) None 3
       (client_run demo_client (take 2 demo_dispatches)) = (cl', d) \<and>
     dr_status d = PUBLISHED \<and> pending_target cl' = None \<and>
     pending_target (client_run demo_client (take 2 demo_dispatches)) = Some 450"
proof -
  let ?cl = "client_run demo_client (take 2 demo_dispatches)"
  have "map_option (\<lambda>r. (is_active r, target_w r)) (active_command (expire_active_command demo_client 3 ?cl)) = Some (True, 400)"
    and q: "pending_target ?cl = Some 450" by code_simp+
  then obtain r where r: "active_command (expire_active_command demo_client 3 ?cl) = Some r" "is_active r" "target_w r = 400"
    by auto
  have s: "safety_reduction (of_int (target_w r)) (of_int 0) (cc_safety_preempt_margin_w demo_client) (tolerance_of demo_client)"
    by (simp add: safety_reduction_def r)
  have "case build_write demo_client 0 (tr_message_id (demo_transport 2 4)) (tr_timestamp (demo_transport 2 4)) of
      Inl _ \<Rightarrow> False | Inr _ \<Rightarrow> True" by code_simp
  then obtain m op e where b: "build_write demo_client 0 (tr_message_id (demo_transport 2 4))
      (tr_timestamp (demo_transport 2 4)) = Inr (m, op, e)"
    by (auto split: sum.splits)
  obtain cl' d where d: "dispatch_output_limit demo_client (demo_transport 2 4) (PyInt 0) None 3 ?cl = (cl', d)" by fastforce
  from safety_reduction_is_sent_at_once [OF r(1,2) s b d] d q show ?thesis by (simp add: demo_transport_def)
qed

section \<open>No command keeps its slot for good\<close>

definition slot_live :: "client_config \<Rightarrow> command_record \<Rightarrow> bool" where
  "slot_live c r \<longleftrightarrow>
     (if status r = STATE_PUBLISHED
      then published_monotonic r \<noteq> None \<and>
           (supports_acknowledgement (client_reply_contract c) \<or>
            telemetry_confirmation_supported (confirmation_policy c))
      else status r = STATE_ACKNOWLEDGED \<and> acknowledged_monotonic r \<noteq> None \<and>
           supports_acknowledgement (client_reply_contract c) \<and>
           telemetry_confirmation_supported (confirmation_policy c))"

definition client_live :: "client_config \<Rightarrow> client \<Rightarrow> bool" where
  "client_live c cl \<longleftrightarrow> (case active_command cl of None \<Rightarrow> True | Some r \<Rightarrow> slot_live c r)"

text \<open>When the command in the slot is given up at the latest.\<close>

definition slot_deadline :: "client_config \<Rightarrow> command_record \<Rightarrow> seconds" where
  "slot_deadline c r =
     (if status r = STATE_ACKNOWLEDGED then the (acknowledged_monotonic r) + cc_confirmation_timeout_s c
      else if supports_acknowledgement (client_reply_contract c) then created_monotonic r + cc_ack_timeout_s c
      else the (published_monotonic r) + cc_confirmation_timeout_s c)"

context command_operation
begin

lemma live_kept: "slot_live c r \<Longrightarrow> \<not> snd (opn r) \<Longrightarrow> slot_live c (fst (opn r))"
  by (simp add: slot_live_def keeps_publication no_effect no_effect_stamp)

end

lemma live_block [simp]: "slot_live c (r\<lparr>confirmation_block_reason := b\<rparr>) = slot_live c r"
  by (simp add: slot_live_def)

lemma live_none: "active_command cl = None \<Longrightarrow> client_live c cl"
  by (simp add: client_live_def)

lemma live_slot: "slot_live c r \<Longrightarrow> client_live c (cl\<lparr>active_command := Some r\<rparr>)"
  by (simp add: client_live_def)

lemma live_frame: "active_command cl' = active_command cl \<Longrightarrow> client_live c cl' = client_live c cl"
  by (simp add: client_live_def)

lemma publish_target_live:
  assumes "active_command cl = None"
  shows "client_live c (fst (publish_target c tr t n corr found red cl))"
proof -
  have sent: "is_active r \<Longrightarrow> slot_live c r" if "r = after_publish c tr (queued_record c tr t n op e)" for r op e
    unfolding that by (cases "tr_accepts tr"; cases "supports_acknowledgement (client_reply_contract c)";
      cases "telemetry_confirmation_supported (confirmation_policy c)")
      (auto simp: after_publish_def queued_record_def mark_published_def mark_publish_failed_def
        complete_unconfirmed_def is_active_def slot_live_def Let_def)
  show ?thesis
    using assms sent
    by (auto simp: publish_target_def client_live_def split_beta Let_def next_dispatch_correlation_id_def
        split: option.splits sum.splits if_splits)
qed

lemma notify_frame [simp]: "active_command (notify d cl) = active_command cl"
  by (simp add: notify_def)

lemma flush_live:
  assumes "client_live c cl"
  shows "client_live c (flush_pending_target c tr n cl)"
  using assms
  by (auto simp: flush_pending_target_def split_beta live_frame [OF notify_frame] intro: publish_target_live
      split: option.splits)

lemma live_some: "client_live c cl \<Longrightarrow> active_command cl = Some r \<Longrightarrow> slot_live c r"
  by (simp add: client_live_def)

lemma live_freed:
  "client_live c (free_slot cl)" "client_live c (remember_unconfirmed_own_target t (free_slot cl))"
  "client_live c (note_local_confirmation r n (free_slot cl))"
  by (simp_all add: client_live_def note_local_confirmation_def)

lemma expire_live:
  assumes "client_live c cl"
  shows "client_live c (expire_active_command c n cl)"
proof (cases "active_command cl")
  case (Some r)
  then show ?thesis
    using live_some [OF assms Some]
    by (auto simp: expire_active_command_def split_beta Let_def live_freed
        intro!: live_slot ack_timeout.live_kept confirmation_timeout.live_kept)
qed (use assms in \<open>simp add: expire_active_command_def\<close>)

lemma handle_reply_live:
  assumes "client_live c cl"
  shows "client_live c (fst (handle_reply c tr reply n cl))"
proof (cases "active_command cl")
  case None
  then show ?thesis using assms by (simp add: handle_reply_def)
next
  case (Some r)
  have kept: "slot_live c r'" if "r' = fst (apply_reply r reply (Some n))" "snd (apply_reply r reply (Some n))"
    "\<not> is_terminal r'" "supports_acknowledgement (client_reply_contract c)"
    "status r' = STATE_ACKNOWLEDGED \<Longrightarrow> telemetry_confirmation_supported (confirmation_policy c)" for r'
    using that by (auto simp: apply_reply_def slot_live_def is_terminal_def TERMINAL_STATES_def Let_def split: if_splits)
  have ends: "is_terminal (fst (complete_unconfirmed r' (Some n)))" if "status r' = STATE_ACKNOWLEDGED" for r'
    using that by (simp add: complete_unconfirmed_def is_terminal_def TERMINAL_STATES_def)
  show ?thesis
    using Some assms kept ends
    by (auto simp: handle_reply_def split_beta Let_def simp: live_freed intro!: flush_live live_slot)
qed

lemma confirm_from_snapshot_live:
  assumes "client_live c cl"
  shows "client_live c (confirm_from_snapshot c sn n cl)"
proof (cases "active_command cl")
  case (Some r)
  then show ?thesis
    using live_some [OF assms Some] assms
    by (auto simp: confirm_from_snapshot_def split_beta Let_def live_freed
        intro!: live_slot telemetry.live_kept proven.live_kept split: option.splits)
qed (use assms in \<open>simp add: confirm_from_snapshot_def\<close>)

lemma fetch_live:
  assumes "client_live c cl"
  shows "client_live c (fst (fetch c n report cl))"
proof -
  have "client_live c (cl'\<lparr>charge := ch\<rparr>) = client_live c cl'" for cl' ch by (rule live_frame) simp
  then show ?thesis
    using assms confirm_from_snapshot_live [OF assms]
    by (auto simp: fetch_def Let_def live_frame [OF detect_frame(1)] client_live_def [of c cl] split: option.splits
        intro!: expire_live live_slot)
qed

lemma live_frames:
  "client_live c (cl\<lparr>pending_target := p, pending_correlation_id := k\<rparr>) = client_live c cl"
  "client_live c (cl\<lparr>pending_target := p\<rparr>) = client_live c cl"
  "client_live c (discard_pending_target why cl) = client_live c cl"
  "client_live c (fst (next_dispatch_correlation_id cl)) = client_live c cl"
  "client_live c (cl\<lparr>charge := ch\<rparr>) = client_live c cl"
  "client_live c (fst (write_properties d tr props cl)) = client_live c cl"
  by (rule live_frame, simp add: write_properties_def Let_def split: sum.splits)+

lemma dispatch_in_flight_live:
  assumes "client_live c cl"
  shows "client_live c (fst (dispatch_in_flight c tr t x n r cl))"
  using assms by (auto simp: dispatch_in_flight_def split_beta Let_def live_frames intro!: publish_target_live)

lemma dispatch_free_live:
  assumes "active_command cl = None"
  shows "client_live c (fst (dispatch_free c tr t x n cl))"
proof -
  have "client_live c (discard_pending_target why cl)" for why using assms by (simp add: live_none)
  then show ?thesis using assms by (simp add: dispatch_free_def Let_def publish_target_live)
qed

lemma dispatch_live:
  assumes "client_live c cl"
  shows "client_live c (fst (dispatch_output_limit c tr value x n cl))"
proof -
  let ?cl = "expire_active_command c n cl"
  have live: "client_live c ?cl" using assms by (rule expire_live)
  then have "is_active r" if "active_command ?cl = Some r" for r
    using live_some [OF live that] by (simp add: slot_live_def is_active_def split: if_splits)
  then show ?thesis
    using live by (auto simp: dispatch_output_limit_def Let_def split: sum.splits option.splits
        intro: dispatch_in_flight_live dispatch_free_live)
qed

interpretation lively: stepwise_invariant "client_step c" "\<lambda>_. True" "client_live c" for c
proof unfold_locales
  fix cl e
  assume "client_live c cl"
  then show "client_live c (client_step c cl e)"
    by (cases e) (simp_all add: dispatch_live handle_reply_live fetch_live live_frames)
qed

lemma client_run_live: "client_live c (client_run c es)"
  unfolding client_run_def by (rule lively.run_inv) (simp_all add: client_live_def new_client_def list_all_iff)

lemma slot_live_expires:
  assumes "slot_live c r" and "active_command cl = Some r" and "slot_deadline c r \<le> n"
  shows "active_command (expire_active_command c n cl) = None"
  using assms
  by (auto simp: slot_live_def slot_deadline_def expire_active_command_def apply_timeout_def
      apply_confirmation_timeout_def elapsed_def split_beta Let_def algebra_simps split: if_splits)



end
