(* ===== verification/Http_Client.thy ===== *)
theory Http_Client
  imports Device_Client
begin

text \<open>
  \<open>ems/clients.py\<close>, \<open>ZendureClient\<close>: the client that writes one device's power target over the
  local HTTP API, with \<open>zendure_write\<close> and \<open>zendure_write_succeeded\<close>.

  A write is synchronous: \<open>posted\<close> collects the bodies posted to the device, each with the field its
  health counter names, and \<open>http_answer\<close> is what came back, a status or an exception of the session.
  An exception leaves \<open>dispatch_output_limit\<close>, so its result is an option. The model of the device,
  which the client resolves from its pin and its report, is a field. The parsing of a report, the
  health counters and the names of ignored values are left out.

  The locale \<open>charge_keeper\<close> states what the controller relies on of a transport that keeps a
  charge: whatever is called, its record moves only by calls of \<open>Charge_Record\<close>'s methods. It is
  interpreted on this client and on the MQTT client, so that the bound on the exits to AC input
  found after a start holds for both.

  Proved: while its charge is on record, the client posts a non-negative target only as an exit that
  ends the charge, or not at all; inside an exit's window only a safety reduction goes out; the
  shutdown release always goes out.
\<close>

section \<open>State\<close>

record http_client =
  hc_profile :: "hardware_profile option"
  hc_charge :: charge_record
  observed_in_charge_mode :: bool
  posted :: "(string \<times> properties) list"

definition new_http_client :: "hardware_profile option \<Rightarrow> http_client" where
  "new_http_client profile =
     \<lparr>hc_profile = profile, hc_charge = new_charge_record EXIT_RESEND_SECONDS,
      observed_in_charge_mode = False, posted = []\<rparr>"

datatype http_answer = Http_status int | Http_raised

section \<open>Writing\<close>

definition zendure_write_succeeded :: "int \<Rightarrow> bool" where
  "zendure_write_succeeded status_code \<longleftrightarrow> status_code < 300"

definition zendure_write ::
  "http_answer \<Rightarrow> string \<Rightarrow> properties \<Rightarrow> http_client \<Rightarrow> http_client \<times> bool option" where
  "zendure_write a field props hc =
     (hc\<lparr>posted := posted hc @ [(field, props)]\<rparr>,
      (case a of Http_raised \<Rightarrow> None | Http_status st \<Rightarrow> Some (zendure_write_succeeded st)))"

definition http_write_output_limit :: "http_answer \<Rightarrow> int \<Rightarrow> http_client \<Rightarrow> http_client \<times> bool option" where
  "http_write_output_limit a value = zendure_write a ''outputLimit'' [(''outputLimit'', value)]"

text \<open>What a synchronous write reports: published, or failed over HTTP; an exception goes through.\<close>

definition http_written :: "int \<Rightarrow> bool option \<Rightarrow> write_dispatch_result option" where
  "http_written t ok =
     map_option (\<lambda>b. if b then dispatch_published (Some t) None None None
                     else (dispatch_failed (Some t) None None)\<lparr>dr_reason := Some ''http_write_failed''\<rparr>) ok"

text \<open>The atomic set for a target.\<close>

definition power_set :: "int \<Rightarrow> properties" where
  "power_set t =
     (case build_zensdk_power_operation (PyInt t) of Inl _ \<Rightarrow> [] | Inr op \<Rightarrow> zop_properties op)"

text \<open>A non-negative target that is an exit: the charge is on record, or the exit was asked for.\<close>

definition http_dispatch_exit ::
  "http_answer \<Rightarrow> seconds \<Rightarrow> int \<Rightarrow> charge_exit option \<Rightarrow> http_client \<Rightarrow>
   http_client \<times> write_dispatch_result option" where
  "http_dispatch_exit a n t charge_exit hc =
     (let r = hc_charge hc;
          found_exit = (charge_exit = Some CHARGE_EXIT_TO_OUTPUT);
          held = (charge_exit \<noteq> Some CHARGE_EXIT_FINAL \<and>
            (if cr_open r then \<not> exit_due r n else found_exit \<and> \<not> found_exit_due r n))
      in if held \<and> \<not> reduces_exit r (of_int t) DEFAULT_SAFETY_PREEMPT_MARGIN_W 0
         then (hc, Some (dispatch_coalesced (Some t) None (Some Exit_pending) None))
         else
           let (field, props) =
                 (if cr_open r \<and> charge_exit = Some CHARGE_EXIT_IN_INPUT
                  then (''inputLimit'', [(''inputLimit'', 0)]) else (''outputLimit'', power_set t));
               (hc1, ok) = zendure_write a field props hc;
               r1 = (if held then reduction_sent r (Some (of_int t))
                     else let r0 = exit_sent r n (Some (of_int t))
                          in if found_exit then found_exit_sent r0 n else r0)
           in (if ok = None then hc1 else hc1\<lparr>hc_charge := r1\<rparr>, http_written t ok))"

text \<open>A charge target.\<close>

definition http_dispatch_charge ::
  "http_answer \<Rightarrow> int \<Rightarrow> http_client \<Rightarrow> http_client \<times> write_dispatch_result option" where
  "http_dispatch_charge a t hc =
     (case hc_profile hc of
        None \<Rightarrow> (hc, Some (dispatch_rejected (Some t) ''unknown_hardware_profile'' None))
      | Some p \<Rightarrow>
          if \<not> supports_operation p OPERATION_CHARGE
          then (hc, Some (dispatch_rejected (Some t) ''charge_target_unsupported'' None))
          else if power_write_profile p \<noteq> WRITE_PROFILE_ZENSDK_PROPERTIES
          then (hc, Some (dispatch_rejected (Some t) ''transport_write_not_implemented'' None))
          else
            let set = power_set t;
                watts = the (map_of set ''inputLimit'');
                props = (if cr_open (hc_charge hc) \<and> observed_in_charge_mode hc
                         then [(''inputLimit'', watts)] else set);
                (hc1, ok) = zendure_write a ''inputLimit'' props
                  (hc\<lparr>hc_charge := charge_sent (hc_charge hc) watts\<rparr>)
            in (hc1, http_written t ok))"

definition http_dispatch_output_limit ::
  "http_answer \<Rightarrow> seconds \<Rightarrow> int \<Rightarrow> charge_exit option \<Rightarrow> http_client \<Rightarrow>
   http_client \<times> write_dispatch_result option" where
  "http_dispatch_output_limit a n t charge_exit hc =
     (if 0 \<le> t \<and> \<not> (cr_open (hc_charge hc) \<or> charge_exit = Some CHARGE_EXIT_FINAL \<or>
        charge_exit = Some CHARGE_EXIT_TO_OUTPUT)
      then (let (hc1, ok) = http_write_output_limit a t hc in (hc1, http_written t ok))
      else if 0 \<le> t then http_dispatch_exit a n t charge_exit hc
      else http_dispatch_charge a t hc)"

text \<open>A report read, with the word whether it carries \<open>inputLimit\<close>; \<open>None\<close> is a failed read.\<close>

definition http_fetch :: "(device_state \<times> bool) option \<Rightarrow> http_client \<Rightarrow> http_client \<times> device_state option" where
  "http_fetch report hc =
     (case report of
        None \<Rightarrow> (hc\<lparr>observed_in_charge_mode := False\<rparr>, None)
      | Some (s, setpoint_reported) \<Rightarrow>
          (hc\<lparr>observed_in_charge_mode := ac_mode s = AC_MODE_INPUT \<and> smart_mode s = 1,
              hc_charge := observe (hc_charge hc) s setpoint_reported\<rparr>, Some s))"

definition http_release_charge_record :: "http_client \<Rightarrow> http_client" where
  "http_release_charge_record hc = hc\<lparr>hc_charge := release (hc_charge hc)\<rparr>"

section \<open>The client as a machine\<close>

datatype http_event =
    Http_dispatch http_answer seconds int "charge_exit option"
  | Http_fetch "(device_state \<times> bool) option"
  | Http_release

fun http_step :: "http_client \<Rightarrow> http_event \<Rightarrow> http_client" where
  "http_step hc (Http_dispatch a n t ce) = fst (http_dispatch_output_limit a n t ce hc)"
| "http_step hc (Http_fetch report) = fst (http_fetch report hc)"
| "http_step hc Http_release = http_release_charge_record hc"

definition http_run :: "hardware_profile option \<Rightarrow> http_event list \<Rightarrow> http_client" where
  "http_run profile es = run_steps http_step (new_http_client profile) es"

section \<open>The record moves only by its methods\<close>

text \<open>
  What the controller relies on of a transport that keeps a charge: between any two looks at its
  record, only methods of the record were called.
\<close>

locale charge_keeper =
  fixes step :: "'s \<Rightarrow> 'e \<Rightarrow> 's" and record_of :: "'s \<Rightarrow> charge_record"
  assumes moves: "\<exists>es. record_of (step s e) = record_run (record_of s) es"
begin

lemma run_moves: "\<exists>es. record_of (run_steps step s cs) = record_run (record_of s) es"
proof (induction cs arbitrary: s)
  case Nil
  show ?case by (rule exI [of _ "[]"]) simp
next
  case (Cons c cs)
  obtain es where es: "record_of (step s c) = record_run (record_of s) es" using moves by blast
  obtain fs where fs: "record_of (run_steps step (step s c) cs) = record_run (record_of (step s c)) fs"
    using Cons.IH by blast
  show ?case using es fs by (intro exI [of _ "es @ fs"]) (simp add: record_run_def run_steps_append)
qed

lemma found_exits_at_most_3:
  assumes "record_of s = new_charge_record resend" and "0 \<le> resend"
  shows "found_exit_attempts (record_of (run_steps step s cs)) \<le> 3"
  using run_moves [of s cs] found_exit_attempts_bounded [OF assms(2)] assms(1) by force

end

text \<open>Two records, one of which the methods led to from the other.\<close>

definition moved_by_methods :: "charge_record \<Rightarrow> charge_record \<Rightarrow> bool" where
  "moved_by_methods r r' \<longleftrightarrow> (\<exists>es. r' = record_run r es)"

lemma moved_refl [simp, intro]: "moved_by_methods r r"
  by (auto simp: moved_by_methods_def intro: exI [of _ "[]"])

lemma moved_trans [trans]: "moved_by_methods r s \<Longrightarrow> moved_by_methods s t \<Longrightarrow> moved_by_methods r t"
  unfolding moved_by_methods_def by (metis record_run_def run_steps_append)

lemma moved_step: "moved_by_methods r (record_step r e)"
  unfolding moved_by_methods_def by (rule exI [of _ "[e]"]) simp

lemma moved_methods [simp, intro]:
  "moved_by_methods r (charge_sent r w)" "moved_by_methods r (exit_sent r n t)"
  "moved_by_methods r (reduction_sent r t)" "moved_by_methods r (found_exit_sent r n)"
  "moved_by_methods r (observe r s b)" "moved_by_methods r (release r)"
  "moved_by_methods r (found_exit_sent (exit_sent r n t) n')"
  using moved_step [of r "Charge_sent w"] moved_step [of r "Exit_sent n t"]
    moved_step [of r "Reduction_sent t"] moved_step [of r "Found_exit_sent n"]
    moved_step [of r "Observe s b"] moved_step [of r Release]
    moved_trans [OF moved_step [of r "Exit_sent n t"] moved_step [of _ "Found_exit_sent n'"]]
  by simp_all

lemma zendure_write_frame [simp]:
  "fst (zendure_write a f ps hc) = hc\<lparr>posted := posted hc @ [(f, ps)]\<rparr>"
  by (simp add: zendure_write_def)

lemmas http_dispatch_defs = http_dispatch_output_limit_def http_dispatch_exit_def http_dispatch_charge_def
  http_write_output_limit_def

lemma http_step_moves: "moved_by_methods (hc_charge hc) (hc_charge (http_step hc e))"
  by (cases e) (auto simp: http_dispatch_defs zendure_write_def http_fetch_def
    http_release_charge_record_def Let_def split: option.splits prod.splits)

interpretation http: charge_keeper http_step hc_charge
  using http_step_moves by unfold_locales (simp add: moved_by_methods_def)

lemma charge_after_publish_moves [simp, intro]: "moved_by_methods r (charge_after_publish tr t f d r)"
  by (auto simp: charge_after_publish_def Let_def)

lemma publish_target_moves: "moved_by_methods (charge cl) (charge (fst (publish_target c tr t n k f d cl)))"
  by (auto simp: publish_target_def next_dispatch_correlation_id_def Let_def split: sum.splits option.splits)

lemma flush_moves: "moved_by_methods (charge cl) (charge (flush_pending_target c tr n cl))"
proof (cases "pending_target cl")
  case (Some t)
  then show ?thesis
    using publish_target_moves [of "cl\<lparr>pending_target := None, pending_correlation_id := None\<rparr>"
        c tr t n "pending_correlation_id cl" False False]
    by (auto simp: flush_pending_target_def notify_def split: prod.splits)
qed (simp add: flush_pending_target_def)

lemma expire_charge [simp]: "charge (expire_active_command c n cl) = charge cl"
  by (simp add: expire_active_command_def Let_def split: option.splits prod.splits)

lemma confirm_charge [simp]: "charge (confirm_from_snapshot c sn n cl) = charge cl"
  by (auto simp: confirm_from_snapshot_def note_local_confirmation_def Let_def split: option.splits prod.splits)

lemma detect_charge [simp]: "charge (detect_external_control c sn cl) = charge cl"
  by (auto simp: detect_external_control_def Let_def split: option.splits)

lemma correlation_charge [simp]: "charge (fst (next_dispatch_correlation_id cl)) = charge cl"
  by (simp add: next_dispatch_correlation_id_def)

lemma handle_reply_moves: "moved_by_methods (charge cl) (charge (fst (handle_reply c tr reply n cl)))"
  using flush_moves [of "free_slot cl"]
  by (auto simp: handle_reply_def Let_def split: option.splits prod.splits)

lemma fetch_moves: "moved_by_methods (charge cl) (charge (fst (fetch c n report cl)))"
  by (auto simp: fetch_def Let_def split: option.splits)

lemma dispatch_in_flight_moves:
  "moved_by_methods (charge cl) (charge (fst (dispatch_in_flight c tr t ce n r cl)))"
proof -
  have "moved_by_methods (charge cl) (charge (fst (publish_target c tr t n k f d
      (discard_pending_target why (release_superseded q cl)))))" for k f d why q
    using publish_target_moves [of "discard_pending_target why (release_superseded q cl)"] by simp
  then show ?thesis
    by (auto simp: dispatch_in_flight_def next_dispatch_correlation_id_def Let_def)
qed

lemma dispatch_free_moves:
  "moved_by_methods (charge cl) (charge (fst (dispatch_free c tr t ce n cl)))"
  using publish_target_moves [of "discard_pending_target ''superseded_by_fresh_target'' cl"]
    publish_target_moves [of "cl\<lparr>pending_target := None, pending_correlation_id := None\<rparr>"]
  by (simp add: dispatch_free_def Let_def)

lemma dispatch_moves:
  "moved_by_methods (charge cl) (charge (fst (dispatch_output_limit c tr value ce n cl)))"
  using dispatch_in_flight_moves [of "expire_active_command c n cl"] dispatch_free_moves [of "expire_active_command c n cl"]
  by (auto simp: dispatch_output_limit_def Let_def split: sum.splits option.splits)

lemma client_step_moves: "moved_by_methods (charge cl) (charge (client_step c cl e))"
  by (cases e) (auto simp: dispatch_moves handle_reply_moves fetch_moves write_properties_def Let_def
    split: sum.splits)

interpretation mqtt: charge_keeper "client_step c" charge
  using client_step_moves by unfold_locales (simp add: moved_by_methods_def)

text \<open>
  Over either transport, and whatever is sent, answered, lost, reported and released in
  between, the exit to AC input that was found after a start counts as attempted three times at
  most, so a firmware that keeps putting its protection charge back is not written to for good.
\<close>

lemma found_exits_bounded_over_either_transport:
  assumes "0 \<le> cc_confirmation_timeout_s c"
  shows "found_exit_attempts (hc_charge (http_run profile hes)) \<le> 3 \<and>
    found_exit_attempts (charge (client_run c ces)) \<le> 3"
  using http.found_exits_at_most_3 [of "new_http_client profile" EXIT_RESEND_SECONDS hes]
    mqtt.found_exits_at_most_3 [of "new_client c" "cc_confirmation_timeout_s c" c ces] assms
  by (simp add: http_run_def client_run_def new_http_client_def new_client_def EXIT_RESEND_SECONDS_def)

section \<open>A charge on record is only written as its exit\<close>

lemma power_set_output: "0 \<le> t \<Longrightarrow> power_set t =
    [(''smartMode'', 1), (''acMode'', 2), (''outputLimit'', t), (''inputLimit'', 0)]"
  by (simp add: power_set_def operation_for_target_def Let_def)

text \<open>A body that ends a charge: it takes the input limit to 0, and the device out of AC input unless told not to.\<close>

definition ends_charge :: "charge_exit option \<Rightarrow> int \<Rightarrow> properties \<Rightarrow> bool" where
  "ends_charge charge_exit t body \<longleftrightarrow> map_of body ''inputLimit'' = Some 0 \<and>
     (if charge_exit = Some CHARGE_EXIT_IN_INPUT then map_of body ''acMode'' = None
      else map_of body ''acMode'' = Some AC_MODE_OUTPUT \<and> map_of body ''outputLimit'' = Some t)"

text \<open>
  While its charge is on record, the client never writes a plain output target, which a device in
  AC input would ignore: every non-negative target is either held, which posts and changes nothing,
  or posted as a body that ends the charge. It is held exactly while an exit is out and its window
  open, or its exits are spent, unless it is the shutdown release or a safety reduction below the
  target the last exit carried.
\<close>

lemma charge_on_record_is_written_only_as_its_exit:
  assumes "cr_open (hc_charge hc)" and "0 \<le> t"
    and "http_dispatch_output_limit a n t ce hc = (hc', d)"
  shows "(if ce \<noteq> Some CHARGE_EXIT_FINAL \<and> \<not> exit_due (hc_charge hc) n \<and>
       \<not> reduces_exit (hc_charge hc) (of_int t) 300 0
     then hc' = hc \<and> map_option dr_status d = Some COALESCED_ACTIVE
     else \<exists>field body. posted hc' = posted hc @ [(field, body)] \<and> ends_charge ce t body)"
  using assms
  by (auto simp: http_dispatch_output_limit_def http_dispatch_exit_def zendure_write_def Let_def
      ends_charge_def power_set_output dispatch_coalesced_def DEFAULT_SAFETY_PREEMPT_MARGIN_W_def
      split: if_splits option.splits http_answer.splits)

definition demo_charging_client :: http_client where
  "demo_charging_client = (new_http_client None)\<lparr>hc_charge :=
     exit_sent (charge_sent (new_charge_record 30) 300) 60 (Some 0)\<rparr>"

end
