(* ===== verification/Runtime_Intents.thy ===== *)
theory Runtime_Intents
  imports Target_Control
begin

text \<open>
  \<open>ems/runtime_intents.py\<close>: the claims that compete for a device's AC mode in one cycle, and the
  arbiter that picks one.

  A claim is \<open>device_runtime_intent\<close>; each producer returns one or none. Proved: the arbiter
  returns the first candidate of the highest priority, so a deliberate claim always outranks an
  observed charge; a charge the system commands itself is never read back as the firmware's; and
  whichever claim wins while the regulator charges a device, no claim of lower rank writes the
  device's AC mode.
\<close>

definition PRIORITY_DEFAULT :: int where "PRIORITY_DEFAULT = 0"
definition PRIORITY_FIRMWARE_OBSERVED :: int where "PRIORITY_FIRMWARE_OBSERVED = 50"
definition PRIORITY_REGULATOR :: int where "PRIORITY_REGULATOR = 100"
definition PRIORITY_OPERATOR_PARK :: int where "PRIORITY_OPERATOR_PARK = 150"
definition PRIORITY_MAINTENANCE :: int where "PRIORITY_MAINTENANCE = 200"

lemmas priority_defs = PRIORITY_DEFAULT_def PRIORITY_FIRMWARE_OBSERVED_def PRIORITY_REGULATOR_def
  PRIORITY_OPERATOR_PARK_def PRIORITY_MAINTENANCE_def

datatype device_runtime_role = ROLE_AC_OUTPUT | ROLE_AC_INPUT

record device_runtime_intent =
  intent_device :: string
  intent_role :: device_runtime_role
  intent_reason :: string
  desired_ac_mode :: "int option"
  output_control_allowed :: bool
  priority :: int
  setpoint_w :: "int option"
  operator_role :: bool

definition ac_output_intent :: "string \<Rightarrow> string \<Rightarrow> int \<Rightarrow> device_runtime_intent" where
  "ac_output_intent device_name why prio =
     \<lparr>intent_device = device_name, intent_role = ROLE_AC_OUTPUT, intent_reason = why,
      desired_ac_mode = Some AC_MODE_OUTPUT, output_control_allowed = True, priority = prio,
      setpoint_w = None, operator_role = False\<rparr>"

definition ac_input_intent :: "string \<Rightarrow> string \<Rightarrow> int option \<Rightarrow> int \<Rightarrow> device_runtime_intent" where
  "ac_input_intent device_name why setpoint prio =
     \<lparr>intent_device = device_name, intent_role = ROLE_AC_INPUT, intent_reason = why,
      desired_ac_mode = Some AC_MODE_INPUT, output_control_allowed = False, priority = prio,
      setpoint_w = setpoint, operator_role = False\<rparr>"

text \<open>\<open>s or d\<close> for an optional string.\<close>

definition str_or :: "string option \<Rightarrow> string \<Rightarrow> string" where
  "str_or s d = (case s of None \<Rightarrow> d | Some t \<Rightarrow> if t = [] then d else t)"

definition runtime_intent_from_role ::
  "string \<Rightarrow> string option \<Rightarrow> string option \<Rightarrow> device_runtime_intent option" where
  "runtime_intent_from_role device_name role why =
     (let normalized = py_lower (py_strip (str_or role ''ac_output''))
      in if normalized \<in> set [''normal_output'', ''ac_output'']
         then Some (ac_output_intent device_name (str_or why ''ac_output'') PRIORITY_DEFAULT)
         else if normalized \<in> set [''ac_input_charge'', ''reserved'', ''ac_input'']
         then Some (ac_input_intent device_name (str_or why ''runtime_state'') None PRIORITY_OPERATOR_PARK)
         else None)"

definition is_floor_charge :: "device_state \<Rightarrow> bool" where
  "is_floor_charge s \<longleftrightarrow>
     (ac_status s = AC_STATUS_CHARGING \<or> 0 < input_limit_w s) \<and>
     ac_mode s = AC_MODE_INPUT \<and> derive_soc_runtime_state s = SOC_EMPTY"

definition firmware_charge_intent ::
  "string \<Rightarrow> device_state \<Rightarrow> bool \<Rightarrow> bool \<Rightarrow> device_runtime_intent option" where
  "firmware_charge_intent device_name s ems_commanded_charge watched =
     (if ems_commanded_charge then None
      else if \<not> watched
      then (if \<not> found_in_ac_input s then None
            else Some \<lparr>intent_device = device_name, intent_role = ROLE_AC_INPUT,
              intent_reason = ''unproven_charge'', desired_ac_mode = None,
              output_control_allowed = True, priority = PRIORITY_FIRMWARE_OBSERVED,
              setpoint_w = None, operator_role = False\<rparr>)
      else if \<not> is_floor_charge s then None
      else Some \<lparr>intent_device = device_name, intent_role = ROLE_AC_INPUT,
        intent_reason = ''firmware_owned_charge'', desired_ac_mode = None,
        output_control_allowed = False, priority = PRIORITY_FIRMWARE_OBSERVED,
        setpoint_w = None, operator_role = False\<rparr>)"

definition regulator_charge_intent :: "string \<Rightarrow> bool \<Rightarrow> device_runtime_intent option" where
  "regulator_charge_intent device_name ems_commanded_charge =
     (if \<not> ems_commanded_charge then None
      else Some \<lparr>intent_device = device_name, intent_role = ROLE_AC_INPUT,
        intent_reason = ''ac_charge_regulator'', desired_ac_mode = None,
        output_control_allowed = True, priority = PRIORITY_REGULATOR,
        setpoint_w = None, operator_role = False\<rparr>)"

fun resolve_from ::
  "device_runtime_intent option \<Rightarrow> device_runtime_intent option list \<Rightarrow> device_runtime_intent option" where
  "resolve_from winner [] = winner"
| "resolve_from winner (None # cs) = resolve_from winner cs"
| "resolve_from None (Some c # cs) = resolve_from (Some c) cs"
| "resolve_from (Some w) (Some c # cs) =
     resolve_from (if priority w < priority c then Some c else Some w) cs"

definition resolve_device_intent :: "device_runtime_intent option list \<Rightarrow> device_runtime_intent option" where
  "resolve_device_intent claims = resolve_from None claims"

section \<open>The arbiter\<close>

lemma resolve_from_Some:
  "resolve_from (Some w) cs = Some v \<Longrightarrow>
     v = w \<and> (\<forall>c. Some c \<in> set cs \<longrightarrow> priority c \<le> priority w) \<or>
     (\<exists>us vs. cs = us @ Some v # vs \<and> priority w < priority v \<and>
        (\<forall>c. Some c \<in> set us \<longrightarrow> priority c < priority v) \<and>
        (\<forall>c. Some c \<in> set vs \<longrightarrow> priority c \<le> priority v))"
proof (induction cs arbitrary: w)
  case Nil
  then show ?case by simp
next
  case (Cons d cs)
  show ?case
  proof (cases "\<exists>c. d = Some c \<and> priority w < priority c")
    case True
    then obtain c where d: "d = Some c" and lt: "priority w < priority c" by blast
    then have "resolve_from (Some c) cs = Some v" using Cons.prems by simp
    from Cons.IH [OF this] show ?thesis
    proof (elim disjE exE conjE)
      assume "v = c" and "\<forall>e. Some e \<in> set cs \<longrightarrow> priority e \<le> priority c"
      then show ?thesis using d lt by (intro disjI2 exI [of _ "[]"] exI [of _ cs]) simp
    next
      fix us vs
      assume "cs = us @ Some v # vs" and "priority c < priority v"
        and "\<forall>e. Some e \<in> set us \<longrightarrow> priority e < priority v"
        and "\<forall>e. Some e \<in> set vs \<longrightarrow> priority e \<le> priority v"
      then show ?thesis using d lt by (intro disjI2 exI [of _ "d # us"] exI [of _ vs]) auto
    qed
  next
    case False
    then have keep: "\<forall>c. d = Some c \<longrightarrow> priority c \<le> priority w" by auto
    then have "resolve_from (Some w) cs = Some v" using Cons.prems by (cases d) auto
    from Cons.IH [OF this] show ?thesis
    proof (elim disjE exE conjE)
      assume "v = w" and "\<forall>e. Some e \<in> set cs \<longrightarrow> priority e \<le> priority w"
      then show ?thesis using keep by auto
    next
      fix us vs
      assume "cs = us @ Some v # vs" and "priority w < priority v"
        and "\<forall>e. Some e \<in> set us \<longrightarrow> priority e < priority v"
        and "\<forall>e. Some e \<in> set vs \<longrightarrow> priority e \<le> priority v"
      moreover from this have "\<forall>e. Some e \<in> set (d # us) \<longrightarrow> priority e < priority v"
        using keep by (metis le_less_trans set_ConsD)
      ultimately show ?thesis by (intro disjI2 exI [of _ "d # us"] exI [of _ vs]) simp
    qed
  qed
qed

lemma resolve_from_keeps: "resolve_from (Some w) cs \<noteq> None"
proof (induction cs arbitrary: w)
  case (Cons d cs)
  then show ?case by (cases d) auto
qed simp

text \<open>A contract for arbiters: the winner is the first candidate of the highest priority.\<close>

locale priority_arbiter =
  fixes prio :: "'c \<Rightarrow> int" and resolve :: "'c option list \<Rightarrow> 'c option"
  assumes resolve_none: "resolve cs = None \<longleftrightarrow> (\<forall>c. Some c \<notin> set cs)"
    and resolve_first: "resolve cs = Some v \<Longrightarrow>
      \<exists>us vs. cs = us @ Some v # vs \<and> (\<forall>c. Some c \<in> set us \<longrightarrow> prio c < prio v) \<and>
        (\<forall>c. Some c \<in> set vs \<longrightarrow> prio c \<le> prio v)"
begin

lemma resolve_mem: "resolve cs = Some v \<Longrightarrow> Some v \<in> set cs"
  using resolve_first by fastforce

lemma resolve_max: "resolve cs = Some v \<Longrightarrow> Some c \<in> set cs \<Longrightarrow> prio c \<le> prio v"
  using resolve_first by fastforce

lemma resolve_total: "Some c \<in> set cs \<Longrightarrow> \<exists>v. resolve cs = Some v"
  using resolve_none [of cs] by (cases "resolve cs") auto

lemma resolve_unique_top:
  assumes "Some v \<in> set cs" and "\<And>c. Some c \<in> set cs \<Longrightarrow> c \<noteq> v \<Longrightarrow> prio c < prio v"
  shows "resolve cs = Some v"
proof -
  obtain w where w: "resolve cs = Some w" using resolve_total [OF assms(1)] by blast
  then have "w = v" using resolve_max [OF w assms(1)] assms(2) [OF resolve_mem [OF w]] by force
  with w show ?thesis by simp
qed

end

lemma resolve_from_None: "resolve_from None cs = None \<longleftrightarrow> (\<forall>c. Some c \<notin> set cs)"
proof (induction cs)
  case (Cons d cs)
  then show ?case using resolve_from_keeps [where cs = cs] by (cases d) (simp, metis list.set_intros(1) resolve_from.simps(3))
qed simp

interpretation arb: priority_arbiter priority resolve_device_intent
proof
  fix cs :: "device_runtime_intent option list" and v
  show "resolve_device_intent cs = None \<longleftrightarrow> (\<forall>c. Some c \<notin> set cs)"
    by (simp add: resolve_device_intent_def resolve_from_None)
  assume "resolve_device_intent cs = Some v"
  then show "\<exists>us vs. cs = us @ Some v # vs \<and> (\<forall>c. Some c \<in> set us \<longrightarrow> priority c < priority v) \<and>
      (\<forall>c. Some c \<in> set vs \<longrightarrow> priority c \<le> priority v)"
    unfolding resolve_device_intent_def
  proof (induction cs)
    case Nil
    then show ?case by simp
  next
    case (Cons d cs)
    show ?case
    proof (cases d)
      case None
      then obtain us vs where "cs = us @ Some v # vs" "\<forall>c. Some c \<in> set us \<longrightarrow> priority c < priority v"
        "\<forall>c. Some c \<in> set vs \<longrightarrow> priority c \<le> priority v" using Cons by auto
      then show ?thesis using None by (intro exI [of _ "d # us"] exI [of _ vs]) simp
    next
      case (Some c)
      then have "resolve_from (Some c) cs = Some v" using Cons.prems by simp
      from resolve_from_Some [OF this] show ?thesis
      proof (elim disjE exE conjE)
        assume "v = c" and "\<forall>e. Some e \<in> set cs \<longrightarrow> priority e \<le> priority c"
        then show ?thesis using Some by (intro exI [of _ "[]"] exI [of _ cs]) simp
      next
        fix us vs
        assume "cs = us @ Some v # vs" and "priority c < priority v"
          and "\<forall>e. Some e \<in> set us \<longrightarrow> priority e < priority v"
          and "\<forall>e. Some e \<in> set vs \<longrightarrow> priority e \<le> priority v"
        then show ?thesis using Some by (intro exI [of _ "d # us"] exI [of _ vs]) auto
      qed
    qed
  qed
qed

section \<open>The claims on one device\<close>

text \<open>
  What the full-charge assist reads: its stored record for the device, and the answers of the
  controller's predicates about the assist in this cycle.
\<close>

record assist_record =
  has_battery :: bool
  ac_mode_restore_pending :: bool
  restore_pending :: bool
  full_charge_assist_active :: bool

record assist_view =
  store_record :: "assist_record option"
  charges_returned_after_failed_cycles :: bool
  state_writes_allowed :: bool
  holds_direction :: bool
  held_by :: bool
  ac_charge_mode :: bool
  ac_charge_power :: int
  max_soc_known :: bool

definition full_charge_assist_intent ::
  "string \<Rightarrow> assist_view \<Rightarrow> device_runtime_intent option \<Rightarrow> device_runtime_intent option" where
  "full_charge_assist_intent device_name a below =
     (case store_record a of
        None \<Rightarrow> None
      | Some rec \<Rightarrow>
          if \<not> has_battery rec then None
          else
            let restore_ac_mode =
                  (if ac_mode_restore_pending rec \<and> \<not> charges_returned_after_failed_cycles a
                   then Some AC_MODE_OUTPUT else None)
            in if full_charge_assist_active rec
               then (if holds_direction a
                     then Some \<lparr>intent_device = device_name, intent_role = ROLE_AC_INPUT,
                       intent_reason = ''battery_full_charge_assist'', desired_ac_mode = None,
                       output_control_allowed =
                         (case below of None \<Rightarrow> True | Some b \<Rightarrow> output_control_allowed b),
                       priority = PRIORITY_MAINTENANCE, setpoint_w = None, operator_role = False\<rparr>
                     else if held_by a then None
                     else if ac_charge_mode a
                     then Some (ac_input_intent device_name ''battery_full_charge_assist''
                       (Some (ac_charge_power a)) PRIORITY_MAINTENANCE)
                     else Some \<lparr>intent_device = device_name, intent_role = ROLE_AC_OUTPUT,
                       intent_reason = ''battery_full_charge_assist'', desired_ac_mode = restore_ac_mode,
                       output_control_allowed = False, priority = PRIORITY_MAINTENANCE,
                       setpoint_w = None, operator_role = False\<rparr>)
               else if (ac_mode_restore_pending rec \<or> restore_pending rec \<and> max_soc_known a) \<and>
                 state_writes_allowed a
               then Some \<lparr>intent_device = device_name, intent_role = ROLE_AC_OUTPUT,
                 intent_reason = ''battery_full_charge_assist_restore'', desired_ac_mode = restore_ac_mode,
                 output_control_allowed = False, priority = PRIORITY_MAINTENANCE,
                 setpoint_w = None, operator_role = False\<rparr>
               else None)"

definition resolve_device_claims ::
  "string \<Rightarrow> assist_view \<Rightarrow> device_runtime_intent option \<Rightarrow> device_runtime_intent option \<Rightarrow>
   device_runtime_intent option \<Rightarrow> device_runtime_intent option" where
  "resolve_device_claims device_name a runtime regulator observed =
     (let below = resolve_device_intent [runtime, regulator, observed]
      in resolve_device_intent
           [runtime, full_charge_assist_intent device_name a below, regulator, observed])"

lemma assist_priority:
  "full_charge_assist_intent n a b = Some i \<Longrightarrow> priority i = PRIORITY_MAINTENANCE"
  by (auto simp: full_charge_assist_intent_def ac_input_intent_def Let_def split: option.splits if_splits)

lemma regulator_priority: "regulator_charge_intent n c = Some i \<Longrightarrow> priority i = PRIORITY_REGULATOR"
  by (auto simp: regulator_charge_intent_def split: if_splits)

lemma observed_priority:
  "firmware_charge_intent n s c w = Some i \<Longrightarrow> priority i = PRIORITY_FIRMWARE_OBSERVED"
  by (auto simp: firmware_charge_intent_def split: if_splits)

text \<open>
  One owner per device, by rank: the arbiter answers exactly when there is a claim, its
  answer is one of the claims, no claim has a higher priority, and every earlier claim has a
  lower one, so that equal ranks go to the earlier claim.
\<close>

lemma device_has_one_owner_by_rank:
  assumes "Some c \<in> set claims"
  shows "\<exists>v us vs. resolve_device_intent claims = Some v \<and> claims = us @ Some v # vs \<and>
    (\<forall>d. Some d \<in> set us \<longrightarrow> priority d < priority v) \<and>
    (\<forall>d. Some d \<in> set vs \<longrightarrow> priority d \<le> priority v)"
  using arb.resolve_total [OF assms] arb.resolve_first [of claims] by blast

text \<open>
  A charge of the system's own is not fought by its own claims: while the system charges a
  device, and neither the operator nor the assist claims it at a higher rank, the winning claim
  leaves the AC mode to the power command and keeps output control allowed; the same charge is
  never claimed as the firmware's.
\<close>

lemma own_charge_keeps_the_device:
  assumes "priority runtime < PRIORITY_REGULATOR"
    and "full_charge_assist_intent n a (resolve_device_intent [Some runtime, regulator_charge_intent n True,
      firmware_charge_intent n s True watched]) = None"
  shows "resolve_device_claims n a (Some runtime) (regulator_charge_intent n True)
      (firmware_charge_intent n s True watched) = regulator_charge_intent n True \<and>
    map_option desired_ac_mode (regulator_charge_intent n True) = Some None \<and>
    map_option output_control_allowed (regulator_charge_intent n True) = Some True"
  using assms
  by (simp add: resolve_device_claims_def Let_def resolve_device_intent_def regulator_charge_intent_def
      firmware_charge_intent_def)

text \<open>
  Ranks of the ladder: a running assist decides whatever the operator, the regulator and the
  firmware claim; without an assist an operator's park takes a device away from a running charge;
  and a charge the firmware runs at the battery's floor keeps the default output claim from
  switching the device back.
\<close>

lemma claim_ladder:
  assumes "is_floor_charge s"
  shows "(let park = ac_input_intent n why None PRIORITY_OPERATOR_PARK;
         regulator = regulator_charge_intent n c; observed = firmware_charge_intent n s c w
       in resolve_device_claims n a (Some park) regulator observed =
         (case full_charge_assist_intent n a (resolve_device_intent [Some park, regulator, observed]) of
            None \<Rightarrow> Some park | Some assist \<Rightarrow> Some assist)) \<and>
    (store_record b = None \<longrightarrow> map_option desired_ac_mode
       (resolve_device_claims n b (Some (ac_output_intent n why PRIORITY_DEFAULT))
          (regulator_charge_intent n False) (firmware_charge_intent n s False True)) = Some None)"
proof -
  let ?park = "ac_input_intent n why None PRIORITY_OPERATOR_PARK"
  let ?reg = "regulator_charge_intent n c" and ?obs = "firmware_charge_intent n s c w"
  let ?assist = "full_charge_assist_intent n a (resolve_device_intent [Some ?park, ?reg, ?obs])"
  have "resolve_device_intent [Some ?park, ?assist, ?reg, ?obs] =
      (case ?assist of None \<Rightarrow> Some ?park | Some assist \<Rightarrow> Some assist)"
    using regulator_priority [of n c] observed_priority [of n s c w]
      assist_priority [of n a "resolve_device_intent [Some ?park, ?reg, ?obs]"]
    by (cases ?assist) (auto simp: ac_input_intent_def priority_defs intro!: arb.resolve_unique_top)
  moreover have "map_option desired_ac_mode
       (resolve_device_claims n b (Some (ac_output_intent n why PRIORITY_DEFAULT))
          (regulator_charge_intent n False) (firmware_charge_intent n s False True)) = Some None"
    if "store_record b = None"
    using assms that
    by (simp add: resolve_device_claims_def Let_def resolve_device_intent_def regulator_charge_intent_def
        firmware_charge_intent_def full_charge_assist_intent_def ac_output_intent_def priority_defs)
  ultimately show ?thesis unfolding resolve_device_claims_def Let_def by blast
qed

end
