(* ===== verification/Charge_Supervision.thy ===== *)
theory Charge_Supervision
  imports Http_Client Runtime_Intents Output_Regulation "HOL-Library.Sublist"
begin

text \<open>
  The part of \<open>ems/controller.py\<close> that answers for a charge: who put a device into AC input, who may
  end it, and that a stop, a switch-off and failing cycles end every charge this program started.

  A device is its name with its transport's client: the local API's of \<open>Http_Client\<close> or the MQTT
  client of \<open>Device_Client\<close>. \<open>supervision\<close> holds the controller's attributes of this part,
  \<open>cycle_guard\<close> those of \<open>run_guarded\<close>. A method returns the device and the state it leaves; a loop over the
  devices is \<open>each_device\<close>. What a method meets outside is one record, \<open>sights\<close>: its reading of the
  clock, per device what a write meets (\<open>write_env\<close>: the gate, the transport's own reading of the
  clock, what the device or broker answers), the operator's device switch, the state write gate and
  the assist's stored record. The clock is read once per call of a method. \<open>sv_events\<close> collects what the code logs of a
  charge; the other log fields are left out.

  Proved: a stop sends the final exit to every device that holds a charge of the program's and
  touches no other; the exits to the assist's charge are bounded; and failing cycles hold the
  assist's AC input until enough cycles in a row went through, within the hourly limit.
\<close>

section \<open>Devices over either transport\<close>

datatype transport_client = Local_api http_client | Mqtt_control client_config client

record managed_device =
  md_name :: string
  md_transport :: transport_client

fun supports_state_reconciliation :: "transport_client \<Rightarrow> bool" where
  "supports_state_reconciliation (Local_api _) = True"
| "supports_state_reconciliation (Mqtt_control _ _) = False"

fun transport_charge :: "transport_client \<Rightarrow> charge_record" where
  "transport_charge (Local_api hc) = hc_charge hc"
| "transport_charge (Mqtt_control _ cl) = charge cl"

fun command_in_flight :: "transport_client \<Rightarrow> bool" where
  "command_in_flight (Local_api _) = False"
| "command_in_flight (Mqtt_control _ cl) =
     (case active_command cl of None \<Rightarrow> False | Some r \<Rightarrow> is_active r)"

definition charge_commanded :: "managed_device \<Rightarrow> bool" where
  "charge_commanded d = cr_open (transport_charge (md_transport d))"

definition charge_exit_due :: "managed_device \<Rightarrow> seconds \<Rightarrow> bool" where
  "charge_exit_due d n = exit_due (transport_charge (md_transport d)) n"

definition charge_exit_exhausted :: "managed_device \<Rightarrow> seconds \<Rightarrow> bool" where
  "charge_exit_exhausted d n \<longleftrightarrow>
     \<not> command_in_flight (md_transport d) \<and> exit_exhausted (transport_charge (md_transport d)) n"

definition device_found_exit_due :: "managed_device \<Rightarrow> seconds \<Rightarrow> bool" where
  "device_found_exit_due d n \<longleftrightarrow>
     \<not> command_in_flight (md_transport d) \<and> found_exit_due (transport_charge (md_transport d)) n"

definition device_found_exit_exhausted :: "managed_device \<Rightarrow> seconds \<Rightarrow> bool" where
  "device_found_exit_exhausted d n \<longleftrightarrow>
     \<not> command_in_flight (md_transport d) \<and> found_exit_exhausted (transport_charge (md_transport d)) n"

fun release_transport :: "transport_client \<Rightarrow> transport_client" where
  "release_transport (Local_api hc) = Local_api (http_release_charge_record hc)"
| "release_transport (Mqtt_control c cl) = Mqtt_control c (cl\<lparr>charge := release (charge cl)\<rparr>)"

definition release_device :: "managed_device \<Rightarrow> managed_device" where
  "release_device d = d\<lparr>md_transport := release_transport (md_transport d)\<rparr>"

text \<open>What one write meets.\<close>

record write_env =
  we_allowed :: bool
  we_now :: seconds
  we_http :: http_answer
  we_mqtt :: transport

definition dispatch_withheld :: "int \<Rightarrow> write_dispatch_result" where
  "dispatch_withheld t = \<lparr>dr_status = WITHHELD, dr_target_w = Some t, dr_message_id = None,
     dr_command_state = None, dr_reason = Some ''write_gate_closed'', dr_correlation_id = None\<rparr>"

fun dispatch_device_write ::
  "write_env \<Rightarrow> int \<Rightarrow> charge_exit option \<Rightarrow> transport_client \<Rightarrow> transport_client \<times> write_dispatch_result option" where
  "dispatch_device_write e t ce (Local_api hc) =
     map_prod Local_api id (http_dispatch_output_limit (we_http e) (we_now e) t ce hc)"
| "dispatch_device_write e t ce (Mqtt_control c cl) =
     map_prod (Mqtt_control c) Some (dispatch_output_limit c (we_mqtt e) (PyInt t) ce (we_now e) cl)"

text \<open>
  \<open>set_output_limit\<close>, which \<open>write_target\<close> calls: \<open>None\<close> is the \<open>False\<close> of a write that raised and
  was logged.
\<close>

definition set_output_limit ::
  "write_env \<Rightarrow> int \<Rightarrow> charge_exit option \<Rightarrow> managed_device \<Rightarrow> managed_device \<times> write_dispatch_result option" where
  "set_output_limit e t ce d =
     (if \<not> we_allowed e then (d, Some (dispatch_withheld t))
      else let (tc, res) = dispatch_device_write e t ce (md_transport d) in (d\<lparr>md_transport := tc\<rparr>, res))"

definition write_accepted :: "write_dispatch_result option \<Rightarrow> bool" where
  "write_accepted w \<longleftrightarrow> (case w of None \<Rightarrow> False | Some r \<Rightarrow> dispatch_accepted r)"

definition write_withheld :: "write_dispatch_result option \<Rightarrow> bool" where
  "write_withheld w \<longleftrightarrow> (case w of None \<Rightarrow> False | Some r \<Rightarrow> dr_status r = WITHHELD)"

section \<open>State\<close>

record assist_charge =
  fca_record :: charge_record
  fca_exits :: int

datatype held_charge = Charge_on_record | Regulator_target | Assist_charge | Unproven_charge

datatype supervision_ended = Control_disabled | Device_disabled | Claimed_by string

datatype supervision_event =
    Charge_released string held_charge "int option"
  | Charge_release_withheld string held_charge "int option"
  | Charge_release_failed string held_charge "int option"
  | Charge_ended_on_disable string held_charge "supervision_ended option"
  | Charge_end_withheld string
  | Charge_end_failed string bool
  | Charge_handed_to_claim string string
  | Start_exit_unconfirmed string bool
  | Charge_left_to_device string held_charge

record supervision =
  sv_control_enabled :: "bool option"
  sv_last_states :: "string \<rightharpoonup> device_state"
  sv_online :: "string \<rightharpoonup> bool"
  sv_intents :: "string \<rightharpoonup> device_runtime_intent"
  sv_watched :: "string set"
  sv_assist_charges :: "string \<rightharpoonup> assist_charge"
  sv_regulator :: regulator_state
  sv_events :: "supervision_event list"

record cycle_guard =
  cycle_failures :: int
  cycles_through_since_release :: "int option"
  assist_reentries :: "seconds list"
  assist_reentry_rate_limited :: bool

record stored_assist = assist_record +
  max_soc_request_pending :: bool

record sights =
  sg_now :: seconds
  sg_write :: "string \<Rightarrow> write_env"
  sg_device_enabled :: "string \<Rightarrow> bool"
  sg_state_writes :: "string \<Rightarrow> bool"
  sg_assist :: "string \<Rightarrow> stored_assist option"
  sg_assist_ac_mode :: bool
  sg_assist_power :: int
  sg_settings :: charge_direction_settings

definition CYCLE_FAILURES_BEFORE_CHARGE_RELEASE :: int where
  "CYCLE_FAILURES_BEFORE_CHARGE_RELEASE = 3"

definition new_cycle_guard :: cycle_guard where
  "new_cycle_guard = \<lparr>cycle_failures = 0, cycles_through_since_release = None, assist_reentries = [],
     assist_reentry_rate_limited = False\<rparr>"

definition initial_regulator :: regulator_state where
  "initial_regulator = \<lparr>load_history = [], filtered_load = None, commanded_total = None, desired_total = None,
     commanded_device_targets = Map.empty, charge_direction = initial_direction_state, charge_capacity_w = 0,
     device_charge_limits = Map.empty, grid_meter_holding = False, charges_being_left = []\<rparr>"

definition new_supervision :: supervision where
  "new_supervision = \<lparr>sv_control_enabled = None, sv_last_states = Map.empty, sv_online = Map.empty,
     sv_intents = Map.empty, sv_watched = {}, sv_assist_charges = Map.empty,
     sv_regulator = initial_regulator, sv_events = []\<rparr>"

abbreviation sv_targets :: "supervision \<Rightarrow> string \<rightharpoonup> watts" where
  "sv_targets sv \<equiv> commanded_device_targets (sv_regulator sv)"

abbreviation sv_direction :: "supervision \<Rightarrow> charge_direction_state" where
  "sv_direction sv \<equiv> charge_direction (sv_regulator sv)"

definition command_target :: "string \<Rightarrow> watts \<Rightarrow> supervision \<Rightarrow> supervision" where
  "command_target name t sv =
     sv\<lparr>sv_regulator := (sv_regulator sv)\<lparr>commanded_device_targets := (sv_targets sv)(name \<mapsto> t)\<rparr>\<rparr>"

definition note_event :: "supervision_event \<Rightarrow> supervision \<Rightarrow> supervision" where
  "note_event e sv = sv\<lparr>sv_events := sv_events sv @ [e]\<rparr>"

definition watch :: "string \<Rightarrow> supervision \<Rightarrow> supervision" where
  "watch name sv = sv\<lparr>sv_watched := insert name (sv_watched sv)\<rparr>"

definition put_assist_charge :: "string \<Rightarrow> assist_charge \<Rightarrow> supervision \<Rightarrow> supervision" where
  "put_assist_charge name ch sv = sv\<lparr>sv_assist_charges := (sv_assist_charges sv)(name \<mapsto> ch)\<rparr>"

definition is_online :: "supervision \<Rightarrow> string \<Rightarrow> bool" where
  "is_online sv name = (case sv_online sv name of None \<Rightarrow> True | Some b \<Rightarrow> b)"

definition intent_is :: "string \<Rightarrow> device_runtime_intent option \<Rightarrow> bool" where
  "intent_is why i \<longleftrightarrow> (case i of None \<Rightarrow> False | Some c \<Rightarrow> intent_reason c = why)"

text \<open>A loop over the devices, each with what the loop reads of it, whose body may change the device and the controller.\<close>

fun each_device ::
  "('d \<Rightarrow> 's \<Rightarrow> managed_device \<times> 's) \<Rightarrow> 'd list \<Rightarrow> 's \<Rightarrow> managed_device list \<times> 's" where
  "each_device f [] sv = ([], sv)"
| "each_device f (d # ds) sv =
     (let (d1, sv1) = f d sv; (ds1, sv2) = each_device f ds sv1 in (d1 # ds1, sv2))"

section \<open>Cycles that fail\<close>

definition charges_returned_after_failed :: "cycle_guard \<Rightarrow> bool" where
  "charges_returned_after_failed g \<longleftrightarrow> CYCLE_FAILURES_BEFORE_CHARGE_RELEASE \<le> cycle_failures g"

definition assist_ac_input_withheld :: "cycle_guard \<Rightarrow> bool" where
  "assist_ac_input_withheld g \<longleftrightarrow>
     charges_returned_after_failed g \<or> cycles_through_since_release g \<noteq> None"

definition full_charge_assist_takes_ac_input :: "sights \<Rightarrow> managed_device list \<Rightarrow> bool" where
  "full_charge_assist_takes_ac_input sg ds \<longleftrightarrow> sg_assist_ac_mode sg \<and>
     (\<exists>d \<in> set ds. case sg_assist sg (md_name d) of None \<Rightarrow> False | Some r \<Rightarrow> full_charge_assist_active r)"

definition end_assist_ac_input_withhold :: "sights \<Rightarrow> managed_device list \<Rightarrow> cycle_guard \<Rightarrow> cycle_guard" where
  "end_assist_ac_input_withhold sg ds g =
     (let over = (\<lambda>h. h\<lparr>assist_reentry_rate_limited := False, cycles_through_since_release := None\<rparr>)
      in if full_charge_assist_takes_ac_input sg ds
         then let (es, allowed) = charge_entries_within_limit (assist_reentries g) (sg_now sg) (sg_settings sg)
              in if \<not> allowed
                 then g\<lparr>assist_reentries := es, assist_reentry_rate_limited := True\<rparr>
                 else over (g\<lparr>assist_reentries := es @ [sg_now sg]\<rparr>)
         else over g)"

text \<open>The guard's side of one cycle: \<open>through\<close> is whether \<open>run_once\<close> returned.\<close>

definition guard_cycle :: "sights \<Rightarrow> managed_device list \<Rightarrow> bool \<Rightarrow> cycle_guard \<Rightarrow> cycle_guard" where
  "guard_cycle sg ds through g =
     (if \<not> through
      then let g1 = g\<lparr>cycle_failures := cycle_failures g + 1\<rparr>
           in if charges_returned_after_failed g1 \<or> cycles_through_since_release g1 \<noteq> None
              then g1\<lparr>cycles_through_since_release := Some 0\<rparr> else g1
      else let g1 = g\<lparr>cycle_failures := 0\<rparr>
           in case cycles_through_since_release g1 of
                None \<Rightarrow> g1
              | Some n \<Rightarrow>
                  let g2 = g1\<lparr>cycles_through_since_release := Some (n + 1)\<rparr>
                  in if CYCLE_FAILURES_BEFORE_CHARGE_RELEASE \<le> n + 1
                     then end_assist_ac_input_withhold sg ds g2 else g2)"

section \<open>The switches and the records of a charge\<close>

definition control_switched_off :: "sights \<Rightarrow> supervision \<Rightarrow> string \<Rightarrow> bool" where
  "control_switched_off sg sv name \<longleftrightarrow> sv_control_enabled sv = Some False \<or> \<not> sg_device_enabled sg name"

definition device_state_writes_allowed :: "sights \<Rightarrow> supervision \<Rightarrow> string \<Rightarrow> bool" where
  "device_state_writes_allowed sg sv name \<longleftrightarrow> \<not> control_switched_off sg sv name \<and> sg_state_writes sg name"

definition charge_commanded_by_ems :: "sights \<Rightarrow> supervision \<Rightarrow> managed_device \<Rightarrow> bool" where
  "charge_commanded_by_ems sg sv d \<longleftrightarrow>
     ((case sv_targets sv (md_name d) of None \<Rightarrow> False | Some t \<Rightarrow> t < 0) \<and>
       \<not> control_switched_off sg sv (md_name d)) \<or> charge_commanded d"

definition full_charge_assist_charge_held :: "supervision \<Rightarrow> string \<Rightarrow> bool" where
  "full_charge_assist_charge_held sv name \<longleftrightarrow>
     (case sv_assist_charges sv name of
        None \<Rightarrow> False | Some ch \<Rightarrow> cr_open (fca_record ch) \<and> fca_exits ch < FOUND_EXIT_ATTEMPTS)"

definition full_charge_assist_charge_open :: "supervision \<Rightarrow> string \<Rightarrow> device_state \<Rightarrow> bool" where
  "full_charge_assist_charge_open sv name s \<longleftrightarrow>
     (case sv_assist_charges sv name of None \<Rightarrow> \<not> out_of_charge s | Some ch \<Rightarrow> cr_open (fca_record ch))"

definition ac_mode_known :: "device_state \<Rightarrow> bool" where
  "ac_mode_known s \<longleftrightarrow> ac_mode_reported s \<and> ac_mode s \<in> set [AC_MODE_INPUT, AC_MODE_OUTPUT]"

section \<open>What the full-charge assist may do\<close>

definition full_charge_assist_ac_charge_mode :: "sights \<Rightarrow> cycle_guard \<Rightarrow> bool" where
  "full_charge_assist_ac_charge_mode sg g \<longleftrightarrow> sg_assist_ac_mode sg \<and> \<not> assist_ac_input_withheld g"

definition full_charge_assist_field_unreported ::
  "sights \<Rightarrow> cycle_guard \<Rightarrow> supervision \<Rightarrow> string \<Rightarrow> device_state \<Rightarrow> stored_assist option \<Rightarrow> bool" where
  "full_charge_assist_field_unreported sg g sv name s stored =
     (let running = (case stored of None \<Rightarrow> False | Some r \<Rightarrow> full_charge_assist_active r)
      in if running \<and> ac_mode_restore_pending (the stored) \<and> (ac_mode_known s \<or> in_ac_input_direction s) \<and>
            full_charge_assist_charge_open sv name s
         then False
         else if (\<not> running \<or> max_soc_request_pending (the stored)) \<and> \<not> max_soc_reported s
         then True
         else full_charge_assist_ac_charge_mode sg g \<and> \<not> (ac_mode_known s \<and> input_limit_reported s))"

datatype assist_hold =
  Transport_state_reconciliation_unsupported | State_writes_not_allowed | Fields_not_reported

definition full_charge_assist_held_by ::
  "sights \<Rightarrow> cycle_guard \<Rightarrow> supervision \<Rightarrow> managed_device \<Rightarrow> assist_hold option" where
  "full_charge_assist_held_by sg g sv d =
     (if \<not> supports_state_reconciliation (md_transport d) then Some Transport_state_reconciliation_unsupported
      else if \<not> device_state_writes_allowed sg sv (md_name d) then Some State_writes_not_allowed
      else case sv_last_states sv (md_name d) of
             None \<Rightarrow> None
           | Some s \<Rightarrow>
               if full_charge_assist_field_unreported sg g sv (md_name d) s (sg_assist sg (md_name d))
               then Some Fields_not_reported else None)"

definition full_charge_assist_stands_down :: "sights \<Rightarrow> cycle_guard \<Rightarrow> supervision \<Rightarrow> managed_device \<Rightarrow> bool" where
  "full_charge_assist_stands_down sg g sv d \<longleftrightarrow>
     (case sg_assist sg (md_name d) of None \<Rightarrow> False | Some r \<Rightarrow> full_charge_assist_active r) \<and>
     full_charge_assist_held_by sg g sv d = Some Fields_not_reported"

definition full_charge_assist_holds_direction :: "sights \<Rightarrow> cycle_guard \<Rightarrow> supervision \<Rightarrow> managed_device \<Rightarrow> bool" where
  "full_charge_assist_holds_direction sg g sv d \<longleftrightarrow>
     (case sv_assist_charges sv (md_name d) of None \<Rightarrow> False | Some ch \<Rightarrow> cr_open (fca_record ch)) \<and>
     full_charge_assist_stands_down sg g sv d"

text \<open>The view the assist's claim is resolved from (\<open>Runtime_Intents\<close>).\<close>

definition assist_view_of :: "sights \<Rightarrow> cycle_guard \<Rightarrow> supervision \<Rightarrow> managed_device \<Rightarrow> assist_view" where
  "assist_view_of sg g sv d =
     \<lparr>store_record = map_option assist_record.truncate (sg_assist sg (md_name d)),
      charges_returned_after_failed_cycles = charges_returned_after_failed g,
      state_writes_allowed = device_state_writes_allowed sg sv (md_name d),
      holds_direction = full_charge_assist_holds_direction sg g sv d,
      held_by = (full_charge_assist_held_by sg g sv d \<noteq> None),
      ac_charge_mode = full_charge_assist_ac_charge_mode sg g,
      ac_charge_power = sg_assist_power sg,
      max_soc_known = (case sv_last_states sv (md_name d) of None \<Rightarrow> True | Some s \<Rightarrow> max_soc_reported s)\<rparr>"

definition full_charge_assist_held ::
  "sights \<Rightarrow> cycle_guard \<Rightarrow> supervision \<Rightarrow> managed_device \<Rightarrow> (int \<times> bool) option" where
  "full_charge_assist_held sg g sv d =
     (if \<not> device_state_writes_allowed sg sv (md_name d) then None
      else case sg_assist sg (md_name d) of
             None \<Rightarrow> None
           | Some stored \<Rightarrow>
               if \<not> ac_mode_restore_pending stored then None
               else case full_charge_assist_intent (md_name d) (assist_view_of sg g sv d) None of
                      None \<Rightarrow> None
                    | Some i \<Rightarrow>
                        if desired_ac_mode i = Some AC_MODE_OUTPUT then Some (sg_assist_power sg, True)
                        else if intent_reason i = ''battery_full_charge_assist'' \<and> setpoint_w i \<noteq> None
                        then Some (the (setpoint_w i), False)
                        else None)"

section \<open>The assist's charge and its exits\<close>

definition observe_full_charge_assist_charge :: "assist_charge \<Rightarrow> device_state \<Rightarrow> assist_charge" where
  "observe_full_charge_assist_charge ch s =
     ch\<lparr>fca_record := observe (fca_record ch) s (input_limit_w s \<noteq> 0)\<rparr>"

definition note_full_charge_assist_exit ::
  "sights \<Rightarrow> string \<Rightarrow> write_dispatch_result option \<Rightarrow> supervision \<Rightarrow> supervision \<times> bool" where
  "note_full_charge_assist_exit sg name written sv =
     (case (written, sv_assist_charges sv name) of
        (Some _, Some ch) \<Rightarrow>
          (put_assist_charge name
             (ch\<lparr>fca_record := exit_sent (fca_record ch) (sg_now sg) None, fca_exits := fca_exits ch + 1\<rparr>) sv, True)
      | _ \<Rightarrow> (sv, False))"

text \<open>\<open>leave_charge_shown_by_draw_alone\<close>, for a device's transport and for the assist's charge.\<close>

definition leave_transport_charge :: "sights \<Rightarrow> managed_device \<Rightarrow> supervision \<Rightarrow> managed_device \<times> supervision" where
  "leave_transport_charge sg d sv =
     (if charge_exit_exhausted d (sg_now sg)
      then (release_device d, note_event (Charge_left_to_device (md_name d) Charge_on_record) sv) else (d, sv))"

definition leave_assist_charge :: "sights \<Rightarrow> string \<Rightarrow> assist_charge \<Rightarrow> supervision \<Rightarrow> supervision" where
  "leave_assist_charge sg name ch sv =
     (if exit_exhausted (fca_record ch) (sg_now sg)
      then note_event (Charge_left_to_device name Assist_charge)
             (put_assist_charge name (ch\<lparr>fca_record := release (fca_record ch)\<rparr>) sv)
      else put_assist_charge name ch sv)"

definition full_charge_assist_exit_owed :: "sights \<Rightarrow> assist_charge \<Rightarrow> bool" where
  "full_charge_assist_exit_owed sg ch \<longleftrightarrow>
     fca_exits ch < FOUND_EXIT_ATTEMPTS \<and> exit_due (fca_record ch) (sg_now sg)"

text \<open>The cycle's hold with control on: the charge goes on record, or the restore counts as its exit.\<close>

definition assist_charge_held ::
  "sights \<Rightarrow> string \<Rightarrow> device_state option \<Rightarrow> int \<Rightarrow> bool \<Rightarrow> supervision \<Rightarrow> supervision \<times> bool" where
  "assist_charge_held sg name state setpoint restoring sv =
     (let created = (sv_assist_charges sv name = None);
          ch0 = (case sv_assist_charges sv name of
                   Some ch \<Rightarrow> ch
                 | None \<Rightarrow> \<lparr>fca_record = charge_sent (new_charge_record EXIT_RESEND_SECONDS) setpoint, fca_exits = 0\<rparr>)
      in case state of
           None \<Rightarrow> (put_assist_charge name ch0 sv, False)
         | Some s \<Rightarrow>
             let ch1 = (if created then observe_full_charge_assist_charge ch0 s else ch0)
             in if \<not> ac_mode_known s
                then (put_assist_charge name ch1 sv, restoring \<and> full_charge_assist_exit_owed sg ch1)
                else (put_assist_charge name
                        (ch1\<lparr>fca_record := (if restoring then exit_sent (fca_record ch1) (sg_now sg) None
                                             else charge_sent (fca_record ch1) setpoint),
                             fca_exits := 0\<rparr>) sv, False))"

definition full_charge_assist_exit_due ::
  "sights \<Rightarrow> cycle_guard \<Rightarrow> managed_device \<Rightarrow> supervision \<Rightarrow> supervision \<times> bool" where
  "full_charge_assist_exit_due sg g d sv =
     (let name = md_name d in
      if \<not> supports_state_reconciliation (md_transport d) then (sv, False)
      else
        let state = (if is_online sv name then sv_last_states sv name else None);
            sv1 = (case (sv_assist_charges sv name, state) of
                     (Some ch, Some s) \<Rightarrow> leave_assist_charge sg name (observe_full_charge_assist_charge ch s) sv
                   | _ \<Rightarrow> sv);
            charge = sv_assist_charges sv1 name
        in if \<not> control_switched_off sg sv1 name
           then if charge \<noteq> None \<and> charges_returned_after_failed g then (sv1, False)
                else (case full_charge_assist_held sg g sv1 d of
                        None \<Rightarrow>
                          ((case charge of
                              None \<Rightarrow> sv1
                            | Some ch \<Rightarrow>
                                if full_charge_assist_stands_down sg g sv1 d then sv1
                                else put_assist_charge name (ch\<lparr>fca_record := release (fca_record ch)\<rparr>) sv1), False)
                      | Some (setpoint, restoring) \<Rightarrow> assist_charge_held sg name state setpoint restoring sv1)
           else (sv1, (case (charge, state) of
                         (Some ch, Some _) \<Rightarrow> full_charge_assist_exit_owed sg ch | _ \<Rightarrow> False)))"

text \<open>
  \<open>confirm_full_charge_assist_ac_restore\<close> for a report \<open>s\<close>: the controller it leaves, and whether the
  stored restore is settled and under which event.
\<close>

datatype restore_outcome = Ac_mode_restored | Ac_mode_restore_settled

definition confirm_full_charge_assist_ac_restore ::
  "sights \<Rightarrow> managed_device \<Rightarrow> device_state \<Rightarrow> device_runtime_intent \<Rightarrow> supervision \<Rightarrow>
   supervision \<times> restore_outcome option" where
  "confirm_full_charge_assist_ac_restore sg d s i sv =
     (let name = md_name d in
      if desired_ac_mode i \<noteq> Some AC_MODE_OUTPUT \<or>
         intent_reason i \<notin> set [''battery_full_charge_assist'', ''battery_full_charge_assist_restore'']
      then (sv, None)
      else case sg_assist sg name of
             None \<Rightarrow> (sv, None)
           | Some stored \<Rightarrow>
               if \<not> ac_mode_restore_pending stored then (sv, None)
               else if \<not> supports_state_reconciliation (md_transport d) then (sv, Some Ac_mode_restore_settled)
               else if ac_mode_known s
               then (sv, if ac_mode s \<noteq> AC_MODE_OUTPUT then None else Some Ac_mode_restored)
               else case sv_assist_charges sv name of
                      None \<Rightarrow> (sv, None)
                    | Some ch \<Rightarrow>
                        let ch1 = observe_full_charge_assist_charge ch s;
                            left = cr_open (fca_record ch1)
                        in if left \<and> (fca_exits ch1 < FOUND_EXIT_ATTEMPTS \<or>
                              \<not> exit_window_passed (fca_record ch1) (sg_now sg))
                           then (put_assist_charge name ch1 sv, None)
                           else (put_assist_charge name
                                   (if left then ch1\<lparr>fca_record := release (fca_record ch1)\<rparr> else ch1) sv,
                                 Some Ac_mode_restore_settled))"

section \<open>AC input nobody can attribute\<close>

definition ac_input_attributable :: "supervision \<Rightarrow> bool \<Rightarrow> managed_device \<Rightarrow> bool" where
  "ac_input_attributable sv charge_permitted_here d \<longleftrightarrow>
     md_name d \<in> sv_watched sv \<or> sv_assist_charges sv (md_name d) \<noteq> None \<or> \<not> charge_permitted_here"

definition note_ac_input_provenance ::
  "string \<Rightarrow> device_runtime_intent option \<Rightarrow> device_runtime_intent option \<Rightarrow> supervision \<Rightarrow> supervision" where
  "note_ac_input_provenance name uncommanded intent sv =
     (let held_by_claim = (case intent of
             None \<Rightarrow> False
           | Some i \<Rightarrow> intent \<noteq> uncommanded \<and> intent_role i = ROLE_AC_INPUT)
      in if \<not> intent_is ''unproven_charge'' uncommanded \<or> held_by_claim then watch name sv else sv)"

definition unproven_charge_exit :: "supervision \<Rightarrow> string \<Rightarrow> charge_exit option" where
  "unproven_charge_exit sv name =
     (if intent_is ''unproven_charge'' (sv_intents sv name) then Some CHARGE_EXIT_TO_OUTPUT else None)"

definition write_can_end_a_charge :: "sights \<Rightarrow> supervision \<Rightarrow> managed_device \<Rightarrow> bool" where
  "write_can_end_a_charge sg sv d \<longleftrightarrow>
     \<not> supports_state_reconciliation (md_transport d) \<or> charge_commanded_by_ems sg sv d \<or>
     unproven_charge_exit sv (md_name d) \<noteq> None"

definition note_unproven_charge_exit ::
  "string \<Rightarrow> watts \<Rightarrow> write_dispatch_result option \<Rightarrow> supervision \<Rightarrow> supervision" where
  "note_unproven_charge_exit name target written sv =
     (if write_withheld written \<and> 0 \<le> target \<and> intent_is ''unproven_charge'' (sv_intents sv name)
      then watch name sv else sv)"

definition settle_found_ac_input_exit :: "sights \<Rightarrow> managed_device \<Rightarrow> device_state \<Rightarrow> supervision \<Rightarrow> supervision" where
  "settle_found_ac_input_exit sg d s sv =
     (if md_name d \<in> sv_watched sv then sv
      else if found_charge_left (transport_charge (md_transport d)) then watch (md_name d) sv
      else if \<not> device_found_exit_exhausted d (sg_now sg) \<or> \<not> found_in_ac_input s then sv
      else note_event (Start_exit_unconfirmed (md_name d) (is_floor_charge s)) (watch (md_name d) sv))"

text \<open>The claims of one cycle on a device, with a report and without one.\<close>

definition claim_reported_device ::
  "sights \<Rightarrow> cycle_guard \<Rightarrow> bool \<Rightarrow> device_runtime_intent \<Rightarrow> device_state \<Rightarrow> managed_device \<Rightarrow> supervision \<Rightarrow>
   managed_device \<times> supervision" where
  "claim_reported_device sg g charge_permitted_here runtime s d sv =
     (let (d1, sv1) = leave_transport_charge sg d sv;
          commanded = charge_commanded_by_ems sg sv1 d1;
          sv2 = settle_found_ac_input_exit sg d1 s sv1;
          uncommanded = firmware_charge_intent (md_name d) s commanded
            (ac_input_attributable sv2 charge_permitted_here d1);
          intent = resolve_device_claims (md_name d) (assist_view_of sg g sv2 d1) (Some runtime)
            (regulator_charge_intent (md_name d) commanded) uncommanded;
          sv3 = note_ac_input_provenance (md_name d) uncommanded intent sv2
      in (d1, sv3\<lparr>sv_intents := (sv_intents sv3)(md_name d := intent)\<rparr>))"

definition unanswered_device_intent ::
  "sights \<Rightarrow> cycle_guard \<Rightarrow> device_runtime_intent \<Rightarrow> device_runtime_intent option \<Rightarrow> managed_device \<Rightarrow> supervision \<Rightarrow>
   device_runtime_intent option" where
  "unanswered_device_intent sg g runtime previous d sv =
     (let observed = (if intent_is ''firmware_owned_charge'' previous \<or> intent_is ''unproven_charge'' previous
                      then previous else None)
      in resolve_device_claims (md_name d) (assist_view_of sg g sv d) (Some runtime)
           (regulator_charge_intent (md_name d) (charge_commanded_by_ems sg sv d)) observed)"

section \<open>Ending a charge when its supervision ends\<close>

definition charge_exit_pending :: "sights \<Rightarrow> managed_device \<Rightarrow> bool" where
  "charge_exit_pending sg d \<longleftrightarrow>
     \<not> (if charge_commanded d then charge_exit_due d (sg_now sg) else device_found_exit_due d (sg_now sg))"

definition charge_supervision_ended_by :: "sights \<Rightarrow> bool \<Rightarrow> supervision \<Rightarrow> string \<Rightarrow> supervision_ended option" where
  "charge_supervision_ended_by sg control_enabled sv name =
     (if \<not> control_enabled then Some Control_disabled
      else if \<not> sg_device_enabled sg name then Some Device_disabled
      else case sv_intents sv name of
             None \<Rightarrow> None
           | Some i \<Rightarrow> if output_control_allowed i then None else Some (Claimed_by (intent_reason i)))"

definition claim_writes_its_own_charge :: "sights \<Rightarrow> supervision \<Rightarrow> managed_device \<Rightarrow> device_runtime_intent \<Rightarrow> bool" where
  "claim_writes_its_own_charge sg sv d i \<longleftrightarrow>
     setpoint_w i \<noteq> None \<and> supports_state_reconciliation (md_transport d) \<and>
     device_state_writes_allowed sg sv (md_name d)"

definition claim_takes_the_charge ::
  "sights \<Rightarrow> supervision \<Rightarrow> managed_device \<Rightarrow> device_runtime_intent option \<Rightarrow> bool" where
  "claim_takes_the_charge sg sv d intent \<longleftrightarrow>
     (case intent of None \<Rightarrow> False
      | Some i \<Rightarrow> \<not> output_control_allowed i \<and> claim_writes_its_own_charge sg sv d i)"

definition claim_charge_exit :: "managed_device \<Rightarrow> device_runtime_intent option \<Rightarrow> charge_exit option" where
  "claim_charge_exit d intent =
     (case intent of None \<Rightarrow> None
      | Some i \<Rightarrow>
          if \<not> output_control_allowed i \<and> intent_role i = ROLE_AC_INPUT \<and>
             supports_state_reconciliation (md_transport d)
          then Some CHARGE_EXIT_IN_INPUT else None)"

definition end_full_charge_assist_charge ::
  "sights \<Rightarrow> bool \<Rightarrow> managed_device \<Rightarrow> supervision \<Rightarrow> managed_device \<times> supervision" where
  "end_full_charge_assist_charge sg control_enabled d sv =
     (let name = md_name d;
          (d1, written) = set_output_limit (sg_write sg name) 0 (Some CHARGE_EXIT_FINAL) d;
          (sv1, delivered) = note_full_charge_assist_exit sg name written sv;
          event = (if \<not> delivered then Charge_end_failed name False
                   else if write_withheld written then Charge_end_withheld name
                   else if \<not> write_accepted written then Charge_end_failed name True
                   else Charge_ended_on_disable name Assist_charge
                          (charge_supervision_ended_by sg control_enabled sv name))
      in (d1, note_event event sv1))"

definition end_charge_on_disable ::
  "sights \<Rightarrow> cycle_guard \<Rightarrow> bool \<Rightarrow> managed_device \<Rightarrow> supervision \<Rightarrow> managed_device \<times> supervision" where
  "end_charge_on_disable sg g control_enabled d sv0 =
     (let name = md_name d;
          (sv, assist_due) = full_charge_assist_exit_due sg g d sv0
      in if assist_due then end_full_charge_assist_charge sg control_enabled d sv
         else
           let on_record = charge_commanded d;
               found = unproven_charge_exit sv name;
               intent = sv_intents sv name
           in if \<not> on_record \<and> found = None then (d, sv)
              else if \<not> is_online sv name then (d, sv)
              else if claim_takes_the_charge sg sv d intent
              then (release_device d, note_event (Charge_handed_to_claim name (intent_reason (the intent))) sv)
              else
                let ended_by = charge_supervision_ended_by sg control_enabled sv name
                in if ended_by = None \<or> charge_exit_pending sg d then (d, sv)
                   else
                     let (d1, written) = set_output_limit (sg_write sg name) 0
                           (if found \<noteq> None then found else claim_charge_exit d intent) d
                     in (d1, note_unproven_charge_exit name 0 written
                           (note_event (Charge_ended_on_disable name
                              (if on_record then Charge_on_record else Unproven_charge) ended_by) sv)))"

definition end_charges_on_disable ::
  "sights \<Rightarrow> cycle_guard \<Rightarrow> bool \<Rightarrow> managed_device list \<Rightarrow> supervision \<Rightarrow> managed_device list \<times> supervision" where
  "end_charges_on_disable sg g control_enabled = each_device (end_charge_on_disable sg g control_enabled)"

section \<open>Returning every charge at a stop and after failed cycles\<close>

definition charge_release_due :: "sights \<Rightarrow> supervision \<Rightarrow> managed_device \<Rightarrow> bool \<Rightarrow> bool" where
  "charge_release_due sg sv d regulator \<longleftrightarrow>
     (if \<not> is_online sv (md_name d) then False
      else if charge_commanded d then \<not> charge_exit_pending sg d
      else if regulator then True
      else case sv_assist_charges sv (md_name d) of
             None \<Rightarrow> False | Some ch \<Rightarrow> exit_due (fca_record ch) (sg_now sg))"

definition released_charge :: "managed_device \<Rightarrow> bool \<Rightarrow> held_charge" where
  "released_charge d regulator =
     (if charge_commanded d then Charge_on_record else if regulator then Regulator_target else Assist_charge)"

definition release_charging_device ::
  "sights \<Rightarrow> int option \<Rightarrow> managed_device \<Rightarrow> supervision \<Rightarrow> managed_device \<times> supervision" where
  "release_charging_device sg failed_cycles d sv =
     (let name = md_name d;
          regulator = charge_commanded_by_ems sg sv d;
          assist = full_charge_assist_charge_held sv name
      in if \<not> regulator \<and> \<not> assist then (d, sv)
         else if failed_cycles \<noteq> None \<and> \<not> charge_release_due sg sv d regulator then (d, sv)
         else
           let (d1, written) = set_output_limit (sg_write sg name) 0 (Some CHARGE_EXIT_FINAL) d;
               sv1 = (if assist then fst (note_full_charge_assist_exit sg name written sv) else sv);
               known = released_charge d regulator;
               event = (if write_withheld written then Charge_release_withheld name known failed_cycles
                        else if write_accepted written then Charge_released name known failed_cycles
                        else Charge_release_failed name known failed_cycles);
               sv2 = note_event event sv1
           in (d1, command_target name 0 sv2))"

definition release_charging_devices ::
  "sights \<Rightarrow> int option \<Rightarrow> managed_device list \<Rightarrow> supervision \<Rightarrow> managed_device list \<times> supervision" where
  "release_charging_devices sg failed_cycles ds sv =
     (let (ds1, sv1) = each_device (release_charging_device sg failed_cycles) ds sv
      in (ds1, sv1\<lparr>sv_regulator := (sv_regulator sv1)\<lparr>
             charge_direction := initial_direction_state\<lparr>entries := entries (sv_direction sv1)\<rparr>,
             charge_capacity_w := 0, device_charge_limits := Map.empty\<rparr>\<rparr>))"

text \<open>The reported draw, \<open>safe_int\<close> of an integer with a minimum of 0.\<close>

definition last_reported_charge_w :: "supervision \<Rightarrow> string \<Rightarrow> int" where
  "last_reported_charge_w sv name =
     (case sv_last_states sv name of None \<Rightarrow> 0 | Some s \<Rightarrow> max 0 (grid_input s))"

definition charge_held_w :: "sights \<Rightarrow> supervision \<Rightarrow> managed_device \<Rightarrow> watts option" where
  "charge_held_w sg sv d =
     (let name = md_name d;
          target = (case sv_targets sv name of None \<Rightarrow> 0 | Some t \<Rightarrow> t)
      in if \<not> charge_commanded_by_ems sg sv d
         then (if full_charge_assist_charge_held sv name then Some (of_int (last_reported_charge_w sv name)) else None)
         else if \<not> charge_commanded d \<and> \<not> we_allowed (sg_write sg name) then None
         else if target < 0 then Some \<bar>target\<bar>
         else Some (of_int (last_reported_charge_w sv name)))"

definition charges_held_by_ems :: "sights \<Rightarrow> supervision \<Rightarrow> managed_device list \<Rightarrow> (string \<times> watts) list" where
  "charges_held_by_ems sg sv ds =
     concat (map (\<lambda>d. case charge_held_w sg sv d of None \<Rightarrow> [] | Some w \<Rightarrow> [(md_name d, w)]) ds)"

text \<open>
  One guarded cycle. \<open>run_once\<close> is the cycle itself, with the state it leaves where it returns or
  raises and whether it returned; the guard's fields are \<open>run_guarded\<close>'s own.
\<close>

definition run_guarded ::
  "sights \<Rightarrow> (cycle_guard \<Rightarrow> managed_device list \<Rightarrow> supervision \<Rightarrow> (managed_device list \<times> supervision) \<times> bool) \<Rightarrow>
   managed_device list \<times> supervision \<times> cycle_guard \<Rightarrow> managed_device list \<times> supervision \<times> cycle_guard" where
  "run_guarded sg run_once st =
     (case st of (ds, sv, g) \<Rightarrow>
       (case run_once g ds sv of ((ds1, sv1), through) \<Rightarrow>
          let g1 = guard_cycle sg ds1 through g
          in if \<not> through \<and> charges_returned_after_failed g1
             then (case release_charging_devices sg (Some (cycle_failures g1)) ds1 sv1 of
                     (ds2, sv2) \<Rightarrow> (ds2, sv2, g1))
             else (ds1, sv1, g1)))"

section \<open>Loops over the devices\<close>

text \<open>
  A loop whose body reads and writes only what belongs to its own device: \<open>same name s t\<close> says that
  two states agree on what belongs to a name. With distinct names every device then meets the state the
  loop began with, and what its body left for it is what the loop leaves.
\<close>

lemma each_device_Cons:
  "fst (each_device f (d # ds) s) = fst (f d s) # fst (each_device f ds (snd (f d s)))"
  "snd (each_device f (d # ds) s) = snd (each_device f ds (snd (f d s)))"
  by (simp_all add: split_beta)

declare each_device.simps(2) [simp del] each_device_Cons [simp]

locale device_loop =
  fixes body :: "'d \<Rightarrow> 's \<Rightarrow> managed_device \<times> 's"
    and name_of :: "'d \<Rightarrow> string"
    and same :: "string \<Rightarrow> 's \<Rightarrow> 's \<Rightarrow> bool"
  assumes same_refl: "same m s s"
    and keeps_others: "same m s t \<Longrightarrow> m \<noteq> name_of d \<Longrightarrow> same m s (snd (body d t))"
    and keeps_name: "md_name (fst (body d s)) = name_of d"
begin

lemma each_keeps_others: "same m s t \<Longrightarrow> m \<notin> name_of ` set ds \<Longrightarrow> same m s (snd (each_device body ds t))"
  by (induction ds arbitrary: t) (auto intro: keeps_others)

lemma each_names: "map md_name (fst (each_device body ds s)) = map name_of ds"
  by (induction ds arbitrary: s) (simp_all add: keeps_name)

lemma each_own:
  assumes "distinct (map name_of ds)" and "\<And>d. d \<in> set ds \<Longrightarrow> same (name_of d) s0 s"
  shows "list_all2 (\<lambda>d d'. \<exists>t t'. same (name_of d) s0 t \<and> body d t = (d', t') \<and>
    same (name_of d) t' (snd (each_device body ds s))) ds (fst (each_device body ds s))"
  using assms
proof (induction ds arbitrary: s)
  case (Cons d ds)
  let ?s1 = "snd (body d s)"
  have "same (name_of e) s0 ?s1" if e: "e \<in> set ds" for e
  proof (rule keeps_others)
    show "same (name_of e) s0 s" using Cons.prems(2) e by simp
    show "name_of e \<noteq> name_of d" using Cons.prems(1) imageI [OF e, of name_of] by auto
  qed
  moreover have "same (name_of d) ?s1 (snd (each_device body ds ?s1))"
    by (rule each_keeps_others [OF same_refl]) (use Cons.prems in auto)
  then have "\<exists>t t'. same (name_of d) s0 t \<and> body d t = (fst (body d s), t') \<and>
      same (name_of d) t' (snd (each_device body ds ?s1))"
    using Cons.prems(2) by (intro exI [of _ s] exI [of _ ?s1]) simp
  ultimately show ?case using Cons.IH [of ?s1] Cons.prems(1) by simp
qed simp

end

text \<open>What belongs to a name.\<close>

definition same_for :: "string \<Rightarrow> supervision \<Rightarrow> supervision \<Rightarrow> bool" where
  "same_for m s t \<longleftrightarrow> sv_control_enabled s = sv_control_enabled t \<and>
     sv_last_states s m = sv_last_states t m \<and> sv_online s m = sv_online t m \<and>
     sv_targets s m = sv_targets t m \<and> sv_intents s m = sv_intents t m \<and>
     sv_assist_charges s m = sv_assist_charges t m \<and> (m \<in> sv_watched s \<longleftrightarrow> m \<in> sv_watched t)"

lemma same_for_refl [simp]: "same_for m s s"
  by (simp add: same_for_def)

lemma note_event_frame [simp]:
  "sv_control_enabled (note_event e sv) = sv_control_enabled sv"
  "sv_last_states (note_event e sv) = sv_last_states sv" "sv_online (note_event e sv) = sv_online sv"
  "sv_regulator (note_event e sv) = sv_regulator sv" "sv_intents (note_event e sv) = sv_intents sv"
  "sv_watched (note_event e sv) = sv_watched sv"
  "sv_assist_charges (note_event e sv) = sv_assist_charges sv"
  "sv_events (note_event e sv) = sv_events sv @ [e]"
  by (simp_all add: note_event_def)

lemma command_target_frame [simp]:
  "sv_control_enabled (command_target n t sv) = sv_control_enabled sv"
  "sv_last_states (command_target n t sv) = sv_last_states sv" "sv_online (command_target n t sv) = sv_online sv"
  "sv_targets (command_target n t sv) = (sv_targets sv)(n \<mapsto> t)" "sv_intents (command_target n t sv) = sv_intents sv"
  "sv_watched (command_target n t sv) = sv_watched sv"
  "sv_assist_charges (command_target n t sv) = sv_assist_charges sv"
  "sv_direction (command_target n t sv) = sv_direction sv" "sv_events (command_target n t sv) = sv_events sv"
  by (simp_all add: command_target_def)

lemma put_assist_charge_frame [simp]:
  "sv_control_enabled (put_assist_charge n ch sv) = sv_control_enabled sv"
  "sv_last_states (put_assist_charge n ch sv) = sv_last_states sv"
  "sv_online (put_assist_charge n ch sv) = sv_online sv"
  "sv_regulator (put_assist_charge n ch sv) = sv_regulator sv"
  "sv_intents (put_assist_charge n ch sv) = sv_intents sv"
  "sv_watched (put_assist_charge n ch sv) = sv_watched sv"
  "sv_events (put_assist_charge n ch sv) = sv_events sv"
  "sv_assist_charges (put_assist_charge n ch sv) = (sv_assist_charges sv)(n \<mapsto> ch)"
  by (simp_all add: put_assist_charge_def)

lemma set_output_limit_name [simp]: "md_name (fst (set_output_limit e t ce d)) = md_name d"
  by (simp add: set_output_limit_def split: prod.splits)

lemma note_exit_same:
  "m \<noteq> n \<Longrightarrow> same_for m s (fst (note_full_charge_assist_exit sg n w t)) = same_for m s t"
  by (auto simp: note_full_charge_assist_exit_def same_for_def split: option.splits)

lemma release_device_same:
  assumes "same_for m s t" and "m \<noteq> md_name d"
  shows "same_for m s (snd (release_charging_device sg failed d t))"
  using assms note_exit_same [of m "md_name d" s sg _ t]
  by (auto simp: release_charging_device_def Let_def split: prod.splits)
     (auto simp: same_for_def)

lemma release_device_name: "md_name (fst (release_charging_device sg failed d s)) = md_name d"
  using set_output_limit_name by (auto simp: release_charging_device_def Let_def split: prod.splits) (metis fst_conv set_output_limit_name)+

interpretation releasing: device_loop "release_charging_device sg failed" md_name same_for
  by unfold_locales (simp_all add: release_device_same release_device_name)

section \<open>A stop releases every charge\<close>

text \<open>
  The final exit on the wire: over the local API the whole set for 0 W is posted; over MQTT the
  message for 0 W is handed over, wherever the device has a message for it at all.
\<close>

fun final_exit_sent :: "write_env \<Rightarrow> transport_client \<Rightarrow> transport_client \<Rightarrow> bool" where
  "final_exit_sent e (Local_api hc) (Local_api hc') \<longleftrightarrow>
     posted hc' = posted hc @ [(''outputLimit'',
       [(''smartMode'', 1), (''acMode'', AC_MODE_OUTPUT), (''outputLimit'', 0), (''inputLimit'', 0)])]"
| "final_exit_sent e (Mqtt_control c cl) (Mqtt_control c' cl') \<longleftrightarrow> c' = c \<and>
     (case build_write c 0 (tr_message_id (we_mqtt e)) (tr_timestamp (we_mqtt e)) of
        Inl _ \<Rightarrow> submitted cl' = submitted cl
      | Inr (m, op, expected) \<Rightarrow> submitted cl' = submitted cl @ [m] \<and> payload_target (payload m) = Some 0)"
| "final_exit_sent e _ _ \<longleftrightarrow> False"

lemma http_final_posts:
  "posted (fst (http_dispatch_output_limit a n 0 (Some CHARGE_EXIT_FINAL) hc)) = posted hc @ [(''outputLimit'', power_set 0)]"
  by (simp add: http_dispatch_output_limit_def http_dispatch_exit_def zendure_write_def Let_def)

lemma publish_target_blocked:
  assumes "build_write c t (tr_message_id tr) (tr_timestamp tr) = Inl b"
  shows "submitted (fst (publish_target c tr t n k f d cl)) = submitted cl"
  using assms by (simp add: publish_target_def next_dispatch_correlation_id_def Let_def split: option.splits)

lemma publish_target_submits:
  "submitted (fst (publish_target c tr t n k f d cl)) = submitted cl @
     (case build_write c t (tr_message_id tr) (tr_timestamp tr) of Inl _ \<Rightarrow> [] | Inr (m, _, _) \<Rightarrow> [m])"
proof (cases "build_write c t (tr_message_id tr) (tr_timestamp tr)")
  case (Inl b)
  then show ?thesis by (simp add: publish_target_blocked)
next
  case (Inr w)
  obtain m op ex where "w = (m, op, ex)" by (metis prod_cases3)
  then show ?thesis
    using publish_target_sends [of c t tr m op ex n k f d cl "fst (publish_target c tr t n k f d cl)"
        "snd (publish_target c tr t n k f d cl)"] Inr by simp
qed

lemma build_write_precheck: "precheck_target c t = Inl b \<Longrightarrow> build_write c t i ts = Inl b"
  by (simp add: build_write_def)

lemma mqtt_final_submits:
  "submitted (fst (dispatch_output_limit c tr (PyInt t) (Some CHARGE_EXIT_FINAL) n cl)) = submitted cl @
     (case build_write c t (tr_message_id tr) (tr_timestamp tr) of Inl _ \<Rightarrow> [] | Inr (m, _, _) \<Rightarrow> [m])"
  by (auto simp: dispatch_output_limit_def dispatch_in_flight_def dispatch_free_def publish_target_submits
      build_write_precheck Let_def split: sum.splits option.splits)

lemma set_output_limit_final:
  assumes "we_allowed e"
  shows "final_exit_sent e (md_transport d) (md_transport (fst (set_output_limit e 0 (Some CHARGE_EXIT_FINAL) d)))"
proof (cases "md_transport d")
  case (Local_api hc)
  then show ?thesis
    using assms http_final_posts [of "we_http e" "we_now e" hc]
    by (simp add: set_output_limit_def power_set_output split_beta)
next
  case (Mqtt_control c cl)
  then show ?thesis
    using assms mqtt_final_submits [of c "we_mqtt e" 0 "we_now e" cl]
    by (auto simp: set_output_limit_def split_beta split: sum.splits dest: build_write_carries)
qed

definition holds_charge :: "sights \<Rightarrow> supervision \<Rightarrow> managed_device \<Rightarrow> bool" where
  "holds_charge sg sv d \<longleftrightarrow> charge_commanded_by_ems sg sv d \<or> full_charge_assist_charge_held sv (md_name d)"

definition returned_at_stop :: "sights \<Rightarrow> supervision \<Rightarrow> supervision \<Rightarrow> managed_device \<Rightarrow> managed_device \<Rightarrow> bool" where
  "returned_at_stop sg sv sv' d d' \<longleftrightarrow> md_name d' = md_name d \<and>
     (if holds_charge sg sv d
      then sv_targets sv' (md_name d) = Some 0 \<and>
        (if we_allowed (sg_write sg (md_name d))
         then final_exit_sent (sg_write sg (md_name d)) (md_transport d) (md_transport d') else d' = d)
      else d' = d \<and> sv_targets sv' (md_name d) = sv_targets sv (md_name d))"

lemma same_for_holds: "same_for (md_name d) s t \<Longrightarrow> holds_charge sg t d = holds_charge sg s d"
  by (simp add: same_for_def holds_charge_def charge_commanded_by_ems_def control_switched_off_def
      full_charge_assist_charge_held_def)

lemma release_at_stop:
  assumes "release_charging_device sg None d t = (d', t')" and "same_for (md_name d) sv t"
    and "same_for (md_name d) t' sv'"
  shows "returned_at_stop sg sv sv' d d'"
proof -
  note h = same_for_holds [OF assms(2), of sg]
  have t: "sv_targets t' (md_name d) = sv_targets sv' (md_name d)"
    "sv_targets sv (md_name d) = sv_targets t (md_name d)"
    using assms(2,3) by (simp_all add: same_for_def)
  let ?w = "set_output_limit (sg_write sg (md_name d)) 0 (Some CHARGE_EXIT_FINAL) d"
  show ?thesis
  proof (cases "holds_charge sg sv d")
    case True
    then have "d' = fst ?w" and "sv_targets t' (md_name d) = Some 0"
      using assms(1) h by (auto simp: release_charging_device_def holds_charge_def Let_def split: prod.splits)
    then show ?thesis
      using True t set_output_limit_final [of "sg_write sg (md_name d)" d]
      by (simp add: returned_at_stop_def) (simp add: set_output_limit_def)
  next
    case False
    then have "(d', t') = (d, t)"
      using assms(1) h by (simp add: release_charging_device_def holds_charge_def Let_def)
    then show ?thesis using False t by (simp add: returned_at_stop_def)
  qed
qed

lemma release_keeps_direction [simp]:
  "sv_direction (snd (release_charging_device sg failed d sv)) = sv_direction sv"
  by (auto simp: release_charging_device_def note_full_charge_assist_exit_def note_event_def
      put_assist_charge_def Let_def split: prod.splits option.splits)

lemma each_release_keeps_direction:
  "sv_direction (snd (each_device (release_charging_device sg failed) ds sv)) = sv_direction sv"
  by (induction ds arbitrary: sv) simp_all

text \<open>
  C12. A stop of the program returns every charge it started. Each device that holds one, by the
  regulator's target, its transport's record or the assist's, is sent the exit to 0 W in output
  direction in that call, whatever resend window is open and whatever command is in flight, unless
  the write gate is shut; its target becomes 0. Every other device is left as it was, unwritten, and
  afterwards the direction is not charging while the entries of the hour stay counted.
\<close>

theorem stop_returns_every_charge:
  assumes "distinct (map md_name ds)" and "release_charging_devices sg None ds sv = (ds', sv')"
  shows "list_all2 (returned_at_stop sg sv sv') ds ds' \<and>
    \<not> charging (sv_direction sv') \<and> entries (sv_direction sv') = entries (sv_direction sv)"
proof -
  let ?r = "each_device (release_charging_device sg None) ds sv"
  have same: "same_for m (snd ?r) sv'" and dir: "sv_direction sv' = initial_direction_state\<lparr>entries := entries (sv_direction sv)\<rparr>"
    and ds': "ds' = fst ?r" for m
    using assms(2) each_release_keeps_direction [of sg None ds sv]
    by (auto simp: release_charging_devices_def same_for_def split_beta Let_def)
  have "list_all2 (returned_at_stop sg sv sv') ds ds'"
    unfolding ds' using releasing.each_own [OF assms(1), of sv sv sg None]
  proof (rule list_all2_mono, simp)
    fix d d'
    assume "\<exists>t t'. same_for (md_name d) sv t \<and> release_charging_device sg None d t = (d', t') \<and>
      same_for (md_name d) t' (snd ?r)"
    then obtain t t' where "same_for (md_name d) sv t" "release_charging_device sg None d t = (d', t')"
      "same_for (md_name d) t' (snd ?r)" by blast
    moreover have "same_for (md_name d) t' sv'" using calculation(3) same [of "md_name d"] by (simp add: same_for_def)
    ultimately show "returned_at_stop sg sv sv' d d'" by (blast intro: release_at_stop)
  qed
  then show ?thesis using dir by (simp add: initial_direction_state_def)
qed

section \<open>Switching control off ends the charge\<close>

lemma leave_assist_frame [simp]:
  "sv_control_enabled (leave_assist_charge sg n ch sv) = sv_control_enabled sv"
  "sv_online (leave_assist_charge sg n ch sv) = sv_online sv"
  "sv_intents (leave_assist_charge sg n ch sv) = sv_intents sv"
  "sv_regulator (leave_assist_charge sg n ch sv) = sv_regulator sv"
  "sv_last_states (leave_assist_charge sg n ch sv) = sv_last_states sv"
  by (simp_all add: leave_assist_charge_def)

lemma assist_charge_held_frame [simp]:
  "sv_control_enabled (fst (assist_charge_held sg n s w r sv)) = sv_control_enabled sv"
  "sv_online (fst (assist_charge_held sg n s w r sv)) = sv_online sv"
  "sv_intents (fst (assist_charge_held sg n s w r sv)) = sv_intents sv"
  by (simp_all add: assist_charge_held_def Let_def split: option.splits)

lemma exit_due_frame [simp]:
  "sv_control_enabled (fst (full_charge_assist_exit_due sg g d sv)) = sv_control_enabled sv"
  "sv_online (fst (full_charge_assist_exit_due sg g d sv)) = sv_online sv"
  "sv_intents (fst (full_charge_assist_exit_due sg g d sv)) = sv_intents sv"
  by (auto simp: full_charge_assist_exit_due_def Let_def split: option.splits)

lemma exit_due_mono: "exit_due r n \<Longrightarrow> n \<le> n' \<Longrightarrow> exit_due r n'"
  by (auto simp: exit_due_def exit_window_passed_def split: if_splits option.splits)

lemma local_exit_posted:
  assumes "md_transport d = Local_api hc" and "cr_open (hc_charge hc)" and "we_allowed e"
    and "ce = Some CHARGE_EXIT_FINAL \<or> exit_due (hc_charge hc) (we_now e)"
  shows "\<exists>hc' field body. md_transport (fst (set_output_limit e 0 ce d)) = Local_api hc' \<and>
    posted hc' = posted hc @ [(field, body)] \<and> ends_charge ce 0 body"
proof -
  obtain hc' w where h: "http_dispatch_output_limit (we_http e) (we_now e) 0 ce hc = (hc', w)" by fastforce
  then have "\<exists>field body. posted hc' = posted hc @ [(field, body)] \<and> ends_charge ce 0 body"
    using assms(2,4)
    by (auto simp: http_dispatch_output_limit_def http_dispatch_exit_def zendure_write_def Let_def
        ends_charge_def power_set_output split: if_splits option.splits http_answer.splits)
  then show ?thesis using assms(1,3) h by (simp add: set_output_limit_def)
qed

text \<open>
  C13. With control switched off, a charge on a transport's record is not left running unwatched: each
  cycle in which the device is reachable either sends it an exit, when the record owes one (none was
  sent, or the last is a resend window old) or the assist's record does, or leaves it untouched,
  and nothing else is ever written; no claim takes the charge over then. Over the local API, with
  the gate open, the exit that goes out is a body that ends the charge.
\<close>

theorem switched_off_charge_gets_its_exit:
  assumes "charge_commanded d" and "is_online sv (md_name d)" and "sv_control_enabled sv = Some False"
    and "sg_now sg \<le> we_now (sg_write sg (md_name d))"
    and "end_charge_on_disable sg g False d sv = (d', sv')"
  shows "if charge_exit_due d (sg_now sg) \<or> snd (full_charge_assist_exit_due sg g d sv)
    then \<exists>ce. d' = fst (set_output_limit (sg_write sg (md_name d)) 0 ce d) \<and>
      (\<forall>hc. md_transport d = Local_api hc \<and> we_allowed (sg_write sg (md_name d)) \<longrightarrow>
        (\<exists>hc' field body. md_transport d' = Local_api hc' \<and> posted hc' = posted hc @ [(field, body)] \<and>
          ends_charge ce 0 body))
    else d' = d"
proof -
  let ?e = "sg_write sg (md_name d)"
  obtain s1 due where due: "full_charge_assist_exit_due sg g d sv = (s1, due)" by fastforce
  then have s1: "sv_control_enabled s1 = Some False" "is_online s1 (md_name d)"
    using assms(2,3) exit_due_frame [of sg g d sv] by (simp_all add: is_online_def)
  have no_claim: "\<not> claim_takes_the_charge sg s1 d i" for i
    using s1(1) by (simp add: claim_takes_the_charge_def claim_writes_its_own_charge_def
        device_state_writes_allowed_def control_switched_off_def split: option.splits)
  have post: "\<exists>hc' field body. md_transport (fst (set_output_limit ?e 0 ce d)) = Local_api hc' \<and>
      posted hc' = posted hc @ [(field, body)] \<and> ends_charge ce 0 body"
    if "md_transport d = Local_api hc" "we_allowed ?e"
      "ce = Some CHARGE_EXIT_FINAL \<or> charge_exit_due d (sg_now sg)" for ce hc
    using that assms(1,4) local_exit_posted [of d hc ?e ce]
    by (auto simp: charge_commanded_def charge_exit_due_def intro: exit_due_mono)
  consider (assist) "due" | (own) "\<not> due" "charge_exit_due d (sg_now sg)" | (none) "\<not> due" "\<not> charge_exit_due d (sg_now sg)"
    by blast
  then show ?thesis
  proof cases
    case assist
    then have "d' = fst (set_output_limit ?e 0 (Some CHARGE_EXIT_FINAL) d)"
      using assms(5) due
      by (auto simp: end_charge_on_disable_def end_full_charge_assist_charge_def Let_def split: prod.splits)
    then show ?thesis using assist due post [of _ "Some CHARGE_EXIT_FINAL"] by auto
  next
    case own
    let ?ce = "if unproven_charge_exit s1 (md_name d) \<noteq> None then unproven_charge_exit s1 (md_name d)
      else claim_charge_exit d (sv_intents s1 (md_name d))"
    have "d' = fst (set_output_limit ?e 0 ?ce d)"
      using assms(1,5) due s1 own no_claim
      by (simp add: end_charge_on_disable_def charge_supervision_ended_by_def charge_exit_pending_def
          split_beta Let_def)
    then show ?thesis using own due post [of _ ?ce] by auto
  next
    case none
    then have "d' = d"
      using assms(1,5) due s1 no_claim
      by (simp add: end_charge_on_disable_def charge_supervision_ended_by_def charge_exit_pending_def
          split_beta Let_def)
    then show ?thesis using none due by simp
  qed
qed

section \<open>The exits to the assist's charge are bounded\<close>

text \<open>The exits of the assist's charge on a device that reached its transport while control was off.\<close>

fun assist_exit_event :: "string \<Rightarrow> supervision_event \<Rightarrow> bool" where
  "assist_exit_event name (Charge_ended_on_disable n c _) \<longleftrightarrow> n = name \<and> c = Assist_charge"
| "assist_exit_event name (Charge_end_withheld n) \<longleftrightarrow> n = name"
| "assist_exit_event name (Charge_end_failed n delivered) \<longleftrightarrow> n = name \<and> delivered"
| "assist_exit_event name _ \<longleftrightarrow> False"

definition assist_exits :: "string \<Rightarrow> supervision \<Rightarrow> int" where
  "assist_exits name sv = int (length (filter (assist_exit_event name) (sv_events sv)))"

definition exits_counted :: "supervision \<Rightarrow> string \<Rightarrow> int" where
  "exits_counted sv name = (case sv_assist_charges sv name of None \<Rightarrow> 0 | Some ch \<Rightarrow> fca_exits ch)"

definition switched_off_cycle ::
  "sights \<times> cycle_guard \<times> (string \<rightharpoonup> device_state) \<times> (string \<rightharpoonup> bool) \<Rightarrow>
   managed_device list \<times> supervision \<Rightarrow> managed_device list \<times> supervision" where
  "switched_off_cycle x st =
     (case x of (sg, g, reports, online) \<Rightarrow>
       end_charges_on_disable sg g False (fst st) ((snd st)\<lparr>sv_last_states := reports, sv_online := online\<rparr>))"

text \<open>What a step with control off does to the count: it moves with the exits sent, up to the cap.\<close>

definition exits_in_step :: "string \<Rightarrow> supervision \<Rightarrow> supervision \<Rightarrow> bool" where
  "exits_in_step name sv sv' \<longleftrightarrow> sv_control_enabled sv' = sv_control_enabled sv \<and>
     assist_exits name sv' - assist_exits name sv = exits_counted sv' name - exits_counted sv name \<and>
     exits_counted sv' name \<le> max FOUND_EXIT_ATTEMPTS (exits_counted sv name)"

lemma exits_in_step_refl [simp]: "exits_in_step name sv sv"
  by (simp add: exits_in_step_def)

lemma exits_in_step_trans: "exits_in_step name s t \<Longrightarrow> exits_in_step name t u \<Longrightarrow> exits_in_step name s u"
  by (auto simp: exits_in_step_def)

lemma assist_exits_note [simp]:
  "assist_exits name (note_event e sv) = assist_exits name sv + (if assist_exit_event name e then 1 else 0)"
  "assist_exits name (put_assist_charge n ch sv) = assist_exits name sv"
  by (simp_all add: assist_exits_def)

lemma exits_counted_put [simp]:
  "exits_counted (put_assist_charge n ch sv) m = (if m = n then fca_exits ch else exits_counted sv m)"
  "exits_counted (note_event e sv) m = exits_counted sv m"
  by (simp_all add: exits_counted_def)

lemma watch_frame [simp]:
  "assist_exits name (watch n sv) = assist_exits name sv" "exits_counted (watch n sv) name = exits_counted sv name"
  "sv_control_enabled (watch n sv) = sv_control_enabled sv"
  by (simp_all add: watch_def assist_exits_def exits_counted_def)

lemma exit_due_counts:
  assumes "sv_control_enabled sv = Some False"
  shows "assist_exits m (fst (full_charge_assist_exit_due sg g d sv)) = assist_exits m sv"
    and "exits_counted (fst (full_charge_assist_exit_due sg g d sv)) m = exits_counted sv m"
    and "snd (full_charge_assist_exit_due sg g d sv) \<Longrightarrow>
      \<exists>ch. sv_assist_charges (fst (full_charge_assist_exit_due sg g d sv)) (md_name d) = Some ch \<and>
        fca_exits ch < FOUND_EXIT_ATTEMPTS"
  using assms
  by (auto simp: full_charge_assist_exit_due_def control_switched_off_def leave_assist_charge_def
      observe_full_charge_assist_charge_def full_charge_assist_exit_owed_def exits_counted_def Let_def
      split: option.splits if_splits)

lemma end_assist_counts:
  assumes "sv_assist_charges sv (md_name d) = Some ch" and "fca_exits ch < FOUND_EXIT_ATTEMPTS"
  shows "exits_in_step m sv (snd (end_full_charge_assist_charge sg ce d sv))"
  using assms
  by (auto simp: exits_in_step_def end_full_charge_assist_charge_def note_full_charge_assist_exit_def
      exits_counted_def split_beta Let_def split: option.splits)

lemma end_charge_counts:
  assumes "sv_control_enabled sv = Some False"
  shows "exits_in_step m sv (snd (end_charge_on_disable sg g ce d sv))"
proof -
  let ?s = "fst (full_charge_assist_exit_due sg g d sv)"
  have s: "exits_in_step m sv ?s"
    using assms exit_due_counts(1,2) [OF assms] by (simp add: exits_in_step_def)
  have "exits_in_step m ?s (snd (end_charge_on_disable sg g ce d sv))"
  proof (cases "snd (full_charge_assist_exit_due sg g d sv)")
    case True
    then obtain ch where "sv_assist_charges ?s (md_name d) = Some ch" "fca_exits ch < FOUND_EXIT_ATTEMPTS"
      using exit_due_counts(3) [OF assms] by blast
    from end_assist_counts [OF this, of m sg ce] True show ?thesis
      by (simp add: end_charge_on_disable_def split_beta Let_def)
  next
    case False
    then show ?thesis
      by (simp add: end_charge_on_disable_def note_unproven_charge_exit_def exits_in_step_def split_beta Let_def)
  qed
  with s show ?thesis by (rule exits_in_step_trans)
qed

lemma end_charges_counts:
  "sv_control_enabled sv = Some False \<Longrightarrow> exits_in_step m sv (snd (end_charges_on_disable sg g ce ds sv))"
  unfolding end_charges_on_disable_def
proof (induction ds arbitrary: sv)
  case (Cons d ds)
  have step: "exits_in_step m sv (snd (end_charge_on_disable sg g ce d sv))"
    by (rule end_charge_counts [OF Cons.prems])
  then have "sv_control_enabled (snd (end_charge_on_disable sg g ce d sv)) = Some False"
    using Cons.prems by (simp add: exits_in_step_def)
  from exits_in_step_trans [OF step Cons.IH [OF this]] show ?case by simp
qed simp

text \<open>
  While control stays off, the assist's charge is sent at most three exits, whatever the devices
  report, answer or miss in the cycles, and whatever claims are on them: the exits that reached a
  device's transport are counted on the charge, and a device that keeps the charge is then left to
  itself.
\<close>

lemma assist_exits_bounded_while_control_is_off:
  assumes "sv_control_enabled (snd st) = Some False" and "0 \<le> exits_counted (snd st) name"
  shows "assist_exits name (snd (foldl (\<lambda>s x. switched_off_cycle x s) st cycles)) - assist_exits name (snd st) \<le> 3"
proof -
  have "exits_in_step name (snd st) (snd (foldl (\<lambda>s x. switched_off_cycle x s) st cycles))"
    using assms(1)
  proof (induction cycles arbitrary: st)
    case (Cons x cycles)
    obtain sg g reports online where x: "x = (sg, g, reports, online)" by (metis prod_cases4)
    let ?sv = "(snd st)\<lparr>sv_last_states := reports, sv_online := online\<rparr>"
    have "exits_in_step name ?sv (snd (switched_off_cycle x st))"
      using end_charges_counts [of ?sv name sg g False "fst st"] Cons.prems
      by (simp add: switched_off_cycle_def x)
    then have step: "exits_in_step name (snd st) (snd (switched_off_cycle x st))"
      by (simp add: exits_in_step_def assist_exits_def exits_counted_def)
    then have "sv_control_enabled (snd (switched_off_cycle x st)) = Some False"
      using Cons.prems by (simp add: exits_in_step_def)
    from exits_in_step_trans [OF step Cons.IH [OF this]] show ?case by simp
  qed simp
  then show ?thesis using assms(2) by (auto simp: exits_in_step_def FOUND_EXIT_ATTEMPTS_def)
qed

section \<open>The guard over runs of cycles\<close>

text \<open>One cycle as the guard meets it: the sights, the devices and whether \<open>run_once\<close> returned.\<close>

type_synonym guarded_cycle = "sights \<times> managed_device list \<times> bool"

fun guard_step :: "cycle_guard \<Rightarrow> guarded_cycle \<Rightarrow> cycle_guard" where
  "guard_step g (sg, ds, through) = guard_cycle sg ds through g"

definition guard_run :: "guarded_cycle list \<Rightarrow> cycle_guard" where
  "guard_run cs = run_steps guard_step new_cycle_guard cs"

definition went_through :: "guarded_cycle \<Rightarrow> bool" where "went_through c = snd (snd c)"

definition assist_idle :: "guarded_cycle \<Rightarrow> bool" where
  "assist_idle c \<longleftrightarrow> \<not> full_charge_assist_takes_ac_input (fst c) (fst (snd c))"

text \<open>
  What withholding means: three cycles in a row failed, and after them no three in a row went
  through.
\<close>

definition failed_and_not_recovered :: "bool list \<Rightarrow> bool" where
  "failed_and_not_recovered bs \<longleftrightarrow>
     (\<exists>us vs. bs = us @ [False, False, False] @ vs \<and> \<not> sublist [True, True, True] vs)"

text \<open>The same over the outcomes newest first.\<close>

definition unrecovered :: "bool list \<Rightarrow> bool" where
  "unrecovered rs \<longleftrightarrow> (\<exists>vs us. rs = vs @ [False, False, False] @ us \<and> \<not> sublist [True, True, True] vs)"

lemma unrecovered_rev: "failed_and_not_recovered bs = unrecovered (rev bs)"
proof -
  have r: "sublist [True, True, True] (rev vs) = sublist [True, True, True] vs" for vs
    using sublist_rev [of "[True, True, True]" vs] by simp
  show ?thesis
  proof
    assume "failed_and_not_recovered bs"
    then obtain us vs where "bs = us @ [False, False, False] @ vs" "\<not> sublist [True, True, True] vs"
      unfolding failed_and_not_recovered_def by blast
    then show "unrecovered (rev bs)"
      unfolding unrecovered_def by (intro exI [of _ "rev vs"] exI [of _ "rev us"]) (simp add: r)
  next
    assume "unrecovered (rev bs)"
    then obtain vs us where "rev bs = vs @ [False, False, False] @ us" "\<not> sublist [True, True, True] vs"
      unfolding unrecovered_def by blast
    then show "failed_and_not_recovered bs"
      unfolding failed_and_not_recovered_def
      by (intro exI [of _ "rev us"] exI [of _ "rev vs"]) (simp add: r rev_swap)
  qed
qed

lemma unrecovered_Nil [simp]: "\<not> unrecovered []"
  by (simp add: unrecovered_def)

lemma unrecovered_failed: "unrecovered (False # rs) \<longleftrightarrow> unrecovered rs \<or> prefix [False, False] rs"
proof
  assume "unrecovered (False # rs)"
  then obtain vs us where v: "False # rs = vs @ [False, False, False] @ us" "\<not> sublist [True, True, True] vs"
    unfolding unrecovered_def by blast
  show "unrecovered rs \<or> prefix [False, False] rs"
  proof (cases vs)
    case (Cons b ws)
    then have "rs = ws @ [False, False, False] @ us" "\<not> sublist [True, True, True] ws"
      using v by (auto simp: sublist_Cons_right)
    then show ?thesis unfolding unrecovered_def by blast
  qed (use v in auto)
next
  assume "unrecovered rs \<or> prefix [False, False] rs"
  then show "unrecovered (False # rs)"
  proof
    assume "unrecovered rs"
    then obtain vs us where "rs = vs @ [False, False, False] @ us" "\<not> sublist [True, True, True] vs"
      unfolding unrecovered_def by blast
    then show ?thesis
      unfolding unrecovered_def by (intro exI [of _ "False # vs"] exI [of _ us]) (simp add: sublist_Cons_right)
  next
    assume "prefix [False, False] rs"
    then obtain us where "rs = [False, False] @ us" by (auto simp: prefix_def)
    then show ?thesis
      unfolding unrecovered_def by (intro exI [of _ "[]"] exI [of _ us]) simp
  qed
qed

lemma unrecovered_through: "unrecovered (True # rs) \<longleftrightarrow> unrecovered rs \<and> \<not> prefix [True, True] rs"
proof
  assume "unrecovered (True # rs)"
  then obtain vs us where v: "True # rs = vs @ [False, False, False] @ us" "\<not> sublist [True, True, True] vs"
    unfolding unrecovered_def by blast
  then obtain ws where ws: "vs = True # ws" by (cases vs) auto
  then have rs: "rs = ws @ [False, False, False] @ us" and n: "\<not> sublist [True, True, True] ws"
    and p: "\<not> prefix [True, True] ws"
    using v by (auto simp: sublist_Cons_right)
  have "\<not> prefix [True, True] rs"
  proof
    assume "prefix [True, True] rs"
    then have "prefix [True, True] ws"
      unfolding rs by (cases ws; cases "tl ws") auto
    then show False using p by simp
  qed
  then show "unrecovered rs \<and> \<not> prefix [True, True] rs"
    using rs n unfolding unrecovered_def by blast
next
  assume "unrecovered rs \<and> \<not> prefix [True, True] rs"
  then obtain vs us where rs: "rs = vs @ [False, False, False] @ us" and n: "\<not> sublist [True, True, True] vs"
    and p: "\<not> prefix [True, True] rs"
    unfolding unrecovered_def by blast
  have "\<not> prefix [True, True] vs" using p rs by auto
  then show "unrecovered (True # rs)"
    using rs n unfolding unrecovered_def
    by (intro exI [of _ "True # vs"] exI [of _ us]) (simp add: sublist_Cons_right)
qed

lemma prefix_same: "prefix [b, b] rs \<longleftrightarrow> 2 \<le> length (takeWhile (\<lambda>x. x = b) rs)"
  by (cases rs; cases "tl rs") auto

text \<open>What the guard's counters say of the outcomes so far, newest first.\<close>

definition guard_reads :: "bool list \<Rightarrow> cycle_guard \<Rightarrow> bool" where
  "guard_reads rs g \<longleftrightarrow> cycle_failures g = int (length (takeWhile (\<lambda>x. x = False) rs)) \<and>
     (case cycles_through_since_release g of
        None \<Rightarrow> \<not> unrecovered rs
      | Some n \<Rightarrow> n = int (length (takeWhile (\<lambda>x. x = True) rs)))"

definition guard_exact :: "bool list \<Rightarrow> cycle_guard \<Rightarrow> bool" where
  "guard_exact rs g \<longleftrightarrow> (cycles_through_since_release g \<noteq> None \<longrightarrow> unrecovered rs)"

lemma guard_reads_step:
  assumes "guard_reads rs g"
  shows "guard_reads (went_through c # rs) (guard_step g c)"
proof -
  obtain sg ds b where c: "c = (sg, ds, b)" by (cases c)
  show ?thesis
  proof (cases b)
    case False
    then show ?thesis
      using assms
      by (auto simp: c went_through_def guard_reads_def guard_cycle_def charges_returned_after_failed_def
          CYCLE_FAILURES_BEFORE_CHARGE_RELEASE_def unrecovered_failed prefix_same Let_def split: option.splits)
  next
    case True
    then show ?thesis
      using assms
      by (auto simp: c went_through_def guard_reads_def guard_cycle_def end_assist_ac_input_withhold_def
          CYCLE_FAILURES_BEFORE_CHARGE_RELEASE_def unrecovered_through prefix_same Let_def split: option.splits prod.splits)
  qed
qed

lemma guard_exact_step:
  assumes "guard_reads rs g" and "guard_exact rs g" and "assist_idle c"
  shows "guard_exact (went_through c # rs) (guard_step g c)"
proof -
  obtain sg ds b where c: "c = (sg, ds, b)" by (cases c)
  show ?thesis
    using assms
    by (cases b) (auto simp: c went_through_def assist_idle_def guard_reads_def guard_exact_def guard_cycle_def
        end_assist_ac_input_withhold_def charges_returned_after_failed_def
        CYCLE_FAILURES_BEFORE_CHARGE_RELEASE_def unrecovered_failed unrecovered_through prefix_same Let_def
        split: option.splits prod.splits if_splits)
qed

lemma guard_run_snoc [simp]: "guard_run (cs @ [c]) = guard_step (guard_run cs) c"
  by (simp add: guard_run_def run_steps_append)

lemma guard_run_reads: "guard_reads (rev (map went_through cs)) (guard_run cs)"
proof (induction cs rule: rev_induct)
  case Nil
  then show ?case by (simp add: guard_run_def guard_reads_def new_cycle_guard_def)
qed (simp add: guard_reads_step)

lemma guard_run_exact: "list_all assist_idle cs \<Longrightarrow> guard_exact (rev (map went_through cs)) (guard_run cs)"
proof (induction cs rule: rev_induct)
  case Nil
  then show ?case by (simp add: guard_run_def guard_exact_def new_cycle_guard_def)
next
  case (snoc c cs)
  then show ?case using guard_exact_step [OF guard_run_reads] by simp
qed

lemma guard_withheld: "assist_ac_input_withheld g \<Longrightarrow> guard_reads rs g \<Longrightarrow>
    unrecovered rs \<or> cycles_through_since_release g \<noteq> None"
  by (cases rs; cases "hd rs") (auto simp: assist_ac_input_withheld_def charges_returned_after_failed_def guard_reads_def
      CYCLE_FAILURES_BEFORE_CHARGE_RELEASE_def unrecovered_failed prefix_same split: option.splits)

text \<open>
  C23. After failing cycles the assist's AC input is held back for as long as the program has not
  recovered: whenever three cycles in a row failed and no three in a row have gone through since,
  whatever the cycles, devices and limits were; and where no assist with its AC mode ran, exactly
  then. With a running assist the hold may last longer, while the hour leaves no entry.
\<close>

theorem withheld_until_recovered:
  shows "(failed_and_not_recovered (map went_through cs) \<longrightarrow> assist_ac_input_withheld (guard_run cs)) \<and>
    (list_all assist_idle cs \<longrightarrow>
      assist_ac_input_withheld (guard_run cs) = failed_and_not_recovered (map went_through cs))"
  using guard_run_reads [of cs] guard_run_exact [of cs] guard_withheld [of "guard_run cs" "rev (map went_through cs)"]
  by (auto simp: unrecovered_rev guard_exact_def guard_reads_def assist_ac_input_withheld_def split: option.splits)

text \<open>
  The end of a hold that gives a running assist its AC input back: the cycle that enters.
\<close>

definition gives_input_back :: "cycle_guard \<Rightarrow> guarded_cycle \<Rightarrow> bool" where
  "gives_input_back g c \<longleftrightarrow> went_through c \<and> \<not> assist_idle c \<and>
     cycles_through_since_release g \<noteq> None \<and> cycles_through_since_release (guard_step g c) = None"

definition cycle_clock :: "guarded_cycle \<Rightarrow> seconds" where "cycle_clock c = sg_now (fst c)"

text \<open>A cycle under given settings.\<close>

definition guard_step_under :: "charge_direction_settings \<Rightarrow> cycle_guard \<Rightarrow> guarded_cycle \<Rightarrow> cycle_guard" where
  "guard_step_under settings g c = guard_step g ((fst c)\<lparr>sg_settings := settings\<rparr>, snd c)"

definition gives_back_under :: "charge_direction_settings \<Rightarrow> cycle_guard \<Rightarrow> guarded_cycle \<Rightarrow> bool" where
  "gives_back_under settings g c = gives_input_back g ((fst c)\<lparr>sg_settings := settings\<rparr>, snd c)"

lemma takes_ac_input_settings [simp]:
  "full_charge_assist_takes_ac_input (sg\<lparr>sg_settings := settings\<rparr>) ds = full_charge_assist_takes_ac_input sg ds"
  by (simp add: full_charge_assist_takes_ac_input_def)

lemma recent_none [simp]: "recent_entries [] n = []"
  by (simp add: recent_entries_def)

interpretation reentry: hourly_limiter "guard_step_under settings" cycle_clock "gives_back_under settings"
  assist_reentries "max_entries_per_hour settings" for settings
proof
  fix c :: guarded_cycle and n :: seconds and g :: cycle_guard
  obtain sg ds b where c: "c = (sg, ds, b)" by (cases c)
  note defs = c guard_step_under_def gives_back_under_def gives_input_back_def cycle_clock_def guard_cycle_def
    end_assist_ac_input_withhold_def went_through_def assist_idle_def charge_entries_within_limit_def Let_def
  show "recent_entries (assist_reentries (guard_step_under settings g c)) n =
      recent_entries (assist_reentries g @ (if gives_back_under settings g c then [cycle_clock c] else [])) n"
    if "cycle_clock c \<le> n"
    using that by (auto simp: defs recent_append recent_recent split: option.splits if_splits)
  show "int (length (recent_entries (assist_reentries g) (cycle_clock c))) < max 1 (max_entries_per_hour settings)"
    if "gives_back_under settings g c"
    using that by (auto simp: defs split: option.splits if_splits)
qed

text \<open>
  However cycles fail and recover, a running assist gets its AC input back at most
  \<open>max_charge_entries_per_hour\<close> times in any hour, so that alternating failures and recoveries do not
  switch the device's relay in and out every few cycles.
\<close>

lemma input_given_back_rate_limited:
  assumes "sorted (map cycle_clock cs)"
  shows "int (entries_in_hour t (times_entered (guard_step_under settings) cycle_clock
    (gives_back_under settings) new_cycle_guard cs)) \<le> max 1 (max_entries_per_hour settings)"
  by (rule reentry.entries_limited [OF assms]) (simp add: new_cycle_guard_def)

section \<open>Concrete cycles\<close>

definition demo_env :: "seconds \<Rightarrow> write_env" where
  "demo_env n = \<lparr>we_allowed = True, we_now = n, we_http = Http_status 200, we_mqtt = demo_transport 2 4\<rparr>"

definition demo_sights :: "seconds \<Rightarrow> bool \<Rightarrow> sights" where
  "demo_sights n assisting = \<lparr>sg_now = n, sg_write = (\<lambda>_. demo_env n), sg_device_enabled = (\<lambda>_. True),
     sg_state_writes = (\<lambda>_. True),
     sg_assist = (\<lambda>_. if assisting
       then Some \<lparr>has_battery = True, ac_mode_restore_pending = True, restore_pending = False,
                  full_charge_assist_active = True, max_soc_request_pending = False\<rparr>
       else None),
     sg_assist_ac_mode = True, sg_assist_power = 800, sg_settings = demo_settings\<rparr>"

definition demo_managed :: "string \<Rightarrow> http_client \<Rightarrow> managed_device" where
  "demo_managed name hc = \<lparr>md_name = name, md_transport = Local_api hc\<rparr>"

definition demo_off :: supervision where
  "demo_off = new_supervision\<lparr>sv_control_enabled := Some False\<rparr>"

theorem stop_returns_every_charge_witness:
  "\<exists>ds' sv'. release_charging_devices (demo_sights 65 False) None
      [demo_managed ''a'' demo_charging_client, demo_managed ''b'' (new_http_client None)] new_supervision = (ds', sv') \<and>
    list_all2 (returned_at_stop (demo_sights 65 False) new_supervision sv')
      [demo_managed ''a'' demo_charging_client, demo_managed ''b'' (new_http_client None)] ds' \<and>
    holds_charge (demo_sights 65 False) new_supervision (demo_managed ''a'' demo_charging_client)"
proof -
  let ?ds = "[demo_managed ''a'' demo_charging_client, demo_managed ''b'' (new_http_client None)]"
  have n: "distinct (map md_name ?ds)" by (simp add: demo_managed_def)
  obtain ds' sv' where r: "release_charging_devices (demo_sights 65 False) None ?ds new_supervision = (ds', sv')"
    by fastforce
  have "holds_charge (demo_sights 65 False) new_supervision (demo_managed ''a'' demo_charging_client)" by code_simp
  with stop_returns_every_charge [OF n r] r show ?thesis by blast
qed

theorem switched_off_charge_gets_its_exit_witness:
  "(\<exists>hc' field body ce. md_transport (fst (end_charge_on_disable (demo_sights 95 False) new_cycle_guard False
        (demo_managed ''a'' demo_charging_client) demo_off)) = Local_api hc' \<and>
      posted hc' = [(field, body)] \<and> ends_charge ce 0 body) \<and>
   fst (end_charge_on_disable (demo_sights 70 False) new_cycle_guard False
     (demo_managed ''a'' demo_charging_client) demo_off) = demo_managed ''a'' demo_charging_client"
proof -
  let ?d = "demo_managed ''a'' demo_charging_client"
  have c: "charge_commanded ?d" "is_online demo_off (md_name ?d)" "sv_control_enabled demo_off = Some False" by code_simp+
  have t: "sg_now (demo_sights n False) \<le> we_now (sg_write (demo_sights n False) (md_name ?d))" for n
    by (simp add: demo_sights_def demo_env_def)
  obtain d1 s1 d2 s2 where
    e: "end_charge_on_disable (demo_sights 95 False) new_cycle_guard False ?d demo_off = (d1, s1)"
      "end_charge_on_disable (demo_sights 70 False) new_cycle_guard False ?d demo_off = (d2, s2)" by fastforce
  have due: "charge_exit_due ?d (sg_now (demo_sights 95 False))" "\<not> charge_exit_due ?d (sg_now (demo_sights 70 False))"
    "\<not> snd (full_charge_assist_exit_due (demo_sights 70 False) new_cycle_guard ?d demo_off)"
    "we_allowed (sg_write (demo_sights 95 False) (md_name ?d))" "posted demo_charging_client = []" by code_simp+
  have tr: "md_transport ?d = Local_api demo_charging_client" by (simp add: demo_managed_def)
  from switched_off_charge_gets_its_exit [OF c t e(1)] due tr
  have "\<exists>hc' field body ce. md_transport d1 = Local_api hc' \<and> posted hc' = [(field, body)] \<and> ends_charge ce 0 body"
    by fastforce
  moreover from switched_off_charge_gets_its_exit [OF c t e(2)] due have "d2 = ?d" by simp
  ultimately show ?thesis using e by simp
qed

definition demo_cycles_guarded :: "bool \<Rightarrow> (seconds \<times> bool) list \<Rightarrow> guarded_cycle list" where
  "demo_cycles_guarded assisting =
     map (\<lambda>(n, b). (demo_sights n assisting, [demo_managed ''a'' (new_http_client None)], b))"

theorem withheld_until_recovered_witness:
  "assist_ac_input_withheld (guard_run (demo_cycles_guarded False
      (zip [0, 5, 10, 15, 20] [False, False, False, True, True]))) \<and>
   \<not> assist_ac_input_withheld (guard_run (demo_cycles_guarded False
      (zip [0, 5, 10, 15, 20, 25] [False, False, False, True, True, True])))"
proof -
  let ?one = "demo_cycles_guarded False (zip [0, 5, 10, 15, 20] [False, False, False, True, True])"
  let ?two = "demo_cycles_guarded False (zip [0, 5, 10, 15, 20, 25] [False, False, False, True, True, True])"
  have m: "map went_through ?one = [False, False, False, True, True]"
    "map went_through ?two = [False, False, False, True, True, True]" by code_simp+
  have i: "list_all assist_idle ?two" by code_simp
  have "failed_and_not_recovered [False, False, False, True, True]"
    unfolding failed_and_not_recovered_def
    by (intro exI [of _ "[]"] exI [of _ "[True, True]"]) (simp add: sublist_code)
  moreover have "\<not> failed_and_not_recovered [False, False, False, True, True, True]"
    by (simp add: unrecovered_rev unrecovered_failed unrecovered_through)
  ultimately show ?thesis
    using withheld_until_recovered [of ?one] withheld_until_recovered [of ?two] m i by simp
qed

end
