(* ===== verification/Control_Writes.thy ===== *)
theory Control_Writes
  imports Charge_Supervision
begin

text \<open>
  The end of a control cycle of \<open>ems/controller.py\<close>: which devices the program commands, what each
  target becomes behind the operator's permissions and limits, the night idle, and the writes
  themselves, with the write gates of \<open>ems/config.py\<close>.

  \<open>output_supply\<close> holds what the configuration and the operator say of a device's output. The loop that
  writes is \<open>apply_control\<close> over the devices, each with its report and its effective target; a device
  that is not written has a waiting target of its transport retired. The explanations built for the
  dashboard compute decisions of their own and are left out, as are the log lines.

  Proved: nothing is put on any device's wire but a target of the cycle for a device the program
  commands, within its limits, and never an output the operator forbade; the night idle
  writes a parked device nothing more; switching control off and on keeps the hour's charge entries.
\<close>

section \<open>Write gates\<close>

record gate_flags =
  dry_run :: bool
  simulation_mode :: bool
  replay :: bool
  allow_hardware_writes :: bool
  allow_mqtt_local_control_writes :: bool
  allow_mqtt_zendure_control_writes :: bool
  allow_state_reconciliation_writes :: bool

record write_gate_decision =
  wg_allowed :: bool
  wg_transport :: string
  wg_gate_name :: string
  wg_gate_enabled :: bool
  wg_blocked_by :: "string list"

definition control_gate_transport :: "(string \<times> string \<times> string \<times> (gate_flags \<Rightarrow> bool)) list" where
  "control_gate_transport =
     [(''api'', ''http'', ''allow_hardware_writes'', allow_hardware_writes),
      (''mqtt_local'', ''mqtt_local'', ''allow_mqtt_local_control_writes'', allow_mqtt_local_control_writes),
      (''mqtt_zendure'', ''mqtt_zendure'', ''allow_mqtt_zendure_control_writes'', allow_mqtt_zendure_control_writes)]"

definition resolve_write_gate :: "gate_flags \<Rightarrow> string \<Rightarrow> write_gate_decision" where
  "resolve_write_gate f control_gate =
     (case map_of control_gate_transport control_gate of
        None \<Rightarrow> \<lparr>wg_allowed = False, wg_transport = ''unknown'', wg_gate_name = ''unknown_control_gate'',
          wg_gate_enabled = False, wg_blocked_by = [''unknown_control_gate'']\<rparr>
      | Some (transport_name, gate, flag) \<Rightarrow>
          let bl = (if dry_run f then [''dry_run''] else []) @
                (if simulation_mode f then [''simulation_mode''] else []) @
                (if replay f then [''replay_mode''] else []) @ (if \<not> flag f then [gate] else [])
          in \<lparr>wg_allowed = (bl = []), wg_transport = transport_name, wg_gate_name = gate,
               wg_gate_enabled = flag f, wg_blocked_by = bl\<rparr>)"

definition with_state_reconciliation_gate :: "write_gate_decision \<Rightarrow> bool \<Rightarrow> write_gate_decision" where
  "with_state_reconciliation_gate g allow =
     (let bl = wg_blocked_by g @ (if \<not> allow then [''allow_state_reconciliation_writes''] else [])
      in g\<lparr>wg_allowed := (bl = []), wg_blocked_by := bl\<rparr>)"

definition resolve_state_write_gate :: "gate_flags \<Rightarrow> string \<Rightarrow> write_gate_decision" where
  "resolve_state_write_gate f control_gate =
     with_state_reconciliation_gate (resolve_write_gate f control_gate) (allow_state_reconciliation_writes f)"

definition state_reconciliation_writes_allowed :: "gate_flags \<Rightarrow> string \<Rightarrow> bool" where
  "state_reconciliation_writes_allowed f control_gate = wg_allowed (resolve_state_write_gate f control_gate)"

text \<open>
  A gate allows a write exactly if the transport is known, its own switch is on and neither a dry
  run, a simulation nor a replay is on; a state write needs that and the switch of its own.
\<close>

lemma write_gate_open:
  "wg_allowed (resolve_write_gate f cg) \<longleftrightarrow> \<not> dry_run f \<and> \<not> simulation_mode f \<and> \<not> replay f \<and>
     (cg = ''api'' \<and> allow_hardware_writes f \<or> cg = ''mqtt_local'' \<and> allow_mqtt_local_control_writes f \<or>
      cg = ''mqtt_zendure'' \<and> allow_mqtt_zendure_control_writes f)"
  by (auto simp: resolve_write_gate_def control_gate_transport_def Let_def split: option.splits if_splits)

lemma write_gate_reasons: "wg_allowed (resolve_write_gate f cg) \<longleftrightarrow> wg_blocked_by (resolve_write_gate f cg) = []"
  by (auto simp: resolve_write_gate_def Let_def split: option.splits)

lemma state_gate_open:
  "state_reconciliation_writes_allowed f cg \<longleftrightarrow>
     wg_allowed (resolve_write_gate f cg) \<and> allow_state_reconciliation_writes f"
  by (simp add: state_reconciliation_writes_allowed_def resolve_state_write_gate_def
      with_state_reconciliation_gate_def write_gate_reasons Let_def)

section \<open>Which devices are commanded\<close>

record output_supply =
  su_discharge :: "string \<Rightarrow> bool"
  su_max_power :: "string \<Rightarrow> watts"
  su_min_output :: watts
  su_deadband :: watts

datatype command_block = Block_offline | Block_device_disabled | Block_role "device_runtime_role option"

definition device_output_control_allowed :: "supervision \<Rightarrow> string \<Rightarrow> bool" where
  "device_output_control_allowed sv name =
     (case sv_intents sv name of None \<Rightarrow> True | Some i \<Rightarrow> output_control_allowed i)"

definition runtime_role_block_reason :: "supervision \<Rightarrow> string \<Rightarrow> command_block" where
  "runtime_role_block_reason sv name = Block_role (map_option intent_role (sv_intents sv name))"

definition device_command_block_reason :: "sights \<Rightarrow> supervision \<Rightarrow> string \<Rightarrow> command_block option" where
  "device_command_block_reason sg sv name =
     (if \<not> is_online sv name then Some Block_offline
      else if \<not> sg_device_enabled sg name then Some Block_device_disabled
      else if \<not> device_output_control_allowed sv name then Some (runtime_role_block_reason sv name)
      else None)"

definition device_commandable :: "sights \<Rightarrow> supervision \<Rightarrow> string \<Rightarrow> bool" where
  "device_commandable sg sv name \<longleftrightarrow> device_command_block_reason sg sv name = None"

definition device_may_supply :: "sights \<Rightarrow> output_supply \<Rightarrow> supervision \<Rightarrow> string \<Rightarrow> bool" where
  "device_may_supply sg su sv name \<longleftrightarrow> device_commandable sg sv name \<and> su_discharge su name"

definition active_online_device_indexes ::
  "sights \<Rightarrow> output_supply \<Rightarrow> managed_device list \<Rightarrow> supervision \<Rightarrow> nat list" where
  "active_online_device_indexes sg su ds sv =
     filter (\<lambda>i. device_may_supply sg su sv (md_name (ds ! i))) [0 ..< length ds]"

text \<open>\<open>preview\<close> is a dry run, a simulation or a replay.\<close>

definition claim_eligible_devices ::
  "sights \<Rightarrow> output_supply \<Rightarrow> bool \<Rightarrow> (string \<Rightarrow> bool) \<Rightarrow> managed_device list \<Rightarrow> supervision \<Rightarrow> bool list" where
  "claim_eligible_devices sg su preview gate_enabled ds sv =
     (let commandable = map (\<lambda>d. device_may_supply sg su sv (md_name d)) ds;
          gated = map (\<lambda>d. gate_enabled (md_name d)) ds
      in if preview then commandable
         else if \<not> list_ex id gated then commandable
         else map2 (\<and>) commandable gated)"

text \<open>The reasons a device is kept from the output.\<close>

definition intent_filtered_capabilities ::
  "output_supply \<Rightarrow> supervision \<Rightarrow> (managed_device \<times> device_capabilities) list \<Rightarrow> device_capabilities list" where
  "intent_filtered_capabilities su sv dcs =
     map (\<lambda>(d, c).
       let kept = (\<lambda>why. \<lparr>can_charge = can_charge c, can_discharge = False, can_export = False,
             can_ac_charge = can_ac_charge c, reason = why, export_held = False\<rparr>)
       in if \<not> device_output_control_allowed sv (md_name d)
          then kept (case sv_intents sv (md_name d) of None \<Rightarrow> ''runtime_role_blocked''
                     | Some i \<Rightarrow> (case intent_role i of ROLE_AC_OUTPUT \<Rightarrow> ''runtime_role_ac_output''
                                 | ROLE_AC_INPUT \<Rightarrow> ''runtime_role_ac_input''))
          else if \<not> su_discharge su (md_name d) then kept ''ac_discharge_disabled''
          else c) dcs"

definition effective_control_target ::
  "sights \<Rightarrow> output_supply \<Rightarrow> bool \<Rightarrow> supervision \<Rightarrow> string \<Rightarrow> watts \<Rightarrow> watts" where
  "effective_control_target sg su enabled sv name target =
     (if \<not> enabled \<or> \<not> device_commandable sg sv name then 0
      else
        let charge_floor = of_int (device_charge_floor_w (sv_regulator sv) name)
        in if target < 0 \<and> charge_floor < 0 then max charge_floor target
           else if \<not> su_discharge su name then 0
           else
             let t = (if 0 < su_min_output su then max target (su_min_output su) else target)
             in max 0 (min (su_max_power su name) t))"

definition effective_control_targets ::
  "sights \<Rightarrow> output_supply \<Rightarrow> bool \<Rightarrow> supervision \<Rightarrow> managed_device list \<Rightarrow> watts list \<Rightarrow> watts list" where
  "effective_control_targets sg su enabled sv ds targets =
     map2 (\<lambda>d. effective_control_target sg su enabled sv (md_name d)) ds targets"

section \<open>The writes of a cycle\<close>

definition retire_pending_output_limit :: "string \<Rightarrow> managed_device \<Rightarrow> managed_device" where
  "retire_pending_output_limit why d =
     (case md_transport d of
        Local_api _ \<Rightarrow> d
      | Mqtt_control c cl \<Rightarrow> d\<lparr>md_transport := Mqtt_control c (discard_pending_target why cl)\<rparr>)"

text \<open>What a device is doing now, on the signed axis of the targets.\<close>

definition charge_reference_w :: "sights \<Rightarrow> supervision \<Rightarrow> managed_device \<Rightarrow> device_state \<Rightarrow> int" where
  "charge_reference_w sg sv d s =
     (let ends_a_charge = (write_can_end_a_charge sg sv d \<and> \<not> settling_out_of_charge s);
          drawn = (if ends_a_charge then max 0 (grid_input s) else 0)
      in if ends_a_charge \<and> drawn = 0 \<and> ac_mode s = AC_MODE_INPUT then max 0 (input_limit_w s) else drawn)"

definition deadband_reference :: "sights \<Rightarrow> supervision \<Rightarrow> managed_device \<Rightarrow> device_state \<Rightarrow> watts" where
  "deadband_reference sg sv d s =
     (let charge = charge_reference_w sg sv d s
      in if 0 < charge then - of_int charge
         else if 0 < output_limit s then output_limit s
         else output_w s)"

datatype write_skip =
    control_disabled_skip_write | offline_skip_write | device_disabled_skip_write
  | runtime_role_skip_output_limit | deadband_skip_write

fun skip_name :: "write_skip \<Rightarrow> string" where
  "skip_name control_disabled_skip_write = ''control_disabled_skip_write''"
| "skip_name offline_skip_write = ''offline_skip_write''"
| "skip_name device_disabled_skip_write = ''device_disabled_skip_write''"
| "skip_name runtime_role_skip_output_limit = ''runtime_role_skip_output_limit''"
| "skip_name deadband_skip_write = ''deadband_skip_write''"

definition write_skipped ::
  "sights \<Rightarrow> output_supply \<Rightarrow> bool \<Rightarrow> supervision \<Rightarrow> managed_device \<Rightarrow> device_state \<Rightarrow> watts \<Rightarrow> write_skip option" where
  "write_skipped sg su enabled sv d s target =
     (let name = md_name d in
      if \<not> enabled then Some control_disabled_skip_write
      else if \<not> is_online sv name then Some offline_skip_write
      else if \<not> sg_device_enabled sg name then Some device_disabled_skip_write
      else if \<not> device_output_control_allowed sv name then Some runtime_role_skip_output_limit
      else if unproven_charge_exit sv name = None \<and>
        \<bar>target - deadband_reference sg sv d s\<bar> < su_deadband su then Some deadband_skip_write
      else None)"

definition apply_control_device ::
  "sights \<Rightarrow> output_supply \<Rightarrow> bool \<Rightarrow> managed_device \<times> device_state \<times> watts \<Rightarrow> supervision \<Rightarrow>
   managed_device \<times> supervision" where
  "apply_control_device sg su enabled x sv =
     (case x of (d, s, target) \<Rightarrow>
       (case write_skipped sg su enabled sv d s target of
          Some why \<Rightarrow> (retire_pending_output_limit (skip_name why) d, sv)
        | None \<Rightarrow>
            let (d1, written) = set_output_limit (sg_write sg (md_name d)) (py_int target)
                  (unproven_charge_exit sv (md_name d)) d
            in (d1, note_unproven_charge_exit (md_name d) target written sv)))"

definition apply_control ::
  "sights \<Rightarrow> output_supply \<Rightarrow> bool \<Rightarrow> (managed_device \<times> device_state \<times> watts) list \<Rightarrow> supervision \<Rightarrow>
   managed_device list \<times> supervision" where
  "apply_control sg su enabled = each_device (apply_control_device sg su enabled)"

section \<open>Switching control on and off\<close>

definition note_control_enabled ::
  "sights \<Rightarrow> bool \<Rightarrow> managed_device list \<Rightarrow> supervision \<Rightarrow> supervision" where
  "note_control_enabled sg enabled ds sv =
     (let sv1 =
        (if enabled \<and> sv_control_enabled sv = Some False
         then
           let st = reset_output_control_state (sv_regulator sv);
               st1 = (if \<not> (\<exists>d \<in> set ds. charge_commanded d \<and> sg_device_enabled sg (md_name d))
                      then st\<lparr>charge_direction := initial_direction_state\<lparr>entries := entries (charge_direction st)\<rparr>,
                              charge_capacity_w := 0, device_charge_limits := Map.empty\<rparr>
                      else st)
           in sv\<lparr>sv_regulator := st1\<rparr>
         else sv)
      in sv1\<lparr>sv_control_enabled := Some enabled\<rparr>)"

section \<open>Night idle\<close>

record night_idle =
  idle_active :: bool
  idle_parked :: "string set"

definition no_idle :: night_idle where
  "no_idle = \<lparr>idle_active = False, idle_parked = {}\<rparr>"

definition state_is_strict_night_min_soc_idle :: "device_state \<Rightarrow> bool" where
  "state_is_strict_night_min_soc_idle s \<longleftrightarrow>
     (solar s = 0 \<and> solar1 s = 0 \<and> solar2 s = 0 \<and> solar3 s = 0 \<and> solar4 s = 0) \<and>
     (pack_in s = 0 \<and> pack_out s = 0 \<and> output_w s = 0) \<and>
     (battery_presence s = BATTERY_ABSENT \<or> soc s \<le> min_soc s \<or> soc_limit s = 2)"

definition night_min_soc_idle_should_enter :: "device_state list \<Rightarrow> nat list \<Rightarrow> bool" where
  "night_min_soc_idle_should_enter states indexes \<longleftrightarrow>
     indexes \<noteq> [] \<and> (\<forall>i \<in> set indexes. state_is_strict_night_min_soc_idle (states ! i))"

text \<open>Leaving the idle forgets the output memory.\<close>

definition leave_idle :: "night_idle \<times> supervision \<Rightarrow> night_idle \<times> supervision" where
  "leave_idle st =
     (case st of (ni, sv) \<Rightarrow>
       (no_idle, if idle_active ni then sv\<lparr>sv_regulator := reset_output_control_state (sv_regulator sv)\<rparr> else sv))"

definition update_night_min_soc_idle_state ::
  "device_state list \<Rightarrow> nat list \<Rightarrow> bool \<Rightarrow> watts \<Rightarrow> bool \<Rightarrow> night_idle \<times> supervision \<Rightarrow>
   (night_idle \<times> supervision) \<times> bool" where
  "update_night_min_soc_idle_state states indexes enabled min_output charge_pending st =
     (let ni = fst st in
      if \<not> enabled \<or> min_output \<le> 0 \<or> indexes = [] then (leave_idle st, False)
      else if idle_active ni \<and> (\<exists>i \<in> set indexes. 0 < pv_power (states ! i)) then (leave_idle st, False)
      else if charge_pending then (if idle_active ni then leave_idle st else st, False)
      else if night_min_soc_idle_should_enter states indexes
      then ((\<lparr>idle_active = True, idle_parked = (if idle_active ni then idle_parked ni else {})\<rparr>, snd st), True)
      else (if idle_active ni then leave_idle st else st, False))"

text \<open>A device with its report and whether the idle parks it.\<close>

type_synonym night_device = "managed_device \<times> device_state \<times> bool"

definition end_charge_not_parked ::
  "sights \<Rightarrow> night_device \<Rightarrow> supervision \<Rightarrow> managed_device \<times> supervision" where
  "end_charge_not_parked sg x sv =
     (case x of (d, s, parks) \<Rightarrow>
       let name = md_name d; found = unproven_charge_exit sv name
       in if parks \<or> \<not> device_commandable sg sv name then (d, sv)
          else if \<not> charge_commanded d \<and> found = None then (d, sv)
          else if charge_exit_pending sg d then (d, sv)
          else let (d1, written) = set_output_limit (sg_write sg name) 0 found d
               in (d1, note_unproven_charge_exit name 0 written sv))"

definition park_device ::
  "sights \<Rightarrow> watts \<Rightarrow> night_device \<Rightarrow> night_idle \<times> supervision \<Rightarrow> managed_device \<times> night_idle \<times> supervision" where
  "park_device sg min_output x st =
     (case x of (d, s, parks) \<Rightarrow> case st of (ni, sv) \<Rightarrow>
       let name = md_name d; found = unproven_charge_exit sv name;
           exit_owed = (charge_commanded d \<or> found \<noteq> None);
           parked = (\<lambda>n. n\<lparr>idle_parked := insert name (idle_parked n)\<rparr>)
       in if \<not> parks then (d, ni, sv)
          else if exit_owed \<and> charge_exit_pending sg d then (d, ni, sv)
          else if \<not> exit_owed \<and> name \<in> idle_parked ni then (d, ni, sv)
          else if \<not> exit_owed \<and> output_limit s = min_output then (d, parked ni, sv)
          else
            let (d1, written) = set_output_limit (sg_write sg name) (py_int min_output) found d
            in (d1, (if write_accepted written \<and> \<not> charge_commanded d then parked ni else ni),
                note_unproven_charge_exit name min_output written sv))"

definition apply_night_min_soc_idle_control ::
  "sights \<Rightarrow> watts \<Rightarrow> night_device list \<Rightarrow> night_idle \<times> supervision \<Rightarrow>
   managed_device list \<times> night_idle \<times> supervision" where
  "apply_night_min_soc_idle_control sg min_output xs st =
     (case st of (ni, sv) \<Rightarrow>
       let (ds1, sv1) = each_device (end_charge_not_parked sg) xs sv
       in each_device (park_device sg min_output) (zip ds1 (map snd xs)) (ni, sv1))"

text \<open>
  The idle's part of \<open>run_once\<close>: with the idle the waiting targets are retired, the devices parked and
  the cycle is over; without it the cycle goes on, which \<open>None\<close> stands for. Each device comes with its
  report and whether it may be charged.
\<close>

definition night_idle_cycle ::
  "sights \<Rightarrow> output_supply \<Rightarrow> bool \<Rightarrow> bool \<Rightarrow> watts \<Rightarrow> (managed_device \<times> device_state \<times> bool) list \<Rightarrow>
   night_idle \<times> supervision \<Rightarrow> managed_device list option \<times> night_idle \<times> supervision" where
  "night_idle_cycle sg su enabled meter_fresh load xs st =
     (let ds = map fst xs; states = map (\<lambda>(_, s, _). s) xs; chargeable = map (\<lambda>(_, _, c). c) xs;
          releasable = sum_list (map (\<lambda>(_, s, c). if c then max 0 (py_int (output_w s)) else 0) xs);
          indexes = active_online_device_indexes sg su ds (snd st);
          ((ni, sv), idle) = update_night_min_soc_idle_state states indexes enabled (su_min_output su)
            (charging (sv_direction (snd st))) st
      in if \<not> idle then (None, ni, sv)
         else
           let (r, _) = take_charge_decision (sg_settings sg) meter_fresh 0 load load chargeable (of_int releasable)
                 (sg_now sg) (sv_regulator sv);
               sv1 = sv\<lparr>sv_regulator := r\<rparr>;
               retired = map (retire_pending_output_limit ''night_min_soc_idle'') ds;
               (ds1, st1) = apply_night_min_soc_idle_control sg (su_min_output su)
                 (map (\<lambda>i. (retired ! i, states ! i, i \<in> set indexes)) [0 ..< length ds]) (ni, sv1)
           in (Some ds1, st1))"

section \<open>What goes out on the wire\<close>

text \<open>A body says the signed target it carries, as a message does.\<close>

definition body_target :: "properties \<Rightarrow> int" where
  "body_target body = (case map_of body ''outputLimit'' of None \<Rightarrow> 0 | Some w \<Rightarrow> w) -
     (case map_of body ''inputLimit'' of None \<Rightarrow> 0 | Some w \<Rightarrow> w)"

fun wire_targets :: "transport_client \<Rightarrow> int option list" where
  "wire_targets (Local_api hc) = map (\<lambda>(_, body). Some (body_target body)) (posted hc)"
| "wire_targets (Mqtt_control _ cl) = map (payload_target \<circ> payload) (submitted cl)"

fun waiting_target :: "transport_client \<Rightarrow> int option" where
  "waiting_target (Local_api _) = None"
| "waiting_target (Mqtt_control _ cl) = pending_target cl"

lemma power_set_input: "t < 0 \<Longrightarrow> power_set t =
    [(''smartMode'', 1), (''acMode'', 1), (''outputLimit'', 0), (''inputLimit'', - t)]"
  by (simp add: power_set_def operation_for_target_def Let_def)

lemma body_targets [simp]:
  "body_target (power_set t) = t" "body_target [(''outputLimit'', t)] = t"
  "body_target [(''inputLimit'', w)] = - w"
  by (cases "t < 0"; simp add: body_target_def power_set_input power_set_output)+

text \<open>At most the target went out.\<close>

definition sent_at_most :: "int \<Rightarrow> int option list \<Rightarrow> int option list \<Rightarrow> bool" where
  "sent_at_most t before after \<longleftrightarrow> after = before \<or> after = before @ [Some t]"

lemma http_exit_sends:
  assumes "ce \<noteq> Some CHARGE_EXIT_IN_INPUT"
  shows "sent_at_most t (wire_targets (Local_api hc)) (wire_targets (Local_api (fst (http_dispatch_exit a n t ce hc))))"
  using assms
  by (simp add: http_dispatch_exit_def zendure_write_def Let_def sent_at_most_def)

lemma http_charge_sends:
  assumes "t < 0"
  shows "sent_at_most t (wire_targets (Local_api hc)) (wire_targets (Local_api (fst (http_dispatch_charge a t hc))))"
  using assms by (cases "hc_profile hc")
    (simp_all add: http_dispatch_charge_def zendure_write_def Let_def power_set_input sent_at_most_def body_target_def)

lemma http_dispatch_sends:
  assumes "ce \<noteq> Some CHARGE_EXIT_IN_INPUT"
  shows "sent_at_most t (wire_targets (Local_api hc))
    (wire_targets (Local_api (fst (http_dispatch_output_limit a n t ce hc))))"
proof (cases "t < 0")
  case True
  then show ?thesis using http_charge_sends [OF True] by (simp add: http_dispatch_output_limit_def)
next
  case False
  then show ?thesis
    using http_exit_sends [OF assms, of t hc a n]
    by (auto simp: http_dispatch_output_limit_def http_write_output_limit_def zendure_write_def sent_at_most_def)
qed

lemma publish_sends:
  "sent_at_most t (wire_targets (Mqtt_control c cl))
     (wire_targets (Mqtt_control c (fst (publish_target c tr t n k f d cl))))"
  by (auto simp: publish_target_submits sent_at_most_def dest: build_write_carries split: sum.splits)

lemma publish_sends_submitted:
  assumes "submitted cl1 = submitted cl"
  shows "sent_at_most t (wire_targets (Mqtt_control c cl))
     (wire_targets (Mqtt_control c (fst (publish_target c tr t n k f d cl1))))"
  using publish_sends [of t c cl1 tr n k f d] assms by simp

lemma sent_nothing [simp]: "sent_at_most t w w"
  by (simp add: sent_at_most_def)

lemma in_flight_sends:
  "sent_at_most t (wire_targets (Mqtt_control c cl)) (wire_targets (Mqtt_control c (fst (dispatch_in_flight c tr t ce n r cl))))"
proof -
  have "sent_at_most t (wire_targets (Mqtt_control c cl)) (wire_targets (Mqtt_control c (fst
      (publish_target c tr t n k f d (discard_pending_target why (release_superseded q cl))))))" for k f d why q
    by (rule publish_sends_submitted) simp
  then show ?thesis by (simp add: dispatch_in_flight_def next_dispatch_correlation_id_def Let_def split_beta)
qed

lemma free_sends:
  "sent_at_most t (wire_targets (Mqtt_control c cl)) (wire_targets (Mqtt_control c (fst (dispatch_free c tr t ce n cl))))"
proof -
  have "sent_at_most t (wire_targets (Mqtt_control c cl)) (wire_targets (Mqtt_control c (fst
      (publish_target c tr t n k f d (discard_pending_target why cl)))))" for k f d why
    by (rule publish_sends_submitted) simp
  moreover have "sent_at_most t (wire_targets (Mqtt_control c cl)) (wire_targets (Mqtt_control c (fst
      (publish_target c tr t n k f d (cl\<lparr>pending_target := None, pending_correlation_id := None\<rparr>)))))" for k f d
    by (rule publish_sends_submitted) simp
  ultimately show ?thesis by (simp add: dispatch_free_def Let_def)
qed

lemma mqtt_dispatch_sends:
  "sent_at_most t (wire_targets (Mqtt_control c cl))
     (wire_targets (Mqtt_control c (fst (dispatch_output_limit c tr (PyInt t) ce n cl))))"
  using in_flight_sends [of t c "expire_active_command c n cl"] free_sends [of t c "expire_active_command c n cl"]
  by (simp add: dispatch_output_limit_def Let_def split: sum.splits option.splits)

lemma set_output_limit_sends:
  assumes "ce \<noteq> Some CHARGE_EXIT_IN_INPUT"
  shows "sent_at_most t (wire_targets (md_transport d)) (wire_targets (md_transport (fst (set_output_limit e t ce d))))"
  using http_dispatch_sends [OF assms] mqtt_dispatch_sends
  by (cases "md_transport d") (simp_all add: set_output_limit_def split_beta)

section \<open>A cycle writes within the permissions\<close>

text \<open>The loop that writes changes nothing of the controller but which devices are watched.\<close>

definition same_but_watched :: "string \<Rightarrow> supervision \<Rightarrow> supervision \<Rightarrow> bool" where
  "same_but_watched name s t \<longleftrightarrow> t = s\<lparr>sv_watched := sv_watched t\<rparr>"

lemma same_but_watched_refl [simp]: "same_but_watched name s s"
  by (simp add: same_but_watched_def)

lemma watch_watched: "same_but_watched name s t \<Longrightarrow> same_but_watched name s (watch m t)"
  by (cases s; cases t) (simp add: same_but_watched_def watch_def)

lemma note_unproven_watched:
  "same_but_watched name s t \<Longrightarrow> same_but_watched name s (note_unproven_charge_exit m w r t)"
  by (simp add: note_unproven_charge_exit_def watch_watched)

lemma watched_irrelevant [simp]:
  "is_online (s\<lparr>sv_watched := W\<rparr>) = is_online s"
  "unproven_charge_exit (s\<lparr>sv_watched := W\<rparr>) = unproven_charge_exit s"
  "device_output_control_allowed (s\<lparr>sv_watched := W\<rparr>) = device_output_control_allowed s"
  "device_commandable sg (s\<lparr>sv_watched := W\<rparr>) = device_commandable sg s"
  "deadband_reference sg (s\<lparr>sv_watched := W\<rparr>) = deadband_reference sg s"
  "write_skipped sg su b (s\<lparr>sv_watched := W\<rparr>) = write_skipped sg su b s"
  by (simp_all add: fun_eq_iff is_online_def unproven_charge_exit_def device_output_control_allowed_def
      device_commandable_def device_command_block_reason_def runtime_role_block_reason_def
      deadband_reference_def charge_reference_w_def write_can_end_a_charge_def charge_commanded_by_ems_def
      control_switched_off_def write_skipped_def Let_def)

abbreviation control_name :: "managed_device \<times> device_state \<times> watts \<Rightarrow> string" where
  "control_name x \<equiv> md_name (fst x)"

lemma retire_name [simp]: "md_name (retire_pending_output_limit why d) = md_name d"
  by (simp add: retire_pending_output_limit_def split: transport_client.splits)

lemma retire_sends_nothing [simp]:
  "wire_targets (md_transport (retire_pending_output_limit why d)) = wire_targets (md_transport d)"
  "waiting_target (md_transport (retire_pending_output_limit why d)) = None"
  by (auto simp: retire_pending_output_limit_def discard_pending_target_def notify_def Let_def
      split: transport_client.splits option.splits)

lemma apply_control_device_same:
  "same_but_watched m s t \<Longrightarrow> same_but_watched m s (snd (apply_control_device sg su b x t))"
  by (cases x) (simp add: apply_control_device_def split_beta note_unproven_watched split: option.splits)

lemma apply_control_device_name: "md_name (fst (apply_control_device sg su b x t)) = control_name x"
  by (cases x) (simp add: apply_control_device_def split_beta split: option.splits)

interpretation writing: device_loop "apply_control_device sg su enabled" control_name same_but_watched
  by unfold_locales (simp_all add: apply_control_device_same apply_control_device_name)

text \<open>
  What a target may be: the device is one the program commands, the charge is within its floor, which
  is 0 unless the direction is charging, the output within its power, and 0 where the operator forbade
  it.
\<close>

definition permitted_target :: "sights \<Rightarrow> output_supply \<Rightarrow> supervision \<Rightarrow> string \<Rightarrow> int \<Rightarrow> bool" where
  "permitted_target sg su sv name w \<longleftrightarrow> device_commandable sg sv name \<and>
     device_charge_floor_w (sv_regulator sv) name \<le> w \<and> of_int w \<le> max 0 (su_max_power su name) \<and>
     (su_discharge su name \<or> w \<le> 0)"

lemma py_int_mono: "of_int a \<le> x \<Longrightarrow> a \<le> 0 \<Longrightarrow> a \<le> py_int x"
  by (auto simp: py_int_def le_floor_iff) linarith+

lemma py_int_le:
  assumes "0 \<le> m" and "x \<le> m" shows "of_int (py_int x) \<le> m"
proof (cases "0 \<le> x")
  case True
  then show ?thesis using assms(2) by (simp add: py_int_def) linarith
next
  case False
  then have "\<lceil>x\<rceil> \<le> 0" by (simp add: ceiling_le_iff)
  then have "rat_of_int \<lceil>x\<rceil> \<le> 0" by simp
  then show ?thesis using False assms(1) by (simp add: py_int_def del: of_int_le_0_iff)
qed

lemma effective_target_permitted:
  assumes "enabled" and "device_commandable sg sv name"
  shows "permitted_target sg su sv name (py_int (effective_control_target sg su enabled sv name target))"
proof -
  let ?t = "effective_control_target sg su enabled sv name target"
  let ?floor = "device_charge_floor_w (sv_regulator sv) name"
  have f: "?floor \<le> 0" by (rule device_floor_nonpos)
  have "of_int ?floor \<le> ?t" "?t \<le> max 0 (su_max_power su name)" "su_discharge su name \<or> ?t \<le> 0"
    using f assms by (auto simp: effective_control_target_def Let_def)
  then show ?thesis
    using assms(2) f py_int_mono [of ?floor ?t] py_int_le [of "max 0 (su_max_power su name)" ?t] py_int_le [of 0 ?t]
    by (auto simp: permitted_target_def)
qed

text \<open>
  A device the cycle owes its write over the local API: commanded, off the deadband, with its gate
  open, no charge on record and no found charge to end.
\<close>

definition owed_a_write ::
  "sights \<Rightarrow> output_supply \<Rightarrow> bool \<Rightarrow> supervision \<Rightarrow> managed_device \<Rightarrow> device_state \<Rightarrow> watts \<Rightarrow> bool" where
  "owed_a_write sg su enabled sv d s target \<longleftrightarrow> enabled \<and> device_commandable sg sv (md_name d) \<and>
     we_allowed (sg_write sg (md_name d)) \<and> supports_state_reconciliation (md_transport d) \<and>
     \<not> charge_commanded d \<and> unproven_charge_exit sv (md_name d) = None \<and> 0 \<le> target \<and>
     su_deadband su \<le> \<bar>target - deadband_reference sg sv d s\<bar>"

definition written_in_cycle ::
  "sights \<Rightarrow> output_supply \<Rightarrow> bool \<Rightarrow> supervision \<Rightarrow> managed_device \<times> device_state \<times> watts \<Rightarrow> managed_device \<Rightarrow> bool" where
  "written_in_cycle sg su enabled sv x d' \<longleftrightarrow>
     (case x of (d, s, target) \<Rightarrow> \<exists>sent. md_name d' = md_name d \<and>
       wire_targets (md_transport d') = wire_targets (md_transport d) @ sent \<and>
       (sent = [] \<or> enabled \<and> sent = [Some (py_int target)] \<and>
          permitted_target sg su sv (md_name d) (py_int target)) \<and>
       (owed_a_write sg su enabled sv d s target \<longrightarrow> sent = [Some (py_int target)]) \<and>
       (write_skipped sg su enabled sv d s target \<noteq> None \<longrightarrow>
          sent = [] \<and> waiting_target (md_transport d') = None))"

lemma write_skipped_none:
  "write_skipped sg su enabled sv d s target = None \<longleftrightarrow> enabled \<and> device_commandable sg sv (md_name d) \<and>
     (unproven_charge_exit sv (md_name d) = None \<longrightarrow> su_deadband su \<le> \<bar>target - deadband_reference sg sv d s\<bar>)"
  by (auto simp: write_skipped_def device_commandable_def device_command_block_reason_def Let_def)

lemma local_write_goes_out:
  assumes "we_allowed e" and "supports_state_reconciliation (md_transport d)" and "\<not> charge_commanded d" and "0 \<le> t"
  shows "wire_targets (md_transport (fst (set_output_limit e t None d))) = wire_targets (md_transport d) @ [Some t]"
  using assms
  by (cases "md_transport d") (simp_all add: set_output_limit_def split_beta charge_commanded_def
      http_dispatch_output_limit_def http_write_output_limit_def zendure_write_def)

lemma apply_control_device_writes:
  assumes "apply_control_device sg su enabled (d, s, effective_control_target sg su enabled sv (md_name d) raw) t = (d', t')"
    and "same_but_watched (md_name d) sv t"
  shows "written_in_cycle sg su enabled sv (d, s, effective_control_target sg su enabled sv (md_name d) raw) d'"
proof -
  let ?target = "effective_control_target sg su enabled sv (md_name d) raw"
  obtain W where t: "t = sv\<lparr>sv_watched := W\<rparr>" using assms(2) by (auto simp: same_but_watched_def)
  show ?thesis
  proof (cases "write_skipped sg su enabled sv d s ?target")
    case (Some why)
    then have "d' = retire_pending_output_limit (skip_name why) d"
      using assms(1) by (simp add: apply_control_device_def t)
    moreover have "\<not> owed_a_write sg su enabled sv d s ?target"
      using Some write_skipped_none [of sg su enabled sv d s ?target] by (auto simp: owed_a_write_def)
    ultimately show ?thesis by (simp add: written_in_cycle_def)
  next
    case None
    then have c: "enabled" "device_commandable sg sv (md_name d)" by (simp_all add: write_skipped_none)
    let ?e = "sg_write sg (md_name d)" and ?ce = "unproven_charge_exit sv (md_name d)"
    have d': "d' = fst (set_output_limit ?e (py_int ?target) ?ce d)"
      using assms(1) None by (simp add: apply_control_device_def t split_beta)
    have "?ce \<noteq> Some CHARGE_EXIT_IN_INPUT" by (simp add: unproven_charge_exit_def)
    from set_output_limit_sends [OF this, of "py_int ?target" d ?e] d'
    obtain sent where "wire_targets (md_transport d') = wire_targets (md_transport d) @ sent"
      "sent = [] \<or> sent = [Some (py_int ?target)]" by (auto simp: sent_at_most_def)
    moreover have "owed_a_write sg su enabled sv d s ?target \<Longrightarrow>
        wire_targets (md_transport d') = wire_targets (md_transport d) @ [Some (py_int ?target)]"
      unfolding d' using local_write_goes_out [of ?e d "py_int ?target"] py_int_mono [of 0 ?target]
      by (auto simp: owed_a_write_def)
    ultimately show ?thesis
      using None c effective_target_permitted [OF c, of su raw] d'
      by (auto simp: written_in_cycle_def)
  qed
qed


section \<open>The night idle\<close>

text \<open>
  A device the idle has parked, or finds at the standby floor, is not written again, as long as it
  owes no exit; a device the idle does not park is written only the exit it owes, which is 0 W.
\<close>

definition owes_no_exit :: "supervision \<Rightarrow> managed_device \<Rightarrow> bool" where
  "owes_no_exit sv d \<longleftrightarrow> \<not> charge_commanded d \<and> unproven_charge_exit sv (md_name d) = None"

lemma parked_device_is_left_alone:
  assumes "owes_no_exit sv d" and "md_name d \<in> idle_parked ni \<or> output_limit s = w"
  shows "fst (park_device sg w (d, s, parks) (ni, sv)) = d \<and>
    snd (snd (park_device sg w (d, s, parks) (ni, sv))) = sv"
  using assms by (auto simp: park_device_def owes_no_exit_def Let_def)

lemma not_parked_gets_only_its_exit:
  shows "sent_at_most 0 (wire_targets (md_transport d))
    (wire_targets (md_transport (fst (end_charge_not_parked sg (d, s, parks) sv))))"
proof -
  have "unproven_charge_exit sv (md_name d) \<noteq> Some CHARGE_EXIT_IN_INPUT" by (simp add: unproven_charge_exit_def)
  from set_output_limit_sends [OF this] show ?thesis by (simp add: end_charge_not_parked_def split_beta Let_def)
qed

text \<open>
  A device over the local API that owes no exit, with its gate open and a device that takes the
  write.
\<close>

definition takes_the_park :: "sights \<Rightarrow> supervision \<Rightarrow> managed_device \<Rightarrow> bool" where
  "takes_the_park sg sv d \<longleftrightarrow> owes_no_exit sv d \<and> supports_state_reconciliation (md_transport d) \<and>
     we_allowed (sg_write sg (md_name d)) \<and>
     (case we_http (sg_write sg (md_name d)) of Http_status c \<Rightarrow> c < 300 | Http_raised \<Rightarrow> False)"

lemma local_park_write:
  assumes "takes_the_park sg sv d" and "0 \<le> t"
    and "set_output_limit (sg_write sg (md_name d)) t None d = (d', written)"
  shows "md_name d' = md_name d \<and> owes_no_exit sv d' \<and> write_accepted written \<and> \<not> write_withheld written \<and>
    wire_targets (md_transport d') = wire_targets (md_transport d) @ [Some t]"
  using assms
  by (cases "md_transport d") (auto simp: takes_the_park_def owes_no_exit_def charge_commanded_def
      set_output_limit_def http_dispatch_output_limit_def http_write_output_limit_def zendure_write_def
      zendure_write_succeeded_def http_written_def dispatch_published_def write_accepted_def write_withheld_def
      dispatch_accepted_def split: http_answer.splits)

lemma park_settles:
  assumes "takes_the_park sg sv d" and "0 \<le> w" and "park_device sg w (d, s, parks) (ni, sv) = (d', ni', sv')"
  shows "sv' = sv \<and> md_name d' = md_name d \<and> owes_no_exit sv d' \<and> idle_parked ni \<subseteq> idle_parked ni' \<and>
    (parks \<longrightarrow> md_name d \<in> idle_parked ni') \<and>
    sent_at_most (py_int w) (wire_targets (md_transport d)) (wire_targets (md_transport d')) \<and>
    (\<not> parks \<longrightarrow> d' = d)"
proof -
  obtain d1 r where wr: "set_output_limit (sg_write sg (md_name d)) (py_int w) None d = (d1, r)" by fastforce
  have "0 \<le> py_int w" using assms(2) py_int_mono [of 0 w] by simp
  from local_park_write [OF assms(1) this wr] assms(1,3) wr show ?thesis
    by (auto simp: park_device_def takes_the_park_def owes_no_exit_def note_unproven_charge_exit_def
        sent_at_most_def Let_def split: if_splits)
qed

abbreviation parking :: "sights \<Rightarrow> watts \<Rightarrow> night_device list \<Rightarrow> night_idle \<times> supervision \<Rightarrow>
    managed_device list \<times> night_idle \<times> supervision" where
  "parking sg w \<equiv> each_device (park_device sg w)"

lemma parking_settles:
  assumes "\<And>x. x \<in> set xs \<Longrightarrow> takes_the_park sg sv (fst x)" and "0 \<le> w" and "parking sg w xs (ni, sv) = (ds', ni', sv')"
  shows "sv' = sv \<and> idle_parked ni \<subseteq> idle_parked ni' \<and>
    list_all2 (\<lambda>(d, s, parks) d'. md_name d' = md_name d \<and> owes_no_exit sv d' \<and>
      (parks \<longrightarrow> md_name d \<in> idle_parked ni') \<and> (\<not> parks \<longrightarrow> d' = d) \<and>
      sent_at_most (py_int w) (wire_targets (md_transport d)) (wire_targets (md_transport d'))) xs ds'"
  using assms(1,3)
proof (induction xs arbitrary: ni ds')
  case (Cons x xs)
  obtain d s parks where x: "x = (d, s, parks)" by (metis prod_cases3)
  obtain d1 n1 s1 where one: "park_device sg w (d, s, parks) (ni, sv) = (d1, n1, s1)" by (metis prod_cases3)
  note p = park_settles [OF _ assms(2) one]
  obtain ds1 n2 s2 where rest: "parking sg w xs (n1, sv) = (ds1, n2, s2)" by (metis prod_cases3)
  have t: "takes_the_park sg sv d" using Cons.prems(1) [of x] x by simp
  have "s1 = sv" using p [OF t] by simp
  then have "ds' = d1 # ds1" "ni' = n2" "sv' = s2" using Cons.prems(2) one rest by (simp_all add: x each_device.simps(2))
  moreover note Cons.IH [OF _ rest [folded calculation(2,3)]] Cons.prems(1) p [OF t]
  ultimately show ?case by (auto simp: x)
qed simp

lemma each_unchanged:
  "(\<And>x. x \<in> set xs \<Longrightarrow> f x st = (fst x, st)) \<Longrightarrow> each_device f xs st = (map fst xs, st)"
  by (induction xs) (simp_all add: each_device.simps(2))

lemma nothing_to_end: "owes_no_exit sv (fst x) \<Longrightarrow> end_charge_not_parked sg x sv = (fst x, sv)"
  by (cases x) (simp add: end_charge_not_parked_def owes_no_exit_def Let_def)

lemma nothing_to_park:
  "owes_no_exit sv (fst x) \<Longrightarrow> snd (snd x) \<longrightarrow> md_name (fst x) \<in> idle_parked ni \<Longrightarrow>
   park_device sg w x (ni, sv) = (fst x, ni, sv)"
  by (cases x) (simp add: park_device_def owes_no_exit_def Let_def)

text \<open>
  C15. The night idle parks its devices once. Over the local API, where devices take the write and
  nothing is owed to a charge, the first cycle of the idle sends each parked device at most the
  standby floor and no other device anything; every cycle of the idle after it, whatever the devices
  report and whatever a write would meet, sends nothing and changes nothing.
\<close>

theorem night_idle_parks_once:
  assumes "list_all (\<lambda>x. takes_the_park sg sv (fst x)) xs" and "0 \<le> w"
    and "apply_night_min_soc_idle_control sg w xs (ni, sv) = (ds', ni', sv')"
    and "length reports = length xs"
  shows "list_all2 (\<lambda>(d, s, parks) d'. sent_at_most (py_int w) (wire_targets (md_transport d)) (wire_targets (md_transport d')) \<and>
      (parks \<or> d' = d)) xs ds' \<and>
    apply_night_min_soc_idle_control sg' w (zip ds' (zip reports (map (snd \<circ> snd) xs))) (ni', sv') = (ds', ni', sv')"
proof -
  have t: "takes_the_park sg sv (fst x)" if "x \<in> set xs" for x using assms(1) that by (simp add: list_all_iff)
  then have e: "owes_no_exit sv (fst x)" if "x \<in> set xs" for x using that by (simp add: takes_the_park_def)
  have "parking sg w xs (ni, sv) = (ds', ni', sv')"
    using assms(3) each_unchanged [of xs "end_charge_not_parked sg" sv] nothing_to_end e
    by (simp add: apply_night_min_soc_idle_control_def zip_map_fst_snd)
  note p = parking_settles [OF t assms(2) this]
  let ?again = "zip ds' (zip reports (map (snd \<circ> snd) xs))"
  have l: "length ds' = length xs" using list_all2_lengthD [OF conjunct2 [OF conjunct2 [OF p]]] by simp
  have quiet: "owes_no_exit sv (fst x) \<and> (snd (snd x) \<longrightarrow> md_name (fst x) \<in> idle_parked ni')" if "x \<in> set ?again" for x
    using that p l assms(4) by (fastforce simp: in_set_conv_nth list_all2_conv_all_nth split_beta)
  have m: "map fst ?again = ds'" using l assms(4) by simp
  have "apply_night_min_soc_idle_control sg' w ?again (ni', sv) = (ds', ni', sv)"
    using each_unchanged [of ?again "end_charge_not_parked sg'" sv] each_unchanged [of ?again "park_device sg' w" "(ni', sv)"]
      zip_map_fst_snd [of ?again] nothing_to_end nothing_to_park quiet
    by (simp add: apply_night_min_soc_idle_control_def m del: zip_map_fst_snd)
  moreover have "list_all2 (\<lambda>(d, s, parks) d'. sent_at_most (py_int w) (wire_targets (md_transport d))
      (wire_targets (md_transport d')) \<and> (parks \<or> d' = d)) xs ds'"
    by (rule list_all2_mono [OF conjunct2 [OF conjunct2 [OF p]]]) auto
  ultimately show ?thesis using p by simp
qed

text \<open>Switching control on and off keeps the entries of the hour, so it does not reset their limit.\<close>

lemma switching_control_keeps_entries:
  "entries (sv_direction (note_control_enabled sg b ds sv)) = entries (sv_direction sv)"
  by (simp add: note_control_enabled_def reset_output_control_state_def Let_def)

section \<open>A concrete cycle\<close>

definition demo_output_supply :: output_supply where
  "demo_output_supply = \<lparr>su_discharge = (\<lambda>n. n \<noteq> ''b''), su_max_power = (\<lambda>_. 800), su_min_output = 30, su_deadband = 10\<rparr>"

definition demo_write_cycle :: "(managed_device \<times> device_state \<times> watts) list" where
  "demo_write_cycle =
     (let ds = map (\<lambda>n. demo_managed n (new_http_client None)) [''a'', ''b'', ''c'']
      in zip ds (zip (replicate 3 ((demo_input AC_MODE_OUTPUT 0)\<lparr>output_limit := 400, output_w := 400\<rparr>))
           (effective_control_targets (demo_sights 5 False) demo_output_supply True new_supervision ds [900, 300, 405])))"


definition demo_night :: "night_device list" where
  "demo_night = map (\<lambda>(n, parks). (demo_managed n (new_http_client None), (demo_input AC_MODE_OUTPUT 0)\<lparr>output_limit := 400\<rparr>, parks))
     [(''a'', True), (''b'', False)]"

theorem night_idle_parks_once_witness:
  "\<exists>ds' ni' sv'. apply_night_min_soc_idle_control (demo_sights 5 False) 30 demo_night (no_idle, new_supervision) = (ds', ni', sv') \<and>
    map (wire_targets \<circ> md_transport) ds' = [[Some 30], []] \<and>
    apply_night_min_soc_idle_control (demo_sights 10 False) 30
      (zip ds' (zip [demo_input AC_MODE_OUTPUT 0, demo_input AC_MODE_OUTPUT 0] [True, False])) (ni', sv') = (ds', ni', sv')"
proof -
  let ?r = "apply_night_min_soc_idle_control (demo_sights 5 False) 30 demo_night (no_idle, new_supervision)"
  obtain ds' ni' sv' where r: "?r = (ds', ni', sv')" by (metis prod_cases3)
  have t: "list_all (\<lambda>x. takes_the_park (demo_sights 5 False) new_supervision (fst x)) demo_night" by code_simp
  have w: "map (wire_targets \<circ> md_transport) (fst ?r) = [[Some 30], []]" by code_simp
  have "map (snd \<circ> snd) demo_night = [True, False]" "length demo_night = 2" by code_simp+
  then show ?thesis
    using night_idle_parks_once [OF t _ r, of "[demo_input AC_MODE_OUTPUT 0, demo_input AC_MODE_OUTPUT 0]" "demo_sights 10 False"]
      r w by simp
qed

end
