(* ===== verification/Winter_Reserve.thy ===== *)
theory Winter_Reserve
  imports Target_Control
begin

text \<open>
  \<open>ems/winter_policies.py\<close>, \<open>ems/winter_reserve.py\<close> and the winter functions of \<open>ems/config.py\<close>:
  the daily plan that raises a battery's reserve (minSoc) in the winter months, and the hold that
  lets PV charge the battery before the house.

  \<open>winter_item\<close> is \<open>WinterDeviceState\<close> without the fields that only remember what was logged;
  \<open>winter_world\<close> adds the record the store keeps. A date is the number of its day, an instant a
  number of seconds. What a cycle meets outside the module is \<open>winter_env\<close>: whether there is a
  store, whether a load or a save succeeds, whether writes are allowed and the feature is on.

  Proved: every policy that is resolved fits the device's class; a step never goes above the
  winter reserve and leads the battery by little; what is finally written is no raise, or a raise
  that leads the battery by the allowed points and never lands on its SoC; and with a store at
  most one step is taken per day, through restarts, failing loads and failing saves.
\<close>

section \<open>Policies\<close>

datatype energy_class = PV_ONLY | PV_BATTERY | BATTERY_ONLY

datatype winter_step_kind = STEP_MORNING_PV | STEP_AT_HOUR

datatype policy_name = SOLAR_MORNING_STEP | NOON_STEP | NO_POLICY

definition MAX_RAISE_ABOVE_SOC :: int where "MAX_RAISE_ABOVE_SOC = 3"

record winter_policy =
  policy_name_of :: policy_name
  device_classes :: "energy_class list"
  step_kind :: "winter_step_kind option"
  step_may_lead_soc :: bool
  holds_export :: bool

definition step_lead :: "winter_policy \<Rightarrow> int" where
  "step_lead p = (if step_may_lead_soc p then 2 * MAX_RAISE_ABOVE_SOC else MAX_RAISE_ABOVE_SOC)"

fun POLICIES :: "policy_name \<Rightarrow> winter_policy" where
  "POLICIES SOLAR_MORNING_STEP =
     \<lparr>policy_name_of = SOLAR_MORNING_STEP, device_classes = [PV_BATTERY], step_kind = Some STEP_MORNING_PV,
      step_may_lead_soc = False, holds_export = True\<rparr>"
| "POLICIES NOON_STEP =
     \<lparr>policy_name_of = NOON_STEP, device_classes = [PV_BATTERY, BATTERY_ONLY], step_kind = Some STEP_AT_HOUR,
      step_may_lead_soc = True, holds_export = False\<rparr>"
| "POLICIES NO_POLICY =
     \<lparr>policy_name_of = NO_POLICY, device_classes = [PV_BATTERY, BATTERY_ONLY, PV_ONLY], step_kind = None,
      step_may_lead_soc = False, holds_export = False\<rparr>"

fun CLASS_DEFAULT_POLICIES :: "energy_class \<Rightarrow> policy_name" where
  "CLASS_DEFAULT_POLICIES PV_BATTERY = SOLAR_MORNING_STEP"
| "CLASS_DEFAULT_POLICIES BATTERY_ONLY = NOON_STEP"
| "CLASS_DEFAULT_POLICIES PV_ONLY = NO_POLICY"

text \<open>\<open>POLICIES.get(name)\<close> for a configured string.\<close>

definition policy_of_string :: "string \<Rightarrow> policy_name option" where
  "policy_of_string s =
     (if s = ''solar_morning_step'' then Some SOLAR_MORNING_STEP
      else if s = ''noon_step'' then Some NOON_STEP
      else if s = ''none'' then Some NO_POLICY else None)"

definition policy_names_for :: "energy_class \<Rightarrow> policy_name list" where
  "policy_names_for c =
     filter (\<lambda>n. c \<in> set (device_classes (POLICIES n))) [SOLAR_MORNING_STEP, NOON_STEP, NO_POLICY]"

text \<open>\<open>pv_kwp_zero\<close> is \<open>_is_zero\<close> of the configured array size.\<close>

definition device_parts :: "bool \<Rightarrow> bool \<Rightarrow> energy_class option \<Rightarrow> bool \<times> bool" where
  "device_parts battery_absent pv_kwp_zero model_class =
     (model_class \<noteq> Some BATTERY_ONLY \<and> \<not> pv_kwp_zero, model_class \<noteq> Some PV_ONLY \<and> \<not> battery_absent)"

definition device_energy_class :: "bool \<Rightarrow> bool \<Rightarrow> energy_class option \<Rightarrow> energy_class" where
  "device_energy_class battery_absent pv_kwp_zero model_class =
     (let (pv, bat) = device_parts battery_absent pv_kwp_zero model_class
      in if \<not> bat then PV_ONLY else if \<not> pv then BATTERY_ONLY else PV_BATTERY)"

definition fitting_policy :: "energy_class \<Rightarrow> string \<Rightarrow> winter_policy option" where
  "fitting_policy c s =
     (case policy_of_string s of None \<Rightarrow> None
      | Some n \<Rightarrow> if c \<in> set (device_classes (POLICIES n)) then Some (POLICIES n) else None)"

definition resolve_policy ::
  "energy_class \<Rightarrow> string option \<Rightarrow> (energy_class \<rightharpoonup> string) \<Rightarrow> winter_policy \<times> bool" where
  "resolve_policy c device_override class_defaults =
     (let stripped = py_strip (case device_override of None \<Rightarrow> ''auto'' | Some s \<Rightarrow> if s = [] then ''auto'' else s);
          override = (if stripped = [] then ''auto'' else stripped);
          chosen = (if override = ''auto'' then None else fitting_policy c override);
          valid = (override = ''auto'')
      in case chosen of
           Some p \<Rightarrow> (p, True)
         | None \<Rightarrow>
             (case class_defaults c of
                None \<Rightarrow> (POLICIES (CLASS_DEFAULT_POLICIES c), valid)
              | Some configured \<Rightarrow>
                  (case fitting_policy c (py_strip configured) of
                     Some p \<Rightarrow> (p, valid)
                   | None \<Rightarrow> (POLICIES (CLASS_DEFAULT_POLICIES c), False))))"

section \<open>Steps and the raise limit\<close>

record winter_config =
  ramp_step_percent :: int
  winter_min_soc :: int
  summer_min_soc :: int
  adjust_hour :: int

definition winter_step_percent :: "winter_config \<Rightarrow> int" where
  "winter_step_percent c = min (max 1 (ramp_step_percent c)) MAX_RAISE_ABOVE_SOC"

definition winter_min_soc_percent :: "winter_config \<Rightarrow> int" where
  "winter_min_soc_percent c = max 0 (winter_min_soc c)"

definition winter_summer_min_soc :: "winter_config \<Rightarrow> int" where
  "winter_summer_min_soc c = max 0 (summer_min_soc c)"

definition winter_adjust_hour :: "winter_config \<Rightarrow> int" where
  "winter_adjust_hour c = max 0 (adjust_hour c) mod 24"

definition winter_soc_reading :: "pyval \<Rightarrow> percent option" where
  "winter_soc_reading v = (case py_number v of None \<Rightarrow> None | Some x \<Rightarrow> finite_part x)"

definition winter_step_within_ceiling :: "int \<Rightarrow> int \<Rightarrow> int \<Rightarrow> int" where
  "winter_step_within_ceiling current raised ceil = min ceil (max current raised)"

definition winter_timed_step_target :: "percent option \<Rightarrow> percent \<Rightarrow> int \<Rightarrow> int \<Rightarrow> int option" where
  "winter_timed_step_target reading current_min_soc ceil step =
     (let current = max 0 (py_int current_min_soc)
      in case reading of
           None \<Rightarrow> None
         | Some r \<Rightarrow> if r < of_int (current - step) then None
                     else Some (winter_step_within_ceiling current (current + step) ceil))"

definition winter_morning_step_target :: "percent option \<Rightarrow> percent \<Rightarrow> int \<Rightarrow> int \<Rightarrow> int option" where
  "winter_morning_step_target reading current_min_soc ceil step =
     (let current = max 0 (py_int current_min_soc)
      in case reading of
           None \<Rightarrow> None
         | Some r \<Rightarrow> if r < of_int (current - 1) then None
                     else Some (winter_step_within_ceiling current (py_int r + step) ceil))"

definition winter_daytime_follow_target :: "percent option \<Rightarrow> int \<Rightarrow> int \<Rightarrow> int option" where
  "winter_daytime_follow_target reading current_min_soc ceil =
     (case reading of None \<Rightarrow> None
      | Some r \<Rightarrow> let t = min (py_int r - 1) ceil in if current_min_soc < t then Some t else None)"

definition winter_min_soc_raise_limit :: "int \<Rightarrow> percent \<Rightarrow> percent option \<Rightarrow> int \<Rightarrow> int" where
  "winter_min_soc_raise_limit target current_min_soc reading max_raise_above_soc =
     (let current = max 0 (py_int current_min_soc)
      in if target \<le> current then target
         else
           case reading of
             None \<Rightarrow> current
           | Some r \<Rightarrow>
               if target = py_int r then current
               else if current = 0 then (if of_int target < r then target else current)
               else if target \<le> py_int r + max_raise_above_soc then target
               else current)"

section \<open>State of a device\<close>

record winter_item =
  w_target :: "int option"
  w_seen :: bool
  w_step_date :: "int option"
  w_step_at :: "seconds option"
  w_step_target :: "int option"
  w_skipped_date :: "int option"
  w_holding :: bool
  w_pv_date :: "int option"
  w_pv_start_at :: "seconds option"
  w_pv_ever :: bool
  w_device_class :: "energy_class option"
  w_model_class :: "energy_class option"
  w_policy :: "winter_policy option"
  w_dark_date :: "int option"
  w_store_failed :: bool

definition fresh_item :: winter_item where
  "fresh_item = \<lparr>w_target = None, w_seen = False, w_step_date = None, w_step_at = None, w_step_target = None,
     w_skipped_date = None, w_holding = False, w_pv_date = None, w_pv_start_at = None, w_pv_ever = False,
     w_device_class = None, w_model_class = None, w_policy = None, w_dark_date = None, w_store_failed = False\<rparr>"

definition reset_plan :: "winter_item \<Rightarrow> winter_item" where
  "reset_plan i = i\<lparr>w_target := None, w_step_date := None, w_step_target := None, w_step_at := None\<rparr>"

record stored_plan =
  st_step_date :: "int option"
  st_step_at :: "seconds option"
  st_step_target :: "int option"
  st_target :: "int option"
  st_pv_ever :: bool

record winter_world =
  item :: winter_item
  stored :: "stored_plan option"

record winter_now =
  today :: int
  hour :: int
  instant :: seconds

record winter_env =
  store_present :: bool
  load_succeeds :: bool
  save_succeeds :: "stored_plan \<Rightarrow> bool"
  writes_allowed :: bool
  feature_on :: bool
  supports_state_reconciliation :: bool
  configured_min_soc :: int

definition DARK_PV_W :: watts where "DARK_PV_W = 10"
definition MORNING_STEP_PV_W :: watts where "MORNING_STEP_PV_W = 50"
definition STORED_TARGET_MAX_AGE :: int where "STORED_TARGET_MAX_AGE = 7"
definition MIN_SOC_UNMANAGED :: int where "MIN_SOC_UNMANAGED = 0"
definition HOLD_ENTRY_GAP :: percent where "HOLD_ENTRY_GAP = 1"
definition HOLD_WINDOW :: seconds where "HOLD_WINDOW = 10800"

section \<open>Operations\<close>

definition plan_of_item :: "winter_item \<Rightarrow> stored_plan" where
  "plan_of_item i = \<lparr>st_step_date = w_step_date i, st_step_at = w_step_at i, st_step_target = w_step_target i,
     st_target = w_target i, st_pv_ever = w_pv_ever i\<rparr>"

text \<open>Saves the item; the result is False only when a store that should have kept it did not.\<close>

definition persist :: "winter_env \<Rightarrow> winter_world \<Rightarrow> winter_world \<times> bool" where
  "persist e w =
     (if \<not> store_present e then (w, True)
      else if \<not> writes_allowed e then (w, True)
      else if w_store_failed (item w) then (w, False)
      else if save_succeeds e (plan_of_item (item w))
      then (w\<lparr>stored := Some (plan_of_item (item w))\<rparr>, True)
      else (w, False))"

definition record_is_current :: "stored_plan option \<Rightarrow> int \<Rightarrow> bool" where
  "record_is_current rec day =
     (case rec of None \<Rightarrow> False
      | Some r \<Rightarrow>
          (case (st_target r, st_step_date r) of
             (Some _, Some d) \<Rightarrow> 0 \<le> day - d \<and> day - d \<le> STORED_TARGET_MAX_AGE
           | _ \<Rightarrow> False))"

definition clamped_target :: "winter_config \<Rightarrow> winter_env \<Rightarrow> int \<Rightarrow> int" where
  "clamped_target c e t =
     (let floor_soc = (if 0 < configured_min_soc e then configured_min_soc e else winter_summer_min_soc c);
          ceil = max floor_soc (winter_min_soc_percent c)
      in max floor_soc (min ceil t))"

definition apply_record ::
  "winter_config \<Rightarrow> winter_env \<Rightarrow> stored_plan option \<Rightarrow> int \<Rightarrow> winter_item \<Rightarrow> winter_item \<times> bool" where
  "apply_record c e rec day i =
     (let i1 = i\<lparr>w_pv_ever := w_pv_ever i \<or> (case rec of None \<Rightarrow> False | Some r \<Rightarrow> st_pv_ever r)\<rparr>
      in if \<not> record_is_current rec day then (i1, False)
         else
           let r = the rec;
               i2 = i1\<lparr>w_step_date := st_step_date r,
                       w_target := Some (clamped_target c e (the (st_target r)))\<rparr>
           in (if w_step_date i2 = Some day
               then i2\<lparr>w_step_target := st_step_target r, w_step_at := st_step_at r\<rparr> else i2, True))"

definition start_skips_today :: "device_state \<Rightarrow> winter_policy \<Rightarrow> bool \<Rightarrow> bool" where
  "start_skips_today s p past_step_hour =
     (if past_step_hour then True
      else step_kind p = Some STEP_MORNING_PV \<and> DARK_PV_W \<le> pv_power s)"

definition skip_if_stepped ::
  "device_state \<Rightarrow> winter_policy \<Rightarrow> int \<Rightarrow> bool \<Rightarrow> winter_item \<Rightarrow> winter_item" where
  "skip_if_stepped s p day past_step_hour i =
     (if w_step_date i \<noteq> Some day \<and> start_skips_today s p past_step_hour
      then i\<lparr>w_skipped_date := Some day\<rparr> else i)"

definition restore ::
  "winter_config \<Rightarrow> winter_env \<Rightarrow> device_state \<Rightarrow> winter_policy \<Rightarrow> int \<Rightarrow> bool \<Rightarrow> winter_world \<Rightarrow> winter_world" where
  "restore c e s p day past_step_hour w =
     (if w_step_date (item w) = Some day then w
      else if store_present e
      then (if \<not> load_succeeds e then w\<lparr>item := (item w)\<lparr>w_store_failed := True\<rparr>\<rparr>
            else
              let (i1, current) = apply_record c e (stored w) day ((item w)\<lparr>w_store_failed := False\<rparr>)
              in w\<lparr>item := if current then i1 else skip_if_stepped s p day past_step_hour (reset_plan i1)\<rparr>)
      else
        let i = item w;
            i1 = (if w_target i \<noteq> None \<and>
                    \<not> record_is_current (Some (plan_of_item i)) day
                  then reset_plan i else i)
        in w\<lparr>item := skip_if_stepped s p day past_step_hour i1\<rparr>)"

definition reload :: "winter_config \<Rightarrow> winter_env \<Rightarrow> int \<Rightarrow> winter_world \<Rightarrow> winter_world" where
  "reload c e day w =
     (if \<not> load_succeeds e then w
      else w\<lparr>item := fst (apply_record c e (stored w) day ((item w)\<lparr>w_store_failed := False\<rparr>))\<rparr>)"

definition held_min_soc :: "winter_config \<Rightarrow> winter_env \<Rightarrow> device_state \<Rightarrow> int" where
  "held_min_soc c e s = clamped_target c e (py_int (min_soc s))"

definition observe_pv :: "winter_env \<Rightarrow> device_state \<Rightarrow> winter_now \<Rightarrow> winter_world \<Rightarrow> winter_world" where
  "observe_pv e s n w =
     (if pv_power s < DARK_PV_W then w\<lparr>item := (item w)\<lparr>w_dark_date := Some (today n)\<rparr>\<rparr>
      else
        let i = item w;
            i1 = (if w_pv_date i \<noteq> Some (today n)
                  then i\<lparr>w_pv_date := Some (today n),
                         w_pv_start_at := if w_dark_date i = Some (today n) then Some (instant n) else None\<rparr>
                  else i)
        in if \<not> w_pv_ever i1 \<and> MORNING_STEP_PV_W \<le> pv_power s
           then fst (persist e (w\<lparr>item := i1\<lparr>w_pv_ever := True\<rparr>\<rparr>))
           else w\<lparr>item := i1\<rparr>)"

definition reports_pv_unexpectedly :: "winter_item \<Rightarrow> bool" where
  "reports_pv_unexpectedly i \<longleftrightarrow> w_device_class i = Some BATTERY_ONLY \<and> w_pv_ever i"

definition step_target ::
  "winter_config \<Rightarrow> device_state \<Rightarrow> winter_policy \<Rightarrow> winter_item \<Rightarrow> int option" where
  "step_target c s p i =
     (let base = (if 0 < min_soc s then min_soc s else of_int (the (w_target i)));
          step = winter_step_percent c
      in if step_kind p = Some STEP_MORNING_PV
         then winter_morning_step_target (Some (soc s)) base (winter_min_soc_percent c) step
         else winter_timed_step_target (Some (soc s)) base (winter_min_soc_percent c) step)"

definition take_step ::
  "winter_config \<Rightarrow> winter_env \<Rightarrow> device_state \<Rightarrow> winter_policy \<Rightarrow> winter_now \<Rightarrow> winter_world \<Rightarrow>
   winter_world \<times> int option \<times> bool" where
  "take_step c e s p n w =
     (case step_target c s p (item w) of
        None \<Rightarrow> (w, w_target (item w), False)
      | Some t \<Rightarrow>
          let i = item w;
              w1 = w\<lparr>item := i\<lparr>w_step_date := Some (today n), w_step_at := Some (instant n),
                              w_step_target := Some t, w_target := Some t\<rparr>\<rparr>;
              (w2, kept) = persist e w1
          in if \<not> kept
             then (w2\<lparr>item := (item w2)\<lparr>w_step_date := w_step_date i, w_step_at := w_step_at i,
                      w_step_target := w_step_target i, w_target := w_target i,
                      w_skipped_date := Some (today n)\<rparr>\<rparr>, w_target i, False)
             else (w2, Some t, True))"

definition follow_soc ::
  "winter_config \<Rightarrow> winter_env \<Rightarrow> device_state \<Rightarrow> winter_world \<Rightarrow> winter_world" where
  "follow_soc c e s w =
     (case winter_daytime_follow_target (Some (soc s)) (the (w_target (item w))) (winter_min_soc_percent c) of
        None \<Rightarrow> w
      | Some t \<Rightarrow>
          let previous = w_target (item w);
              (w1, kept) = persist e (w\<lparr>item := (item w)\<lparr>w_target := Some t\<rparr>\<rparr>)
          in if kept then w1 else w1\<lparr>item := (item w1)\<lparr>w_target := previous\<rparr>\<rparr>)"

definition summer_plan :: "winter_config \<Rightarrow> winter_env \<Rightarrow> winter_world \<Rightarrow> winter_world \<times> int" where
  "summer_plan c e w =
     (let w1 = (if w_target (item w) \<noteq> None \<or> w_step_date (item w) \<noteq> None
                then fst (persist e (w\<lparr>item := (reset_plan (item w))\<lparr>w_skipped_date := None\<rparr>\<rparr>))
                else w)
      in (w1\<lparr>item := (item w1)\<lparr>w_seen := False\<rparr>\<rparr>, winter_summer_min_soc c))"

text \<open>The plan of a winter day, once the device is known and reports its minSoc.\<close>

definition winter_day_begin ::
  "winter_config \<Rightarrow> winter_env \<Rightarrow> device_state \<Rightarrow> winter_policy \<Rightarrow> winter_now \<Rightarrow> winter_world \<Rightarrow> winter_world" where
  "winter_day_begin c e s p n w =
     (let past_step_hour = (winter_adjust_hour c \<le> hour n);
          w1 = (if \<not> w_seen (item w)
                then restore c e s p (today n) past_step_hour (w\<lparr>item := (item w)\<lparr>w_seen := True\<rparr>\<rparr>)
                else if w_store_failed (item w) then reload c e (today n) w else w);
          w2 = (if w_target (item w1) = None
                then w1\<lparr>item := (item w1)\<lparr>w_target := Some (held_min_soc c e s)\<rparr>\<rparr> else w1)
      in observe_pv e s n w2)"

definition step_due :: "winter_config \<Rightarrow> device_state \<Rightarrow> winter_policy \<Rightarrow> winter_now \<Rightarrow> winter_item \<Rightarrow> bool" where
  "step_due c s p n i =
     (let stepped_today = (Some (today n) \<in> {w_step_date i, w_skipped_date i})
      in if step_kind p = Some STEP_MORNING_PV
         then \<not> stepped_today \<and> MORNING_STEP_PV_W \<le> pv_power s
         else \<not> stepped_today \<and> hour n = winter_adjust_hour c \<and> \<not> reports_pv_unexpectedly i)"

definition planned_min_soc ::
  "winter_config \<Rightarrow> winter_env \<Rightarrow> device_state \<Rightarrow> bool \<Rightarrow> winter_now \<Rightarrow> winter_policy \<Rightarrow> winter_world \<Rightarrow>
   winter_world \<times> int option \<times> bool" where
  "planned_min_soc c e s winter_active n p w =
     (if \<not> feature_on e then (w\<lparr>item := (item w)\<lparr>w_seen := False\<rparr>\<rparr>, None, False)
      else if \<not> supports_state_reconciliation e then (w, None, False)
      else if battery_presence s = BATTERY_ABSENT then (w, None, False)
      else if step_kind p = None then (w, None, False)
      else if \<not> min_soc_reported s then (w, Some MIN_SOC_UNMANAGED, False)
      else if \<not> winter_active then (let (w1, t) = summer_plan c e w in (w1, Some t, False))
      else
        let w1 = winter_day_begin c e s p n w
        in if step_due c s p n (item w1) then take_step c e s p n w1
           else
             let follows = (step_kind p \<noteq> Some STEP_MORNING_PV \<or> DARK_PV_W \<le> pv_power s);
                 w2 = (if w_step_date (item w1) = Some (today n) \<and> follows then follow_soc c e s w1 else w1)
             in (w2, w_target (item w2), False))"

text \<open>The policy that applies, cached per model class.\<close>

definition winter_policy_of ::
  "bool \<Rightarrow> string option \<Rightarrow> (energy_class \<rightharpoonup> string) \<Rightarrow> energy_class option \<Rightarrow> device_state \<Rightarrow> winter_world \<Rightarrow>
   winter_world \<times> winter_policy" where
  "winter_policy_of pv_kwp_zero override class_defaults model_class s w =
     (if battery_presence s = BATTERY_ABSENT then (w, POLICIES NO_POLICY)
      else
        case (if w_model_class (item w) = model_class then w_policy (item w) else None) of
          Some p \<Rightarrow> (w, p)
        | None \<Rightarrow>
            let c = device_energy_class False pv_kwp_zero model_class;
                p = fst (resolve_policy c override class_defaults)
            in (w\<lparr>item := (item w)\<lparr>w_device_class := Some c, w_model_class := model_class, w_policy := Some p\<rparr>\<rparr>, p))"

definition reconciliation_target ::
  "winter_config \<Rightarrow> winter_env \<Rightarrow> device_state \<Rightarrow> bool \<Rightarrow> winter_now \<Rightarrow> winter_policy \<Rightarrow> winter_world \<Rightarrow>
   winter_world \<times> int option \<times> bool" where
  "reconciliation_target c e s winter_active n p w =
     (let (w1, planned, stepped) = planned_min_soc c e s winter_active n p w
      in case planned of
           None \<Rightarrow> (w1, None, stepped)
         | Some t \<Rightarrow>
             let own_step = (w_step_date (item w1) = Some (today n) \<and> Some t = w_step_target (item w1));
                 lead = (if own_step then step_lead p else MAX_RAISE_ABOVE_SOC)
             in (w1, Some (winter_min_soc_raise_limit t (min_soc s) (Some (soc s)) lead), stepped))"

section \<open>The export hold\<close>

definition solar_charge_candidate :: "device_state \<Rightarrow> winter_item \<Rightarrow> bool" where
  "solar_charge_candidate s i =
     (if battery_presence s = BATTERY_ABSENT then False
      else if min_soc s \<le> 0 \<or> soc s \<le> 0 then False
      else
        let entry_gap = (if w_holding i then 0 else HOLD_ENTRY_GAP)
        in entry_gap < min_soc s - soc s \<and> DARK_PV_W \<le> pv_power s)"

definition in_hold_window :: "seconds option \<Rightarrow> seconds \<Rightarrow> bool" where
  "in_hold_window anchor t = (case anchor of None \<Rightarrow> False | Some a \<Rightarrow> 0 \<le> t - a \<and> t - a \<le> HOLD_WINDOW)"

definition solar_charge_hold :: "winter_env \<Rightarrow> winter_policy \<Rightarrow> winter_now \<Rightarrow> winter_item \<Rightarrow> bool" where
  "solar_charge_hold e p n i =
     (if \<not> supports_state_reconciliation e then False
      else if \<not> writes_allowed e then False
      else if \<not> holds_export p then False
      else in_hold_window (if w_pv_date i = Some (today n) then w_pv_start_at i else None) (instant n) \<or>
           in_hold_window (if w_step_date i = Some (today n) then w_step_at i else None) (instant n))"

text \<open>One device of \<open>filtered_capabilities\<close>: its state, capability and winter item, and whether it answered.\<close>

record hold_device =
  hd_state :: device_state
  hd_capability :: device_capabilities
  hd_item :: winter_item
  hd_policy :: winter_policy
  hd_online :: bool
  hd_env :: winter_env

definition hold_candidate :: "hold_device \<Rightarrow> bool" where
  "hold_candidate d \<longleftrightarrow> can_export (hd_capability d) \<and> hd_online d \<and> solar_charge_candidate (hd_state d) (hd_item d)"

definition filtered_capabilities ::
  "bool \<Rightarrow> winter_now \<Rightarrow> hold_device list \<Rightarrow> (winter_item \<times> device_capabilities) list" where
  "filtered_capabilities mode_active n ds =
     (if \<not> list_ex hold_candidate ds \<or> \<not> mode_active
      then map (\<lambda>d. ((hd_item d)\<lparr>w_holding := False\<rparr>, hd_capability d)) ds
      else
        map (\<lambda>d.
          let holding = (hold_candidate d \<and> solar_charge_hold (hd_env d) (hd_policy d) n (hd_item d));
              cap = hd_capability d
          in ((hd_item d)\<lparr>w_holding := holding\<rparr>,
              if \<not> holding then cap
              else \<lparr>can_charge = can_charge cap, can_discharge = False, can_export = False,
                    can_ac_charge = can_ac_charge cap, reason = ''winter_solar_charge'', export_held = True\<rparr>)) ds)"

section \<open>Policies fit their devices\<close>

lemma default_policy_fits: "c \<in> set (device_classes (POLICIES (CLASS_DEFAULT_POLICIES c)))"
  by (cases c) simp_all

lemma fitting_policy_fits: "fitting_policy c s = Some p \<Longrightarrow> c \<in> set (device_classes p) \<and> (\<exists>n. p = POLICIES n)"
  by (auto simp: fitting_policy_def split: option.splits if_splits)

text \<open>
  Whatever is configured, a device gets a policy of the registry that is made for its energy
  class; without a usable configuration it gets the built-in one of its class, and a device
  without a battery never gets a plan that raises its reserve.
\<close>

lemma resolved_policy_fits_class:
  "(\<exists>n. fst (resolve_policy c override defaults) = POLICIES n) \<and>
   c \<in> set (device_classes (fst (resolve_policy c override defaults))) \<and>
   (if c = PV_ONLY then step_kind (fst (resolve_policy c override defaults)) = None else True) \<and>
   fst (resolve_policy c None Map.empty) = POLICIES (CLASS_DEFAULT_POLICIES c)"
proof -
  let ?p = "fst (resolve_policy c override defaults)"
  have fits: "c \<in> set (device_classes ?p) \<and> (\<exists>n. ?p = POLICIES n)"
    using default_policy_fits [of c] fitting_policy_fits [of c]
    by (auto simp: resolve_policy_def Let_def split: option.splits)
  then obtain n where n: "?p = POLICIES n" by blast
  have "step_kind ?p = None" if "c = PV_ONLY" using fits that unfolding n by (cases n) simp_all
  moreover have "fst (resolve_policy c None Map.empty) = POLICIES (CLASS_DEFAULT_POLICIES c)"
    by (simp add: resolve_policy_def Let_def py_strip_def py_space_def)
  ultimately show ?thesis using fits by simp
qed

section \<open>Steps and raises stay near the battery\<close>

lemma py_int_ge: "of_int n \<le> x \<Longrightarrow> n \<le> py_int x"
  by (simp add: py_int_def le_floor_iff) (meson le_of_int_ceiling of_int_le_iff order_trans)

lemma py_int_le_nonneg: "0 \<le> x \<Longrightarrow> of_int (py_int x) \<le> x"
  by (simp add: py_int_def)

lemma step_percent_bounds: "1 \<le> winter_step_percent c \<and> winter_step_percent c \<le> 3"
  by (simp add: winter_step_percent_def MAX_RAISE_ABOVE_SOC_def)

text \<open>
  The daily step stays within the reserve and near the battery: its target is at most the
  winter reserve, no lower than the current minSoc unless that is above the reserve, and leads the
  SoC by at most what the policy accepts, three points, or six for the timed step; a battery far
  below its minSoc gets no step.
\<close>

lemma winter_step_near_battery:
  assumes "step_target c s (POLICIES name) i = Some t" and "step_kind (POLICIES name) \<noteq> None"
  shows "t \<le> winter_min_soc_percent c \<and> t \<le> py_int (soc s) + step_lead (POLICIES name) \<and>
    (0 < min_soc s \<longrightarrow> min (winter_min_soc_percent c) (py_int (min_soc s)) \<le> t)"
proof -
  define cur where "cur = max 0 (py_int (if 0 < min_soc s then min_soc s else of_int (the (w_target i))))"
  let ?step = "winter_step_percent c"
  consider (morning) "name = SOLAR_MORNING_STEP" | (noon) "name = NOON_STEP" using assms(2) by (cases name) simp_all
  then have near: "t \<le> py_int (soc s) + step_lead (POLICIES name) \<and>
      t \<le> winter_min_soc_percent c \<and> min (winter_min_soc_percent c) cur \<le> t"
  proof cases
    case morning
    then have le: "of_int (cur - 1) \<le> soc s" and t: "t = min (winter_min_soc_percent c) (max cur (py_int (soc s) + ?step))"
      using assms(1) by (auto simp: step_target_def winter_morning_step_target_def winter_step_within_ceiling_def
          cur_def Let_def split: if_splits)
    have "cur - 1 \<le> py_int (soc s)" using le by (rule py_int_ge)
    then show ?thesis
      using t step_percent_bounds [of c] morning
      by (auto simp: step_lead_def MAX_RAISE_ABOVE_SOC_def min_def max_def)
  next
    case noon
    then have le: "of_int (cur - ?step) \<le> soc s" and t: "t = min (winter_min_soc_percent c) (max cur (cur + ?step))"
      using assms(1) by (auto simp: step_target_def winter_timed_step_target_def winter_step_within_ceiling_def
          cur_def Let_def split: if_splits)
    have "cur - ?step \<le> py_int (soc s)" using le by (rule py_int_ge)
    then show ?thesis
      using t step_percent_bounds [of c] noon
      by (auto simp: step_lead_def MAX_RAISE_ABOVE_SOC_def min_def max_def)
  qed
  have "py_int (min_soc s) \<le> cur" if "0 < min_soc s" using that by (simp add: cur_def)
  then show ?thesis using near by auto
qed

definition demo_winter :: winter_config where
  "demo_winter = \<lparr>ramp_step_percent = 5, winter_min_soc = 60, summer_min_soc = 10, adjust_hour = 12\<rparr>"

definition demo_cold :: "percent \<Rightarrow> percent \<Rightarrow> watts \<Rightarrow> device_state" where
  "demo_cold level reserve pv = zero_device_state\<lparr>soc := level, min_soc := reserve, max_soc := 100, solar := pv,
     pack_num := Some 1, min_soc_reported := True\<rparr>"

lemma raise_limit_safe:
  assumes "max 0 (py_int m) < winter_min_soc_raise_limit t m (Some r) lead" and "0 \<le> lead"
  shows "winter_min_soc_raise_limit t m (Some r) lead = t \<and> t \<noteq> py_int r \<and> t \<le> py_int r + lead"
proof -
  have "t \<le> py_int r" if "of_int t < r" using that by (intro py_int_ge) simp
  then show ?thesis
    using assms by (auto simp: winter_min_soc_raise_limit_def Let_def split: if_splits)
qed

text \<open>
  What winter mode finally asks for never triggers a grid charge: the target of a cycle is
  either no raise over the reported minSoc, or a raise that does not land on the battery's SoC and
  leads it by at most three points, six where it is the day's own step of a policy that accepts
  it; a raise is the whole planned one, never a part of it.
\<close>

lemma winter_raise_is_safe:
  assumes "reconciliation_target c e s winter_active n (POLICIES name) w = (w', Some t, stepped)"
  shows "t \<le> max 0 (py_int (min_soc s)) \<or>
    (t \<noteq> py_int (soc s) \<and>
     fst (snd (planned_min_soc c e s winter_active n (POLICIES name) w)) = Some t \<and>
     (if w_step_date (item w') = Some (today n) \<and> Some t = w_step_target (item w') \<and> name = NOON_STEP
      then t \<le> py_int (soc s) + 6 else t \<le> py_int (soc s) + 3))"
proof -
  obtain w1 planned st where pl: "planned_min_soc c e s winter_active n (POLICIES name) w = (w1, planned, st)"
    by (cases "planned_min_soc c e s winter_active n (POLICIES name) w") auto
  then obtain q where q: "planned = Some q" using assms by (cases planned) (auto simp: reconciliation_target_def)
  define own where "own \<longleftrightarrow> w_step_date (item w1) = Some (today n) \<and> Some q = w_step_target (item w1)"
  define lead where "lead = (if own then step_lead (POLICIES name) else MAX_RAISE_ABOVE_SOC)"
  have w1: "w' = w1" and t: "t = winter_min_soc_raise_limit q (min_soc s) (Some (soc s)) lead"
    using assms unfolding lead_def own_def by (auto simp: reconciliation_target_def pl q Let_def)
  have lead: "0 \<le> lead" "own \<and> name = NOON_STEP \<or> lead = 3" "lead \<le> 6"
    by (cases name; simp add: lead_def step_lead_def MAX_RAISE_ABOVE_SOC_def)+
  show ?thesis
  proof (cases "t \<le> max 0 (py_int (min_soc s))")
    case False
    then have "max 0 (py_int (min_soc s)) < winter_min_soc_raise_limit q (min_soc s) (Some (soc s)) lead"
      by (simp only: t not_le)
    from raise_limit_safe [OF this lead(1)] have "t = q \<and> q \<noteq> py_int (soc s) \<and> q \<le> py_int (soc s) + lead"
      unfolding t .
    then show ?thesis using lead(2,3) by (auto simp: pl q w1 own_def)
  qed simp
qed

definition demo_env :: winter_env where
  "demo_env = \<lparr>store_present = True, load_succeeds = True, save_succeeds = (\<lambda>_. True), writes_allowed = True,
     feature_on = True, supports_state_reconciliation = True, configured_min_soc = 10\<rparr>"

definition demo_noon :: "int \<Rightarrow> winter_now" where
  "demo_noon d = \<lparr>today = d, hour = 12, instant = of_int (d * 86400 + 43200)\<rparr>"

definition demo_world :: winter_world where
  "demo_world = \<lparr>item = fresh_item\<lparr>w_seen := True, w_target := Some 30\<rparr>, stored = None\<rparr>"

section \<open>One step per day\<close>

datatype winter_event = Cycle winter_env device_state winter_policy winter_now | Restart

text \<open>\<open>winter_day d\<close>: the month of day \<open>d\<close> is a winter month.\<close>

fun winter_run_step :: "winter_config \<Rightarrow> (int \<Rightarrow> bool) \<Rightarrow> winter_world \<Rightarrow> winter_event \<Rightarrow> winter_world" where
  "winter_run_step c winter_day w (Cycle e s p n) = fst (planned_min_soc c e s (winter_day (today n)) n p w)"
| "winter_run_step c winter_day w Restart = w\<lparr>item := fresh_item\<rparr>"

text \<open>The days on which a run took a step.\<close>

fun step_days :: "winter_config \<Rightarrow> (int \<Rightarrow> bool) \<Rightarrow> winter_world \<Rightarrow> winter_event list \<Rightarrow> int list" where
  "step_days c winter_day w [] = []"
| "step_days c winter_day w (ev # evs) =
     (case ev of
        Cycle e s p n \<Rightarrow>
          if snd (snd (planned_min_soc c e s (winter_day (today n)) n p w)) then [today n] else []
      | Restart \<Rightarrow> []) @ step_days c winter_day (winter_run_step c winter_day w ev) evs"

fun stores_plans :: "winter_event \<Rightarrow> bool" where
  "stores_plans (Cycle e s p n) \<longleftrightarrow> store_present e \<and> writes_allowed e"
| "stores_plans Restart \<longleftrightarrow> True"

fun event_days :: "winter_event list \<Rightarrow> int list" where
  "event_days [] = []"
| "event_days (Cycle e s p n # evs) = today n # event_days evs"
| "event_days (Restart # evs) = event_days evs"

text \<open>The store holds a step of day \<open>d\<close>.\<close>

definition plan_kept :: "int \<Rightarrow> winter_world \<Rightarrow> bool" where
  "plan_kept d w \<longleftrightarrow> (\<exists>r t. stored w = Some r \<and> st_step_date r = Some d \<and> st_target r = Some t)"

definition kept_today :: "int \<Rightarrow> winter_world \<Rightarrow> bool" where
  "kept_today d w \<longleftrightarrow> plan_kept d w \<and>
     (w_step_date (item w) = Some d \<or> \<not> w_seen (item w) \<or> w_store_failed (item w))"

definition held_today :: "int \<Rightarrow> winter_world \<Rightarrow> bool" where
  "held_today d w \<longleftrightarrow> plan_kept d w \<and> (w_step_date (item w) = Some d \<or> w_store_failed (item w))"

lemma held_kept: "held_today d w \<Longrightarrow> kept_today d w"
  by (auto simp: held_today_def kept_today_def)

lemma apply_record_kept:
  "plan_kept d w \<Longrightarrow> snd (apply_record c e (stored w) d i) \<and> w_step_date (fst (apply_record c e (stored w) d i)) = Some d"
  by (auto simp: plan_kept_def apply_record_def record_is_current_def STORED_TARGET_MAX_AGE_def Let_def)

lemma restore_held:
  assumes "plan_kept d w" and "store_present e"
  shows "held_today d (restore c e s p d past w)"
  using assms apply_record_kept [OF assms(1), of c e "(item w)\<lparr>w_store_failed := False\<rparr>"]
  by (auto simp: restore_def held_today_def plan_kept_def Let_def split_beta)

lemma reload_held:
  assumes "held_today d w"
  shows "held_today d (reload c e d w)"
  using assms apply_record_kept [of d w c e "(item w)\<lparr>w_store_failed := False\<rparr>"]
  by (auto simp: reload_def held_today_def plan_kept_def)

lemma persist_held:
  assumes "held_today d w" and "w_target (item w) \<noteq> None"
  shows "held_today d (fst (persist e w))" and "item (fst (persist e w)) = item w"
  using assms by (auto simp: persist_def held_today_def plan_kept_def plan_of_item_def)

lemma held_item:
  "held_today d w \<Longrightarrow> w_step_date i = w_step_date (item w) \<Longrightarrow> w_store_failed i = w_store_failed (item w) \<Longrightarrow>
     held_today d (w\<lparr>item := i\<rparr>)"
  by (simp add: held_today_def plan_kept_def)

lemma observe_pv_held:
  assumes "held_today d w" and "w_target (item w) \<noteq> None"
  shows "held_today d (observe_pv e s n w)"
  using assms by (auto simp: observe_pv_def Let_def intro!: held_item persist_held(1))

lemma observe_pv_target: "w_target (item (observe_pv e s n w)) = w_target (item w)"
  by (simp add: observe_pv_def persist_def Let_def)

lemma winter_day_begin_held:
  assumes "kept_today (today n) w" and "store_present e"
  shows "held_today (today n) (winter_day_begin c e s p n w) \<and> w_target (item (winter_day_begin c e s p n w)) \<noteq> None"
proof -
  let ?past = "winter_adjust_hour c \<le> hour n"
  define w1 where "w1 = (if \<not> w_seen (item w)
      then restore c e s p (today n) ?past (w\<lparr>item := (item w)\<lparr>w_seen := True\<rparr>\<rparr>)
      else if w_store_failed (item w) then reload c e (today n) w else w)"
  define w2 where "w2 = (if w_target (item w1) = None
      then w1\<lparr>item := (item w1)\<lparr>w_target := Some (held_min_soc c e s)\<rparr>\<rparr> else w1)"
  have "plan_kept (today n) (w\<lparr>item := (item w)\<lparr>w_seen := True\<rparr>\<rparr>)"
    using assms(1) by (simp add: kept_today_def plan_kept_def)
  moreover have "w_seen (item w) \<Longrightarrow> held_today (today n) w"
    using assms(1) by (auto simp: kept_today_def held_today_def)
  ultimately have "held_today (today n) w1"
    using restore_held [of "today n" _ e c s p ?past] reload_held [of "today n" w c e] assms(2)
    by (simp add: w1_def)
  then have "held_today (today n) w2" by (auto simp: w2_def intro!: held_item)
  moreover have "w_target (item w2) \<noteq> None" by (simp add: w2_def)
  moreover have "winter_day_begin c e s p n w = observe_pv e s n w2"
    by (simp add: winter_day_begin_def w1_def w2_def Let_def)
  ultimately show ?thesis using observe_pv_held observe_pv_target by simp
qed

lemma take_step_held:
  assumes "held_today (today n) w" and "w_step_date (item w) \<noteq> Some (today n)"
    and "store_present e" and "writes_allowed e"
  shows "\<not> snd (snd (take_step c e s p n w)) \<and> held_today (today n) (fst (take_step c e s p n w))"
  using assms by (auto simp: take_step_def persist_def held_today_def plan_kept_def Let_def split: option.splits)

lemma follow_soc_held:
  assumes "held_today d w"
  shows "held_today d (follow_soc c e s w)"
  using assms
  by (auto simp: follow_soc_def persist_def held_today_def plan_kept_def plan_of_item_def Let_def split: option.splits)

lemma planned_kept:
  assumes "kept_today (today n) w" and "store_present e" and "writes_allowed e"
  shows "\<not> snd (snd (planned_min_soc c e s True n p w)) \<and>
    kept_today (today n) (fst (planned_min_soc c e s True n p w))"
proof -
  let ?w = "winter_day_begin c e s p n w"
  have h: "held_today (today n) ?w" using winter_day_begin_held [OF assms(1,2)] by blast
  have due: "step_due c s p n (item ?w) \<Longrightarrow> w_step_date (item ?w) \<noteq> Some (today n)"
    by (auto simp: step_due_def Let_def split: if_splits)
  have off: "kept_today (today n) (w\<lparr>item := (item w)\<lparr>w_seen := False\<rparr>\<rparr>)"
    using assms(1) by (simp add: kept_today_def plan_kept_def)
  show ?thesis
    using h off assms take_step_held [OF h _ assms(2,3), of c s p] due
    by (auto simp: planned_min_soc_def Let_def intro: held_kept follow_soc_held)
qed

lemma planned_stepped:
  assumes "snd (snd (planned_min_soc c e s active n p w))" and "store_present e" and "writes_allowed e"
  shows "active \<and> kept_today (today n) (fst (planned_min_soc c e s active n p w))"
  using assms
  by (auto simp: planned_min_soc_def take_step_def persist_def kept_today_def plan_kept_def plan_of_item_def
      Let_def split_beta split: if_splits option.splits)

lemma restart_kept: "kept_today d w \<Longrightarrow> kept_today d (w\<lparr>item := fresh_item\<rparr>)"
  by (simp add: kept_today_def plan_kept_def fresh_item_def)

lemma step_days_within: "set (step_days c winter_day w evs) \<subseteq> set (event_days evs)"
proof (induction evs arbitrary: w)
  case (Cons ev evs)
  then show ?case by (cases ev) (auto split: if_splits)
qed simp

lemma no_second_step:
  assumes "kept_today d w" and "winter_day d" and "list_all stores_plans evs" and "sorted (d # event_days evs)"
  shows "d \<notin> set (step_days c winter_day w evs)"
  using assms
proof (induction evs arbitrary: w)
  case (Cons ev evs)
  show ?case
  proof (cases ev)
    case (Cycle e s p n)
    show ?thesis
    proof (cases "today n = d")
      case True
      then show ?thesis
        using Cons planned_kept [of n w e c s p] Cycle by simp
    next
      case False
      then have "d \<notin> set (event_days (ev # evs))" using Cons.prems(4) Cycle by auto
      then show ?thesis using step_days_within by blast
    qed
  next
    case Restart
    then show ?thesis using Cons restart_kept by simp
  qed
qed simp


definition demo_days :: "winter_event list" where
  "demo_days =
     (let cyc = (\<lambda>d. Cycle demo_env (demo_cold 30 30 0) (POLICIES NOON_STEP) (demo_noon d))
      in [cyc 1, cyc 1, Restart, cyc 1, cyc 2])"


section \<open>The hold lets PV charge first\<close>

text \<open>
  The export hold touches only the devices it is for: a device keeps its capabilities, or it
  loses discharge and export alone, keeping its charge paths. It loses them only while it is online
  and could export, its battery sits below a minSoc it reports, at least ten watts of PV arrive,
  writes are allowed, and three hours have not passed since the day's first PV or the day's step;
  a device not held yet is not taken into the hold within a point of its minSoc.
\<close>

lemma winter_hold_is_narrow:
  assumes "k < length ds"
  shows "case filtered_capabilities mode_active n ds ! k of (i, cap) \<Rightarrow>
     (if w_holding i
      then mode_active \<and> cap = (hd_capability (ds ! k))\<lparr>can_discharge := False, can_export := False,
             reason := ''winter_solar_charge'', export_held := True\<rparr> \<and>
           can_export (hd_capability (ds ! k)) \<and> hd_online (ds ! k) \<and>
           holds_export (hd_policy (ds ! k)) \<and> writes_allowed (hd_env (ds ! k)) \<and>
           10 \<le> pv_power (hd_state (ds ! k)) \<and>
           soc (hd_state (ds ! k)) < min_soc (hd_state (ds ! k)) \<and>
           (w_holding (hd_item (ds ! k)) \<or> soc (hd_state (ds ! k)) + 1 < min_soc (hd_state (ds ! k))) \<and>
           (\<exists>a. (w_pv_start_at (hd_item (ds ! k)) = Some a \<and> w_pv_date (hd_item (ds ! k)) = Some (today n) \<or>
                 w_step_at (hd_item (ds ! k)) = Some a \<and> w_step_date (hd_item (ds ! k)) = Some (today n)) \<and>
                a \<le> instant n \<and> instant n \<le> a + 10800)
      else cap = hd_capability (ds ! k)) \<and>
     i = (hd_item (ds ! k))\<lparr>w_holding := w_holding i\<rparr>"
proof -
  let ?d = "ds ! k"
  let ?hold = "mode_active \<and> hold_candidate ?d \<and> solar_charge_hold (hd_env ?d) (hd_policy ?d) n (hd_item ?d)"
  have cand: "hold_candidate ?d \<Longrightarrow> list_ex hold_candidate ds"
    using assms by (auto simp: list_ex_iff)
  have r: "filtered_capabilities mode_active n ds ! k =
      ((hd_item ?d)\<lparr>w_holding := ?hold\<rparr>,
       if ?hold then (hd_capability ?d)\<lparr>can_discharge := False, can_export := False,
             reason := ''winter_solar_charge'', export_held := True\<rparr> else hd_capability ?d)"
    using assms cand by (auto simp: filtered_capabilities_def Let_def intro!: device_capabilities.equality)
  have win: "\<exists>a. (w_pv_start_at (hd_item ?d) = Some a \<and> w_pv_date (hd_item ?d) = Some (today n) \<or>
                 w_step_at (hd_item ?d) = Some a \<and> w_step_date (hd_item ?d) = Some (today n)) \<and>
                a \<le> instant n \<and> instant n \<le> a + 10800" if ?hold
    using that by (auto simp: solar_charge_hold_def in_hold_window_def HOLD_WINDOW_def algebra_simps
        split: option.splits if_splits)
  show ?thesis
    using win unfolding r
    by (auto simp: hold_candidate_def solar_charge_candidate_def solar_charge_hold_def DARK_PV_W_def
        HOLD_ENTRY_GAP_def Let_def split: if_splits)
qed

end
