(* ===== verification/State_Reconciliation.thy ===== *)
theory State_Reconciliation
  imports Charge_Supervision Winter_Reserve
begin

text \<open>
  The state writes of \<open>ems/controller.py\<close>: the bounds of the SoC window, the smart mode, the AC mode and
  charge power of a claim and the mode of the off-grid socket, each written only where it differs
  from what the device reports, with \<open>ems/property_writes.py\<close> that sends them.

  Every method takes the device and gives the device it leaves, with its result. What the controller
  remembers only so as to log a thing once (\<open>ac_mode_unknown\<close>, \<open>state_fields_unknown\<close>,
  \<open>min_soc_raise_waiting\<close>) is left out, as is the hint about the old \<open>grid_off_mode\<close> key.

  Proved: nothing is written over a field the report does not carry, except a role the operator set,
  nor with control or its gates off, nor what the device already has; a claim that is not the
  operator's sends its AC input and its charge power only where both fields are known; and a written
  \<open>minSoc\<close> is never one that makes the device draw from the grid.
\<close>

section \<open>Writing properties\<close>

definition http_properties_written :: "bool option \<Rightarrow> write_dispatch_result option" where
  "http_properties_written ok =
     map_option (\<lambda>b. if b then dispatch_published None None None None
                     else (dispatch_failed None None None)\<lparr>dr_reason := Some ''http_write_failed''\<rparr>) ok"

fun write_transport_properties ::
  "write_env \<Rightarrow> string \<Rightarrow> properties \<Rightarrow> transport_client \<Rightarrow> transport_client \<times> write_dispatch_result option" where
  "write_transport_properties e field props (Local_api hc) =
     (let (hc1, ok) = zendure_write (we_http e) field props hc in (Local_api hc1, http_properties_written ok))"
| "write_transport_properties e field props (Mqtt_control c cl) =
     (let (cl1, res) = write_properties c (we_mqtt e) (Some (map (map_prod id PyInt) props)) cl
      in (Mqtt_control c cl1, Some res))"

definition write_device_properties ::
  "write_env \<Rightarrow> string \<Rightarrow> properties \<Rightarrow> managed_device \<Rightarrow> managed_device \<times> write_dispatch_result option" where
  "write_device_properties e field props d =
     (let (tc, res) = write_transport_properties e field props (md_transport d) in (d\<lparr>md_transport := tc\<rparr>, res))"

section \<open>The SoC window\<close>

definition safe_soc_limit :: "int \<Rightarrow> int" where
  "safe_soc_limit v = (if 0 \<le> v \<and> v \<le> 100 then v else 0)"

record state_settings =
  ss_min_soc :: int
  ss_max_soc :: int
  ss_smart_mode :: "int option"
  ss_reconcile_smart_mode :: bool

definition min_soc_to_write :: "state_settings \<Rightarrow> device_state \<Rightarrow> int option \<Rightarrow> int" where
  "min_soc_to_write ss s desired_min_soc =
     (let configured = safe_soc_limit (ss_min_soc ss)
      in if \<not> min_soc_reported s then MIN_SOC_UNMANAGED
         else case desired_min_soc of
                Some t \<Rightarrow> safe_soc_limit (max 0 t)
              | None \<Rightarrow> safe_soc_limit
                  (winter_min_soc_raise_limit configured (min_soc s) (Some (soc s)) MAX_RAISE_ABOVE_SOC))"

definition soc_changes :: "device_state \<Rightarrow> int \<Rightarrow> int \<Rightarrow> properties" where
  "soc_changes s effective_min effective_max =
     (if 0 < effective_min \<and> py_int (min_soc s) \<noteq> effective_min then [(''minSoc'', effective_min * 10)] else []) @
     (if 0 < effective_max \<and> max_soc_reported s \<and> py_int (max_soc s) \<noteq> effective_max
      then [(''socSet'', effective_max * 10)] else [])"

definition apply_soc_limits ::
  "sights \<Rightarrow> supervision \<Rightarrow> state_settings \<Rightarrow> device_state \<Rightarrow> int option \<Rightarrow> int option \<Rightarrow> managed_device \<Rightarrow>
   managed_device \<times> bool" where
  "apply_soc_limits sg sv ss s desired_min_soc desired_max_soc d =
     (if \<not> Charge_Supervision.supports_state_reconciliation (md_transport d) then (d, True)
      else if battery_presence s = BATTERY_ABSENT then (d, True)
      else
        let effective_min = min_soc_to_write ss s desired_min_soc;
            effective_max = (case desired_max_soc of
               Some m \<Rightarrow> safe_soc_limit (max 0 m) | None \<Rightarrow> safe_soc_limit (ss_max_soc ss));
            max_soc_known = (effective_max \<le> 0 \<or> max_soc_reported s);
            managed = (0 < effective_min \<or> 0 < effective_max \<and> max_soc_known);
            changes = soc_changes s effective_min effective_max
        in if \<not> managed then (d, max_soc_known)
           else if changes = [] then (d, True)
           else if \<not> device_state_writes_allowed sg sv (md_name d) then (d, False)
           else let (d1, res) = write_device_properties (sg_write sg (md_name d))
                      (py_join ''/'' (map fst changes)) changes d
                in (d1, write_accepted res))"

section \<open>Modes\<close>

definition apply_device_modes ::
  "sights \<Rightarrow> supervision \<Rightarrow> state_settings \<Rightarrow> device_state \<Rightarrow> managed_device \<Rightarrow> managed_device" where
  "apply_device_modes sg sv ss s d =
     (if \<not> Charge_Supervision.supports_state_reconciliation (md_transport d) then d
      else
        let props = (case ss_smart_mode ss of
               None \<Rightarrow> []
             | Some m \<Rightarrow> if ss_reconcile_smart_mode ss \<and> smart_mode_reported s \<and> smart_mode s \<noteq> m
                         then [(''smartMode'', m)] else [])
        in if props = [] then d
           else if \<not> device_state_writes_allowed sg sv (md_name d) then d
           else fst (write_device_properties (sg_write sg (md_name d)) (py_join '','' (map fst props)) props d))"

definition offgrid_socket_value :: "string \<Rightarrow> int option" where
  "offgrid_socket_value = map_of [(''standard'', 0), (''eco'', 1), (''off'', 2)]"

text \<open>\<open>desired\<close> is the stored mode, stripped and in lower case.\<close>

definition apply_runtime_device_state ::
  "sights \<Rightarrow> supervision \<Rightarrow> string option \<Rightarrow> device_state \<Rightarrow> managed_device \<Rightarrow> managed_device" where
  "apply_runtime_device_state sg sv desired s d =
     (if \<not> Charge_Supervision.supports_state_reconciliation (md_transport d) then d
      else case desired of
             None \<Rightarrow> d
           | Some mode \<Rightarrow>
               (case offgrid_socket_value mode of
                  None \<Rightarrow> d
                | Some v \<Rightarrow>
                    if \<not> grid_off_mode_reported s then d
                    else if grid_off_mode s = v then d
                    else if \<not> device_state_writes_allowed sg sv (md_name d) then d
                    else fst (write_device_properties (sg_write sg (md_name d)) ''gridOffMode''
                           [(''gridOffMode'', v)] d)))"

section \<open>A claim's AC mode and charge power\<close>

definition reconcile_ac_mode_intent ::
  "sights \<Rightarrow> supervision \<Rightarrow> device_runtime_intent \<Rightarrow> device_state \<Rightarrow> managed_device \<Rightarrow> managed_device \<times> bool" where
  "reconcile_ac_mode_intent sg sv i s d =
     (if \<not> Charge_Supervision.supports_state_reconciliation (md_transport d) then (d, True)
      else case desired_ac_mode i of
             None \<Rightarrow> (d, True)
           | Some m \<Rightarrow>
               if ac_mode_known s \<and> ac_mode s = m then (d, True)
               else if \<not> ac_mode_known s \<and> \<not> operator_role i then (d, False)
               else if m = AC_MODE_INPUT \<and> setpoint_w i \<noteq> None \<and> \<not> operator_role i \<and> \<not> input_limit_reported s
               then (d, False)
               else if \<not> device_state_writes_allowed sg sv (md_name d) then (d, False)
               else let (d1, res) = write_device_properties (sg_write sg (md_name d)) ''acMode'' [(''acMode'', m)] d
                    in (d1, case res of None \<Rightarrow> True
                            | Some r \<Rightarrow> dispatch_accepted r \<or> dr_status r \<noteq> REJECTED))"

definition reconcile_runtime_ac_charge_power ::
  "sights \<Rightarrow> supervision \<Rightarrow> device_runtime_intent \<Rightarrow> device_state \<Rightarrow> managed_device \<Rightarrow> managed_device \<times> bool" where
  "reconcile_runtime_ac_charge_power sg sv i s d =
     (if \<not> Charge_Supervision.supports_state_reconciliation (md_transport d) then (d, True)
      else case setpoint_w i of
             None \<Rightarrow> (d, True)
           | Some w \<Rightarrow>
               if \<not> operator_role i \<and> \<not> (input_limit_reported s \<and> ac_mode_known s) then (d, False)
               else if max 0 (input_limit_w s) = w then (d, True)
               else if \<not> device_state_writes_allowed sg sv (md_name d) then (d, False)
               else let (d1, res) = write_device_properties (sg_write sg (md_name d)) ''inputLimit''
                          [(''inputLimit'', w)] d
                    in (d1, write_accepted res))"

section \<open>The periodic reconcile of one device\<close>

text \<open>\<open>max_soc_wanted\<close> is \<open>full_charge_assist_max_soc\<close>: 100 while an assist owns \<open>socSet\<close>.\<close>

definition full_charge_assist_max_soc :: "sights \<Rightarrow> string \<Rightarrow> int option" where
  "full_charge_assist_max_soc sg name =
     (case sg_assist sg name of None \<Rightarrow> None
      | Some r \<Rightarrow> if full_charge_assist_active r then Some 100 else None)"

definition reconcile_device_state_limits ::
  "sights \<Rightarrow> supervision \<Rightarrow> state_settings \<Rightarrow> winter_config \<Rightarrow> winter_env \<Rightarrow> bool \<Rightarrow> winter_now \<Rightarrow> winter_policy \<Rightarrow>
   device_state \<Rightarrow> managed_device \<Rightarrow> winter_world \<Rightarrow> managed_device \<times> winter_world" where
  "reconcile_device_state_limits sg sv ss c e winter_active n p s d w =
     (let (w1, desired, _) = reconciliation_target c e s winter_active n p w;
          (d1, _) = apply_soc_limits sg sv ss s desired (full_charge_assist_max_soc sg (md_name d)) d
      in (apply_device_modes sg sv ss s d1, w1))"

section \<open>Only what is reported and differs is written\<close>

text \<open>The state writes of a cycle to one device, in any order.\<close>

datatype state_call =
    Soc_limits "int option" "int option"
  | Device_modes
  | Ac_mode_intent device_runtime_intent
  | Ac_charge_power device_runtime_intent
  | Runtime_device_state "string option"

fun state_call_step ::
  "sights \<Rightarrow> supervision \<Rightarrow> state_settings \<Rightarrow> device_state \<Rightarrow> managed_device \<Rightarrow> state_call \<Rightarrow> managed_device" where
  "state_call_step sg sv ss s d (Soc_limits lo hi) = fst (apply_soc_limits sg sv ss s lo hi d)"
| "state_call_step sg sv ss s d Device_modes = apply_device_modes sg sv ss s d"
| "state_call_step sg sv ss s d (Ac_mode_intent i) = fst (reconcile_ac_mode_intent sg sv i s d)"
| "state_call_step sg sv ss s d (Ac_charge_power i) = fst (reconcile_runtime_ac_charge_power sg sv i s d)"
| "state_call_step sg sv ss s d (Runtime_device_state m) = apply_runtime_device_state sg sv m s d"

text \<open>What one call may write over a report: a field it carries, with another value, or an operator's role.\<close>

fun writes_over :: "state_call \<Rightarrow> device_state \<Rightarrow> string \<times> int \<Rightarrow> bool" where
  "writes_over (Soc_limits lo hi) s (k, v) \<longleftrightarrow>
     k = ''minSoc'' \<and> min_soc_reported s \<and> v \<noteq> 10 * py_int (min_soc s) \<or>
     k = ''socSet'' \<and> max_soc_reported s \<and> v \<noteq> 10 * py_int (max_soc s)"
| "writes_over Device_modes s (k, v) \<longleftrightarrow> k = ''smartMode'' \<and> smart_mode_reported s \<and> v \<noteq> smart_mode s"
| "writes_over (Ac_mode_intent i) s (k, v) \<longleftrightarrow>
     k = ''acMode'' \<and> Some v = desired_ac_mode i \<and> (if ac_mode_known s then v \<noteq> ac_mode s else operator_role i) \<and>
     (v = AC_MODE_INPUT \<and> setpoint_w i \<noteq> None \<and> \<not> operator_role i \<longrightarrow> input_limit_reported s)"
| "writes_over (Ac_charge_power i) s (k, v) \<longleftrightarrow>
     k = ''inputLimit'' \<and> Some v = setpoint_w i \<and> v \<noteq> max 0 (input_limit_w s) \<and>
     (operator_role i \<or> input_limit_reported s \<and> ac_mode_known s)"
| "writes_over (Runtime_device_state m) s (k, v) \<longleftrightarrow>
     k = ''gridOffMode'' \<and> grid_off_mode_reported s \<and> v \<noteq> grid_off_mode s"

definition state_body :: "(string \<times> int \<Rightarrow> bool) \<Rightarrow> string \<times> properties \<Rightarrow> bool" where
  "state_body ok x \<longleftrightarrow> snd x \<noteq> [] \<and> list_all ok (snd x)"

definition state_written ::
  "sights \<Rightarrow> supervision \<Rightarrow> (string \<times> int \<Rightarrow> bool) \<Rightarrow> managed_device \<Rightarrow> managed_device \<Rightarrow> bool" where
  "state_written sg sv ok d d' \<longleftrightarrow>
     (case md_transport d of
        Mqtt_control _ _ \<Rightarrow> d' = d
      | Local_api hc \<Rightarrow> \<exists>sent. d' = d\<lparr>md_transport := Local_api (hc\<lparr>posted := posted hc @ sent\<rparr>)\<rparr> \<and>
          (sent = [] \<or> device_state_writes_allowed sg sv (md_name d)) \<and> list_all (state_body ok) sent)"

lemma state_written_refl [simp, intro]: "state_written sg sv ok d d"
  by (cases "md_transport d") (auto simp: state_written_def intro!: exI [of _ "[]"])

lemma state_written_trans:
  assumes "state_written sg sv ok d d1" and "state_written sg sv ok d1 d2"
  shows "state_written sg sv ok d d2"
proof (cases "md_transport d")
  case (Local_api hc)
  with assms(1) obtain sent where s1: "d1 = d\<lparr>md_transport := Local_api (hc\<lparr>posted := posted hc @ sent\<rparr>)\<rparr>"
    "sent = [] \<or> device_state_writes_allowed sg sv (md_name d)" "list_all (state_body ok) sent"
    by (auto simp: state_written_def)
  with assms(2) obtain more where s2: "d2 = d1\<lparr>md_transport := Local_api (hc\<lparr>posted := (posted hc @ sent) @ more\<rparr>)\<rparr>"
    "more = [] \<or> device_state_writes_allowed sg sv (md_name d)" "list_all (state_body ok) more"
    by (auto simp: state_written_def)
  show ?thesis using Local_api s1 s2 by (auto simp: state_written_def intro!: exI [of _ "sent @ more"])
next
  case (Mqtt_control c cl)
  then show ?thesis using assms by (auto simp: state_written_def)
qed

lemma state_written_mono:
  assumes "state_written sg sv ok d d'" and "\<And>kv. ok kv \<Longrightarrow> ok' kv"
  shows "state_written sg sv ok' d d'"
proof -
  have "list_all (state_body ok') sent" if "list_all (state_body ok) sent" for sent
    using that by (rule list.pred_mono_strong) (auto simp: state_body_def list_all_iff assms(2))
  then show ?thesis using assms(1) by (cases "md_transport d") (auto simp: state_written_def)
qed

lemma write_device_properties_written:
  assumes "Charge_Supervision.supports_state_reconciliation (md_transport d)"
    and "device_state_writes_allowed sg sv (md_name d)" and "props \<noteq> []" and "list_all ok props"
  shows "state_written sg sv ok d (fst (write_device_properties e field props d))"
proof -
  from assms(1) obtain hc where hc: "md_transport d = Local_api hc" by (cases "md_transport d") auto
  have "fst (write_device_properties e field props d) =
      d\<lparr>md_transport := Local_api (hc\<lparr>posted := posted hc @ [(field, props)]\<rparr>)\<rparr>"
    by (simp add: write_device_properties_def hc split_beta)
  then show ?thesis
    using assms hc by (auto simp: state_written_def state_body_def intro!: exI [of _ "[(field, props)]"])
qed

lemma soc_changes_over: "list_all (writes_over (Soc_limits l h) s) (soc_changes s (min_soc_to_write ss s lo) hi)"
  by (auto simp: soc_changes_def min_soc_to_write_def MIN_SOC_UNMANAGED_def)

lemma soc_limits_written:
  "state_written sg sv (writes_over (Soc_limits lo hi) s) d (fst (apply_soc_limits sg sv ss s lo hi d))"
  by (simp add: apply_soc_limits_def Let_def split_beta write_device_properties_written soc_changes_over)

lemma state_call_written: "state_written sg sv (writes_over call s) d (state_call_step sg sv ss s d call)"
proof (cases call)
  case (Soc_limits lo hi)
  then show ?thesis using soc_limits_written by simp
next
  case Device_modes
  then show ?thesis
    by (auto simp: apply_device_modes_def Let_def intro!: write_device_properties_written split: option.splits)
next
  case (Ac_mode_intent i)
  then show ?thesis
    by (auto simp: reconcile_ac_mode_intent_def split_beta intro!: write_device_properties_written split: option.splits)
next
  case (Ac_charge_power i)
  then show ?thesis
    by (auto simp: reconcile_runtime_ac_charge_power_def split_beta intro!: write_device_properties_written split: option.splits)
next
  case (Runtime_device_state m)
  then show ?thesis
    by (auto simp: apply_runtime_device_state_def intro!: write_device_properties_written split: option.splits)
qed

text \<open>
  C16. The state writes touch only what they know and what differs. Whatever the settings, claims and
  runtime values, and in whatever order a cycle makes them, a device over the local API gets, of the
  SoC window, the modes, the charge power and the socket, only values that differ from its report,
  only for fields the report carries, and only while control and its gates are on. The one exception
  is the role an operator set, which may write \<open>acMode\<close> and \<open>inputLimit\<close> over an unknown value; a
  device over MQTT gets nothing.
\<close>

theorem state_writes_are_known_and_needed:
  "state_written sg sv (\<lambda>kv. \<exists>call \<in> set calls. writes_over call s kv) d (foldl (state_call_step sg sv ss s) d calls)"
proof (induction calls arbitrary: d)
  case (Cons call calls)
  have "state_written sg sv (\<lambda>kv. \<exists>c \<in> set (call # calls). writes_over c s kv) d (state_call_step sg sv ss s d call)"
    by (rule state_written_mono [OF state_call_written]) simp
  moreover have "state_written sg sv (\<lambda>kv. \<exists>c \<in> set (call # calls). writes_over c s kv) (state_call_step sg sv ss s d call)
      (foldl (state_call_step sg sv ss s) (state_call_step sg sv ss s d call) calls)"
    by (rule state_written_mono [OF Cons.IH]) auto
  ultimately show ?case using state_written_trans by simp
qed simp

section \<open>The floor of the SoC window\<close>

text \<open>
  A floor that does not make the device draw from the grid: no raise, or a raise that does not land on
  the battery's SoC and leads it by at most \<open>lead\<close>.
\<close>

definition safe_floor :: "int \<Rightarrow> device_state \<Rightarrow> int \<Rightarrow> bool" where
  "safe_floor lead s t \<longleftrightarrow> t \<le> max 0 (py_int (min_soc s)) \<or> (t \<noteq> py_int (soc s) \<and> t \<le> py_int (soc s) + lead)"

definition floor_body :: "int \<Rightarrow> device_state \<Rightarrow> string \<times> int \<Rightarrow> bool" where
  "floor_body lead s kv \<longleftrightarrow> fst kv = ''minSoc'' \<longrightarrow>
     (\<exists>t. snd kv = 10 * t \<and> 0 < t \<and> t \<le> 100 \<and> min_soc_reported s \<and> safe_floor lead s t)"

lemma configured_floor_safe: "0 < min_soc_to_write ss s None \<Longrightarrow> safe_floor 3 s (min_soc_to_write ss s None)"
proof -
  let ?t = "winter_min_soc_raise_limit (safe_soc_limit (ss_min_soc ss)) (min_soc s) (Some (soc s)) MAX_RAISE_ABOVE_SOC"
  assume p: "0 < min_soc_to_write ss s None"
  then have t: "min_soc_to_write ss s None = ?t"
    by (auto simp: min_soc_to_write_def safe_soc_limit_def MIN_SOC_UNMANAGED_def split: if_splits)
  show ?thesis
  proof (cases "?t \<le> max 0 (py_int (min_soc s))")
    case False
    then have "max 0 (py_int (min_soc s)) < ?t" by (simp only: not_le)
    from raise_limit_safe [OF this] show ?thesis unfolding t by (auto simp: safe_floor_def MAX_RAISE_ABOVE_SOC_def)
  qed (simp add: t safe_floor_def)
qed

lemma winter_floor_safe:
  assumes "reconciliation_target c e s winter_active n (POLICIES name) w = (w', Some t, stepped)"
  shows "safe_floor 6 s t"
  using winter_raise_is_safe [OF assms] by (auto simp: safe_floor_def split: if_splits)

lemma soc_changes_floor:
  assumes "0 < min_soc_to_write ss s lo \<Longrightarrow> safe_floor lead s (min_soc_to_write ss s lo)"
  shows "list_all (floor_body lead s) (soc_changes s (min_soc_to_write ss s lo) hi)"
  using assms
  by (auto simp: soc_changes_def floor_body_def min_soc_to_write_def safe_soc_limit_def MIN_SOC_UNMANAGED_def
      split: if_splits option.splits)

lemma no_floor_in_modes: "state_written sg sv (floor_body lead s) d (apply_device_modes sg sv ss s d)"
  by (auto simp: apply_device_modes_def Let_def floor_body_def intro!: write_device_properties_written split: option.splits)

lemma safe_floor_mono: "safe_floor 3 s t \<Longrightarrow> safe_floor 6 s t"
  by (auto simp: safe_floor_def)


text \<open>A claim that is not the operator's sends its AC input and its power together or not at all.\<close>

lemma claim_input_needs_both_fields:
  assumes "\<not> operator_role i" and "setpoint_w i \<noteq> None" and "desired_ac_mode i = Some AC_MODE_INPUT"
    and "\<not> ac_mode_known s \<or> \<not> input_limit_reported s \<and> ac_mode s \<noteq> AC_MODE_INPUT"
  shows "fst (reconcile_ac_mode_intent sg sv i s d) = d \<and> fst (reconcile_runtime_ac_charge_power sg sv i s d) = d"
  using assms by (auto simp: reconcile_ac_mode_intent_def reconcile_runtime_ac_charge_power_def)

section \<open>Concrete writes\<close>

definition demo_window :: state_settings where
  "demo_window = \<lparr>ss_min_soc = 33, ss_max_soc = 90, ss_smart_mode = Some 1, ss_reconcile_smart_mode = True\<rparr>"

definition demo_window_report :: device_state where
  "demo_window_report = zero_device_state\<lparr>soc := 30, min_soc := 20, max_soc := 100, ac_mode := 0,
     min_soc_reported := True, max_soc_reported := True, smart_mode_reported := False, pack_num := Some 1\<rparr>"

definition demo_claim :: device_runtime_intent where
  "demo_claim = ac_input_intent ''a'' ''battery_full_charge_assist'' (Some 800) PRIORITY_MAINTENANCE"

definition demo_calls :: "state_call list" where
  "demo_calls = [Soc_limits None None, Device_modes, Ac_mode_intent demo_claim, Ac_charge_power demo_claim,
     Runtime_device_state (Some ''eco'')]"

definition demo_writes :: "managed_device \<Rightarrow> (string \<times> properties) list" where
  "demo_writes d = (case md_transport d of Local_api hc \<Rightarrow> posted hc | Mqtt_control _ _ \<Rightarrow> [])"

lemma demo_calls_write:
  "demo_writes (foldl (state_call_step (demo_sights 5 False) new_supervision demo_window demo_window_report)
     (demo_managed ''a'' (new_http_client None)) demo_calls) =
   [(''minSoc/socSet'', [(''minSoc'', 330), (''socSet'', 900)])]"
  by code_simp


end
