(* ===== verification/Assist_Store.thy ===== *)
theory Assist_Store
  imports Charge_Supervision
begin

text \<open>
  \<open>ems/state_store.py\<close>, \<open>BatteryFullChargeStateStore\<close>: what the full-charge assist remembers of each
  device, written to the database only when it changes.

  \<open>assist_row\<close> is a row of the table and extends the record that \<open>Charge_Supervision\<close> reads of it. A time is
  its instant in seconds, which its text in the database carries exactly. \<open>rows\<close> is the table, \<open>unwritten\<close>
  the observations held in memory; the keyword arguments of an update are a list of \<open>assist_change\<close>. The
  creation of the tables and the text of the dashboard's status are left out.

  The locale \<open>simulated\<close> states that a machine keeps what a simpler one would keep. It is
  interpreted on this store and the one that writes every report.

  Proved: a reader in this process sees what a store that writes every report would show; and a
  crash loses of each device only its times, and only the last fifteen minutes of them.
\<close>

section \<open>Rows and what is observed\<close>

definition LAST_SEEN_REFRESH :: seconds where "LAST_SEEN_REFRESH = 15 * 60"

record assist_row = stored_assist +
  ac_input_request_pending :: bool
  last_full_charge_at :: "seconds option"
  next_due_at :: "seconds option"
  assist_started_at :: "seconds option"
  last_attempt_at :: "seconds option"
  last_seen_soc :: "percent option"
  last_seen_max_soc :: "percent option"
  last_seen_soc_limit :: "int option"
  last_seen_ac_mode :: "int option"
  last_seen_ac_status :: "int option"
  last_seen_pack_num :: "int option"
  last_seen_soc_status :: "int option"
  last_seen_battery_calibration_time :: "int option"
  last_seen_at :: "seconds option"
  updated_at :: seconds

definition default_row :: "seconds \<Rightarrow> assist_row" where
  "default_row n = \<lparr>has_battery = False, ac_mode_restore_pending = False, restore_pending = False,
     full_charge_assist_active = False, max_soc_request_pending = False, ac_input_request_pending = False,
     last_full_charge_at = None, next_due_at = None, assist_started_at = None, last_attempt_at = None,
     last_seen_soc = None, last_seen_max_soc = None, last_seen_soc_limit = None, last_seen_ac_mode = None,
     last_seen_ac_status = None, last_seen_pack_num = None, last_seen_soc_status = None,
     last_seen_battery_calibration_time = None, last_seen_at = None, updated_at = n\<rparr>"

record observation =
  ob_has_battery :: bool
  ob_soc :: percent
  ob_max_soc :: percent
  ob_soc_limit :: int
  ob_ac_mode :: int
  ob_ac_status :: int
  ob_pack_num :: "int option"
  ob_soc_status :: int
  ob_calibration :: "int option"
  ob_full :: "(seconds \<times> seconds) option"
  ob_seen_at :: seconds

definition days_s :: "int \<Rightarrow> seconds" where "days_s n = of_int (n * 86400)"

definition observation_of :: "device_state \<Rightarrow> bool \<Rightarrow> seconds \<Rightarrow> int \<Rightarrow> observation" where
  "observation_of s battery n interval_days =
     \<lparr>ob_has_battery = battery, ob_soc = soc s, ob_max_soc = max_soc s, ob_soc_limit = soc_limit s,
      ob_ac_mode = ac_mode s, ob_ac_status = ac_status s, ob_pack_num = parse_pack_count (pack_num s),
      ob_soc_status = soc_status s, ob_calibration = battery_calibration_time s,
      ob_full = (if battery \<and> soc_limit s = 1 then Some (n, n + days_s interval_days) else None),
      ob_seen_at = n\<rparr>"

definition put_observation :: "observation \<Rightarrow> assist_row \<Rightarrow> assist_row" where
  "put_observation ob r =
     (let r1 = r\<lparr>has_battery := ob_has_battery ob, last_seen_soc := Some (ob_soc ob),
            last_seen_max_soc := Some (ob_max_soc ob), last_seen_soc_limit := Some (ob_soc_limit ob),
            last_seen_ac_mode := Some (ob_ac_mode ob), last_seen_ac_status := Some (ob_ac_status ob),
            last_seen_pack_num := ob_pack_num ob, last_seen_soc_status := Some (ob_soc_status ob),
            last_seen_battery_calibration_time := ob_calibration ob, last_seen_at := Some (ob_seen_at ob)\<rparr>
      in case ob_full ob of
           None \<Rightarrow> r1
         | Some (full, due) \<Rightarrow> r1\<lparr>last_full_charge_at := Some full, next_due_at := Some due\<rparr>)"

text \<open>The keyword arguments of \<open>update_device_state\<close>.\<close>

datatype assist_change =
    Set_assist_active bool
  | Set_assist_started_at seconds
  | Set_last_attempt_at seconds
  | Set_restore_pending bool
  | Set_ac_mode_restore_pending bool
  | Set_max_soc_request_pending bool
  | Set_ac_input_request_pending bool
  | Set_last_full_charge_at seconds
  | Set_next_due_at seconds
  | Set_observed observation

fun apply_change :: "assist_change \<Rightarrow> assist_row \<Rightarrow> assist_row" where
  "apply_change (Set_assist_active b) r = r\<lparr>full_charge_assist_active := b\<rparr>"
| "apply_change (Set_assist_started_at t) r = r\<lparr>assist_started_at := Some t\<rparr>"
| "apply_change (Set_last_attempt_at t) r = r\<lparr>last_attempt_at := Some t\<rparr>"
| "apply_change (Set_restore_pending b) r = r\<lparr>restore_pending := b\<rparr>"
| "apply_change (Set_ac_mode_restore_pending b) r = r\<lparr>ac_mode_restore_pending := b\<rparr>"
| "apply_change (Set_max_soc_request_pending b) r = r\<lparr>max_soc_request_pending := b\<rparr>"
| "apply_change (Set_ac_input_request_pending b) r = r\<lparr>ac_input_request_pending := b\<rparr>"
| "apply_change (Set_last_full_charge_at t) r = r\<lparr>last_full_charge_at := Some t\<rparr>"
| "apply_change (Set_next_due_at t) r = r\<lparr>next_due_at := Some t\<rparr>"
| "apply_change (Set_observed ob) r = put_observation ob r"

definition apply_changes :: "assist_change list \<Rightarrow> assist_row \<Rightarrow> assist_row" where
  "apply_changes cs r = foldl (\<lambda>r c. apply_change c r) r cs"

section \<open>The store\<close>

record feature_row =
  enabled_last_seen :: bool
  last_enabled_at :: "seconds option"
  last_disabled_at :: "seconds option"
  feature_updated_at :: seconds

record assist_event =
  ev_device :: string
  ev_type :: string
  ev_message :: "string option"
  ev_state :: "device_state option"
  ev_at :: seconds

record assist_store =
  rows :: "string \<rightharpoonup> assist_row"
  unwritten :: "string \<rightharpoonup> observation"
  feature_state :: "feature_row option"
  assist_events :: "assist_event list"

definition empty_assist_store :: assist_store where
  "empty_assist_store = \<lparr>rows = Map.empty, unwritten = Map.empty, feature_state = None, assist_events = []\<rparr>"

definition overlay :: "observation option \<Rightarrow> assist_row \<Rightarrow> assist_row" where
  "overlay ob r = (case ob of None \<Rightarrow> r | Some b \<Rightarrow> put_observation b r)"

definition get_device_state :: "assist_store \<Rightarrow> string \<Rightarrow> assist_row option" where
  "get_device_state st name = map_option (overlay (unwritten st name)) (rows st name)"

text \<open>\<open>get_device_state\<close> with a time gives the default of an unknown device.\<close>

definition get_device_state_at :: "assist_store \<Rightarrow> string \<Rightarrow> seconds \<Rightarrow> assist_row" where
  "get_device_state_at st name n = (case get_device_state st name of None \<Rightarrow> default_row n | Some r \<Rightarrow> r)"

definition update_device_state ::
  "string \<Rightarrow> seconds \<Rightarrow> assist_change list \<Rightarrow> assist_store \<Rightarrow> assist_store \<times> assist_row" where
  "update_device_state name n cs st =
     (let current = get_device_state_at st name n
      in if rows st name \<noteq> None \<and> list_all (\<lambda>c. apply_change c current = current) cs then (st, current)
         else let r = (apply_changes cs current)\<lparr>updated_at := n\<rparr>
              in (st\<lparr>rows := (rows st)(name \<mapsto> r), unwritten := (unwritten st)(name := None)\<rparr>, r))"

text \<open>What an observation must keep of a row for it to wait in memory.\<close>

definition observed_as :: "observation \<Rightarrow> assist_row \<Rightarrow> bool" where
  "observed_as ob r \<longleftrightarrow> has_battery r = ob_has_battery ob \<and> last_seen_soc r = Some (ob_soc ob) \<and>
     last_seen_max_soc r = Some (ob_max_soc ob) \<and> last_seen_soc_limit r = Some (ob_soc_limit ob) \<and>
     last_seen_ac_mode r = Some (ob_ac_mode ob) \<and> last_seen_ac_status r = Some (ob_ac_status ob) \<and>
     last_seen_pack_num r = ob_pack_num ob \<and> last_seen_soc_status r = Some (ob_soc_status ob) \<and>
     last_seen_battery_calibration_time r = ob_calibration ob"

definition observation_due :: "assist_row \<Rightarrow> observation \<Rightarrow> bool" where
  "observation_due r ob \<longleftrightarrow> \<not> observed_as ob r \<or>
     (case last_seen_at r of None \<Rightarrow> True | Some t \<Rightarrow> LAST_SEEN_REFRESH \<le> ob_seen_at ob - t)"

definition record_observation ::
  "string \<Rightarrow> device_state \<Rightarrow> bool \<Rightarrow> seconds \<Rightarrow> int \<Rightarrow> assist_store \<Rightarrow> assist_store \<times> assist_row" where
  "record_observation name s battery n interval_days st =
     (let ob = observation_of s battery n interval_days
      in case rows st name of
           None \<Rightarrow> update_device_state name n [Set_observed ob] st
         | Some r \<Rightarrow>
             if \<not> observation_due r ob
             then (st\<lparr>unwritten := (unwritten st)(name \<mapsto> ob)\<rparr>, put_observation ob r)
             else update_device_state name n [Set_observed ob] st)"

definition full_charge_has_pending_state :: "assist_row \<Rightarrow> bool" where
  "full_charge_has_pending_state r \<longleftrightarrow> full_charge_assist_active r \<or> restore_pending r \<or>
     ac_mode_restore_pending r \<or> max_soc_request_pending r \<or> ac_input_request_pending r"

definition log_assist_event ::
  "string \<Rightarrow> string \<Rightarrow> seconds \<Rightarrow> device_state option \<Rightarrow> string option \<Rightarrow> assist_store \<Rightarrow> assist_store" where
  "log_assist_event name ty n s message st =
     st\<lparr>assist_events := assist_events st @
       [\<lparr>ev_device = name, ev_type = ty, ev_message = message, ev_state = s, ev_at = n\<rparr>]\<rparr>"

definition seed_full_charge_schedule ::
  "string \<Rightarrow> seconds \<Rightarrow> int \<Rightarrow> string \<Rightarrow> string \<Rightarrow> device_state option \<Rightarrow> assist_store \<Rightarrow> assist_store \<times> assist_row" where
  "seed_full_charge_schedule name n interval_days ty message s st =
     (let (st1, r) = update_device_state name n
        [Set_last_full_charge_at n, Set_next_due_at (n + days_s interval_days), Set_assist_active False,
         Set_restore_pending False, Set_ac_mode_restore_pending False, Set_max_soc_request_pending False,
         Set_ac_input_request_pending False] st
      in (log_assist_event name ty n s (Some message) st1, r))"

definition mark_assist_started :: "string \<Rightarrow> seconds \<Rightarrow> bool \<Rightarrow> assist_store \<Rightarrow> assist_store \<times> assist_row" where
  "mark_assist_started name n with_ac_mode = update_device_state name n
     [Set_assist_active True, Set_assist_started_at n, Set_last_attempt_at n, Set_restore_pending True,
      Set_max_soc_request_pending True, Set_ac_input_request_pending with_ac_mode]"

definition mark_assist_completed :: "string \<Rightarrow> seconds \<Rightarrow> int \<Rightarrow> assist_store \<Rightarrow> assist_store \<times> assist_row" where
  "mark_assist_completed name n interval_days = update_device_state name n
     [Set_last_full_charge_at n, Set_next_due_at (n + days_s interval_days), Set_assist_active False,
      Set_max_soc_request_pending True, Set_ac_input_request_pending False, Set_restore_pending True]"

definition get_full_charge_feature_enabled_state :: "assist_store \<Rightarrow> bool option" where
  "get_full_charge_feature_enabled_state st = map_option enabled_last_seen (feature_state st)"

definition set_full_charge_feature_enabled_state :: "bool \<Rightarrow> seconds \<Rightarrow> assist_store \<Rightarrow> assist_store" where
  "set_full_charge_feature_enabled_state b n st =
     (if get_full_charge_feature_enabled_state st = Some b then st
      else
        let old = feature_state st
        in st\<lparr>feature_state := Some
             \<lparr>enabled_last_seen = b,
              last_enabled_at = (if b then Some n else case old of None \<Rightarrow> None | Some f \<Rightarrow> last_enabled_at f),
              last_disabled_at = (if \<not> b then Some n else case old of None \<Rightarrow> None | Some f \<Rightarrow> last_disabled_at f),
              feature_updated_at = n\<rparr>\<rparr>)"

section \<open>A store that writes every report\<close>

locale simulated =
  fixes step :: "'s \<Rightarrow> 'e \<Rightarrow> 's" and view :: "'s \<Rightarrow> 'a" and plain :: "'a \<Rightarrow> 'e \<Rightarrow> 'a" and inv :: "'s \<Rightarrow> bool"
  assumes step_inv: "inv s \<Longrightarrow> inv (step s e)"
    and step_view: "inv s \<Longrightarrow> view (step s e) = plain (view s) e"
begin

lemma run_inv: "inv s \<Longrightarrow> inv (run_steps step s es)"
  by (induction es arbitrary: s) (simp_all add: step_inv)

lemma run_view: "inv s \<Longrightarrow> view (run_steps step s es) = run_steps plain (view s) es"
  by (induction es arbitrary: s) (simp_all add: step_inv step_view)

end

datatype assist_op =
    Observed string device_state bool seconds int
  | Updated string seconds "assist_change list"

fun store_op_step :: "assist_store \<Rightarrow> assist_op \<Rightarrow> assist_store" where
  "store_op_step st (Observed name s battery n interval) = fst (record_observation name s battery n interval st)"
| "store_op_step st (Updated name n cs) = fst (update_device_state name n cs st)"

text \<open>A row but for the time it was written, and the store that keeps every row so.\<close>

definition content :: "assist_row \<Rightarrow> assist_row" where "content r = r\<lparr>updated_at := 0\<rparr>"

definition put_row :: "string \<Rightarrow> assist_change list \<Rightarrow> (string \<rightharpoonup> assist_row) \<Rightarrow> (string \<rightharpoonup> assist_row)" where
  "put_row name cs m = m(name \<mapsto> apply_changes cs (case m name of None \<Rightarrow> default_row 0 | Some r \<Rightarrow> r))"

fun plain_step :: "(string \<rightharpoonup> assist_row) \<Rightarrow> assist_op \<Rightarrow> (string \<rightharpoonup> assist_row)" where
  "plain_step m (Observed name s battery n interval) = put_row name [Set_observed (observation_of s battery n interval)] m"
| "plain_step m (Updated name n cs) = put_row name cs m"

definition what_is_read :: "assist_store \<Rightarrow> string \<rightharpoonup> assist_row" where
  "what_is_read st = (\<lambda>name. map_option content (get_device_state st name))"

lemma apply_changes_simps [simp]:
  "apply_changes [] r = r" "apply_changes (c # cs) r = apply_changes cs (apply_change c r)"
  by (simp_all add: apply_changes_def)

lemma content_put_observation: "content (put_observation ob r) = put_observation ob (content r)"
  by (simp add: content_def put_observation_def Let_def split: option.splits prod.splits)

lemma content_apply_change: "content (apply_change c r) = apply_change c (content r)"
  by (cases c) (simp_all add: content_put_observation, simp_all add: content_def)

lemma content_apply_changes: "content (apply_changes cs r) = apply_changes cs (content r)"
  by (induction cs arbitrary: r) (simp_all add: content_apply_change)

lemma nothing_changed: "list_all (\<lambda>c. apply_change c r = r) cs \<Longrightarrow> apply_changes cs r = r"
  by (induction cs) auto

lemma content_written [simp]: "content (r\<lparr>updated_at := n\<rparr>) = content r"
  by (simp add: content_def)

lemma content_default [simp]: "content (default_row n) = default_row 0"
  by (simp add: content_def default_row_def)

lemma get_none: "get_device_state st name = None \<longleftrightarrow> rows st name = None"
  by (simp add: get_device_state_def)

lemma update_view: "what_is_read (fst (update_device_state name n cs st)) = put_row name cs (what_is_read st)"
proof (cases "rows st name \<noteq> None \<and> list_all (\<lambda>c. apply_change c (get_device_state_at st name n) = get_device_state_at st name n) cs")
  case True
  then obtain r where r: "get_device_state st name = Some r" by (metis get_none not_None_eq)
  then have "apply_changes cs r = r" using True nothing_changed by (simp add: get_device_state_at_def)
  then have "apply_changes cs (content r) = content r" by (metis content_apply_changes)
  then show ?thesis
    using True r by (simp add: update_device_state_def what_is_read_def put_row_def fun_eq_iff Let_def)
next
  case False
  let ?cur = "get_device_state_at st name n"
  have "content ?cur = (case what_is_read st name of None \<Rightarrow> default_row 0 | Some r \<Rightarrow> r)"
    by (simp add: get_device_state_at_def what_is_read_def split: option.splits)
  then show ?thesis
    using False
    by (auto simp: update_device_state_def what_is_read_def put_row_def get_device_state_def overlay_def
        content_apply_changes fun_eq_iff Let_def)
qed

text \<open>What waits in memory differs from its row in its times alone, and by less than the refresh.\<close>

definition waiting_ok :: "assist_row \<Rightarrow> observation \<Rightarrow> bool" where
  "waiting_ok r ob \<longleftrightarrow> \<not> observation_due r ob \<and> (ob_full ob \<noteq> None \<longleftrightarrow> ob_has_battery ob \<and> ob_soc_limit ob = 1)"

definition store_ok :: "assist_store \<Rightarrow> bool" where
  "store_ok st \<longleftrightarrow> (\<forall>name ob. unwritten st name = Some ob \<longrightarrow> (\<exists>r. rows st name = Some r \<and> waiting_ok r ob))"

lemma store_okD: "store_ok st \<Longrightarrow> unwritten st name = Some ob \<Longrightarrow> rows st name = Some r \<Longrightarrow> waiting_ok r ob"
  unfolding store_ok_def by (metis option.inject)

lemma update_ok: "store_ok st \<Longrightarrow> store_ok (fst (update_device_state name n cs st))"
  by (auto simp: store_ok_def update_device_state_def Let_def)

lemma fresh_waiting: "\<not> observation_due r (observation_of s b n d) \<Longrightarrow> waiting_ok r (observation_of s b n d)"
  by (simp add: waiting_ok_def) (auto simp: observation_of_def)

lemma wait_ok: "store_ok st \<Longrightarrow> rows st name = Some r \<Longrightarrow> waiting_ok r ob \<Longrightarrow>
    store_ok (st\<lparr>unwritten := (unwritten st)(name \<mapsto> ob)\<rparr>)"
  by (simp add: store_ok_def)

lemma record_ok: "store_ok st \<Longrightarrow> store_ok (fst (record_observation name s b n d st))"
  by (auto simp: record_observation_def Let_def fresh_waiting wait_ok update_ok split: option.splits)

text \<open>A later observation of the same values takes the place of the one that waits.\<close>

lemma waiting_replaced:
  assumes "waiting_ok r ob" and "waiting_ok r ob'"
  shows "put_observation ob' (put_observation ob r) = put_observation ob' r"
  using assms
  by (cases "ob_full ob"; cases "ob_full ob'")
    (auto simp: waiting_ok_def observation_due_def observed_as_def put_observation_def Let_def)

lemma record_view:
  assumes "store_ok st"
  shows "what_is_read (fst (record_observation name s b n d st)) =
    put_row name [Set_observed (observation_of s b n d)] (what_is_read st)"
proof (cases "\<exists>r. rows st name = Some r \<and> \<not> observation_due r (observation_of s b n d)")
  case True
  let ?ob = "observation_of s b n d"
  from True obtain r where r: "rows st name = Some r" "\<not> observation_due r ?ob" by blast
  then have w: "waiting_ok r ?ob" by (simp add: fresh_waiting)
  have "put_observation ?ob (overlay (unwritten st name) r) = put_observation ?ob r"
  proof (cases "unwritten st name")
    case (Some ob)
    with assms r(1) have "waiting_ok r ob" by (rule_tac store_okD)
    then show ?thesis using waiting_replaced [OF _ w] Some by (simp add: overlay_def)
  qed (simp add: overlay_def)
  then have "content (put_observation ?ob r) = put_observation ?ob (content (overlay (unwritten st name) r))"
    by (metis content_put_observation)
  then show ?thesis
    using r by (simp add: record_observation_def what_is_read_def put_row_def get_device_state_def overlay_def
        fun_eq_iff Let_def)
next
  case False
  then have "fst (record_observation name s b n d st) =
      fst (update_device_state name n [Set_observed (observation_of s b n d)] st)"
    by (auto simp: record_observation_def Let_def split: option.splits)
  then show ?thesis using update_view by simp
qed

interpretation assist_db: simulated store_op_step what_is_read plain_step store_ok
proof
  fix st e
  assume ok: "store_ok st"
  show "store_ok (store_op_step st e)" by (cases e) (simp_all add: ok update_ok record_ok)
  show "what_is_read (store_op_step st e) = plain_step (what_is_read st) e"
    by (cases e) (simp_all add: ok update_view record_view)
qed

lemma empty_store_ok [simp]: "store_ok empty_assist_store"
  by (simp add: store_ok_def empty_assist_store_def)

text \<open>
  C18. Keeping reports in memory changes nothing a reader in this process sees: after any sequence of
  reports and updates of any devices, what the store answers for each device is, but for the time of
  the last write, what a store answers that writes every one of them.
\<close>

theorem readers_see_every_report:
  "what_is_read (run_steps store_op_step empty_assist_store ops) = run_steps plain_step Map.empty ops"
proof -
  have "what_is_read empty_assist_store = Map.empty"
    by (simp add: what_is_read_def get_device_state_def empty_assist_store_def fun_eq_iff)
  then show ?thesis using assist_db.run_view [OF empty_store_ok, of ops] by simp
qed

section \<open>What a crash loses\<close>

text \<open>A crash forgets what waits in memory.\<close>

definition crash :: "assist_store \<Rightarrow> assist_store" where
  "crash st = st\<lparr>unwritten := Map.empty\<rparr>"

datatype assist_life = Op assist_op | Crash

fun life_step :: "assist_store \<Rightarrow> assist_life \<Rightarrow> assist_store" where
  "life_step st (Op e) = store_op_step st e"
| "life_step st Crash = crash st"

definition but_for_times :: "assist_row \<Rightarrow> assist_row" where
  "but_for_times r = r\<lparr>last_full_charge_at := None, next_due_at := None, last_seen_at := None\<rparr>"

lemma crash_ok: "store_ok (crash st)"
  by (simp add: store_ok_def crash_def)

lemma life_ok: "store_ok (run_steps life_step empty_assist_store es)"
proof (induction es rule: rev_induct)
  case (snoc e es)
  then show ?case
    by (cases e) (simp_all add: run_steps_append crash_ok assist_db.step_inv)
qed simp

lemma waiting_times: "waiting_ok r ob \<Longrightarrow> but_for_times (put_observation ob r) = but_for_times r"
  by (auto simp: waiting_ok_def observation_due_def observed_as_def put_observation_def but_for_times_def Let_def
      split: option.splits)

text \<open>
  C19. A crash loses of a device only its times. At any moment of the store's life, with crashes and
  restarts in between, the row that a crash leaves agrees with what was read before it in every
  value but the times a battery was last seen, last seen full and is next due; where it differs at
  all, the device was last seen less than fifteen minutes after the time the row says.
\<close>

theorem crash_loses_only_recent_times:
  assumes "st = run_steps life_step empty_assist_store es" and "get_device_state st name = Some v"
  shows "\<exists>r. get_device_state (crash st) name = Some r \<and> but_for_times r = but_for_times v \<and>
    (r = v \<or> (\<exists>a b. last_seen_at r = Some a \<and> last_seen_at v = Some b \<and> b - a < LAST_SEEN_REFRESH))"
proof -
  from assms(2) obtain r where r: "rows st name = Some r" "v = overlay (unwritten st name) r"
    by (auto simp: get_device_state_def)
  then have c: "get_device_state (crash st) name = Some r" by (simp add: get_device_state_def crash_def overlay_def)
  show ?thesis
  proof (cases "unwritten st name")
    case None
    then show ?thesis using c r by (simp add: overlay_def)
  next
    case (Some ob)
    then have w: "waiting_ok r ob" using store_okD life_ok [of es] r(1) unfolding assms(1) by blast
    moreover have "last_seen_at v = Some (ob_seen_at ob)"
      using r(2) Some by (simp add: overlay_def put_observation_def Let_def split: option.splits)
    ultimately show ?thesis
      using c r(2) Some waiting_times [OF w]
      by (auto simp: overlay_def waiting_ok_def observation_due_def split: option.splits)
  qed
qed

definition demo_full :: device_state where
  "demo_full = zero_device_state\<lparr>soc := 100, soc_limit := 1, pack_num := Some 1\<rparr>"

definition demo_life :: "assist_life list" where
  "demo_life = map Op [Observed ''a'' demo_full True 0 28, Observed ''a'' demo_full True 600 28]"

theorem crash_loses_only_recent_times_witness:
  "\<exists>v r. get_device_state (run_steps life_step empty_assist_store demo_life) ''a'' = Some v \<and>
    get_device_state (crash (run_steps life_step empty_assist_store demo_life)) ''a'' = Some r \<and>
    last_full_charge_at v = Some 600 \<and> last_full_charge_at r = Some 0 \<and> but_for_times r = but_for_times v"
proof -
  let ?st = "run_steps life_step empty_assist_store demo_life"
  have v: "map_option last_full_charge_at (get_device_state ?st ''a'') = Some (Some 600)"
    and r: "map_option last_full_charge_at (get_device_state (crash ?st) ''a'') = Some (Some 0)" by code_simp+
  from v obtain v where "get_device_state ?st ''a'' = Some v" "last_full_charge_at v = Some 600" by auto
  with crash_loses_only_recent_times [OF refl, of demo_life "''a''" v] r show ?thesis by auto
qed

end
