(* ===== verification/Full_Charge_Assist.thy ===== *)
theory Full_Charge_Assist
  imports State_Reconciliation Assist_Store
begin

text \<open>
  The schedule of the full-charge assist in \<open>ems/controller.py\<close>: when an assist starts, what it writes,
  how it ends and what it owes afterwards, on the store of \<open>Assist_Store\<close> and the writes of
  \<open>State_Reconciliation\<close>.

  The store is the one the controller is given, so the branches without one are left out.
  \<open>assist_now\<close> is the time of the cycle and the offset of the local time zone from it, both of one
  reading of the clock. The log lines repeat the events the store keeps and are left out.

  Proved: an assist starts only where everything it needs can be written, and only when due; while it
  runs and until it is settled it owes the device its configured maximum back, and that debt ends
  only when the device reports that maximum or was sent it.
\<close>

section \<open>When an assist is due\<close>

record assist_config =
  fca_enabled :: bool
  fca_interval_days :: int
  fca_window_days :: int
  fca_start_soc :: int
  fca_force_time :: "int \<times> int"

record assist_now =
  an_time :: seconds
  an_offset :: seconds

definition local_day :: "seconds \<Rightarrow> seconds \<Rightarrow> int" where
  "local_day offset t = \<lfloor>(t + offset) / 86400\<rfloor>"

definition local_seconds :: "seconds \<Rightarrow> seconds \<Rightarrow> seconds" where
  "local_seconds offset t = (t + offset) - of_int (local_day offset t * 86400)"

definition force_time_reached :: "assist_config \<Rightarrow> assist_now \<Rightarrow> seconds \<Rightarrow> bool" where
  "force_time_reached c n due \<longleftrightarrow> local_day (an_offset n) due \<le> local_day (an_offset n) (an_time n) \<and>
     of_int (fst (fca_force_time c) * 3600 + snd (fca_force_time c) * 60) \<le> local_seconds (an_offset n) (an_time n)"

definition should_start_full_charge_assist ::
  "assist_config \<Rightarrow> assist_now \<Rightarrow> assist_row \<Rightarrow> device_state \<Rightarrow> string option" where
  "should_start_full_charge_assist c n r s =
     (if full_charge_assist_active r then None
      else if restore_pending r then None
      else if ac_mode_restore_pending r then None
      else if soc_limit s = 1 then None
      else case next_due_at r of
             None \<Rightarrow> None
           | Some due \<Rightarrow>
               if force_time_reached c n due then Some ''full_charge_assist_forced''
               else if due \<le> an_time n + days_s (max 0 (fca_window_days c)) \<and> of_int (max 0 (fca_start_soc c)) \<le> soc s
               then Some ''full_charge_assist_started'' else None)"

record feature_transition =
  current_enabled :: bool
  first_enable :: bool
  reenabled :: bool

definition full_charge_assist_feature_transition ::
  "assist_config \<Rightarrow> assist_now \<Rightarrow> assist_store \<Rightarrow> assist_store \<times> feature_transition" where
  "full_charge_assist_feature_transition c n st =
     (let previous = get_full_charge_feature_enabled_state st
      in (set_full_charge_feature_enabled_state (fca_enabled c) (an_time n) st,
          \<lparr>current_enabled = fca_enabled c, first_enable = (previous = None \<and> fca_enabled c),
           reenabled = (previous = Some False \<and> fca_enabled c)\<rparr>))"

definition maybe_seed_full_charge_schedule ::
  "assist_config \<Rightarrow> assist_now \<Rightarrow> feature_transition \<Rightarrow> string \<Rightarrow> device_state \<Rightarrow> assist_row \<Rightarrow> assist_store \<Rightarrow>
   assist_store \<times> bool" where
  "maybe_seed_full_charge_schedule c n tr name s r st =
     (let interval = max 1 (fca_interval_days c)
      in if \<not> current_enabled tr then (st, False)
         else if full_charge_has_pending_state r then (st, False)
         else if first_enable tr \<and> last_full_charge_at r = None \<and> next_due_at r = None
         then (fst (seed_full_charge_schedule name (an_time n) interval
                 ''full_charge_assist_initial_state_seeded''
                 ''Initial full-charge assist schedule seeded from first enable; assuming battery was recently full.''
                 (Some s) st), True)
         else if reenabled tr
         then (fst (seed_full_charge_schedule name (an_time n) interval
                 ''full_charge_assist_reenabled_schedule_seeded''
                 ''Full-charge assist schedule seeded from re-enable; assuming battery was recently full.''
                 (Some s) st), True)
         else (st, False))"

section \<open>One report of a device\<close>

definition complete_full_charge_assist ::
  "assist_config \<Rightarrow> assist_now \<Rightarrow> string \<Rightarrow> device_state \<Rightarrow> assist_row \<Rightarrow> assist_store \<Rightarrow> assist_store \<times> assist_row" where
  "complete_full_charge_assist c n name s r st =
     (if full_charge_assist_active r \<and> soc_limit s = 1
      then let (st1, r1) = mark_assist_completed name (an_time n) (max 1 (fca_interval_days c)) st
           in (log_assist_event name ''full_charge_assist_completed'' (an_time n) (Some s) None st1, r1)
      else (st, r))"

definition abort_full_charge_assist_disabled ::
  "assist_config \<Rightarrow> assist_now \<Rightarrow> string \<Rightarrow> device_state \<Rightarrow> assist_row \<Rightarrow> assist_store \<Rightarrow> assist_store" where
  "abort_full_charge_assist_disabled c n name s r st =
     (if \<not> full_charge_assist_active r then st
      else if fca_enabled c then st
      else log_assist_event name ''full_charge_assist_aborted_disabled'' (an_time n) (Some s) None
        (fst (update_device_state name (an_time n)
          [Set_assist_active False, Set_restore_pending True, Set_max_soc_request_pending True,
           Set_ac_input_request_pending False, Set_ac_mode_restore_pending (ac_mode_restore_pending r)] st)))"

text \<open>What the controller's predicates about the assist read of the store and of this report.\<close>

definition reading_store :: "assist_store \<Rightarrow> sights \<Rightarrow> sights" where
  "reading_store st sg = sg\<lparr>sg_assist := (\<lambda>name. map_option stored_assist.truncate (get_device_state st name))\<rparr>"

definition reporting :: "string \<Rightarrow> device_state \<Rightarrow> supervision \<Rightarrow> supervision" where
  "reporting name s sv = sv\<lparr>sv_last_states := (sv_last_states sv)(name \<mapsto> s)\<rparr>"

definition request_max_soc ::
  "sights \<Rightarrow> supervision \<Rightarrow> state_settings \<Rightarrow> assist_now \<Rightarrow> device_state \<Rightarrow> managed_device \<Rightarrow> assist_store \<Rightarrow>
   managed_device \<times> assist_store" where
  "request_max_soc sg sv ss n s d st =
     (let (d1, write_ok) = apply_soc_limits sg sv ss s (Some MIN_SOC_UNMANAGED) (Some 100) d
      in (d1, if write_ok
              then fst (update_device_state (md_name d) (an_time n) [Set_max_soc_request_pending False] st) else st))"

definition restore_max_soc ::
  "sights \<Rightarrow> supervision \<Rightarrow> state_settings \<Rightarrow> assist_now \<Rightarrow> device_state \<Rightarrow> managed_device \<Rightarrow> assist_store \<Rightarrow>
   managed_device \<times> assist_store" where
  "restore_max_soc sg sv ss n s d st =
     (let (d1, write_ok) = apply_soc_limits sg sv ss s (Some MIN_SOC_UNMANAGED) (Some (ss_max_soc ss)) d
      in (d1, if write_ok
              then log_assist_event (md_name d) ''full_charge_assist_soc_restored'' (an_time n) (Some s) None
                (fst (update_device_state (md_name d) (an_time n)
                  [Set_restore_pending False, Set_max_soc_request_pending False] st))
              else st))"

definition start_full_charge_assist ::
  "sights \<Rightarrow> cycle_guard \<Rightarrow> supervision \<Rightarrow> state_settings \<Rightarrow> assist_config \<Rightarrow> assist_now \<Rightarrow> feature_transition \<Rightarrow>
   device_state \<Rightarrow> managed_device \<Rightarrow> assist_store \<Rightarrow> managed_device \<times> assist_store" where
  "start_full_charge_assist sg g sv ss c n tr s d st =
     (let name = md_name d; r = get_device_state_at st name (an_time n)
      in if current_enabled tr \<and> full_charge_assist_held_by (reading_store st sg) g (reporting name s sv) d = None
         then (case should_start_full_charge_assist c n r s of
                 None \<Rightarrow> (d, st)
               | Some ty \<Rightarrow>
                   let st1 = fst (mark_assist_started name (an_time n) (sg_assist_ac_mode sg) st)
                   in request_max_soc sg sv ss n s d (log_assist_event name ty (an_time n) (Some s) None st1))
         else (d, st))"

definition process_battery_full_charge_assist ::
  "sights \<Rightarrow> cycle_guard \<Rightarrow> supervision \<Rightarrow> state_settings \<Rightarrow> assist_config \<Rightarrow> assist_now \<Rightarrow> feature_transition \<Rightarrow>
   device_state \<Rightarrow> managed_device \<Rightarrow> assist_store \<Rightarrow> managed_device \<times> assist_store" where
  "process_battery_full_charge_assist sg g sv ss c n tr s d st =
     (let name = md_name d;
          battery = (battery_presence s = BATTERY_PRESENT);
          (st1, r1) = record_observation name s battery (an_time n) (max 1 (fca_interval_days c)) st
      in if \<not> battery then (d, st1)
         else
           let (st2, r2) = complete_full_charge_assist c n name s r1 st1;
               st3 = abort_full_charge_assist_disabled c n name s r2 st2;
               r3 = get_device_state_at st3 name (an_time n);
               (st4, seeded) = maybe_seed_full_charge_schedule c n tr name s r3 st3
           in if seeded then (d, st4)
              else if full_charge_assist_active r3 then request_max_soc sg sv ss n s d st4
              else
                let (d1, st5) = (if restore_pending r3 then restore_max_soc sg sv ss n s d st4 else (d, st4))
                in start_full_charge_assist sg g sv ss c n tr s d1 st5)"

section \<open>The AC mode of an assist\<close>

definition update_full_charge_assist_ac_pending ::
  "assist_now \<Rightarrow> managed_device \<Rightarrow> device_runtime_intent \<Rightarrow> bool \<Rightarrow> assist_store \<Rightarrow> assist_store" where
  "update_full_charge_assist_ac_pending n d i write_ok st =
     (if \<not> write_ok \<or> intent_reason i \<noteq> ''battery_full_charge_assist'' then st
      else
        let r = get_device_state_at st (md_name d) (an_time n);
            changes = (if ac_input_request_pending r then [Set_ac_input_request_pending False] else []) @
              (if desired_ac_mode i = Some AC_MODE_INPUT \<and>
                  Charge_Supervision.supports_state_reconciliation (md_transport d) \<and> \<not> ac_mode_restore_pending r
               then [Set_ac_mode_restore_pending True] else [])
        in if changes = [] then st else fst (update_device_state (md_name d) (an_time n) changes st))"

text \<open>The store's part of \<open>confirm_full_charge_assist_ac_restore\<close>.\<close>

fun restore_event :: "restore_outcome \<Rightarrow> string" where
  "restore_event Ac_mode_restored = ''full_charge_assist_ac_mode_restored''"
| "restore_event Ac_mode_restore_settled = ''full_charge_assist_ac_mode_restore_settled''"

definition settle_ac_restore ::
  "sights \<Rightarrow> assist_now \<Rightarrow> managed_device \<Rightarrow> device_state \<Rightarrow> device_runtime_intent \<Rightarrow> supervision \<times> assist_store \<Rightarrow>
   supervision \<times> assist_store" where
  "settle_ac_restore sg n d s i x =
     (case x of (sv, st) \<Rightarrow>
       let (sv1, outcome) = confirm_full_charge_assist_ac_restore (reading_store st sg) d s i sv
       in (sv1, case outcome of
                  None \<Rightarrow> st
                | Some ev \<Rightarrow> log_assist_event (md_name d) (restore_event ev) (an_time n) (Some s) None
                    (fst (update_device_state (md_name d) (an_time n) [Set_ac_mode_restore_pending False] st))))"

text \<open>What a cycle does for a reported device between its claim and its targets.\<close>

definition reconcile_claimed_device ::
  "sights \<Rightarrow> cycle_guard \<Rightarrow> bool \<Rightarrow> device_runtime_intent \<Rightarrow> assist_now \<Rightarrow> device_state \<Rightarrow> managed_device \<Rightarrow>
   supervision \<times> assist_store \<Rightarrow> managed_device \<times> supervision \<times> assist_store" where
  "reconcile_claimed_device sg g charge_permitted_here runtime n s d x =
     (case x of (sv, st) \<Rightarrow>
       let (d1, sv1) = claim_reported_device (reading_store st sg) g charge_permitted_here runtime s d sv
       in case sv_intents sv1 (md_name d) of
            None \<Rightarrow> (d1, sv1, st)
          | Some i \<Rightarrow>
              let (d2, ac_mode_write_ok) = reconcile_ac_mode_intent sg sv1 i s d1;
                  st1 = update_full_charge_assist_ac_pending n d2 i ac_mode_write_ok st;
                  (sv2, st2) = settle_ac_restore sg n d2 s i (sv1, st1);
                  (d3, _) = reconcile_runtime_ac_charge_power sg sv2 i s d2
              in (d3, sv2, st2))"

section \<open>What an operation leaves in the row\<close>

lemma row_after_update:
  "\<exists>u. get_device_state_at (fst (update_device_state name n cs st)) name m =
    (apply_changes cs (get_device_state_at st name n))\<lparr>updated_at := u\<rparr>"
proof (cases "rows st name \<noteq> None \<and> list_all (\<lambda>c. apply_change c (get_device_state_at st name n) = get_device_state_at st name n) cs")
  case True
  then have "apply_changes cs (get_device_state_at st name n) = get_device_state_at st name n"
    and "get_device_state_at st name m = get_device_state_at st name n"
    using nothing_changed get_none [of st name] by (auto simp: get_device_state_at_def split: option.splits)
  then show ?thesis
    using True by (intro exI [of _ "updated_at (get_device_state_at st name n)"]) (simp add: update_device_state_def)
next
  case False
  then show ?thesis
    by (intro exI [of _ n]) (auto simp: update_device_state_def get_device_state_at_def get_device_state_def overlay_def Let_def)
qed

lemma result_of_update:
  "snd (update_device_state name n cs st) = get_device_state_at (fst (update_device_state name n cs st)) name n"
  by (auto simp: update_device_state_def get_device_state_at_def get_device_state_def overlay_def Let_def split: option.splits)

lemma log_rows [simp]:
  "get_device_state_at (log_assist_event name ty n s m st) = get_device_state_at st"
  "get_device_state (log_assist_event name ty n s m st) = get_device_state st"
  "rows (log_assist_event name ty n s m st) = rows st" "unwritten (log_assist_event name ty n s m st) = unwritten st"
  by (simp_all add: log_assist_event_def get_device_state_at_def get_device_state_def fun_eq_iff)

lemma put_observation_flags [simp]:
  "full_charge_assist_active (put_observation ob r) = full_charge_assist_active r"
  "restore_pending (put_observation ob r) = restore_pending r"
  "ac_mode_restore_pending (put_observation ob r) = ac_mode_restore_pending r"
  "max_soc_request_pending (put_observation ob r) = max_soc_request_pending r"
  "ac_input_request_pending (put_observation ob r) = ac_input_request_pending r"
  by (simp_all add: put_observation_def Let_def split: option.splits)

lemma overlay_flags [simp]:
  "full_charge_assist_active (overlay ob r) = full_charge_assist_active r"
  "restore_pending (overlay ob r) = restore_pending r"
  "ac_mode_restore_pending (overlay ob r) = ac_mode_restore_pending r"
  by (simp_all add: overlay_def split: option.splits)

lemma row_after_report:
  assumes "store_ok st" and "record_observation name s b n d st = (st1, r1)"
  shows "\<exists>u. get_device_state_at st1 name n =
      (put_observation (observation_of s b n d) (get_device_state_at st name n))\<lparr>updated_at := u\<rparr> \<and>
    r1 = get_device_state_at st1 name n"
proof -
  let ?ob = "observation_of s b n d"
  show ?thesis
  proof (cases "\<exists>r. rows st name = Some r \<and> \<not> observation_due r ?ob")
    case True
    then obtain r where r: "rows st name = Some r" "\<not> observation_due r ?ob" by blast
    then have w: "waiting_ok r ?ob" by (simp add: fresh_waiting)
    have "put_observation ?ob (overlay (unwritten st name) r) = put_observation ?ob r"
      using waiting_replaced [OF store_okD [OF assms(1) _ r(1)] w] by (cases "unwritten st name") (auto simp: overlay_def)
    then show ?thesis
      using r assms(2) by (intro exI [of _ "updated_at (put_observation ?ob r)"])
        (auto simp: record_observation_def get_device_state_at_def get_device_state_def overlay_def Let_def)
  next
    case False
    then have "(st1, r1) = update_device_state name n [Set_observed ?ob] st"
      using assms(2) by (auto simp: record_observation_def Let_def split: option.splits)
    then show ?thesis
      using row_after_update [of name n "[Set_observed ?ob]" st n] result_of_update [of name n "[Set_observed ?ob]" st]
      by (metis apply_change.simps(10) apply_changes_simps fst_conv snd_conv)
  qed
qed

section \<open>A running assist owes the maximum back\<close>

definition owes_maximum :: "assist_row \<Rightarrow> bool" where
  "owes_maximum r \<longleftrightarrow> (full_charge_assist_active r \<longrightarrow> restore_pending r)"

definition all_owe :: "assist_store \<Rightarrow> bool" where
  "all_owe st \<longleftrightarrow> (\<forall>name r. rows st name = Some r \<longrightarrow> owes_maximum r)"

lemma owes_simps [simp]:
  "owes_maximum (put_observation ob r) = owes_maximum r" "owes_maximum (r\<lparr>updated_at := u\<rparr>) = owes_maximum r"
  "owes_maximum (overlay waiting r) = owes_maximum r" "owes_maximum (default_row n)"
  by (simp_all add: owes_maximum_def default_row_def)

lemma all_owe_read: "all_owe st \<Longrightarrow> owes_maximum (get_device_state_at st name n)"
  by (auto simp: all_owe_def get_device_state_at_def get_device_state_def split: option.splits)

lemma all_owe_log [simp]: "all_owe (log_assist_event name ty n s m st) = all_owe st"
  by (simp add: all_owe_def)

lemma all_owe_update:
  assumes "all_owe st" and "owes_maximum (apply_changes cs (get_device_state_at st name n))"
  shows "all_owe (fst (update_device_state name n cs st))"
  using assms by (auto simp: update_device_state_def all_owe_def Let_def)

lemma all_owe_record: "all_owe st \<Longrightarrow> all_owe (fst (record_observation name s b n d st))"
  using all_owe_update [of st "[Set_observed (observation_of s b n d)]" name n] all_owe_read [of st name n]
  by (auto simp: record_observation_def all_owe_def Let_def split: option.splits)

lemma all_owe_seed: "all_owe st \<Longrightarrow> all_owe (fst (maybe_seed_full_charge_schedule c n tr name s r st))"
  by (auto simp: maybe_seed_full_charge_schedule_def seed_full_charge_schedule_def Let_def split_beta owes_maximum_def
      intro!: all_owe_update)

lemma all_owe_complete: "all_owe st \<Longrightarrow> all_owe (fst (complete_full_charge_assist c n name s r st))"
  by (auto simp: complete_full_charge_assist_def mark_assist_completed_def Let_def split_beta owes_maximum_def
      intro!: all_owe_update)

lemma all_owe_abort: "all_owe st \<Longrightarrow> all_owe (abort_full_charge_assist_disabled c n name s r st)"
  by (auto simp: abort_full_charge_assist_disabled_def owes_maximum_def intro!: all_owe_update)

lemma all_owe_request: "all_owe st \<Longrightarrow> all_owe (snd (request_max_soc sg sv ss n s d st))"
  using all_owe_read [of st "md_name d" "an_time n"]
  by (auto simp: request_max_soc_def split_beta owes_maximum_def intro!: all_owe_update)

lemma all_owe_restore:
  assumes "all_owe st" and "\<not> full_charge_assist_active (get_device_state_at st (md_name d) (an_time n))"
  shows "all_owe (snd (restore_max_soc sg sv ss n s d st))"
  using assms by (auto simp: restore_max_soc_def split_beta owes_maximum_def intro!: all_owe_update)

lemma all_owe_start: "all_owe st \<Longrightarrow> all_owe (snd (start_full_charge_assist sg g sv ss c n tr s d st))"
  by (auto simp: start_full_charge_assist_def mark_assist_started_def owes_maximum_def Let_def
      intro!: all_owe_request all_owe_update split: option.splits)

lemma seed_unseeded: "maybe_seed_full_charge_schedule c n tr name s r st = (st', False) \<Longrightarrow> st' = st"
  by (auto simp: maybe_seed_full_charge_schedule_def Let_def split: if_splits)

lemma restore_name [simp]: "md_name (fst (restore_max_soc sg sv ss n s d st)) = md_name d"
  by (simp add: restore_max_soc_def apply_soc_limits_def write_device_properties_def split_beta Let_def)

text \<open>The stages of a report.\<close>

lemma process_stages:
  assumes "record_observation (md_name d) s (battery_presence s = BATTERY_PRESENT) (an_time n)
      (max 1 (fca_interval_days c)) st = (st1, r1)"
    and "complete_full_charge_assist c n (md_name d) s r1 st1 = (st2, r2)"
    and "abort_full_charge_assist_disabled c n (md_name d) s r2 st2 = st3"
    and "maybe_seed_full_charge_schedule c n tr (md_name d) s (get_device_state_at st3 (md_name d) (an_time n)) st3 = (st4, b)"
  shows "process_battery_full_charge_assist sg g sv ss c n tr s d st =
    (if battery_presence s \<noteq> BATTERY_PRESENT then (d, st1)
     else if b then (d, st4)
     else if full_charge_assist_active (get_device_state_at st3 (md_name d) (an_time n)) then request_max_soc sg sv ss n s d st3
     else if restore_pending (get_device_state_at st3 (md_name d) (an_time n))
     then start_full_charge_assist sg g sv ss c n tr s (fst (restore_max_soc sg sv ss n s d st3)) (snd (restore_max_soc sg sv ss n s d st3))
     else start_full_charge_assist sg g sv ss c n tr s d st3)"
proof -
  have "st4 = st3" if "\<not> b" using assms(4) that by (auto dest: seed_unseeded)
  then show ?thesis
    unfolding process_battery_full_charge_assist_def Let_def assms prod.case by (simp add: split_beta)
qed

lemma all_owe_process:
  assumes "all_owe st"
  shows "all_owe (snd (process_battery_full_charge_assist sg g sv ss c n tr s d st))"
proof -
  let ?name = "md_name d"
  obtain st1 r1 where one: "record_observation ?name s (battery_presence s = BATTERY_PRESENT) (an_time n)
      (max 1 (fca_interval_days c)) st = (st1, r1)" by fastforce
  obtain st2 r2 where two: "complete_full_charge_assist c n ?name s r1 st1 = (st2, r2)" by fastforce
  let ?st3 = "abort_full_charge_assist_disabled c n ?name s r2 st2"
  obtain st4 b where four: "maybe_seed_full_charge_schedule c n tr ?name s (get_device_state_at ?st3 ?name (an_time n)) ?st3 = (st4, b)"
    by fastforce
  have a1: "all_owe st1" using all_owe_record [OF assms] one by (metis fst_conv)
  have a3: "all_owe ?st3" using all_owe_abort all_owe_complete [OF a1] two by (metis fst_conv)
  have a4: "all_owe st4" using all_owe_seed [OF a3] four by (metis fst_conv)
  show ?thesis
    unfolding process_stages [OF one two refl four]
    using a1 a3 a4 by (simp add: all_owe_request all_owe_start all_owe_restore)
qed

text \<open>Everything that happens to the store, with the times it is lost from memory.\<close>

datatype assist_step =
    Report sights cycle_guard supervision state_settings assist_config assist_now feature_transition
      device_state managed_device
  | Ac_pending assist_now managed_device device_runtime_intent bool
  | Ac_settle sights assist_now managed_device device_state device_runtime_intent supervision
  | Restart

fun assist_machine :: "assist_store \<Rightarrow> assist_step \<Rightarrow> assist_store" where
  "assist_machine st (Report sg g sv ss c n tr s d) = snd (process_battery_full_charge_assist sg g sv ss c n tr s d st)"
| "assist_machine st (Ac_pending n d i ok) = update_full_charge_assist_ac_pending n d i ok st"
| "assist_machine st (Ac_settle sg n d s i sv) = snd (settle_ac_restore sg n d s i (sv, st))"
| "assist_machine st Restart = crash st"

interpretation assist_debt: stepwise_invariant assist_machine "\<lambda>_. True" all_owe
proof
  fix st e
  assume owe: "all_owe st"
  have keeps: "owes_maximum (apply_changes cs (get_device_state_at st name m))"
    if "\<And>r. full_charge_assist_active (apply_changes cs r) = full_charge_assist_active r"
      "\<And>r. restore_pending (apply_changes cs r) = restore_pending r" for cs name m
    using all_owe_read [OF owe, of name m] that by (simp add: owes_maximum_def)
  show "all_owe (assist_machine st e)"
  proof (cases e)
    case (Report sg g sv ss c n tr s d)
    then show ?thesis using all_owe_process [OF owe] by simp
  next
    case (Ac_pending n d i ok)
    then show ?thesis
      by (auto simp: update_full_charge_assist_ac_pending_def Let_def owe intro!: all_owe_update keeps)
  next
    case (Ac_settle sg n d s i sv)
    then show ?thesis
      by (auto simp: settle_ac_restore_def split_beta owe intro!: all_owe_update keeps split: option.splits)
  next
    case Restart
    then show ?thesis using owe by (simp add: crash_def all_owe_def)
  qed
qed

text \<open>
  C20. While an assist runs, the store knows that the device's configured maximum must be written back:
  after any sequence of reports, AC mode writes, settled restores and restarts, for any devices and
  under any settings, no row has an assist running without its restore pending. So a restart in the
  middle of an assist never leaves a device at 100 % for good.
\<close>

theorem running_assist_owes_the_maximum:
  assumes "rows (run_steps assist_machine empty_assist_store es) name = Some r" and "full_charge_assist_active r"
  shows "restore_pending r"
proof -
  have "all_owe empty_assist_store" by (simp add: all_owe_def empty_assist_store_def)
  then have "all_owe (run_steps assist_machine empty_assist_store es)"
    using assist_debt.run_inv [of empty_assist_store es] by (simp add: list_all_iff)
  then show ?thesis using assms by (auto simp: all_owe_def owes_maximum_def)
qed

section \<open>The debt is paid before it is forgotten\<close>

text \<open>
  The configured maximum is back: the report shows it or it was posted; where nothing is managed, or the
  transport has no state writes, there is nothing to write.
\<close>

definition maximum_returned ::
  "sights \<Rightarrow> supervision \<Rightarrow> state_settings \<Rightarrow> device_state \<Rightarrow> managed_device \<Rightarrow> managed_device \<Rightarrow> bool" where
  "maximum_returned sg sv ss s d d' \<longleftrightarrow>
     (case md_transport d of
        Mqtt_control _ _ \<Rightarrow> True
      | Local_api hc \<Rightarrow>
          let limit = safe_soc_limit (max 0 (ss_max_soc ss))
          in limit = 0 \<or> max_soc_reported s \<and>
             (py_int (max_soc s) = limit \<or>
              device_state_writes_allowed sg sv (md_name d) \<and> we_http (sg_write sg (md_name d)) \<noteq> Http_raised \<and>
              (\<exists>hc'. md_transport d' = Local_api hc' \<and>
                 (\<exists>more. posted hc' = posted hc @ (''socSet'', [(''socSet'', limit * 10)]) # more))))"

lemma soc_limits_return_maximum:
  assumes "battery_presence s = BATTERY_PRESENT"
    and "apply_soc_limits sg sv ss s (Some MIN_SOC_UNMANAGED) (Some (ss_max_soc ss)) d = (d', True)"
  shows "maximum_returned sg sv ss s d d'"
proof (cases "md_transport d")
  case (Local_api hc)
  have "min_soc_to_write ss s (Some MIN_SOC_UNMANAGED) = 0"
    by (simp add: min_soc_to_write_def MIN_SOC_UNMANAGED_def safe_soc_limit_def)
  moreover have "safe_soc_limit (max 0 (ss_max_soc ss)) = 0 \<or> 0 < safe_soc_limit (max 0 (ss_max_soc ss))"
    by (auto simp: safe_soc_limit_def)
  ultimately show ?thesis
    using assms Local_api
    by (auto simp: apply_soc_limits_def maximum_returned_def soc_changes_def write_device_properties_def
        zendure_write_def http_properties_written_def write_accepted_def Let_def
        split: if_splits prod.splits option.splits http_answer.splits)
qed (simp add: maximum_returned_def)

text \<open>The flags of a row after an update of it, and after one that starts or requests nothing new.\<close>

lemma flags_after_update:
  "full_charge_assist_active (get_device_state_at (fst (update_device_state name n cs st)) name m) =
     full_charge_assist_active (apply_changes cs (get_device_state_at st name n))"
  "restore_pending (get_device_state_at (fst (update_device_state name n cs st)) name m) =
     restore_pending (apply_changes cs (get_device_state_at st name n))"
  "ac_mode_restore_pending (get_device_state_at (fst (update_device_state name n cs st)) name m) =
     ac_mode_restore_pending (apply_changes cs (get_device_state_at st name n))"
  "next_due_at (get_device_state_at (fst (update_device_state name n cs st)) name m) =
     next_due_at (apply_changes cs (get_device_state_at st name n))"
  using row_after_update [of name n cs st m] by auto

lemma report_keeps_flags:
  assumes "record_observation name s b n d st = (st1, r1)"
  shows "restore_pending (get_device_state_at st1 name n) = restore_pending (get_device_state_at st name n) \<and>
    restore_pending r1 = restore_pending (get_device_state_at st1 name n) \<and>
    full_charge_assist_active r1 = full_charge_assist_active (get_device_state_at st1 name n)"
proof (cases "\<exists>r. rows st name = Some r \<and> \<not> observation_due r (observation_of s b n d)")
  case True
  then show ?thesis
    using assms by (auto simp: record_observation_def get_device_state_at_def get_device_state_def overlay_def Let_def split: option.splits)
next
  case False
  let ?u = "update_device_state name n [Set_observed (observation_of s b n d)] st"
  have "(st1, r1) = ?u"
    using assms False by (auto simp: record_observation_def Let_def split: option.splits)
  then have "st1 = fst ?u" "r1 = snd ?u" by (metis fst_conv, metis snd_conv)
  then show ?thesis by (simp add: flags_after_update result_of_update)
qed

lemma complete_flags:
  assumes "complete_full_charge_assist c n name s r st = (st', r')" and "restore_pending r"
    and "restore_pending (get_device_state_at st name (an_time n))"
  shows "restore_pending (get_device_state_at st' name (an_time n))"
  using assms
  by (auto simp: complete_full_charge_assist_def mark_assist_completed_def flags_after_update Let_def split_beta split: if_splits)

lemma abort_flags:
  "restore_pending (get_device_state_at st name (an_time n)) \<Longrightarrow>
   restore_pending (get_device_state_at (abort_full_charge_assist_disabled c n name s r st) name (an_time n))"
  by (simp add: abort_full_charge_assist_disabled_def flags_after_update)

lemma request_flags:
  "restore_pending (get_device_state_at (snd (request_max_soc sg sv ss n s d st)) (md_name d) (an_time n)) =
     restore_pending (get_device_state_at st (md_name d) (an_time n))"
  by (simp add: request_max_soc_def split_beta flags_after_update)

lemma start_needs_no_debt:
  "restore_pending (get_device_state_at st (md_name d) (an_time n)) \<Longrightarrow>
   start_full_charge_assist sg g sv ss c n tr s d st = (d, st)"
  by (simp add: start_full_charge_assist_def should_start_full_charge_assist_def Let_def)

lemma start_posts_more:
  "state_written sg sv (\<lambda>_. True) d (fst (start_full_charge_assist sg g sv ss c n tr s d st))"
proof -
  have "state_written sg sv (\<lambda>_. True) d (fst (apply_soc_limits sg sv ss s lo hi d))" for lo hi
    by (rule state_written_mono [OF soc_limits_written]) simp
  then show ?thesis
    by (simp add: start_full_charge_assist_def request_max_soc_def split_beta Let_def split: option.splits)
qed

lemma maximum_returned_later:
  assumes "maximum_returned sg sv ss s d d1" and "state_written sg' sv' ok d1 d2"
  shows "maximum_returned sg sv ss s d d2"
  using assms by (cases "md_transport d"; cases "md_transport d1") (auto simp: maximum_returned_def state_written_def Let_def)

text \<open>
  C21. The debt ends only when it is paid. When a report settles the restore of a device's configured
  maximum, the device has a battery, and it reports that maximum already or is posted exactly it in
  this call, the session raising nothing; nothing else ends the debt, but a configuration that
  manages no maximum or a transport without state writes.
\<close>

theorem maximum_is_returned_before_the_debt_ends:
  assumes "process_battery_full_charge_assist sg g sv ss c n tr s d st = (d', st')"
    and "restore_pending (get_device_state_at st (md_name d) (an_time n))"
    and "\<not> restore_pending (get_device_state_at st' (md_name d) (an_time n))"
  shows "battery_presence s = BATTERY_PRESENT \<and> maximum_returned sg sv ss s d d'"
proof -
  let ?name = "md_name d" and ?t = "an_time n"
  obtain st1 r1 where one: "record_observation ?name s (battery_presence s = BATTERY_PRESENT) ?t
      (max 1 (fca_interval_days c)) st = (st1, r1)" by fastforce
  obtain st2 r2 where two: "complete_full_charge_assist c n ?name s r1 st1 = (st2, r2)" by fastforce
  obtain st3 where three: "abort_full_charge_assist_disabled c n ?name s r2 st2 = st3" by blast
  obtain st4 b where four: "maybe_seed_full_charge_schedule c n tr ?name s (get_device_state_at st3 ?name ?t) st3 = (st4, b)"
    by fastforce
  note stages = process_stages [OF one two three four, of sg g sv ss]
  have p1: "restore_pending (get_device_state_at st1 ?name ?t)" "restore_pending r1"
    using report_keeps_flags [OF one] assms(2) by simp_all
  have p3: "restore_pending (get_device_state_at st3 ?name ?t)"
    unfolding three [symmetric] by (rule abort_flags [OF complete_flags [OF two p1(2,1)]])
  have "\<not> b" using four p3 by (auto simp: maybe_seed_full_charge_schedule_def full_charge_has_pending_state_def Let_def split: if_splits)
  let ?r = "restore_max_soc sg sv ss n s d st3"
  have bat: "battery_presence s = BATTERY_PRESENT" using assms(1,3) p1 stages by (auto split: if_splits)
  have "\<not> full_charge_assist_active (get_device_state_at st3 ?name ?t)"
    using assms(1,3) stages bat \<open>\<not> b\<close> p3 request_flags [of sg sv ss n s d st3] by auto
  then have run: "(d', st') = start_full_charge_assist sg g sv ss c n tr s (fst ?r) (snd ?r)"
    using assms(1) stages bat \<open>\<not> b\<close> p3 by simp
  have "snd (apply_soc_limits sg sv ss s (Some MIN_SOC_UNMANAGED) (Some (ss_max_soc ss)) d)"
  proof (rule ccontr)
    assume "\<not> ?thesis"
    then have "snd ?r = st3" by (simp add: restore_max_soc_def split_beta)
    then have "st' = st3" using run start_needs_no_debt [of st3 "fst ?r" n] p3 by simp
    then show False using assms(3) p3 by simp
  qed
  then have "maximum_returned sg sv ss s d (fst ?r)"
    using soc_limits_return_maximum [OF bat, of sg sv ss d "fst (apply_soc_limits sg sv ss s (Some MIN_SOC_UNMANAGED) (Some (ss_max_soc ss)) d)"]
    by (cases "apply_soc_limits sg sv ss s (Some MIN_SOC_UNMANAGED) (Some (ss_max_soc ss)) d") (simp add: restore_max_soc_def)
  then have "maximum_returned sg sv ss s d d'"
    using maximum_returned_later [OF _ start_posts_more] run by (metis fst_conv)
  then show ?thesis using bat by simp
qed

section \<open>An assist starts only where it can work\<close>

text \<open>What a started assist had: everything it needs to write can be written, and it was due.\<close>

definition may_start ::
  "sights \<Rightarrow> cycle_guard \<Rightarrow> supervision \<Rightarrow> assist_config \<Rightarrow> assist_now \<Rightarrow> device_state \<Rightarrow> managed_device \<Rightarrow> assist_row \<Rightarrow> bool" where
  "may_start sg g sv c n s d r \<longleftrightarrow>
     battery_presence s = BATTERY_PRESENT \<and> soc_limit s \<noteq> 1 \<and>
     Charge_Supervision.supports_state_reconciliation (md_transport d) \<and>
     device_state_writes_allowed sg sv (md_name d) \<and> max_soc_reported s \<and>
     (full_charge_assist_ac_charge_mode sg g \<longrightarrow> ac_mode_known s \<and> input_limit_reported s) \<and>
     \<not> ac_mode_restore_pending r \<and>
     (\<exists>due. next_due_at r = Some due \<and>
        (force_time_reached c n due \<or>
         due \<le> an_time n + days_s (max 0 (fca_window_days c)) \<and> of_int (max 0 (fca_start_soc c)) \<le> soc s))"

lemma reporting_irrelevant [simp]:
  "device_state_writes_allowed sg (reporting name s sv) m = device_state_writes_allowed sg sv m"
  "device_state_writes_allowed (reading_store st sg) sv m = device_state_writes_allowed sg sv m"
  "full_charge_assist_ac_charge_mode (reading_store st sg) g = full_charge_assist_ac_charge_mode sg g"
  by (simp_all add: device_state_writes_allowed_def control_switched_off_def reporting_def reading_store_def
      full_charge_assist_ac_charge_mode_def)

lemma not_running_read:
  "\<not> full_charge_assist_active (get_device_state_at st name n) \<Longrightarrow>
   (case sg_assist (reading_store st sg) name of None \<Rightarrow> False | Some r \<Rightarrow> full_charge_assist_active r) = False"
  by (auto simp: reading_store_def get_device_state_at_def stored_assist.truncate_def split: option.splits)

lemma not_held_knows:
  assumes "full_charge_assist_held_by (reading_store st sg) g (reporting (md_name d) s sv) d = None"
    and "\<not> full_charge_assist_active (get_device_state_at st (md_name d) n)"
  shows "Charge_Supervision.supports_state_reconciliation (md_transport d) \<and>
    device_state_writes_allowed sg sv (md_name d) \<and> max_soc_reported s \<and>
    (full_charge_assist_ac_charge_mode sg g \<longrightarrow> ac_mode_known s \<and> input_limit_reported s)"
proof -
  have l: "sv_last_states (reporting (md_name d) s sv) (md_name d) = Some s" by (simp add: reporting_def)
  show ?thesis
    using assms(1) not_running_read [OF assms(2), of sg]
    by (simp add: full_charge_assist_held_by_def full_charge_assist_field_unreported_def l Let_def split: if_splits)
qed

lemma start_starts:
  assumes "start_full_charge_assist sg g sv ss c n tr s d st = (d', st')"
    and "\<not> full_charge_assist_active (get_device_state_at st (md_name d) (an_time n))"
    and "full_charge_assist_active (get_device_state_at st' (md_name d) (an_time n))"
    and "battery_presence s = BATTERY_PRESENT"
  shows "current_enabled tr \<and> may_start sg g sv c n s d (get_device_state_at st (md_name d) (an_time n)) \<and>
    \<not> restore_pending (get_device_state_at st (md_name d) (an_time n))"
proof -
  let ?r = "get_device_state_at st (md_name d) (an_time n)"
  have "st' \<noteq> st" using assms(2,3) by auto
  then obtain ty where tr: "current_enabled tr"
    and h: "full_charge_assist_held_by (reading_store st sg) g (reporting (md_name d) s sv) d = None"
    and ty: "should_start_full_charge_assist c n ?r s = Some ty"
    using assms(1) by (auto simp: start_full_charge_assist_def Let_def split: if_splits option.splits)
  have "soc_limit s \<noteq> 1 \<and> \<not> ac_mode_restore_pending ?r \<and> \<not> restore_pending ?r \<and> (\<exists>due. next_due_at ?r = Some due \<and>
        (force_time_reached c n due \<or>
         due \<le> an_time n + days_s (max 0 (fca_window_days c)) \<and> of_int (max 0 (fca_start_soc c)) \<le> soc s))"
    using ty by (auto simp: should_start_full_charge_assist_def split: if_splits option.splits)
  then show ?thesis using tr not_held_knows [OF h assms(2)] assms(4) by (simp add: may_start_def)
qed

lemma restore_keeps:
  "full_charge_assist_active (get_device_state_at (snd (restore_max_soc sg sv ss n s d st)) (md_name d) (an_time n)) =
     full_charge_assist_active (get_device_state_at st (md_name d) (an_time n)) \<and>
   ac_mode_restore_pending (get_device_state_at (snd (restore_max_soc sg sv ss n s d st)) (md_name d) (an_time n)) =
     ac_mode_restore_pending (get_device_state_at st (md_name d) (an_time n)) \<and>
   next_due_at (get_device_state_at (snd (restore_max_soc sg sv ss n s d st)) (md_name d) (an_time n)) =
     next_due_at (get_device_state_at st (md_name d) (an_time n))"
  by (simp add: restore_max_soc_def split_beta flags_after_update)

lemma restore_transport [simp]:
  "Charge_Supervision.supports_state_reconciliation (md_transport (fst (restore_max_soc sg sv ss n s d st))) =
   Charge_Supervision.supports_state_reconciliation (md_transport d)"
  by (cases "md_transport d") (simp_all add: restore_max_soc_def apply_soc_limits_def write_device_properties_def
      split_beta Let_def)

lemma seeding_starts_nothing:
  "maybe_seed_full_charge_schedule c n tr name s r st = (st', True) \<Longrightarrow>
   \<not> full_charge_assist_active (get_device_state_at st' name (an_time n))"
  by (auto simp: maybe_seed_full_charge_schedule_def seed_full_charge_schedule_def split_beta Let_def
      flags_after_update split: if_splits)

text \<open>What the store keeps in memory stays waiting, whatever the assist does.\<close>

lemma store_ok_log [simp]: "store_ok (log_assist_event name ty n s m st) = store_ok st"
  by (simp add: store_ok_def)

lemma request_ok: "store_ok st \<Longrightarrow> store_ok (snd (request_max_soc sg sv ss n s d st))"
  by (simp add: request_max_soc_def split_beta update_ok)

lemma restore_ok: "store_ok st \<Longrightarrow> store_ok (snd (restore_max_soc sg sv ss n s d st))"
  by (simp add: restore_max_soc_def split_beta update_ok)

lemma start_ok: "store_ok st \<Longrightarrow> store_ok (snd (start_full_charge_assist sg g sv ss c n tr s d st))"
  by (simp add: start_full_charge_assist_def mark_assist_started_def Let_def update_ok request_ok split: option.splits)

lemma process_ok:
  assumes "store_ok st"
  shows "store_ok (snd (process_battery_full_charge_assist sg g sv ss c n tr s d st))"
proof -
  let ?name = "md_name d"
  obtain st1 r1 where one: "record_observation ?name s (battery_presence s = BATTERY_PRESENT) (an_time n)
      (max 1 (fca_interval_days c)) st = (st1, r1)" by fastforce
  obtain st2 r2 where two: "complete_full_charge_assist c n ?name s r1 st1 = (st2, r2)" by fastforce
  obtain st3 where three: "abort_full_charge_assist_disabled c n ?name s r2 st2 = st3" by blast
  obtain st4 b where four: "maybe_seed_full_charge_schedule c n tr ?name s (get_device_state_at st3 ?name (an_time n)) st3 = (st4, b)"
    by fastforce
  have a1: "store_ok st1" using record_ok [OF assms] one by (metis fst_conv)
  have "store_ok st2"
    using two a1 update_ok [OF a1]
    by (auto simp: complete_full_charge_assist_def mark_assist_completed_def Let_def split_beta split: if_splits)
  then have a3: "store_ok st3" using three update_ok by (auto simp: abort_full_charge_assist_disabled_def)
  have a4: "store_ok st4"
    using four a3 update_ok [OF a3]
    by (auto simp: maybe_seed_full_charge_schedule_def seed_full_charge_schedule_def Let_def split_beta split: if_splits)
  show ?thesis
    unfolding process_stages [OF one two three four] using a1 a3 a4 by (simp add: request_ok start_ok restore_ok)
qed

lemma assist_machine_ok: "store_ok st \<Longrightarrow> store_ok (assist_machine st e)"
  by (cases e) (auto simp: process_ok crash_ok update_full_charge_assist_ac_pending_def settle_ac_restore_def
      split_beta update_ok Let_def split: option.splits)

lemma assist_run_ok: "store_ok (run_steps assist_machine empty_assist_store es)"
  by (induction es rule: rev_induct) (simp_all add: run_steps_append assist_machine_ok)

text \<open>
  An assist starts only where it can work and is due. At any moment of the store's life, when a
  report starts one, the feature is on,
  the device has a battery that is not full, its transport takes state writes and its gates and control
  are on, it reports its maximum and, with the assist's AC mode, its AC mode and input limit, so all
  the assist writes goes out; nothing of an earlier AC charge is owed; and the device is due: its day
  has come and the hour of the day, or it is due within the window and charged far enough.
\<close>

lemma assist_starts_only_where_it_can_work:
  assumes "st = run_steps assist_machine empty_assist_store es"
    and "process_battery_full_charge_assist sg g sv ss c n tr s d st = (d', st')"
    and "\<not> full_charge_assist_active (get_device_state_at st (md_name d) (an_time n))"
    and "full_charge_assist_active (get_device_state_at st' (md_name d) (an_time n))"
  shows "current_enabled tr \<and> may_start sg g sv c n s d (get_device_state_at st (md_name d) (an_time n))"
proof -
  let ?name = "md_name d" and ?t = "an_time n" and ?b = "battery_presence s = BATTERY_PRESENT"
  let ?interval = "max 1 (fca_interval_days c)"
  obtain st1 r1 where one: "record_observation ?name s ?b ?t ?interval st = (st1, r1)" by fastforce
  obtain u where u: "get_device_state_at st1 ?name ?t =
      (put_observation (observation_of s ?b ?t ?interval) (get_device_state_at st ?name ?t))\<lparr>updated_at := u\<rparr>"
    and r1: "r1 = get_device_state_at st1 ?name ?t" using row_after_report [OF _ one] assist_run_ok [of es] assms(1) by blast
  have na: "\<not> full_charge_assist_active r1" using assms(3) u r1 by simp
  have two: "complete_full_charge_assist c n ?name s r1 st1 = (st1, r1)" using na by (simp add: complete_full_charge_assist_def)
  have three: "abort_full_charge_assist_disabled c n ?name s r1 st1 = st1" using na by (simp add: abort_full_charge_assist_disabled_def)
  obtain st4 b where four: "maybe_seed_full_charge_schedule c n tr ?name s (get_device_state_at st1 ?name ?t) st1 = (st4, b)"
    by fastforce
  note stages = process_stages [OF one two three four, of sg g sv ss]
  have bat: ?b using assms(2,4) stages na r1 by (auto split: if_splits)
  have "\<not> b" using assms(2,4) stages bat seeding_starts_nothing four by auto
  let ?r = "restore_max_soc sg sv ss n s d st1" and ?row = "get_device_state_at st ?name ?t"
  have keep: "may_start sg g sv c n s d (get_device_state_at st1 ?name ?t) \<Longrightarrow> may_start sg g sv c n s d ?row"
    by (auto simp: may_start_def u observation_of_def put_observation_def Let_def)
  show ?thesis
  proof (cases "restore_pending (get_device_state_at st1 ?name ?t)")
    case True
    then have run: "start_full_charge_assist sg g sv ss c n tr s (fst ?r) (snd ?r) = (d', st')"
      using assms(2) stages bat \<open>\<not> b\<close> na r1 by simp
    have "current_enabled tr \<and> may_start sg g sv c n s (fst ?r) (get_device_state_at (snd ?r) ?name ?t)"
      using start_starts [OF run] restore_keeps [of sg sv ss n s d st1] assms(4) bat na r1 by simp
    then show ?thesis using keep restore_keeps [of sg sv ss n s d st1] by (simp add: may_start_def)
  next
    case False
    then have run: "start_full_charge_assist sg g sv ss c n tr s d st1 = (d', st')"
      using assms(2) stages bat \<open>\<not> b\<close> na r1 by simp
    then show ?thesis using start_starts [OF run _ assms(4) bat] na r1 keep by simp
  qed
qed

section \<open>The way back from the assist's AC input\<close>

fun http_posts :: "transport_client \<Rightarrow> (string \<times> properties) list" where
  "http_posts (Local_api hc) = posted hc"
| "http_posts (Mqtt_control _ _) = []"

lemma claim_posts [simp]:
  "http_posts (md_transport (fst (claim_reported_device sg g p runtime s d sv))) = http_posts (md_transport d)"
  "md_name (fst (claim_reported_device sg g p runtime s d sv)) = md_name d"
  by (cases "md_transport d"; simp add: claim_reported_device_def leave_transport_charge_def release_device_def
      http_release_charge_record_def split_beta Let_def)+

lemma charge_power_posts:
  "http_posts (md_transport (fst (reconcile_runtime_ac_charge_power sg sv i s d))) = http_posts (md_transport d) \<or>
   (\<exists>body. http_posts (md_transport (fst (reconcile_runtime_ac_charge_power sg sv i s d))) =
     http_posts (md_transport d) @ [(''inputLimit'', body)])"
  by (cases "md_transport d") (auto simp: reconcile_runtime_ac_charge_power_def write_device_properties_def
      zendure_write_def split_beta split: option.splits)

lemma ac_mode_posts:
  assumes "http_posts (md_transport (fst (reconcile_ac_mode_intent sg sv i s d))) \<noteq> http_posts (md_transport d)"
  shows "snd (reconcile_ac_mode_intent sg sv i s d) \<and> Charge_Supervision.supports_state_reconciliation (md_transport d)"
  using assms
  by (cases "md_transport d") (auto simp: reconcile_ac_mode_intent_def write_device_properties_def zendure_write_def
      http_properties_written_def dispatch_published_def dispatch_failed_def split_beta
      split: option.splits http_answer.splits if_splits)

lemma ac_mode_name [simp]:
  "md_name (fst (reconcile_ac_mode_intent sg sv i s d)) = md_name d"
  "Charge_Supervision.supports_state_reconciliation (md_transport (fst (reconcile_ac_mode_intent sg sv i s d))) =
   Charge_Supervision.supports_state_reconciliation (md_transport d)"
  by (cases "md_transport d"; simp add: reconcile_ac_mode_intent_def write_device_properties_def split_beta split: option.splits)+

lemma entering_is_not_settled:
  "desired_ac_mode i = Some AC_MODE_INPUT \<Longrightarrow> settle_ac_restore sg n d s i (sv, st) = (sv, st)"
  by (simp add: settle_ac_restore_def confirm_full_charge_assist_ac_restore_def Let_def AC_MODE_INPUT_def AC_MODE_OUTPUT_def)

lemma entering_is_owed:
  assumes "intent_reason i = ''battery_full_charge_assist''" and "desired_ac_mode i = Some AC_MODE_INPUT"
    and "Charge_Supervision.supports_state_reconciliation (md_transport d)"
  shows "ac_mode_restore_pending (get_device_state_at (update_full_charge_assist_ac_pending n d i True st)
    (md_name d) (an_time n))"
  using assms by (auto simp: update_full_charge_assist_ac_pending_def flags_after_update Let_def)


section \<open>A concrete assist\<close>

definition demo_assist_config :: assist_config where
  "demo_assist_config = \<lparr>fca_enabled = True, fca_interval_days = 28, fca_window_days = 7, fca_start_soc = 80,
     fca_force_time = (14, 0)\<rparr>"

definition demo_day :: "int \<Rightarrow> assist_now" where
  "demo_day d = \<lparr>an_time = days_s d, an_offset = 0\<rparr>"

definition demo_transition :: "bool \<Rightarrow> feature_transition" where
  "demo_transition first = \<lparr>current_enabled = True, first_enable = first, reenabled = False\<rparr>"

definition demo_battery :: "percent \<Rightarrow> int \<Rightarrow> device_state" where
  "demo_battery hi limit = zero_device_state\<lparr>soc := 85, max_soc := hi, soc_limit := limit, ac_mode := AC_MODE_OUTPUT,
     ac_mode_reported := True, max_soc_reported := True, input_limit_reported := True, pack_num := Some 1\<rparr>"

definition demo_step :: "bool \<Rightarrow> int \<Rightarrow> device_state \<Rightarrow> assist_step" where
  "demo_step first d s = Report (demo_sights 5 False) new_cycle_guard new_supervision demo_window demo_assist_config
     (demo_day d) (demo_transition first) s (demo_managed ''a'' (new_http_client None))"

definition demo_seeded :: assist_store where
  "demo_seeded = assist_machine empty_assist_store (demo_step True 0 (demo_battery 90 0))"

abbreviation demo_process ::
  "int \<Rightarrow> device_state \<Rightarrow> assist_store \<Rightarrow> managed_device \<times> assist_store" where
  "demo_process d s \<equiv> process_battery_full_charge_assist (demo_sights 5 False) new_cycle_guard new_supervision demo_window
     demo_assist_config (demo_day d) (demo_transition False) s (demo_managed ''a'' (new_http_client None))"

definition demo_started :: assist_store where
  "demo_started = snd (demo_process 22 (demo_battery 90 0) demo_seeded)"

definition demo_ended :: "managed_device \<times> assist_store" where
  "demo_ended = demo_process 23 (demo_battery 100 1) demo_started"

theorem running_assist_owes_the_maximum_witness:
  "\<exists>r. rows (run_steps assist_machine empty_assist_store
      [demo_step True 0 (demo_battery 90 0), demo_step False 22 (demo_battery 90 0)]) ''a'' = Some r \<and>
    full_charge_assist_active r \<and> restore_pending r"
proof -
  let ?st = "run_steps assist_machine empty_assist_store
      [demo_step True 0 (demo_battery 90 0), demo_step False 22 (demo_battery 90 0)]"
  have "map_option full_charge_assist_active (rows ?st ''a'') = Some True" by code_simp
  then obtain r where "rows ?st ''a'' = Some r" "full_charge_assist_active r" by auto
  with running_assist_owes_the_maximum show ?thesis by blast
qed

theorem maximum_is_returned_before_the_debt_ends_witness:
  "maximum_returned (demo_sights 5 False) new_supervision demo_window (demo_battery 100 1)
     (demo_managed ''a'' (new_http_client None)) (fst demo_ended) \<and>
   demo_writes (fst demo_ended) = [(''socSet'', [(''socSet'', 900)])]"
proof -
  let ?d = "demo_managed ''a'' (new_http_client None)"
  have p: "restore_pending (get_device_state_at demo_started (md_name ?d) (an_time (demo_day 23)))"
    and q: "\<not> restore_pending (get_device_state_at (snd demo_ended) (md_name ?d) (an_time (demo_day 23)))"
    and w: "demo_writes (fst demo_ended) = [(''socSet'', [(''socSet'', 900)])]" by code_simp+
  have "demo_process 23 (demo_battery 100 1) demo_started = (fst demo_ended, snd demo_ended)" by (simp add: demo_ended_def)
  from maximum_is_returned_before_the_debt_ends [OF this p q] w show ?thesis by blast
qed

definition demo_entering :: "managed_device \<times> supervision \<times> assist_store" where
  "demo_entering = reconcile_claimed_device ((demo_sights 5 False)\<lparr>sg_assist_ac_mode := True\<rparr>) new_cycle_guard True
     (ac_output_intent ''a'' ''default'' PRIORITY_DEFAULT) (demo_day 22)
     (demo_battery 90 0) (demo_managed ''a'' (new_http_client None)) (new_supervision, demo_started)"


end
