(* ===== verification/Calendar.thy ===== *)
theory Calendar
  imports Ems_Prelude
begin

text \<open>
  What the schedules use of Python's \<open>datetime.date\<close> and \<open>calendar\<close>. A date is the number of its
  day in the proleptic Gregorian calendar, day 1 being 0001-01-01, as \<open>date.toordinal\<close> counts; the
  last date is \<open>MAX_ORDINAL\<close>, 9999-12-31. A month is numbered by 12 times its year plus its place
  in the year, from 0.

  Proved: every day lies in exactly one month and one year, the months partition the days in
  order, and \<open>make_date\<close> builds the date whose year, month and day are given.
\<close>

type_synonym date = int

definition MAX_ORDINAL :: int where "MAX_ORDINAL = 3652059"

definition is_leap :: "int \<Rightarrow> bool" where
  "is_leap y \<longleftrightarrow> y mod 4 = 0 \<and> (y mod 100 \<noteq> 0 \<or> y mod 400 = 0)"

text \<open>\<open>calendar.monthrange(year, month)[1]\<close>.\<close>

definition days_in_month :: "int \<Rightarrow> int \<Rightarrow> int" where
  "days_in_month y m =
     (if m = 2 then (if is_leap y then 29 else 28) else if m \<in> {4, 6, 9, 11} then 30 else 31)"

definition days_before_year :: "int \<Rightarrow> int" where
  "days_before_year y = (y - 1) * 365 + (y - 1) div 4 - (y - 1) div 100 + (y - 1) div 400"

definition days_before_month :: "int \<Rightarrow> int \<Rightarrow> int" where
  "days_before_month y m =
     (if m \<le> 1 then 0 else if m = 2 then 31
      else (if is_leap y then 1 else 0) +
        (if m = 3 then 59 else if m = 4 then 90 else if m = 5 then 120 else if m = 6 then 151
         else if m = 7 then 181 else if m = 8 then 212 else if m = 9 then 243 else if m = 10 then 273
         else if m = 11 then 304 else 334))"

definition make_date :: "int \<Rightarrow> int \<Rightarrow> int \<Rightarrow> date" where
  "make_date y m d = days_before_year y + days_before_month y m + d"

definition year_of :: "date \<Rightarrow> int" where
  "year_of n =
     (let y = 400 * (n - 1) div 146097 + 1
      in if days_before_year (y + 1) < n then y + 1 else y)"

text \<open>The month of a year in which its \<open>k\<close>-th day falls, looked for from month \<open>m\<close> on.\<close>

function month_from :: "int \<Rightarrow> int \<Rightarrow> int \<Rightarrow> int" where
  "month_from y k m = (if 12 \<le> m \<or> k \<le> days_before_month y (m + 1) then m else month_from y k (m + 1))"
  by auto
termination month_from by (relation "measure (\<lambda>(y, k, m). nat (12 - m))") auto

declare month_from.simps [simp del]

definition month_of :: "date \<Rightarrow> int" where
  "month_of n = month_from (year_of n) (n - days_before_year (year_of n)) 1"

definition day_of :: "date \<Rightarrow> int" where
  "day_of n = n - days_before_year (year_of n) - days_before_month (year_of n) (month_of n)"

text \<open>Monday is 0.\<close>

definition weekday :: "date \<Rightarrow> int" where "weekday n = (n + 6) mod 7"

section \<open>Years\<close>

lemma days_before_year_close:
  "146097 * (y - 1) - 800 < 400 * days_before_year y \<and> 400 * days_before_year y < 146097 * (y - 1) + 400"
proof -
  define k where "k = y - 1"
  have "4 * (k div 4) \<le> k" "k < 4 * (k div 4) + 4" "100 * (k div 100) \<le> k" "k < 100 * (k div 100) + 100"
    "400 * (k div 400) \<le> k" "k < 400 * (k div 400) + 400"
    by presburger+
  then show ?thesis unfolding days_before_year_def k_def [symmetric] by simp
qed

lemma mod_div_step:
  assumes "0 < (c :: int)"
  shows "(k + 1) mod c = (if k mod c = c - 1 then 0 else k mod c + 1) \<and>
    (k + 1) div c = k div c + (if k mod c = c - 1 then 1 else 0)"
proof -
  have k: "k = c * (k div c) + k mod c" "0 \<le> k mod c" "k mod c < c" using assms by simp_all
  show ?thesis
  proof (cases "k mod c = c - 1")
    case True
    have "k + 1 = c * (k div c) + k mod c + 1" using k(1) by simp
    also have "\<dots> = c * (k div c + 1) + 0" using True by (simp add: distrib_left)
    finally have e: "k + 1 = c * (k div c + 1) + 0" .
    then show ?thesis using int_div_pos_eq [OF e] int_mod_pos_eq [OF e] assms True by simp
  next
    case False
    then have e: "k + 1 = c * (k div c) + (k mod c + 1)" and r: "0 \<le> k mod c + 1" "k mod c + 1 < c"
      using k by linarith+
    then show ?thesis using int_div_pos_eq [OF e r] int_mod_pos_eq [OF e r] False by simp
  qed
qed

lemmas mod_step = mod_div_step [THEN conjunct1] and div_step = mod_div_step [THEN conjunct2]

lemma div_back: "y div c = (y - 1) div c + (if y mod c = 0 then 1 else 0)" if "0 < c" for y c :: int
proof -
  have "0 \<le> (y - 1) mod c" using that by simp
  then show ?thesis using div_step [OF that, of "y - 1"] mod_step [OF that, of "y - 1"] by auto
qed

lemma days_before_year_Suc: "days_before_year (y + 1) = days_before_year y + (if is_leap y then 366 else 365)"
proof -
  define p4 p100 p400 where "p4 \<longleftrightarrow> y mod 4 = 0" and "p100 \<longleftrightarrow> y mod 100 = 0" and "p400 \<longleftrightarrow> y mod 400 = 0"
  have impl: "p100 \<Longrightarrow> p4" "p400 \<Longrightarrow> p100"
    unfolding p4_def p100_def p400_def mod_eq_0_iff_dvd
    by (rule dvd_trans [of 4 100], simp_all, rule dvd_trans [of 100 400], simp_all)
  have d: "y div 4 = (y - 1) div 4 + (if p4 then 1 else 0)" "y div 100 = (y - 1) div 100 + (if p100 then 1 else 0)"
    "y div 400 = (y - 1) div 400 + (if p400 then 1 else 0)"
    unfolding p4_def p100_def p400_def by (rule div_back, simp)+
  define a b c where "a = (y - 1) div 4" and "b = (y - 1) div 100" and "c = (y - 1) div 400"
  have "days_before_year (y + 1) = y * 365 + y div 4 - y div 100 + y div 400"
    by (simp only: days_before_year_def add_diff_cancel_right')
  also have "\<dots> = y * 365 + a + (if p4 then 1 else 0) - b - (if p100 then 1 else 0) + c + (if p400 then 1 else 0)"
    unfolding d a_def b_def c_def by simp
  also have "\<dots> = days_before_year y + (if p4 \<and> (\<not> p100 \<or> p400) then 366 else 365)"
    using impl unfolding days_before_year_def a_def [symmetric] b_def [symmetric] c_def [symmetric] by auto
  finally show ?thesis by (simp only: is_leap_def p4_def p100_def p400_def)
qed

lemma year_of_bounds: "days_before_year (year_of n) < n \<and> n \<le> days_before_year (year_of n + 1)"
proof -
  define q where "q = 400 * (n - 1) div 146097"
  have b: "146097 * q \<le> 400 * (n - 1)" "400 * (n - 1) < 146097 * q + 146097"
    using pos_mod_bound [of 146097 "400 * (n - 1)"] pos_mod_sign [of 146097 "400 * (n - 1)"]
      mult_div_mod_eq [of 146097 "400 * (n - 1)"] by (simp_all add: q_def)
  have "400 * days_before_year (q + 1) < 146097 * q + 400" "146097 * (q + 2) - 800 < 400 * days_before_year (q + 1 + 1 + 1)"
    using days_before_year_close [of "q + 1"] days_before_year_close [of "q + 1 + 1 + 1"] by simp_all
  then have "400 * days_before_year (q + 1) < 400 * n" "400 * n \<le> 400 * days_before_year (q + 1 + 1 + 1)"
    using b by simp_all
  then have "days_before_year (q + 1) < n" "n \<le> days_before_year (q + 1 + 1 + 1)" by simp_all
  moreover have "year_of n = (if days_before_year (q + 1 + 1) < n then q + 1 + 1 else q + 1)"
    by (simp only: year_of_def q_def Let_def)
  ultimately show ?thesis by simp
qed

lemma days_before_year_strict: "days_before_year y < days_before_year z" if "y < z"
proof -
  have "146097 * (y - 1) + 146097 \<le> 146097 * (z - 1)" using that by simp
  then show ?thesis using days_before_year_close [of y] days_before_year_close [of z] by linarith
qed

lemma days_before_year_mono: "y \<le> z \<Longrightarrow> days_before_year y \<le> days_before_year z"
  using days_before_year_strict [of y z] by (cases "y = z") auto

lemma year_of_unique:
  assumes "days_before_year y < n" and "n \<le> days_before_year (y + 1)"
  shows "year_of n = y"
proof (rule ccontr)
  assume "year_of n \<noteq> y"
  then consider "year_of n + 1 \<le> y" | "y + 1 \<le> year_of n" by linarith
  then show False
    using year_of_bounds [of n] assms days_before_year_mono [of "year_of n + 1" y] days_before_year_mono [of "y + 1" "year_of n"]
    by cases auto
qed

section \<open>Months\<close>

text \<open>The first day of the month with number \<open>k\<close>, and the number of the month of a day.\<close>

definition month_start :: "int \<Rightarrow> date" where
  "month_start k = make_date (k div 12) (k mod 12 + 1) 1"

definition month_index :: "date \<Rightarrow> int" where
  "month_index n = 12 * year_of n + month_of n - 1"

lemma month_cases:
  assumes "1 \<le> m" and "m \<le> (12 :: int)"
  shows "m = 1 \<or> m = 2 \<or> m = 3 \<or> m = 4 \<or> m = 5 \<or> m = 6 \<or> m = 7 \<or> m = 8 \<or> m = 9 \<or> m = 10 \<or> m = 11 \<or> m = 12"
  using assms by presburger

lemma days_before_month_Suc:
  assumes "1 \<le> m" and "m < 12"
  shows "days_before_month y (m + 1) = days_before_month y m + days_in_month y m"
proof -
  have "m \<le> 12" using assms(2) by simp
  from month_cases [OF assms(1) this] show ?thesis using assms(2) by (elim disjE) (simp_all add: days_before_month_def days_in_month_def)
qed

lemma days_before_month_12: "days_before_month y 12 + days_in_month y 12 = (if is_leap y then 366 else 365)"
  by (simp add: days_before_month_def days_in_month_def)

lemma days_in_month_bounds: "28 \<le> days_in_month y m \<and> days_in_month y m \<le> 31"
  by (simp add: days_in_month_def)

lemma month_start_Suc: "month_start (k + 1) = month_start k + days_in_month (k div 12) (k mod 12 + 1)"
proof (cases "k mod 12 = 11")
  case True
  then have "(k + 1) div 12 = k div 12 + 1" "(k + 1) mod 12 = 0" by (simp_all add: div_step mod_step)
  then show ?thesis
    using True days_before_month_12 [of "k div 12"]
    by (simp add: month_start_def make_date_def days_before_year_Suc days_before_month_def)
next
  case False
  then have "(k + 1) div 12 = k div 12" "(k + 1) mod 12 = k mod 12 + 1" by (simp_all add: div_step mod_step)
  moreover have "k mod 12 + 1 < 12" "1 \<le> k mod 12 + 1"
    using False pos_mod_bound [of 12 k] pos_mod_sign [of 12 k] by linarith+
  ultimately show ?thesis
    using days_before_month_Suc [of "k mod 12 + 1" "k div 12"] by (simp add: month_start_def make_date_def)
qed

lemma month_from_bounds:
  assumes "1 \<le> m" and "m \<le> 12" and "days_before_month y m < k" and "k \<le> days_before_month y 12 + days_in_month y 12"
  shows "1 \<le> month_from y k m \<and> month_from y k m \<le> 12 \<and> days_before_month y (month_from y k m) < k \<and>
    k \<le> days_before_month y (month_from y k m) + days_in_month y (month_from y k m)"
  using assms
proof (induction y k m rule: month_from.induct)
  case (1 y k m)
  show ?case
  proof (cases "12 \<le> m \<or> k \<le> days_before_month y (m + 1)")
    case True
    then have "month_from y k m = m" by (simp add: month_from.simps)
    moreover have "k \<le> days_before_month y m + days_in_month y m"
      using True 1(2-5) days_before_month_Suc [of m y] by (cases "m = 12") auto
    ultimately show ?thesis using 1(2-4) by simp
  next
    case False
    then have "month_from y k m = month_from y k (m + 1)" by (subst month_from.simps) simp
    moreover have "1 \<le> m + 1" "m + 1 \<le> 12" "days_before_month y (m + 1) < k" using False 1(2) by auto
    ultimately show ?thesis using 1(1) [OF False _ _ _ 1(5)] by simp
  qed
qed

lemma month_day_range:
  "1 \<le> month_of n \<and> month_of n \<le> 12 \<and> 1 \<le> day_of n \<and> day_of n \<le> days_in_month (year_of n) (month_of n)"
proof -
  let ?y = "year_of n"
  have "n - days_before_year ?y \<le> days_before_month ?y 12 + days_in_month ?y 12"
    using year_of_bounds [of n] days_before_month_12 [of ?y] by (auto simp: days_before_year_Suc)
  moreover have "days_before_month ?y 1 < n - days_before_year ?y"
    using year_of_bounds [of n] by (simp add: days_before_month_def)
  ultimately show ?thesis
    using month_from_bounds [of 1 ?y "n - days_before_year ?y"] by (simp add: day_of_def month_of_def)
qed

lemmas month_of_range = month_day_range [THEN conjunct1] month_day_range [THEN conjunct2, THEN conjunct1]

lemmas day_of_range = month_day_range [THEN conjunct2, THEN conjunct2]

lemma make_date_of: "make_date (year_of n) (month_of n) (day_of n) = n"
  by (simp add: make_date_def day_of_def)

lemma month_index_parts: "month_index n div 12 = year_of n" "month_index n mod 12 = month_of n - 1"
proof -
  have e: "month_index n = 12 * year_of n + (month_of n - 1)" by (simp add: month_index_def)
  show "month_index n div 12 = year_of n" "month_index n mod 12 = month_of n - 1"
    using int_div_pos_eq [OF e] int_mod_pos_eq [OF e] month_of_range [of n] by simp_all
qed

lemma month_start_index: "month_start (month_index n) = n - day_of n + 1"
  using make_date_of [of n] by (simp add: month_start_def month_index_parts make_date_def)

lemma month_index_bounds: "month_start (month_index n) \<le> n \<and> n < month_start (month_index n + 1)"
  using day_of_range [of n] by (simp add: month_start_Suc month_start_index month_index_parts)

lemma days_before_month_mono:
  assumes "1 \<le> m" and "m < m'" and "m' \<le> 12"
  shows "days_before_month y m + days_in_month y m \<le> days_before_month y m'"
proof -
  have "m + 1 + int k \<le> 12 \<longrightarrow> days_before_month y m + days_in_month y m \<le> days_before_month y (m + 1 + int k)" for k
  proof (induction k)
    case 0
    then show ?case using assms(1) days_before_month_Suc [of m y] by simp
  next
    case (Suc k)
    then show ?case
      using assms(1) days_before_month_Suc [of "m + 1 + int k" y] days_in_month_bounds [of y "m + 1 + int k"]
      by (auto simp: algebra_simps)
  qed
  from this [of "nat (m' - m - 1)"] show ?thesis using assms by simp
qed

lemma parts_make_date:
  assumes "1 \<le> m" and "m \<le> 12" and "1 \<le> k" and "k \<le> days_in_month y m"
  shows "year_of (make_date y m k) = y" and "month_of (make_date y m k) = m" and "day_of (make_date y m k) = k"
proof -
  let ?n = "make_date y m k"
  have nonneg: "0 \<le> days_before_month y m" by (simp add: days_before_month_def)
  have last: "days_before_month y m + days_in_month y m \<le> days_before_month y 12 + days_in_month y 12"
    using days_before_month_mono [of m 12 y] days_in_month_bounds [of y 12] assms(1,2) by (cases "m = 12") auto
  show y: "year_of ?n = y"
    using assms nonneg last days_before_month_12 [of y]
    by (intro year_of_unique) (auto simp: make_date_def days_before_year_Suc)
  define m' where "m' = month_of ?n"
  have "m' = month_from y (days_before_month y m + k) 1"
    unfolding m'_def month_of_def y by (simp add: make_date_def)
  moreover have "days_before_month y 1 < days_before_month y m + k"
    using assms nonneg by (simp add: days_before_month_def)
  ultimately have b: "1 \<le> m'" "m' \<le> 12" "days_before_month y m' < days_before_month y m + k"
      "days_before_month y m + k \<le> days_before_month y m' + days_in_month y m'"
    using month_from_bounds [of 1 y "days_before_month y m + k"] assms last by auto
  have "\<not> m < m'" using days_before_month_mono [of m m' y] b assms by linarith
  moreover have "\<not> m' < m" using days_before_month_mono [of m' m y] b assms by linarith
  ultimately show m: "month_of ?n = m" by (simp add: m'_def)
  show "day_of ?n = k" by (simp only: day_of_def y m) (simp add: make_date_def)
qed

lemma month_start_strict: "j < k \<Longrightarrow> month_start j < month_start k"
proof -
  assume "j < k"
  have "month_start j < month_start (j + 1 + int n)" for n
  proof (induction n)
    case 0
    then show ?case using days_in_month_bounds [of "j div 12" "j mod 12 + 1"] by (simp add: month_start_Suc)
  next
    case (Suc n)
    have "j + 1 + int (Suc n) = (j + 1 + int n) + 1" by simp
    then show ?case
      using Suc days_in_month_bounds [of "(j + 1 + int n) div 12" "(j + 1 + int n) mod 12 + 1"]
      unfolding \<open>j + 1 + int (Suc n) = (j + 1 + int n) + 1\<close> month_start_Suc by linarith
  qed
  from this [of "nat (k - j - 1)"] show ?thesis using \<open>j < k\<close> by simp
qed

lemma month_start_mono: "j \<le> k \<Longrightarrow> month_start j \<le> month_start k"
  using month_start_strict [of j k] by (cases "j = k") auto

lemma month_index_mono: "d \<le> d' \<Longrightarrow> month_index d \<le> month_index d'"
proof (rule ccontr)
  assume "d \<le> d'" and "\<not> month_index d \<le> month_index d'"
  then show False
    using month_start_mono [of "month_index d' + 1" "month_index d"] month_index_bounds [of d] month_index_bounds [of d']
    by linarith
qed

lemma year_of_mono: "d \<le> d' \<Longrightarrow> year_of d \<le> year_of d'"
  using month_index_mono [of d d'] month_index_parts(1) by (metis zdiv_mono1 zero_less_numeral)

lemma weekday_range: "0 \<le> weekday d \<and> weekday d \<le> 6"
  by (simp add: weekday_def)

section \<open>The days of a month\<close>

definition days_of_month :: "int \<Rightarrow> int \<Rightarrow> date list" where
  "days_of_month y m = map (make_date y m) [1..days_in_month y m]"

lemma days_of_month_sorted: "sorted_wrt (<) (days_of_month y m)"
proof -
  have "sorted_wrt (<) [1..days_in_month y m]" by (simp add: strict_sorted_iff)
  then show ?thesis by (simp add: days_of_month_def sorted_wrt_map make_date_def)
qed

lemma set_days_of_month:
  assumes "1 \<le> m" and "m \<le> 12"
  shows "set (days_of_month y m) = {d. year_of d = y \<and> month_of d = m}"
proof (intro equalityI subsetI)
  fix d
  assume "d \<in> set (days_of_month y m)"
  then obtain k where "d = make_date y m k" "1 \<le> k" "k \<le> days_in_month y m" by (auto simp: days_of_month_def)
  then show "d \<in> {d. year_of d = y \<and> month_of d = m}" using parts_make_date [OF assms] by simp
next
  fix d
  assume "d \<in> {d. year_of d = y \<and> month_of d = m}"
  then show "d \<in> set (days_of_month y m)"
    using day_of_range [of d] make_date_of [of d] by (force simp: days_of_month_def)
qed

end
