(* ===== verification/Time_Text.thy ===== *)
theory Time_Text
  imports Calendar Ems_Prelude
begin

text \<open>
  JSON values, and the texts of dates and times that \<open>ems/schedule_recurrence.py\<close> and
  \<open>ems/schedule_model.py\<close> write and read with Python's \<open>datetime\<close>.

  Times are microseconds, counted so that a day's midnight is \<open>DAY\<close> times the number of the day.
  \<open>strptime\<close> takes one or two digits for a field, a space for the tens of a day, and either case of a
  letter; \<open>strftime\<close> writes a year without leading zeros, as the C library does on Linux; \<open>fromisoformat\<close> takes
  calendar and week dates, with and without separators. Proved: what is written is read back.
\<close>

section \<open>JSON\<close>

datatype json =
    Jnull | Jbool bool | Jint int | Jfloat pyfloat | Jstr string
  | Jlist "json list" | Jobj "(string \<times> json) list"

type_synonym json_object = "(string \<times> json) list"

text \<open>\<open>payload.get(key)\<close>, where an absent key reads as null.\<close>

definition jget :: "json_object \<Rightarrow> string \<Rightarrow> json" where
  "jget ob k = (case map_of ob k of None \<Rightarrow> Jnull | Some v \<Rightarrow> v)"

text \<open>Whether an object has only the fields named.\<close>

definition only_fields :: "string list \<Rightarrow> json_object \<Rightarrow> bool" where
  "only_fields known ob \<longleftrightarrow> list_all (\<lambda>(k, v). k \<in> set known) ob"

section \<open>Results\<close>

text \<open>Going on with a result, or raising its error.\<close>

fun ok_then :: "'e + 'a \<Rightarrow> ('a \<Rightarrow> 'e + 'b) \<Rightarrow> 'e + 'b" where
  "ok_then (Inl e) f = Inl e"
| "ok_then (Inr a) f = f a"

lemma ok_then_Inr [simp]: "ok_then x f = Inr y \<longleftrightarrow> (\<exists>a. x = Inr a \<and> f a = Inr y)"
  by (cases x) simp_all

definition from_option :: "'e \<Rightarrow> 'a option \<Rightarrow> 'e + 'a" where
  "from_option e x = (case x of None \<Rightarrow> Inl e | Some a \<Rightarrow> Inr a)"

lemma from_option_Inr [simp]: "from_option e x = Inr y \<longleftrightarrow> x = Some y"
  by (cases x) (simp_all add: from_option_def)

text \<open>All results of a list, or the first error.\<close>

fun all_ok :: "('a \<Rightarrow> 'e + 'b) \<Rightarrow> 'a list \<Rightarrow> 'e + 'b list" where
  "all_ok f [] = Inr []"
| "all_ok f (x # xs) = ok_then (f x) (\<lambda>y. ok_then (all_ok f xs) (\<lambda>ys. Inr (y # ys)))"

lemma all_ok_map: "(\<And>x. x \<in> set xs \<Longrightarrow> f (g x) = Inr x) \<Longrightarrow> all_ok f (map g xs) = Inr xs"
  by (induction xs) auto

lemma all_ok_length: "all_ok f xs = Inr ys \<Longrightarrow> length ys = length xs"
  by (induction xs arbitrary: ys) auto

lemma all_ok_mem: "all_ok f xs = Inr ys \<Longrightarrow> y \<in> set ys \<Longrightarrow> \<exists>x\<in>set xs. f x = Inr y"
  by (induction xs arbitrary: ys) auto

section \<open>Times\<close>

type_synonym micros = int

definition DAY :: micros where "DAY = 86400000000"

definition MINUTE :: micros where "MINUTE = 60000000"

definition SECOND :: micros where "SECOND = 1000000"

definition day_part :: "micros \<Rightarrow> date" where "day_part t = t div DAY"

definition time_part :: "micros \<Rightarrow> micros" where "time_part t = t mod DAY"

text \<open>\<open>datetime.combine\<close>.\<close>

definition combine :: "date \<Rightarrow> micros \<Rightarrow> micros" where "combine d t = d * DAY + t"

definition hour_of :: "micros \<Rightarrow> int" where "hour_of t = time_part t div (60 * MINUTE)"

definition minute_of :: "micros \<Rightarrow> int" where "minute_of t = time_part t div MINUTE mod 60"

definition second_of :: "micros \<Rightarrow> int" where "second_of t = time_part t div SECOND mod 60"

lemma combine_parts: "combine (day_part t) (time_part t) = t"
  by (simp add: combine_def day_part_def time_part_def)

lemma combine_day: "0 \<le> t \<Longrightarrow> t < DAY \<Longrightarrow> day_part (combine d t) = d \<and> time_part (combine d t) = t"
  by (simp add: combine_def day_part_def time_part_def DAY_def)

lemma hour_of_range: "0 \<le> hour_of t \<and> hour_of t \<le> 23"
proof -
  have "0 \<le> time_part t" "time_part t < DAY" by (simp_all add: time_part_def DAY_def)
  then show ?thesis by (simp add: hour_of_def MINUTE_def DAY_def) linarith
qed

lemma minute_of_range: "0 \<le> minute_of t \<and> minute_of t \<le> 59"
  by (simp add: minute_of_def)

lemma second_of_range: "0 \<le> second_of t \<and> second_of t \<le> 59"
  by (simp add: second_of_def)

lemma whole_minutes:
  assumes "t mod MINUTE = 0"
  shows "combine (day_part t) ((hour_of t * 60 + minute_of t) * MINUTE) = t"
proof -
  let ?x = "time_part t div MINUTE"
  have "time_part t mod MINUTE = 0"
    using assms by (simp add: time_part_def DAY_def MINUTE_def mod_mod_cancel)
  then have "?x * MINUTE = time_part t" using div_mult_mod_eq [of "time_part t" MINUTE] by simp
  moreover have "hour_of t = ?x div 60"
    by (simp add: hour_of_def MINUTE_def zdiv_zmult2_eq)
  ultimately show ?thesis
    using combine_parts [of t] by (simp add: minute_of_def)
qed

lemma whole_seconds:
  assumes "t mod SECOND = 0"
  shows "combine (day_part t) (((hour_of t * 60 + minute_of t) * 60 + second_of t) * SECOND) = t"
proof -
  let ?x = "time_part t div SECOND"
  have "time_part t mod SECOND = 0"
    using assms by (simp add: time_part_def DAY_def SECOND_def mod_mod_cancel)
  then have x: "?x * SECOND = time_part t" using div_mult_mod_eq [of "time_part t" SECOND] by simp
  have "time_part t div (SECOND * 60) = ?x div 60" "time_part t div (SECOND * 3600) = ?x div 3600" "?x div (60 * 60) = ?x div 60 div 60"
    by (simp_all only: zdiv_zmult2_eq)
  then have "hour_of t = ?x div 60 div 60" "minute_of t = ?x div 60 mod 60"
    by (simp_all add: hour_of_def minute_of_def MINUTE_def SECOND_def)
  then have "(hour_of t * 60 + minute_of t) * 60 + second_of t = ?x"
    by (simp add: second_of_def)
  then show ?thesis using x combine_parts [of t] by simp
qed

section \<open>Digits\<close>

definition digit :: "char \<Rightarrow> bool" where
  "digit c \<longleftrightarrow> (let n = (of_char c :: nat) in 48 \<le> n \<and> n \<le> 57)"

definition digit_val :: "char \<Rightarrow> int" where "digit_val c = int (of_char c) - 48"

definition digits_val :: "string \<Rightarrow> int" where
  "digits_val s = foldl (\<lambda>n c. 10 * n + digit_val c) 0 s"

definition digit_char :: "int \<Rightarrow> char" where "digit_char n = char_of (nat (48 + n mod 10))"

text \<open>A number with at least two, and with four digits.\<close>

definition two :: "int \<Rightarrow> string" where "two n = [digit_char (n div 10), digit_char n]"

definition four :: "int \<Rightarrow> string" where
  "four n = [digit_char (n div 1000), digit_char (n div 100), digit_char (n div 10), digit_char n]"

text \<open>\<open>str(n)\<close> of a number from 0 on.\<close>

fun decimal :: "nat \<Rightarrow> string" where
  "decimal n = (if n < 10 then [digit_char (int n)] else decimal (n div 10) @ [digit_char (int n)])"

declare decimal.simps [simp del]

lemma digit_char_code: "of_char (digit_char n) = nat (48 + n mod 10)"
proof -
  have "nat (48 + n mod 10) < 256" using pos_mod_bound [of 10 n] by simp
  then show ?thesis by (simp add: digit_char_def)
qed

lemma digit_digit_char [simp]: "digit (digit_char n)"
proof -
  have "0 \<le> n mod 10" "n mod 10 < 10" by simp_all
  then show ?thesis unfolding digit_def Let_def digit_char_code by linarith
qed

lemma digit_val_char [simp]: "digit_val (digit_char n) = n mod 10"
  using pos_mod_sign [of 10 n] by (simp add: digit_val_def digit_char_code)

lemma digits_val_two [simp]: "0 \<le> n \<Longrightarrow> n < 100 \<Longrightarrow> digits_val (two n) = n"
  by (simp add: digits_val_def two_def)

lemma digits_val_four [simp]: "0 \<le> n \<Longrightarrow> n < 10000 \<Longrightarrow> digits_val (four n) = n"
proof -
  assume n: "0 \<le> n" "n < 10000"
  define a b c where "a = n div 10" and "b = a div 10" and "c = b div 10"
  have d: "n div 100 = b" "n div 1000 = c" by (simp_all add: a_def b_def c_def zdiv_zmult2_eq [symmetric])
  have "n = 10 * a + n mod 10" "a = 10 * b + a mod 10" "b = 10 * c + b mod 10"
    by (simp_all add: a_def b_def c_def)
  moreover have "c mod 10 = c" using n by (simp add: a_def b_def c_def zdiv_zmult2_eq [symmetric])
  ultimately show ?thesis unfolding digits_val_def four_def d a_def [symmetric] by simp
qed

lemma decimal_four: "1000 \<le> k \<Longrightarrow> k < 10000 \<Longrightarrow> decimal k = four (int k)"
proof -
  assume k: "1000 \<le> k" "k < 10000"
  have d: "k div 10 div 10 = k div 100" "k div 100 div 10 = k div 1000" by (simp_all add: div_mult2_eq [symmetric])
  have "decimal k = decimal (k div 10) @ [digit_char (int k)]"
    "decimal (k div 10) = decimal (k div 100) @ [digit_char (int (k div 10))]"
    "decimal (k div 100) = decimal (k div 1000) @ [digit_char (int (k div 100))]"
    "decimal (k div 1000) = [digit_char (int (k div 1000))]"
    using k less_mult_imp_div_less [of k 10 1000] by (simp_all add: decimal.simps [of k] decimal.simps [of "k div 10"] decimal.simps [of "k div 100"]
        decimal.simps [of "k div 1000"] d)
  then show ?thesis by (simp add: four_def zdiv_int)
qed

section \<open>Writing\<close>

text \<open>\<open>strftime(LOCAL_FORMAT)\<close>, \<open>strftime(UTC_FORMAT)\<close> and \<open>date.isoformat\<close>.\<close>

definition day_text :: "string \<Rightarrow> date \<Rightarrow> string" where
  "day_text year d = year @ ''-'' @ two (month_of d) @ ''-'' @ two (day_of d)"

definition strftime_local :: "micros \<Rightarrow> string" where
  "strftime_local t =
     day_text (decimal (nat (year_of (day_part t)))) (day_part t) @ ''T'' @ two (hour_of t) @ '':'' @ two (minute_of t)"

definition strftime_utc :: "micros \<Rightarrow> string" where
  "strftime_utc t = strftime_local t @ '':'' @ two (second_of t) @ ''Z''"

definition isoformat :: "date \<Rightarrow> string" where
  "isoformat d = day_text (four (year_of d)) d"

section \<open>Reading\<close>

text \<open>The text before and after the first separator.\<close>

definition split_at :: "(char \<Rightarrow> bool) \<Rightarrow> string \<Rightarrow> (string \<times> string) option" where
  "split_at P s =
     (case dropWhile (\<lambda>c. \<not> P c) s of [] \<Rightarrow> None | c # rest \<Rightarrow> Some (takeWhile (\<lambda>c. \<not> P c) s, rest))"

definition number_field :: "int \<Rightarrow> int \<Rightarrow> string \<Rightarrow> int option" where
  "number_field lo hi s =
     (if (length s = 1 \<or> length s = 2) \<and> list_all digit s \<and> lo \<le> digits_val s \<and> digits_val s \<le> hi
      then Some (digits_val s) else None)"

definition day_field :: "string \<Rightarrow> int option" where
  "day_field s =
     (case s of
        [c, d] \<Rightarrow> if c = CHR '' '' then number_field 1 9 [d] else number_field 1 31 s
      | _ \<Rightarrow> number_field 1 31 s)"

definition year_field :: "string \<Rightarrow> int option" where
  "year_field s = (if length s = 4 \<and> list_all digit s then Some (digits_val s) else None)"

text \<open>\<open>date(y, m, d)\<close>, with \<open>None\<close> where Python raises.\<close>

definition checked_date :: "int \<Rightarrow> int \<Rightarrow> int \<Rightarrow> date option" where
  "checked_date y m d =
     (if 1 \<le> y \<and> y \<le> 9999 \<and> 1 \<le> m \<and> m \<le> 12 \<and> 1 \<le> d \<and> d \<le> days_in_month y m then Some (make_date y m d) else None)"

text \<open>The date that a text begins with, up to a \<open>T\<close>, and the rest.\<close>

definition strptime_day :: "string \<Rightarrow> (date \<times> string) option" where
  "strptime_day s =
     Option.bind (split_at (\<lambda>c. c = CHR ''-'') s) (\<lambda>(y, s1).
     Option.bind (split_at (\<lambda>c. c = CHR ''-'') s1) (\<lambda>(m, s2).
     Option.bind (split_at (\<lambda>c. c = CHR ''T'' \<or> c = CHR ''t'') s2) (\<lambda>(d, s3).
     Option.bind (year_field y) (\<lambda>y.
     Option.bind (number_field 1 12 m) (\<lambda>m.
     Option.bind (day_field d) (\<lambda>d.
     map_option (\<lambda>day. (day, s3)) (checked_date y m d)))))))"

definition strptime_local :: "string \<Rightarrow> micros option" where
  "strptime_local s =
     Option.bind (strptime_day s) (\<lambda>(day, s1).
     Option.bind (split_at (\<lambda>c. c = CHR '':'') s1) (\<lambda>(h, mi).
     Option.bind (number_field 0 23 h) (\<lambda>h.
     Option.bind (number_field 0 59 mi) (\<lambda>mi. Some (combine day ((h * 60 + mi) * MINUTE))))))"

definition strptime_utc :: "string \<Rightarrow> micros option" where
  "strptime_utc s =
     Option.bind (strptime_day s) (\<lambda>(day, s1).
     Option.bind (split_at (\<lambda>c. c = CHR '':'') s1) (\<lambda>(h, s2).
     Option.bind (split_at (\<lambda>c. c = CHR '':'') s2) (\<lambda>(mi, s3).
     Option.bind (split_at (\<lambda>c. c = CHR ''Z'' \<or> c = CHR ''z'') s3) (\<lambda>(se, rest).
     Option.bind (number_field 0 23 h) (\<lambda>h.
     Option.bind (number_field 0 59 mi) (\<lambda>mi.
     Option.bind (number_field 0 59 se) (\<lambda>se.
     if rest = [] then Some (combine day (((h * 60 + mi) * 60 + se) * SECOND)) else None)))))))"

text \<open>
  \<open>date.fromisoformat\<close>: \<open>YYYY-MM-DD\<close>, \<open>YYYYMMDD\<close>, \<open>YYYY-Www\<close>, \<open>YYYYWww\<close>, \<open>YYYY-Www-D\<close> and \<open>YYYYWwwD\<close>. The
  first week of a year is the one with its first Thursday.
\<close>

definition all_digits :: "string \<Rightarrow> int option" where
  "all_digits s = (if s \<noteq> [] \<and> list_all digit s then Some (digits_val s) else None)"

definition week_1_monday :: "int \<Rightarrow> date" where
  "week_1_monday y =
     (let first = make_date y 1 1; w = weekday first; monday = first - w in if 3 < w then monday + 7 else monday)"

definition checked_week_date :: "int \<Rightarrow> int \<Rightarrow> int \<Rightarrow> date option" where
  "checked_week_date y w d =
     (let n = week_1_monday y + (w - 1) * 7 + d - 1;
          long = weekday (make_date y 1 1) = 3 \<or> weekday (make_date y 1 1) = 2 \<and> is_leap y
      in if 1 \<le> y \<and> y \<le> 9999 \<and> 1 \<le> w \<and> (w \<le> 52 \<or> w = 53 \<and> long) \<and> 1 \<le> d \<and> d \<le> 7 \<and> 1 \<le> n \<and> n \<le> MAX_ORDINAL
         then Some n else None)"

definition date_fromisoformat :: "string \<Rightarrow> date option" where
  "date_fromisoformat s =
     (let sep = (take 1 (drop 4 s) = ''-'');
          rest = drop (if sep then 5 else 4) s
      in Option.bind (all_digits (take 4 s)) (\<lambda>y.
         if take 1 rest = ''W''
         then Option.bind (all_digits (take 2 (drop 1 rest))) (\<lambda>w.
              let day = drop 3 rest
              in if length (take 3 rest) \<noteq> 3 then None
                 else if day = [] then checked_week_date y w 1
                 else if sep \<and> take 1 day \<noteq> ''-'' then None
                 else let d = (if sep then drop 1 day else day)
                      in if length d \<noteq> 1 then None
                         else Option.bind (all_digits d) (checked_week_date y w))
         else let (m, d) = (if sep then (take 2 rest, drop 3 rest) else (take 2 rest, drop 2 rest))
              in if sep \<and> take 1 (drop 2 rest) \<noteq> ''-'' \<or> length m \<noteq> 2 \<or> length d \<noteq> 2 then None
                 else Option.bind (all_digits m) (\<lambda>m. Option.bind (all_digits d) (checked_date y m))))"

section \<open>What is written is read back\<close>

lemma digit_not_sep:
  assumes "digit c"
  shows "c \<noteq> CHR ''-''" and "c \<noteq> CHR '':''" and "c \<noteq> CHR ''T''" and "c \<noteq> CHR ''t''" and "c \<noteq> CHR ''Z''"
    and "c \<noteq> CHR ''z''" and "c \<noteq> CHR '' ''" and "c \<noteq> CHR ''W''" and "\<not> py_space c"
  using assms by (auto simp: digit_def py_space_def Let_def)

lemma two_digits [simp]: "list_all digit (two n)" "length (two n) = 2"
  by (simp_all add: two_def)

lemma four_digits [simp]: "list_all digit (four n)" "length (four n) = 4"
  by (simp_all add: four_def)

lemmas digit_char_not_sep [simp] = digit_not_sep [OF digit_digit_char]

lemma split_texts [simp]:
  "split_at (\<lambda>c. c = CHR ''-'') (four n @ CHR ''-'' # ys) = Some (four n, ys)"
  "split_at (\<lambda>c. c = CHR ''-'') (two n @ CHR ''-'' # ys) = Some (two n, ys)"
  "split_at (\<lambda>c. c = CHR '':'') (two n @ CHR '':'' # ys) = Some (two n, ys)"
  "split_at (\<lambda>c. c = CHR ''T'' \<or> c = CHR ''t'') (two n @ CHR ''T'' # ys) = Some (two n, ys)"
  "split_at (\<lambda>c. c = CHR ''Z'' \<or> c = CHR ''z'') (two n @ CHR ''Z'' # ys) = Some (two n, ys)"
  by (simp_all add: split_at_def two_def four_def)

lemma number_field_two: "0 \<le> lo \<Longrightarrow> lo \<le> n \<Longrightarrow> n \<le> hi \<Longrightarrow> hi < 100 \<Longrightarrow> number_field lo hi (two n) = Some n"
  by (simp add: number_field_def)

lemma day_field_two: "1 \<le> n \<Longrightarrow> n \<le> 31 \<Longrightarrow> day_field (two n) = Some n"
proof -
  assume n: "1 \<le> n" "n \<le> 31"
  have "digit_char (n div 10) \<noteq> CHR '' ''" by simp
  then have "day_field (two n) = number_field 1 31 (two n)" by (simp add: day_field_def two_def)
  then show ?thesis using n number_field_two by simp
qed

lemma strptime_day_text:
  assumes "1000 \<le> year_of d" and "year_of d \<le> 9999"
  shows "strptime_day (day_text (decimal (nat (year_of d))) d @ CHR ''T'' # rest) = Some (d, rest)"
proof -
  have y: "decimal (nat (year_of d)) = four (year_of d)" using assms decimal_four [of "nat (year_of d)"] by simp
  have day: "1 \<le> day_of d" "day_of d \<le> days_in_month (year_of d) (month_of d)" "day_of d \<le> 31"
    using day_of_range [of d] days_in_month_bounds [of "year_of d" "month_of d"] by linarith+
  have m: "1 \<le> month_of d" "month_of d \<le> 12" using month_of_range [of d] by simp_all
  have "checked_date (year_of d) (month_of d) (day_of d) = Some d"
    using assms day m make_date_of [of d] by (simp add: checked_date_def)
  then show ?thesis
    using assms day m
    by (simp add: strptime_day_def day_text_def y year_field_def number_field_two day_field_two)
qed

lemma strptime_local_strftime:
  assumes "t mod MINUTE = 0" and "1000 \<le> year_of (day_part t)" and "year_of (day_part t) \<le> 9999"
  shows "strptime_local (strftime_local t) = Some t"
  using strptime_day_text [OF assms(2,3)] whole_minutes [OF assms(1)] hour_of_range [of t] minute_of_range [of t]
  by (simp add: strptime_local_def strftime_local_def number_field_two)

lemma strptime_utc_strftime:
  assumes "t mod SECOND = 0" and "1000 \<le> year_of (day_part t)" and "year_of (day_part t) \<le> 9999"
  shows "strptime_utc (strftime_utc t) = Some t"
  using strptime_day_text [OF assms(2,3)] whole_seconds [OF assms(1)] hour_of_range [of t] minute_of_range [of t]
    second_of_range [of t]
  by (simp add: strptime_utc_def strftime_utc_def strftime_local_def number_field_two)

lemma py_strip_id: "s \<noteq> [] \<Longrightarrow> \<not> py_space (hd s) \<Longrightarrow> \<not> py_space (last s) \<Longrightarrow> py_strip s = s"
proof -
  assume a: "s \<noteq> []" "\<not> py_space (hd s)" "\<not> py_space (last s)"
  have "dropWhile py_space s = s" "dropWhile py_space (rev s) = rev s"
    using a by (simp_all add: dropWhile_eq_self_iff hd_rev)
  then show ?thesis by (simp add: py_strip_def)
qed

lemma strftime_local_strip:
  assumes "1000 \<le> year_of (day_part t)" and "year_of (day_part t) \<le> 9999"
  shows "py_strip (strftime_local t) = strftime_local t"
proof -
  have "decimal (nat (year_of (day_part t))) = four (year_of (day_part t))"
    using assms decimal_four [of "nat (year_of (day_part t))"] by simp
  then show ?thesis
    using digit_not_sep(9) [OF digit_digit_char] by (intro py_strip_id) (simp_all add: strftime_local_def day_text_def four_def two_def)
qed

lemma fromisoformat_isoformat:
  assumes "1 \<le> year_of d" and "year_of d \<le> 9999"
  shows "date_fromisoformat (isoformat d) = Some d" and "py_strip (isoformat d) = isoformat d"
proof -
  have day: "1 \<le> day_of d" "day_of d \<le> days_in_month (year_of d) (month_of d)" "day_of d < 100"
    using day_of_range [of d] days_in_month_bounds [of "year_of d" "month_of d"] by linarith+
  have m: "1 \<le> month_of d" "month_of d \<le> 12" using month_of_range [of d] by simp_all
  have cd: "checked_date (year_of d) (month_of d) (day_of d) = Some d"
    using assms day m make_date_of [of d] by (simp add: checked_date_def)
  have parts: "take 4 (isoformat d) = four (year_of d)"
    "drop 4 (isoformat d) = CHR ''-'' # two (month_of d) @ CHR ''-'' # two (day_of d)"
    "drop 5 (isoformat d) = two (month_of d) @ CHR ''-'' # two (day_of d)"
    by (simp_all add: isoformat_def day_text_def four_def)
  have rest: "take 1 (two n @ xs) \<noteq> ''W''" "take 2 (two n @ xs) = two n" "drop 2 (two n @ xs) = xs"
    "drop 3 (two n @ CHR ''-'' # xs) = xs" for n xs
    using digit_not_sep(8) [OF digit_digit_char] by (auto simp: two_def)
  show "date_fromisoformat (isoformat d) = Some d"
    using assms day m cd by (simp add: date_fromisoformat_def parts rest all_digits_def Let_def) (simp add: four_def two_def)
  show "py_strip (isoformat d) = isoformat d"
    using digit_not_sep(9) [OF digit_digit_char] by (intro py_strip_id) (simp_all add: isoformat_def day_text_def four_def two_def)
qed

lemma checked_date_Some: "checked_date y m d = Some n \<Longrightarrow> year_of n = y \<and> 1 \<le> y \<and> y \<le> 9999"
  using parts_make_date [of m d y] by (auto simp: checked_date_def split: if_splits)

lemma ordinal_year: "1 \<le> n \<Longrightarrow> n \<le> MAX_ORDINAL \<Longrightarrow> 1 \<le> year_of n \<and> year_of n \<le> 9999"
proof -
  assume "1 \<le> n" "n \<le> MAX_ORDINAL"
  then have "year_of 1 \<le> year_of n" "year_of n \<le> year_of MAX_ORDINAL" by (simp_all add: year_of_mono)
  moreover have "year_of 1 = 1" "year_of MAX_ORDINAL = 9999" by code_simp+
  ultimately show ?thesis by simp
qed

lemma date_fromisoformat_year: "date_fromisoformat s = Some d \<Longrightarrow> 1 \<le> year_of d \<and> year_of d \<le> 9999"
proof -
  assume "date_fromisoformat s = Some d"
  then consider y w k where "checked_week_date y w k = Some d" | y m k where "checked_date y m k = Some d"
    by (auto simp: date_fromisoformat_def Let_def bind_eq_Some_conv split: if_splits)
  then show ?thesis
  proof cases
    case 1
    then show ?thesis using ordinal_year by (auto simp: checked_week_date_def Let_def split: if_splits)
  qed (use checked_date_Some in blast)
qed

lemma strptime_day_year: "strptime_day s = Some (d, r) \<Longrightarrow> 1 \<le> year_of d \<and> year_of d \<le> 9999"
  using checked_date_Some by (fastforce simp: strptime_day_def bind_eq_Some_conv)

lemma number_field_range: "number_field lo hi s = Some n \<Longrightarrow> lo \<le> n \<and> n \<le> hi"
  by (auto simp: number_field_def split: if_splits)

lemma strptime_local_range:
  "strptime_local s = Some t \<Longrightarrow> t mod MINUTE = 0 \<and> 1 \<le> year_of (day_part t) \<and> year_of (day_part t) \<le> 9999"
proof -
  assume "strptime_local s = Some t"
  then obtain d r h hs mi ms where p: "strptime_day s = Some (d, r)" "number_field 0 23 hs = Some h"
      "number_field 0 59 ms = Some mi" "t = combine d ((h * 60 + mi) * MINUTE)"
    by (auto simp: strptime_local_def bind_eq_Some_conv)
  have "0 \<le> (h * 60 + mi) * MINUTE" "(h * 60 + mi) * MINUTE < DAY"
    using number_field_range [OF p(2)] number_field_range [OF p(3)] by (simp_all add: MINUTE_def DAY_def)
  then have "day_part t = d" using p(4) combine_day by simp
  moreover have "t = (d * 1440 + (h * 60 + mi)) * MINUTE" by (simp add: p(4) combine_def DAY_def MINUTE_def)
  then have "t mod MINUTE = 0" by simp
  ultimately show ?thesis using strptime_day_year [OF p(1)] by blast
qed

end
