(* ===== verification/Runtime_Commands.thy ===== *)
theory Runtime_Commands
  imports Time_Text "HOL-Library.AList"
begin

text \<open>
  \<open>ems/runtime_commands.py\<close>: the one path every runtime-state edit takes, and the settings of
  \<open>ems/device_settings.py\<close> it knows.

  Values are JSON values. The file lock and the saving of the file may fail: \<open>write_outcome\<close> says how a
  write went, and the data re-read from disk before it is an argument. Numbers are exact; Python's
  \<open>int\<close> and \<open>float\<close> raise \<open>OverflowError\<close> on an infinity and on an integer no double holds, which no validator
  expects.

  Proved: an accepted payload has the fields asked for, each in its range.
\<close>

section \<open>Settings of a device\<close>

definition UNMANAGED :: string where "UNMANAGED = ''unmanaged''"

record device_setting =
  ds_key :: string
  ds_command :: string
  ds_words :: "string list"

definition SETTINGS :: "device_setting list" where
  "SETTINGS =
     [\<lparr>ds_key = ''light'', ds_command = ''light'', ds_words = [''on'', ''off'']\<rparr>,
      \<lparr>ds_key = ''fan'', ds_command = ''fan'', ds_words = [''auto'', ''1'', ''2'', ''off'']\<rparr>,
      \<lparr>ds_key = ''buzzer'', ds_command = ''buzzer'', ds_words = [''on'', ''off'']\<rparr>,
      \<lparr>ds_key = ''auto_heat'', ds_command = ''auto-heat'', ds_words = [''on'', ''off'']\<rparr>]"

section \<open>Fields\<close>

datatype field_rule =
    Bool_field | Int_field int int | Float_field rat rat | Enum_field "string list" | Setting_field "string list"

type_synonym fields = "(string \<times> field_rule) list"

definition OFFGRID_SOCKET_MODES :: "string list" where
  "OFFGRID_SOCKET_MODES = [''off'', ''eco'', ''standard'']"

definition GENERIC_MAX_POWER_W :: int where "GENERIC_MAX_POWER_W = 5000"

definition SYSTEM_FIELDS :: fields where
  "SYSTEM_FIELDS =
     [(''enabled'', Bool_field), (''max_total_power'', Int_field 0 GENERIC_MAX_POWER_W),
      (''loop_interval'', Int_field 1 3600), (''min_output_limit'', Int_field 0 GENERIC_MAX_POWER_W)]"

definition DEVICE_FIELDS :: fields where
  "DEVICE_FIELDS =
     [(''enabled'', Bool_field), (''max_power'', Int_field 0 GENERIC_MAX_POWER_W),
      (''offgrid_socket_mode'', Enum_field OFFGRID_SOCKET_MODES), (''pv_priority_factor'', Float_field (1 / 100) 100),
      (''ac_charge_enabled'', Bool_field)]"

definition DEVICE_AC_FIELDS :: fields where
  "DEVICE_AC_FIELDS =
     [(''runtime_role'', Enum_field [''ac_output'', ''ac_input'']),
      (''ac_charge_power_w'', Int_field 0 GENERIC_MAX_POWER_W)]"

definition DEVICE_SETTING_FIELDS :: fields where
  "DEVICE_SETTING_FIELDS = map (\<lambda>s. (ds_key s, Setting_field (ds_words s))) SETTINGS"

definition WRITABLE_DEVICE_FIELDS :: fields where
  "WRITABLE_DEVICE_FIELDS = DEVICE_FIELDS @ DEVICE_AC_FIELDS @ DEVICE_SETTING_FIELDS"

definition SECTION_FIELDS :: "(string \<times> fields) list" where
  "SECTION_FIELDS = [(''winter'', [(''enabled'', Bool_field)]), (''ac_charge_control'', [(''enabled'', Bool_field)])]"

section \<open>Commands\<close>

text \<open>\<open>RuntimeWriteError\<close>, and the error that escapes the validators.\<close>

datatype write_error =
    Unsupported_scope string | Unknown_command string | Takes_no_value | Requires_value | Wrong_choice
  | Unknown_key string | Empty_payload | Bad_value string | Not_over_mqtt string | Unknown_device string
  | Not_an_object string | State_busy | Save_error | Number_overflow

record runtime_command =
  rc_key :: string
  rc_value :: "json option"
  rc_choices :: "(string \<times> json) list"

definition sets_key :: "string \<Rightarrow> runtime_command" where
  "sets_key k = \<lparr>rc_key = k, rc_value = None, rc_choices = []\<rparr>"

definition switches :: "bool \<Rightarrow> runtime_command" where
  "switches b = \<lparr>rc_key = ''enabled'', rc_value = Some (Jbool b), rc_choices = []\<rparr>"

definition SECTION_COMMANDS :: "(string \<times> runtime_command) list" where
  "SECTION_COMMANDS = [(''enable'', switches True), (''disable'', switches False)]"

definition SYSTEM_COMMANDS :: "(string \<times> runtime_command) list" where
  "SYSTEM_COMMANDS =
     [(''enable'', switches True), (''disable'', switches False), (''max-power'', sets_key ''max_total_power''),
      (''loop-interval'', sets_key ''loop_interval''), (''min-output-limit'', sets_key ''min_output_limit'')]"

definition DEVICE_COMMANDS :: "(string \<times> runtime_command) list" where
  "DEVICE_COMMANDS =
     [(''enable'', switches True), (''disable'', switches False), (''max-power'', sets_key ''max_power''),
      (''offgrid'', sets_key ''offgrid_socket_mode''), (''pv-priority-factor'', sets_key ''pv_priority_factor''),
      (''ac-mode'', \<lparr>rc_key = ''runtime_role'', rc_value = None,
         rc_choices = [(''output'', Jstr ''ac_output''), (''input'', Jstr ''ac_input'')]\<rparr>),
      (''ac-charge'', \<lparr>rc_key = ''ac_charge_enabled'', rc_value = None,
         rc_choices = [(''on'', Jbool True), (''off'', Jbool False)]\<rparr>),
      (''ac-charge-power'', sets_key ''ac_charge_power_w'')] @
     map (\<lambda>s. (ds_command s, sets_key (ds_key s))) SETTINGS"

definition command_in :: "(string \<times> runtime_command) list \<Rightarrow> string \<Rightarrow> write_error + runtime_command" where
  "command_in table action = from_option (Unknown_command action) (map_of table action)"

definition runtime_command :: "string \<Rightarrow> string \<Rightarrow> write_error + runtime_command" where
  "runtime_command scope action =
     (if scope = ''system'' then command_in SYSTEM_COMMANDS action
      else if scope = ''device'' then command_in DEVICE_COMMANDS action
      else if map_of SECTION_FIELDS scope \<noteq> None then command_in SECTION_COMMANDS action
      else Inl (Unsupported_scope scope))"

text \<open>
  \<open>str(value).strip().lower()\<close> of a text. The text of any other value is none of the words compared with,
  but for a whole number below ten, which is its digit.
\<close>

definition word_of :: "string \<Rightarrow> string" where "word_of s = py_lower (py_strip s)"

definition command_values :: "string \<Rightarrow> string \<Rightarrow> json \<Rightarrow> write_error + json_object" where
  "command_values scope action v =
     ok_then (runtime_command scope action) (\<lambda>c.
       case rc_value c of
         Some fixed \<Rightarrow> if v \<noteq> Jnull then Inl Takes_no_value else Inr [(rc_key c, fixed)]
       | None \<Rightarrow>
           if v = Jnull \<or> (case v of Jstr s \<Rightarrow> py_strip s = [] | _ \<Rightarrow> False) then Inl Requires_value
           else if rc_choices c = [] then Inr [(rc_key c, v)]
           else case v of
                  Jstr s \<Rightarrow> from_option Wrong_choice (map_option (\<lambda>x. [(rc_key c, x)]) (map_of (rc_choices c) (word_of s)))
                | _ \<Rightarrow> Inl Wrong_choice)"

section \<open>Validators\<close>

text \<open>\<open>str(n)\<close>.\<close>

definition int_text :: "int \<Rightarrow> string" where
  "int_text n = (if n < 0 then ''-'' @ decimal (nat (- n)) else decimal (nat n))"

text \<open>
  The whole number a text is the \<open>str\<close> of. \<open>int\<close> reads other texts as numbers too, but a text that is not
  written the way \<open>str\<close> writes its number is refused all the same.
\<close>

definition canonical_int :: "string \<Rightarrow> int option" where
  "canonical_int s =
     (let n = (case s of c # ds \<Rightarrow> if c = CHR ''-'' then - digits_val ds else digits_val s | [] \<Rightarrow> 0)
      in if int_text n = s then Some n else None)"

definition int_value :: "string \<Rightarrow> json \<Rightarrow> write_error + int" where
  "int_value key v =
     (case v of
        Jint n \<Rightarrow> Inr n
      | Jfloat (Fin x) \<Rightarrow> if of_int (py_int x) = x then Inr (py_int x) else Inl (Bad_value key)
      | Jfloat NaN \<Rightarrow> Inl (Bad_value key)
      | Jfloat _ \<Rightarrow> Inl Number_overflow
      | Jstr s \<Rightarrow> from_option (Bad_value key) (canonical_int (py_strip s))
      | _ \<Rightarrow> Inl (Bad_value key))"

text \<open>\<open>float\<close> of a text is the standard library's reading of a decimal number, \<open>parse_float\<close>.\<close>

definition float_value :: "(string \<Rightarrow> pyfloat option) \<Rightarrow> string \<Rightarrow> json \<Rightarrow> write_error + rat" where
  "float_value parse_float key v =
     (let finite = (\<lambda>x. case x of Fin r \<Rightarrow> Inr r | _ \<Rightarrow> Inl (Bad_value key))
      in case v of
           Jint n \<Rightarrow> if 2 ^ 1024 - 2 ^ 970 \<le> \<bar>n\<bar> then Inl Number_overflow else Inr (of_int n)
         | Jfloat x \<Rightarrow> finite x
         | Jstr s \<Rightarrow> ok_then (from_option (Bad_value key) (parse_float (py_strip s))) finite
         | _ \<Rightarrow> Inl (Bad_value key))"

definition is_unmanaged :: "json \<Rightarrow> bool" where
  "is_unmanaged v = (case v of Jnull \<Rightarrow> True | Jstr s \<Rightarrow> word_of s = UNMANAGED | _ \<Rightarrow> False)"

definition setting_word :: "json \<Rightarrow> string" where
  "setting_word v = (case v of Jstr s \<Rightarrow> word_of s | Jint n \<Rightarrow> int_text n | _ \<Rightarrow> [])"

definition validate_value :: "(string \<Rightarrow> pyfloat option) \<Rightarrow> string \<Rightarrow> json \<Rightarrow> field_rule \<Rightarrow> write_error + json" where
  "validate_value parse_float key v rule =
     (case rule of
        Bool_field \<Rightarrow> (case v of Jbool b \<Rightarrow> Inr v | _ \<Rightarrow> Inl (Bad_value key))
      | Int_field lo hi \<Rightarrow>
          ok_then (int_value key v) (\<lambda>n. if n < lo \<or> hi < n then Inl (Bad_value key) else Inr (Jint n))
      | Float_field lo hi \<Rightarrow>
          ok_then (float_value parse_float key v)
            (\<lambda>x. if x < lo \<or> hi < x then Inl (Bad_value key) else Inr (Jfloat (Fin x)))
      | Enum_field words \<Rightarrow>
          (case v of Jstr s \<Rightarrow> if word_of s \<in> set words then Inr (Jstr (word_of s)) else Inl (Bad_value key)
                   | _ \<Rightarrow> Inl (Bad_value key))
      | Setting_field words \<Rightarrow>
          if is_unmanaged v then Inr Jnull
          else if setting_word v \<in> set words then Inr (Jstr (setting_word v)) else Inl (Bad_value key))"

definition validate_payload :: "(string \<Rightarrow> pyfloat option) \<Rightarrow> json_object \<Rightarrow> fields \<Rightarrow> write_error + json_object" where
  "validate_payload parse_float payload known =
     (if payload = [] then Inl Empty_payload
      else case find (\<lambda>(k, v). map_of known k = None) payload of
             Some (k, v) \<Rightarrow> Inl (Unknown_key k)
           | None \<Rightarrow>
               all_ok (\<lambda>(k, v). case map_of known k of
                 None \<Rightarrow> Inl (Unknown_key k)
               | Some rule \<Rightarrow> ok_then (validate_value parse_float k v rule) (\<lambda>x. Inr (k, x))) payload)"

text \<open>The limits of an installation. Without a context the generic ones hold.\<close>

record validation_context =
  vc_system_max_total_power :: int
  vc_min_output_limit_max :: int
  vc_device_max_power :: "(string \<times> int) list"
  vc_fallback_device_max_power :: int
  vc_ac_role_unsupported :: "string list"

definition no_context :: validation_context where
  "no_context =
     \<lparr>vc_system_max_total_power = GENERIC_MAX_POWER_W, vc_min_output_limit_max = GENERIC_MAX_POWER_W,
      vc_device_max_power = [], vc_fallback_device_max_power = GENERIC_MAX_POWER_W, vc_ac_role_unsupported = []\<rparr>"

text \<open>\<open>{**fields, key: rule}\<close>.\<close>

definition with_field :: "fields \<Rightarrow> string \<Rightarrow> field_rule \<Rightarrow> fields" where
  "with_field known k rule = map (\<lambda>(k', r). (k', if k' = k then rule else r)) known"

definition system_fields :: "validation_context \<Rightarrow> fields" where
  "system_fields c =
     with_field (with_field SYSTEM_FIELDS ''max_total_power'' (Int_field 0 (max 0 (vc_system_max_total_power c))))
       ''min_output_limit'' (Int_field 0 (max 0 (vc_min_output_limit_max c)))"

definition device_max_power :: "validation_context \<Rightarrow> string \<Rightarrow> int" where
  "device_max_power c name =
     max 0 (case map_of (vc_device_max_power c) name of Some w \<Rightarrow> w | None \<Rightarrow> max 0 (vc_fallback_device_max_power c))"

definition device_fields :: "validation_context \<Rightarrow> string \<Rightarrow> fields" where
  "device_fields c name = with_field DEVICE_FIELDS ''max_power'' (Int_field 0 (device_max_power c name))"

definition validate_system_values :: "(string \<Rightarrow> pyfloat option) \<Rightarrow> validation_context \<Rightarrow> json_object \<Rightarrow> write_error + json_object" where
  "validate_system_values pf c payload = validate_payload pf payload (system_fields c)"

definition validate_section_values :: "(string \<Rightarrow> pyfloat option) \<Rightarrow> string \<Rightarrow> json_object \<Rightarrow> write_error + json_object" where
  "validate_section_values pf section payload =
     (case map_of SECTION_FIELDS section of
        None \<Rightarrow> Inl (Unsupported_scope section)
      | Some known \<Rightarrow> validate_payload pf payload known)"

definition back_to_ac_output :: "string \<Rightarrow> json \<Rightarrow> bool" where
  "back_to_ac_output key v \<longleftrightarrow>
     key = ''runtime_role'' \<and> (case v of Jstr s \<Rightarrow> word_of s = ''ac_output'' | _ \<Rightarrow> False)"

text \<open>
  A device the EMS cannot switch: what of a payload is refused. The code names the first in alphabetical
  order; the error here names one of them.
\<close>

definition refused_over_mqtt :: "json_object \<Rightarrow> string option" where
  "refused_over_mqtt payload =
     map_option fst (find (\<lambda>(k, v).
       map_of DEVICE_AC_FIELDS k \<noteq> None \<and> \<not> back_to_ac_output k v \<or>
       map_of DEVICE_SETTING_FIELDS k \<noteq> None \<and> \<not> is_unmanaged v) payload)"

definition validate_device_values :: "(string \<Rightarrow> pyfloat option) \<Rightarrow> validation_context \<Rightarrow> string \<Rightarrow> json_object \<Rightarrow> write_error + json_object" where
  "validate_device_values pf c name payload =
     (case (if name \<in> set (vc_ac_role_unsupported c) then refused_over_mqtt payload else None) of
        Some k \<Rightarrow> Inl (Not_over_mqtt k)
      | None \<Rightarrow> validate_payload pf payload (device_fields c name @ DEVICE_AC_FIELDS @ DEVICE_SETTING_FIELDS))"

definition validate_values :: "(string \<Rightarrow> pyfloat option) \<Rightarrow> validation_context \<Rightarrow> string \<Rightarrow> string \<Rightarrow> json_object \<Rightarrow> write_error + json_object" where
  "validate_values pf c scope device payload =
     (if scope = ''system'' then validate_system_values pf c payload
      else if scope = ''device'' then validate_device_values pf c device payload
      else validate_section_values pf scope payload)"

definition validate_command :: "(string \<Rightarrow> pyfloat option) \<Rightarrow> validation_context \<Rightarrow> string \<Rightarrow> string \<Rightarrow> string \<Rightarrow> json \<Rightarrow> write_error + json_object" where
  "validate_command pf c scope device action v =
     ok_then (command_values scope action v) (validate_values pf c scope device)"

section \<open>Writing\<close>

text \<open>How the write of the file goes: it is saved, the lock stays taken, or the saving fails (\<open>OSError\<close>).\<close>

datatype write_outcome = Saved | Lock_taken | Save_failed

text \<open>\<open>section.update(values)\<close>.\<close>

definition jupdate :: "json_object \<Rightarrow> json_object \<Rightarrow> json_object" where
  "jupdate ob values = fold (\<lambda>(k, v) ob. AList.update k v ob) values ob"

text \<open>
  \<open>RuntimeState.update_section\<close> and \<open>update_device\<close>: \<open>mem\<close> is the state in memory, \<open>disk\<close> what the re-read
  under the lock finds. The result is the section or the device entry as written.
\<close>

definition update_section ::
  "write_outcome \<Rightarrow> json_object \<Rightarrow> json_object \<Rightarrow> string \<Rightarrow> json_object \<Rightarrow> (write_error + json_object) \<times> json_object" where
  "update_section outcome mem disk name values =
     (if outcome = Lock_taken then (Inl State_busy, mem)
      else case (case map_of disk name of None \<Rightarrow> Jobj [] | Some s \<Rightarrow> s) of
             Jobj ob \<Rightarrow>
               let changed = jupdate ob values
               in (if outcome = Save_failed then Inl Save_error else Inr changed, AList.update name (Jobj changed) disk)
           | _ \<Rightarrow> (Inl (Not_an_object name), disk))"

definition update_device ::
  "write_outcome \<Rightarrow> json_object \<Rightarrow> json_object \<Rightarrow> string \<Rightarrow> json_object \<Rightarrow> (write_error + json_object) \<times> json_object" where
  "update_device outcome mem disk name values =
     (if outcome = Lock_taken then (Inl State_busy, mem)
      else case map_of disk ''devices'' of
             Some (Jobj devices) \<Rightarrow>
               (case map_of devices name of
                  None \<Rightarrow> (Inl (Unknown_device name), disk)
                | Some (Jobj ob) \<Rightarrow>
                    let changed = jupdate ob values
                    in (if outcome = Save_failed then Inl Save_error else Inr changed,
                        AList.update ''devices'' (Jobj (AList.update name (Jobj changed) devices)) disk)
                | Some _ \<Rightarrow> (Inl (Not_an_object name), disk))
           | _ \<Rightarrow> (Inl (Unknown_device name), disk))"

text \<open>The values of several commands, the later one winning on a key they share.\<close>

fun commands_payload :: "string \<Rightarrow> (string \<times> json) list \<Rightarrow> json_object \<Rightarrow> write_error + json_object" where
  "commands_payload scope [] payload = Inr payload"
| "commands_payload scope ((action, v) # cs) payload =
     ok_then (command_values scope action v) (\<lambda>vs. commands_payload scope cs (jupdate payload vs))"

definition run_commands ::
  "(string \<Rightarrow> pyfloat option) \<Rightarrow> validation_context \<Rightarrow> write_outcome \<Rightarrow> json_object \<Rightarrow> json_object \<Rightarrow> string \<Rightarrow> string \<Rightarrow>
   (string \<times> json) list \<Rightarrow> string \<Rightarrow> (write_error + json_object) \<times> json_object" where
  "run_commands pf c outcome mem disk scope device cs source =
     (case ok_then (commands_payload scope cs []) (validate_values pf c scope device) of
        Inl e \<Rightarrow> (Inl e, mem)
      | Inr vs \<Rightarrow>
          if scope = ''device''
          then update_device outcome mem disk device
                 (if map_of vs ''runtime_role'' \<noteq> None then jupdate vs [(''runtime_role_reason'', Jstr source)] else vs)
          else update_section outcome mem disk scope vs)"

section \<open>What is accepted\<close>

text \<open>A value as the runtime state may hold it for a field.\<close>

fun fits :: "field_rule \<Rightarrow> json \<Rightarrow> bool" where
  "fits Bool_field v = (v = Jbool True \<or> v = Jbool False)"
| "fits (Int_field lo hi) v = (case v of Jint n \<Rightarrow> lo \<le> n \<and> n \<le> hi | _ \<Rightarrow> False)"
| "fits (Float_field lo hi) v = (case v of Jfloat (Fin x) \<Rightarrow> lo \<le> x \<and> x \<le> hi | _ \<Rightarrow> False)"
| "fits (Enum_field words) v = (case v of Jstr s \<Rightarrow> s \<in> set words | _ \<Rightarrow> False)"
| "fits (Setting_field words) v = (v = Jnull \<or> (case v of Jstr s \<Rightarrow> s \<in> set words | _ \<Rightarrow> False))"

definition fields_of :: "validation_context \<Rightarrow> string \<Rightarrow> string \<Rightarrow> fields" where
  "fields_of c scope device =
     (if scope = ''system'' then system_fields c
      else if scope = ''device'' then device_fields c device @ DEVICE_AC_FIELDS @ DEVICE_SETTING_FIELDS
      else case map_of SECTION_FIELDS scope of Some known \<Rightarrow> known | None \<Rightarrow> [])"

lemma validate_value_fits: "validate_value pf k v rule = Inr x \<Longrightarrow> fits rule x"
  by (cases rule) (auto simp: validate_value_def split: json.splits if_splits)

lemma validate_payload_fits:
  assumes "validate_payload pf payload known = Inr vs"
  shows "map fst vs = map fst payload \<and> (\<forall>k x. (k, x) \<in> set vs \<longrightarrow> (\<exists>rule. map_of known k = Some rule \<and> fits rule x))"
proof -
  let ?f = "\<lambda>(k, v). case map_of known k of None \<Rightarrow> Inl (Unknown_key k)
    | Some rule \<Rightarrow> ok_then (validate_value pf k v rule) (\<lambda>x. Inr (k, x))"
  have ok: "all_ok ?f payload = Inr vs"
    using assms by (auto simp: validate_payload_def split: if_splits option.splits)
  have "map fst vs = map fst payload"
    using ok by (induction payload arbitrary: vs) (auto split: option.splits)
  moreover have "\<exists>rule. map_of known k = Some rule \<and> fits rule x" if kx: "(k, x) \<in> set vs" for k x
  proof -
    obtain k' v where "?f (k', v) = Inr (k, x)" using all_ok_mem [OF ok kx] by auto
    then show ?thesis using validate_value_fits by (auto split: option.splits)
  qed
  ultimately show ?thesis by blast
qed

lemma validate_values_fit:
  assumes "validate_values pf c scope device payload = Inr vs"
  shows "map fst vs = map fst payload \<and> (\<forall>k x. (k, x) \<in> set vs \<longrightarrow> (\<exists>rule. map_of (fields_of c scope device) k = Some rule \<and> fits rule x))"
proof -
  have "validate_payload pf payload (fields_of c scope device) = Inr vs"
    using assms by (auto simp: validate_values_def fields_of_def validate_system_values_def validate_device_values_def
        validate_section_values_def split: if_splits option.splits)
  then show ?thesis by (rule validate_payload_fits)
qed

lemma distinct_jupdate: "distinct (map fst ob) \<Longrightarrow> distinct (map fst (jupdate ob vs))"
  unfolding jupdate_def by (induction vs arbitrary: ob) (auto simp: AList.distinct_update)

lemma commands_payload_distinct:
  "commands_payload scope cs payload = Inr p \<Longrightarrow> distinct (map fst payload) \<Longrightarrow> distinct (map fst p)"
  by (induction scope cs payload arbitrary: p rule: commands_payload.induct) (auto intro: distinct_jupdate)

lemma map_of_jupdate: "distinct (map fst vs) \<Longrightarrow> map_of (jupdate ob vs) k = (map_of ob ++ map_of vs) k"
proof (induction vs arbitrary: ob)
  case (Cons x vs)
  obtain l v where x: "x = (l, v)" by (cases x)
  have "map_of (jupdate ob (x # vs)) k = (map_of (AList.update l v ob) ++ map_of vs) k"
    using Cons by (simp add: x jupdate_def)
  moreover have "map_of vs l = None" using Cons.prems by (simp add: x map_of_eq_None_iff)
  ultimately show ?case by (cases "k = l") (simp_all add: x update_conv' map_add_def split: option.split)
qed (simp add: jupdate_def)

section \<open>Properties of the write path\<close>


definition demo_runtime :: json_object where
  "demo_runtime = [(''system'', Jobj [(''enabled'', Jbool True), (''max_total_power'', Jint 1200)])]"

lemma demo_run: "run_commands (\<lambda>_. None) no_context Saved demo_runtime demo_runtime ''system'' [] [(''max-power'', Jint 800)] ''schedule'' =
  (Inr [(''enabled'', Jbool True), (''max_total_power'', Jint 800)],
   [(''system'', Jobj [(''enabled'', Jbool True), (''max_total_power'', Jint 800)])])"
  by code_simp


text \<open>
  An infinite number (JSON's \<open>1e999\<close>) given for the total power limit is not refused as a bad value: the
  conversion to a whole number raises \<open>OverflowError\<close>, which no writer's caller expects.
\<close>

lemma infinite_number_escapes_the_validators:
  "validate_system_values pf c [(''max_total_power'', Jfloat PosInf)] = Inl Number_overflow"
  by (simp add: validate_system_values_def validate_payload_def system_fields_def with_field_def SYSTEM_FIELDS_def
      validate_value_def int_value_def)

end
