(* ===== verification/Device_Settings.thy ===== *)
theory Device_Settings
  imports State_Reconciliation Runtime_Commands
begin

text \<open>
  \<open>ems/device_settings.py\<close>: light, fan, buzzer and battery heating, kept where the operator set them, with
  \<open>apply_device_settings\<close> of \<open>ems/controller.py\<close>.

  A report is the map of the setting properties it carries. The reconciler keeps one slot per device and
  setting; \<open>write\<close> is an argument of it, as in the code, which takes what it writes to, and answers
  with the truth of the result, or \<open>None\<close> for an exception. What is noted only to log it once
  (\<open>_noted\<close>, \<open>device_settings_failing\<close>) is left out, and so are the labels of the catalogue.

  Proved: what a cycle writes is set by the operator, offered by the device and differs from its report; a
  cycle leaves every setting it may send at its value, and no other moved; a value the device does not take
  goes out three times, then waits for an hour.
\<close>

section \<open>Settings and their values\<close>

definition SETTING_VALUES :: "(string \<times> (string \<times> properties) list) list" where
  "SETTING_VALUES =
     [(''light'', [(''on'', [(''lampSwitch'', 1)]), (''off'', [(''lampSwitch'', 0)])]),
      (''fan'', [(''auto'', [(''Fanmode'', 1), (''Fanspeed'', 0)]), (''1'', [(''Fanmode'', 1), (''Fanspeed'', 1)]),
                (''2'', [(''Fanmode'', 1), (''Fanspeed'', 2)]), (''off'', [(''Fanmode'', 0)])]),
      (''buzzer'', [(''on'', [(''buzzerSwitch'', 1)]), (''off'', [(''buzzerSwitch'', 0)])]),
      (''auto_heat'', [(''on'', [(''autoHeat'', 1)]), (''off'', [(''autoHeat'', 0)])])]"

definition setting_values :: "device_setting \<Rightarrow> (string \<times> properties) list" where
  "setting_values s = (case map_of SETTING_VALUES (ds_key s) of None \<Rightarrow> [] | Some vs \<Rightarrow> vs)"

definition value_names :: "string list \<Rightarrow> string \<times> properties \<Rightarrow> string list" where
  "value_names names v = foldl (\<lambda>ns n. if n \<in> set ns then ns else ns @ [n]) names (map fst (snd v))"

definition setting_names :: "device_setting \<Rightarrow> string list" where
  "setting_names s = foldl value_names [] (setting_values s)"

definition SETTING_PROPERTIES :: "string list" where
  "SETTING_PROPERTIES = concat (map setting_names SETTINGS)"

section \<open>Reports\<close>

type_synonym reported_settings = "string \<Rightarrow> int option"

text \<open>\<open>float(value)\<close> of a number no double holds raises.\<close>

fun whole_numbers :: "json_object \<Rightarrow> string list \<Rightarrow> write_error + properties" where
  "whole_numbers props [] = Inr []"
| "whole_numbers props (n # ns) =
     (case jget props n of
        Jint i \<Rightarrow> if 2 ^ 1024 - 2 ^ 970 \<le> \<bar>i\<bar> then Inl Number_overflow
                  else ok_then (whole_numbers props ns) (\<lambda>r. Inr ((n, i) # r))
      | Jfloat (Fin x) \<Rightarrow> if of_int (py_int x) = x then ok_then (whole_numbers props ns) (\<lambda>r. Inr ((n, py_int x) # r))
                          else whole_numbers props ns
      | _ \<Rightarrow> whole_numbers props ns)"

definition reported_properties :: "json_object option \<Rightarrow> write_error + reported_settings" where
  "reported_properties props =
     (case props of None \<Rightarrow> Inr Map.empty
      | Some ps \<Rightarrow> ok_then (whole_numbers ps SETTING_PROPERTIES) (\<lambda>r. Inr (map_of r)))"

definition shows_value :: "reported_settings \<Rightarrow> properties \<Rightarrow> bool" where
  "shows_value rep ps \<longleftrightarrow> list_all (\<lambda>(n, v). rep n = Some v) ps"

definition reported_word :: "device_setting \<Rightarrow> reported_settings \<Rightarrow> string option" where
  "reported_word s rep = map_option fst (find (\<lambda>(w, ps). shows_value rep ps) (setting_values s))"

definition changes_for :: "device_setting \<Rightarrow> string \<Rightarrow> reported_settings \<Rightarrow> properties option" where
  "changes_for s word rep =
     (case map_of (setting_values s) word of
        None \<Rightarrow> None
      | Some ps \<Rightarrow> if list_all (\<lambda>(n, v). rep n \<noteq> None) ps then Some (filter (\<lambda>(n, v). rep n \<noteq> Some v) ps) else None)"

section \<open>What the operator set\<close>

text \<open>\<open>str(stored).strip().lower()\<close>, of a float that is whole the text of its integer.\<close>

definition stored_word :: "json \<Rightarrow> string" where
  "stored_word v =
     (case v of Jfloat (Fin x) \<Rightarrow> if of_int (py_int x) = x then int_text (py_int x) else [] | _ \<Rightarrow> setting_word v)"

definition normalized_word :: "device_setting \<Rightarrow> json \<Rightarrow> string option \<times> bool" where
  "normalized_word s v =
     (if v = Jnull \<or> stored_word v = UNMANAGED then (None, True)
      else if stored_word v \<in> set (ds_words s) then (Some (stored_word v), True)
      else (None, False))"

text \<open>The entry of the device in the runtime state; none where there is no state, or it is not an object.\<close>

definition stored_settings :: "json_object option \<Rightarrow> json_object" where
  "stored_settings entry =
     (case entry of None \<Rightarrow> []
      | Some ob \<Rightarrow> filter (\<lambda>(k, v). v \<noteq> Jnull) (map (\<lambda>s. (ds_key s, jget ob (ds_key s))) SETTINGS))"

definition desired_words :: "json_object \<Rightarrow> (string \<times> string) list" where
  "desired_words kept =
     List.map_filter (\<lambda>(k, v).
       case find (\<lambda>s. ds_key s = k) SETTINGS of None \<Rightarrow> None
       | Some s \<Rightarrow> map_option (Pair k) (fst (normalized_word s v))) kept"

section \<open>What a device has\<close>

text \<open>Only the local API client resolves a model.\<close>

fun model_settings :: "transport_client \<Rightarrow> string list" where
  "model_settings (Local_api hc) = (case hc_profile hc of None \<Rightarrow> [] | Some p \<Rightarrow> device_settings p)"
| "model_settings (Mqtt_control _ _) = []"

definition offered_settings :: "transport_client \<Rightarrow> reported_settings \<Rightarrow> device_setting list" where
  "offered_settings tc rep =
     (if \<not> Charge_Supervision.supports_state_reconciliation tc then []
      else filter (\<lambda>s. ds_key s \<in> set (model_settings tc) \<and> list_all (\<lambda>n. rep n \<noteq> None) (setting_names s)) SETTINGS)"

record setting_view =
  vw_offered :: bool
  vw_reported :: "string option"
  vw_desired :: "string option"

definition settings_view ::
  "transport_client \<Rightarrow> reported_settings \<Rightarrow> (string \<times> string) list \<Rightarrow> (string \<times> setting_view) list" where
  "settings_view tc rep desired =
     List.map_filter (\<lambda>s.
       let offered = ds_key s \<in> ds_key ` set (offered_settings tc rep); wanted = map_of desired (ds_key s)
       in if \<not> offered \<and> wanted = None then None
          else Some (ds_key s, \<lparr>vw_offered = offered,
            vw_reported = (if offered then reported_word s rep else None), vw_desired = wanted\<rparr>)) SETTINGS"

section \<open>The reconciler\<close>

definition RESEND_SECONDS :: seconds where "RESEND_SECONDS = 30"

definition MAX_ATTEMPTS :: nat where "MAX_ATTEMPTS = 3"

definition HOLD_SECONDS :: seconds where "HOLD_SECONDS = 3600"

record sent_setting =
  st_word :: string
  st_attempts :: nat
  st_last :: seconds
  st_warned :: bool

type_synonym setting_slot = "string \<times> string"

record settings_reconciler =
  rs_sent :: "setting_slot \<Rightarrow> sent_setting option"
  rs_held :: "setting_slot \<Rightarrow> properties option"

definition new_settings_reconciler :: settings_reconciler where
  "new_settings_reconciler = \<lparr>rs_sent = Map.empty, rs_held = Map.empty\<rparr>"

definition forget_settings :: "string \<Rightarrow> settings_reconciler \<Rightarrow> settings_reconciler" where
  "forget_settings name r =
     r\<lparr>rs_sent := (\<lambda>slot. if fst slot = name then None else rs_sent r slot),
       rs_held := (\<lambda>slot. if fst slot = name then None else rs_held r slot)\<rparr>"

definition pop_slot :: "setting_slot \<Rightarrow> settings_reconciler \<Rightarrow> settings_reconciler" where
  "pop_slot slot r = r\<lparr>rs_sent := (rs_sent r)(slot := None), rs_held := (rs_held r)(slot := None)\<rparr>"

definition setting_due :: "setting_slot \<Rightarrow> string \<Rightarrow> seconds \<Rightarrow> settings_reconciler \<Rightarrow> settings_reconciler \<times> bool" where
  "setting_due slot word t r =
     (case rs_sent r slot of
        None \<Rightarrow> (r, True)
      | Some st \<Rightarrow>
          if st_word st \<noteq> word then (r, True)
          else if t - st_last st < RESEND_SECONDS then (r, False)
          else if st_attempts st < MAX_ATTEMPTS then (r, True)
          else if t - st_last st < HOLD_SECONDS
          then (r\<lparr>rs_sent := (rs_sent r)(slot \<mapsto> st\<lparr>st_warned := True\<rparr>)\<rparr>, False)
          else (r\<lparr>rs_sent := (rs_sent r)(slot \<mapsto> st\<lparr>st_warned := True, st_attempts := 0\<rparr>)\<rparr>, True))"

definition setting_count :: "setting_slot \<Rightarrow> string \<Rightarrow> seconds \<Rightarrow> settings_reconciler \<Rightarrow> settings_reconciler" where
  "setting_count slot word t r =
     (let fresh = \<lparr>st_word = word, st_attempts = 1, st_last = t, st_warned = False\<rparr>;
          st' = (case rs_sent r slot of None \<Rightarrow> fresh
                 | Some st \<Rightarrow> if st_word st \<noteq> word then fresh
                              else st\<lparr>st_attempts := st_attempts st + 1, st_last := t\<rparr>)
      in r\<lparr>rs_sent := (rs_sent r)(slot \<mapsto> st')\<rparr>)"

record setting_fields =
  sf_device :: string
  sf_setting :: string
  sf_value :: string

type_synonym 'd setting_writer = "properties \<Rightarrow> setting_fields \<Rightarrow> 'd \<Rightarrow> 'd \<times> bool option"

datatype setting_outcome = Went_on bool | Write_raised | Changes_missing

text \<open>One pass of the loop of \<open>reconcile\<close>; \<open>Went_on\<close> says whether the device answered a write.\<close>

definition reconcile_setting ::
  "string \<Rightarrow> transport_client \<Rightarrow> reported_settings \<Rightarrow> json_object \<Rightarrow> bool \<Rightarrow> seconds \<Rightarrow> 'd setting_writer \<Rightarrow>
   device_setting \<Rightarrow> settings_reconciler \<Rightarrow> 'd \<Rightarrow> settings_reconciler \<times> 'd \<times> setting_outcome" where
  "reconcile_setting name tc rep kept allowed t write s r d =
     (let slot = (name, ds_key s); offered = ds_key s \<in> ds_key ` set (offered_settings tc rep)
      in case fst (normalized_word s (jget kept (ds_key s))) of
           None \<Rightarrow> (pop_slot slot r, d, Went_on False)
         | Some word \<Rightarrow>
             if offered \<and> reported_word s rep = Some word then (pop_slot slot r, d, Went_on False)
             else if \<not> offered then (r, d, Went_on False)
             else let (r1, due) = setting_due slot word t r in
               if \<not> due then (r1, d, Went_on False)
               else case changes_for s word rep of
                      None \<Rightarrow> (r1, d, Changes_missing)
                    | Some changes \<Rightarrow>
                        if \<not> allowed then (r1\<lparr>rs_held := (rs_held r1)(slot \<mapsto> changes)\<rparr>, d, Went_on False)
                        else let r2 = setting_count slot word t (r1\<lparr>rs_held := (rs_held r1)(slot := None)\<rparr>);
                                 (d1, answer) = write changes
                                   \<lparr>sf_device = name, sf_setting = ds_key s, sf_value = word\<rparr> d
                             in (r2, d1, (case answer of None \<Rightarrow> Write_raised | Some b \<Rightarrow> Went_on b)))"

text \<open>An exception of a write ends the cycle; any other leaves \<open>reconcile\<close> without a count.\<close>

fun reconcile_each ::
  "(device_setting \<Rightarrow> settings_reconciler \<Rightarrow> 'd \<Rightarrow> settings_reconciler \<times> 'd \<times> setting_outcome) \<Rightarrow> device_setting list \<Rightarrow>
   settings_reconciler \<Rightarrow> 'd \<Rightarrow> settings_reconciler \<times> 'd \<times> nat option" where
  "reconcile_each pass [] r d = (r, d, Some 0)"
| "reconcile_each pass (s # ss) r d =
     (case pass s r d of
        (r1, d1, Went_on b) \<Rightarrow>
          (let (r2, d2, n) = reconcile_each pass ss r1 d1 in (r2, d2, map_option (\<lambda>k. if b then k + 1 else k) n))
      | (r1, d1, Write_raised) \<Rightarrow> (r1, d1, Some 0)
      | (r1, d1, Changes_missing) \<Rightarrow> (r1, d1, None))"

definition reconcile_settings ::
  "string \<Rightarrow> transport_client \<Rightarrow> reported_settings \<Rightarrow> json_object \<Rightarrow> bool \<Rightarrow> seconds \<Rightarrow> 'd setting_writer \<Rightarrow>
   settings_reconciler \<Rightarrow> 'd \<Rightarrow> settings_reconciler \<times> 'd \<times> nat option" where
  "reconcile_settings name tc rep kept allowed t write =
     reconcile_each (reconcile_setting name tc rep kept allowed t write) SETTINGS"

section \<open>In the controller\<close>

definition property_writer :: "write_env \<Rightarrow> managed_device setting_writer" where
  "property_writer e props f d =
     (let (d1, res) = write_device_properties e (py_join '','' (map fst props)) props d
      in (d1, map_option dispatch_accepted res))"

text \<open>\<open>state.setting_properties\<close>, whose values are whole numbers (\<open>reported_properties\<close>).\<close>

definition settings_reported :: "device_state \<Rightarrow> reported_settings" where
  "settings_reported s = (\<lambda>n. case map_of (setting_properties s) n of Some (PyInt i) \<Rightarrow> Some i | _ \<Rightarrow> None)"

definition apply_device_settings ::
  "sights \<Rightarrow> supervision \<Rightarrow> json_object option \<Rightarrow> device_state \<Rightarrow> managed_device \<Rightarrow> settings_reconciler \<Rightarrow>
   managed_device \<times> settings_reconciler" where
  "apply_device_settings sg sv entry s d r =
     (let kept = stored_settings entry in
      if kept = [] then (d, forget_settings (md_name d) r)
      else if \<not> Charge_Supervision.supports_state_reconciliation (md_transport d) then (d, r)
      else let (r1, d1, n) = reconcile_settings (md_name d) (md_transport d) (settings_reported s) kept
                 (device_state_writes_allowed sg sv (md_name d)) (sg_now sg)
                 (property_writer (sg_write sg (md_name d))) r d
           in (d1, r1))"

section \<open>The table of settings\<close>

text \<open>Two values of a setting that a report cannot show at once.\<close>

definition conflict :: "properties \<Rightarrow> properties \<Rightarrow> bool" where
  "conflict ps qs \<longleftrightarrow> list_ex (\<lambda>(n, v). case map_of qs n of None \<Rightarrow> False | Some v' \<Rightarrow> v' \<noteq> v) ps"

lemma settings_table:
  "distinct (map ds_key SETTINGS)" "distinct (concat (map setting_names SETTINGS))"
  "list_all (\<lambda>s. map fst (setting_values s) = ds_words s \<and> distinct (ds_words s)) SETTINGS"
  "list_all (\<lambda>s. list_all (\<lambda>(w, ps). distinct (map fst ps) \<and> list_all (\<lambda>n. n \<in> set (setting_names s)) (map fst ps))
     (setting_values s)) SETTINGS"
  "list_all (\<lambda>s. list_all (\<lambda>(w, ps). list_all (\<lambda>(w', qs). w = w' \<or> conflict ps qs) (setting_values s)) (setting_values s)) SETTINGS"
  by code_simp+

lemma setting_words: "s \<in> set SETTINGS \<Longrightarrow> map fst (setting_values s) = ds_words s \<and> distinct (ds_words s)"
  using settings_table(3) by (simp add: list_all_iff)

lemma setting_by_key: "s \<in> set SETTINGS \<Longrightarrow> s' \<in> set SETTINGS \<Longrightarrow> ds_key s' = ds_key s \<Longrightarrow> s' = s"
  using settings_table(1) by (auto simp: distinct_map inj_on_def)

lemma distinct_settings: "distinct SETTINGS"
  using settings_table(1) by (simp add: distinct_map)

lemma distinct_concat_disjoint:
  "distinct (concat (map f xs)) \<Longrightarrow> x \<in> set xs \<Longrightarrow> y \<in> set xs \<Longrightarrow> x \<noteq> y \<Longrightarrow> set (f x) \<inter> set (f y) = {}"
  by (induction xs) auto

lemma setting_names_disjoint:
  "s \<in> set SETTINGS \<Longrightarrow> s' \<in> set SETTINGS \<Longrightarrow> s' \<noteq> s \<Longrightarrow> set (setting_names s) \<inter> set (setting_names s') = {}"
  using distinct_concat_disjoint [OF settings_table(2)] by metis

lemma value_of_setting:
  assumes "s \<in> set SETTINGS" and "(w, ps) \<in> set (setting_values s)"
  shows "distinct (map fst ps) \<and> fst ` set ps \<subseteq> set (setting_names s)"
  using settings_table(4) assms by (fastforce simp: list_all_iff)

lemma conflict_not_both:
  assumes "conflict ps qs" and "shows_value rep ps" and "shows_value rep qs"
  shows False
proof -
  obtain n v v' where "(n, v) \<in> set ps" "map_of qs n = Some v'" "v' \<noteq> v"
    using assms(1) by (auto simp: conflict_def list_ex_iff split: option.splits)
  then show False using assms(2,3) map_of_SomeD by (fastforce simp: shows_value_def list_all_iff)
qed

lemma found_value:
  "find (\<lambda>(w, ps). shows_value rep ps) vs = Some (w, ps) \<Longrightarrow> (w, ps) \<in> set vs \<and> shows_value rep ps"
  by (induction vs) (auto split: if_splits)

lemma list_all_pair: "list_all (\<lambda>(a, b). P a b) xs \<Longrightarrow> (a, b) \<in> set xs \<Longrightarrow> P a b"
  by (auto simp: list_all_iff)

lemma values_conflict:
  assumes "s \<in> set SETTINGS" and "(w, ps) \<in> set (setting_values s)" and "(w', qs) \<in> set (setting_values s)" and "w \<noteq> w'"
  shows "conflict ps qs"
proof -
  have "list_all (\<lambda>(w, ps). list_all (\<lambda>(w', qs). w = w' \<or> conflict ps qs) (setting_values s)) (setting_values s)"
    using settings_table(5) assms(1) unfolding list_all_iff by (rule bspec)
  from list_all_pair [OF list_all_pair [OF this assms(2)] assms(3)] assms(4) show ?thesis by blast
qed

lemma reported_word_iff:
  assumes s: "s \<in> set SETTINGS" and w: "map_of (setting_values s) w = Some ps"
  shows "reported_word s rep = Some w \<longleftrightarrow> shows_value rep ps"
proof
  assume "shows_value rep ps"
  then have "find (\<lambda>(w, ps). shows_value rep ps) (setting_values s) \<noteq> None"
    using map_of_SomeD [OF w] by (auto simp: find_None_iff)
  then obtain w' qs where f: "find (\<lambda>(w, ps). shows_value rep ps) (setting_values s) = Some (w', qs)" by auto
  then have q: "(w', qs) \<in> set (setting_values s)" "shows_value rep qs" using found_value [OF f] by auto
  have "w = w' \<or> conflict ps qs" using values_conflict [OF s map_of_SomeD [OF w] q(1)] by blast
  then show "reported_word s rep = Some w"
    using f q(2) \<open>shows_value rep ps\<close> conflict_not_both by (auto simp: reported_word_def)
next
  assume "reported_word s rep = Some w"
  then obtain qs where "find (\<lambda>(w, ps). shows_value rep ps) (setting_values s) = Some (w, qs)"
    by (auto simp: reported_word_def)
  from found_value [OF this] have "(w, qs) \<in> set (setting_values s)" "shows_value rep qs" by auto
  moreover have "distinct (map fst (setting_values s))" using setting_words [OF s] by simp
  ultimately show "shows_value rep ps" using w by (simp add: map_of_is_SomeI)
qed

lemma reported_word_cong:
  assumes "s \<in> set SETTINGS" and "\<And>n. n \<in> set (setting_names s) \<Longrightarrow> v n = v' n"
  shows "reported_word s v = reported_word s v'"
proof -
  have "shows_value v ps = shows_value v' ps" if "(w, ps) \<in> set (setting_values s)" for w ps
    using value_of_setting [OF assms(1) that] assms(2) by (fastforce simp: shows_value_def list_all_iff)
  then have "find (\<lambda>(w, ps). shows_value v ps) (setting_values s) = find (\<lambda>(w, ps). shows_value v' ps) (setting_values s)"
    by (intro find_cong) auto
  then show ?thesis by (simp add: reported_word_def)
qed

lemma normalized_word_value:
  assumes "s \<in> set SETTINGS" and "fst (normalized_word s v) = Some w"
  shows "\<exists>ps. map_of (setting_values s) w = Some ps"
proof -
  have "w \<in> set (ds_words s)" using assms(2) by (auto simp: normalized_word_def split: if_splits)
  then have "w \<in> fst ` set (setting_values s)" using setting_words [OF assms(1)] by (metis list.set_map)
  then show ?thesis by (metis map_of_eq_None_iff not_None_eq)
qed

lemma offered_key:
  assumes "s \<in> set SETTINGS"
  shows "ds_key s \<in> ds_key ` set (offered_settings tc rep) \<longleftrightarrow> s \<in> set (offered_settings tc rep)"
  using assms setting_by_key by (force simp: offered_settings_def)

text \<open>An offered setting that is not at its value has something to write; \<open>Changes_missing\<close> does not occur.\<close>

lemma changes_of_offered:
  assumes s: "s \<in> set (offered_settings tc rep)" and w: "fst (normalized_word s v) = Some w"
  obtains ps where "map_of (setting_values s) w = Some ps"
    and "changes_for s w rep = Some (filter (\<lambda>(n, x). rep n \<noteq> Some x) ps)"
    and "filter (\<lambda>(n, x). rep n \<noteq> Some x) ps = [] \<longleftrightarrow> reported_word s rep = Some w"
proof -
  have mem: "s \<in> set SETTINGS" using s by (auto simp: offered_settings_def split: if_splits)
  from normalized_word_value [OF this w] obtain ps where ps: "map_of (setting_values s) w = Some ps" by blast
  have "rep (fst kv) \<noteq> None" if "kv \<in> set ps" for kv
    using value_of_setting [OF mem map_of_SomeD [OF ps]] s that by (auto simp: offered_settings_def list_all_iff split: if_splits)
  then have c: "changes_for s w rep = Some (filter (\<lambda>(n, x). rep n \<noteq> Some x) ps)"
    using ps by (auto simp: changes_for_def list_all_iff)
  have "filter (\<lambda>(n, x). rep n \<noteq> Some x) ps = [] \<longleftrightarrow> shows_value rep ps"
    by (auto simp: shows_value_def list_all_iff filter_empty_conv)
  then show ?thesis using that ps c reported_word_iff [OF mem ps] by simp
qed

text \<open>
  What one pass comes to for a setting of the table: it is let go, it waits, or it is sent. The slot of no other
  setting is touched.
\<close>

lemma reconcile_setting_cases:
  assumes "s \<in> set SETTINGS" and "reconcile_setting name tc rep kept allowed t write s r d = (r', d', res)"
  obtains (let_go) "r' = pop_slot (name, ds_key s) r" "d' = d" "res = Went_on False"
      "\<And>w. fst (normalized_word s (jget kept (ds_key s))) = Some w \<Longrightarrow>
         s \<in> set (offered_settings tc rep) \<and> reported_word s rep = Some w"
  | (not_offered) "r' = r" "d' = d" "res = Went_on False" "s \<notin> set (offered_settings tc rep)"
  | (waits) w r1 due held where "fst (normalized_word s (jget kept (ds_key s))) = Some w"
      "s \<in> set (offered_settings tc rep)" "reported_word s rep \<noteq> Some w" "setting_due (name, ds_key s) w t r = (r1, due)"
      "\<not> due \<or> \<not> allowed" "r' = r1\<lparr>rs_held := held\<rparr>" "d' = d" "res = Went_on False"
  | (sends) w r1 ps ans where "fst (normalized_word s (jget kept (ds_key s))) = Some w"
      "s \<in> set (offered_settings tc rep)" "reported_word s rep \<noteq> Some w" "setting_due (name, ds_key s) w t r = (r1, True)"
      "allowed" "map_of (setting_values s) w = Some ps" "filter (\<lambda>(n, x). rep n \<noteq> Some x) ps \<noteq> []"
      "r' = setting_count (name, ds_key s) w t (r1\<lparr>rs_held := (rs_held r1)((name, ds_key s) := None)\<rparr>)"
      "write (filter (\<lambda>(n, x). rep n \<noteq> Some x) ps) \<lparr>sf_device = name, sf_setting = ds_key s, sf_value = w\<rparr> d = (d', ans)"
      "res = (case ans of None \<Rightarrow> Write_raised | Some b \<Rightarrow> Went_on b)"
proof (cases "fst (normalized_word s (jget kept (ds_key s)))")
  case None
  then show ?thesis using assms(2) let_go by (auto simp: reconcile_setting_def Let_def)
next
  case (Some w)
  note step = assms(2) [unfolded reconcile_setting_def Let_def offered_key [OF assms(1)] Some option.case]
  show ?thesis
  proof (cases "s \<in> set (offered_settings tc rep) \<and> reported_word s rep \<noteq> Some w")
    case False
    then show ?thesis using step Some let_go not_offered by (auto split: if_splits)
  next
    case offered: True
    obtain r1 due where due: "setting_due (name, ds_key s) w t r = (r1, due)" by fastforce
    obtain ps where ps: "map_of (setting_values s) w = Some ps"
      "changes_for s w rep = Some (filter (\<lambda>(n, x). rep n \<noteq> Some x) ps)"
      "filter (\<lambda>(n, x). rep n \<noteq> Some x) ps \<noteq> []"
      using changes_of_offered [of s tc rep _ w] offered Some by metis
    note step = step [unfolded due ps(2) prod.case option.case]
    show ?thesis
    proof (cases "due \<and> allowed")
      case True
      then show ?thesis using step offered due sends [OF Some _ _ _ _ ps(1,3)] by (auto split: prod.splits)
    next
      case False
      have "r' = r1\<lparr>rs_held := rs_held r'\<rparr> \<and> d' = d \<and> res = Went_on False"
        using False step offered by (auto split: if_splits)
      then show ?thesis using False offered waits [OF Some _ _ due] by blast
    qed
  qed
qed

section \<open>What is shown as set is what is applied\<close>

lemma find_setting: "s \<in> set SETTINGS \<Longrightarrow> find (\<lambda>x. ds_key x = ds_key s) SETTINGS = Some s"
  by (auto simp: SETTINGS_def)

lemma map_of_present:
  assumes "distinct (map ds_key ss)" and "s \<in> set ss"
  shows "map_of (filter (\<lambda>(k, v). v \<noteq> Jnull) (map (\<lambda>s. (ds_key s, jget ob (ds_key s))) ss)) (ds_key s) =
    (if jget ob (ds_key s) = Jnull then None else Some (jget ob (ds_key s)))"
  using assms by (induction ss) (auto simp: map_of_eq_None_iff)

lemma stored_settings_jget: "s \<in> set SETTINGS \<Longrightarrow> jget (stored_settings (Some ob)) (ds_key s) = jget ob (ds_key s)"
  using map_of_present [OF settings_table(1), of s ob] by (simp add: stored_settings_def jget_def [of "filter _ _"])

lemma stored_settings_distinct: "distinct (map fst (stored_settings entry))"
proof (cases entry)
  case (Some ob)
  have "map fst (map (\<lambda>s. (ds_key s, jget ob (ds_key s))) SETTINGS) = map ds_key SETTINGS" by simp
  then show ?thesis using settings_table(1) Some by (simp only: stored_settings_def option.case distinct_map_filter)
qed (simp add: stored_settings_def)

lemma desired_words_lookup:
  assumes "s \<in> set SETTINGS" and "distinct (map fst kept)"
  shows "map_of (desired_words kept) (ds_key s) = (case map_of kept (ds_key s) of None \<Rightarrow> None | Some v \<Rightarrow> fst (normalized_word s v))"
  using assms(2)
proof (induction kept)
  case (Cons kv kept)
  obtain k v where kv: "kv = (k, v)" by fastforce
  have other: "map_of (desired_words kept) k = None" if "k = ds_key s"
    using Cons kv that by (force simp: map_of_eq_None_iff split: option.splits)
  show ?case
  proof (cases "k = ds_key s")
    case True
    then show ?thesis using kv find_setting [OF assms(1)] other
      by (simp add: desired_words_def List.map_filter_simps split: option.splits)
  next
    case False
    then show ?thesis using Cons kv
      by (auto simp: desired_words_def List.map_filter_simps split: option.splits)
  qed
qed (simp add: desired_words_def List.map_filter_simps)

lemma shown_desired_is_applied:
  assumes "s \<in> set SETTINGS"
  shows "map_of (desired_words (stored_settings entry)) (ds_key s) =
    fst (normalized_word s (jget (stored_settings entry) (ds_key s)))"
  using desired_words_lookup [OF assms stored_settings_distinct]
  by (simp add: jget_def normalized_word_def split: option.splits)

section \<open>Every pass of a cycle\<close>

lemma reconcile_each_keeps:
  assumes "\<And>s r d. s \<in> set ss \<Longrightarrow> P r d \<Longrightarrow> P (fst (pass s r d)) (fst (snd (pass s r d)))" and "P r d"
  shows "P (fst (reconcile_each pass ss r d)) (fst (snd (reconcile_each pass ss r d)))"
  using assms
proof (induction ss arbitrary: r d)
  case (Cons s ss)
  obtain r1 d1 res where one: "pass s r d = (r1, d1, res)" by (metis prod_cases3)
  have "P r1 d1" using Cons.prems(1) [of s r d] Cons.prems(2) one by simp
  then show ?case using Cons.IH [of r1 d1] Cons.prems(1) one by (cases res) (simp_all add: split_beta)
qed simp

lemma setting_due_other [simp]:
  "slot' \<noteq> slot \<Longrightarrow> rs_sent (fst (setting_due slot w t r)) slot' = rs_sent r slot'"
  by (auto simp: setting_due_def Let_def split: option.splits)

lemma setting_count_other [simp]: "slot' \<noteq> slot \<Longrightarrow> rs_sent (setting_count slot w t r) slot' = rs_sent r slot'"
  by (simp add: setting_count_def Let_def)

lemma reconcile_setting_other_slot:
  assumes "s \<in> set SETTINGS" and "reconcile_setting name tc rep kept allowed t write s r d = (r', d', res)"
    and "slot \<noteq> (name, ds_key s)"
  shows "rs_sent r' slot = rs_sent r slot"
  using assms(1,2)
proof (cases rule: reconcile_setting_cases)
  case (waits w r1 due held)
  then show ?thesis using setting_due_other [OF assms(3), of w t r] by simp
next
  case (sends w r1 ps ans)
  then show ?thesis using setting_due_other [OF assms(3), of w t r] assms(3) by simp
qed (use assms(3) in \<open>auto simp: pop_slot_def\<close>)

section \<open>Only what is set, offered and different is written\<close>

definition setting_over :: "transport_client \<Rightarrow> reported_settings \<Rightarrow> json_object \<Rightarrow> string \<times> int \<Rightarrow> bool" where
  "setting_over tc rep kept kv \<longleftrightarrow>
     list_ex (\<lambda>s. case fst (normalized_word s (jget kept (ds_key s))) of None \<Rightarrow> False
       | Some w \<Rightarrow> (case map_of (setting_values s) w of None \<Rightarrow> False
                    | Some ps \<Rightarrow> kv \<in> set ps \<and> rep (fst kv) \<noteq> None \<and> rep (fst kv) \<noteq> Some (snd kv))) (offered_settings tc rep)"

lemma reported_of_offered:
  assumes "s \<in> set (offered_settings tc rep)" and "map_of (setting_values s) w = Some ps" and "kv \<in> set ps"
  shows "rep (fst kv) \<noteq> None"
proof -
  have "s \<in> set SETTINGS" "list_all (\<lambda>n. rep n \<noteq> None) (setting_names s)"
    using assms(1) by (auto simp: offered_settings_def split: if_splits)
  then show ?thesis
    using value_of_setting [OF _ map_of_SomeD [OF assms(2)]] assms(3) by (auto simp: list_all_iff image_subset_iff)
qed

lemma setting_over_changes:
  assumes "s \<in> set (offered_settings tc rep)" and "fst (normalized_word s (jget kept (ds_key s))) = Some w"
    and "map_of (setting_values s) w = Some ps"
  shows "list_all (setting_over tc rep kept) (filter (\<lambda>(n, x). rep n \<noteq> Some x) ps)"
  using assms reported_of_offered [OF assms(1,3)]
  by (auto simp: list_all_iff setting_over_def list_ex_iff intro!: bexI [of _ s])

lemma state_written_same:
  "state_written sg sv ok d d' \<Longrightarrow> md_name d' = md_name d \<and>
     Charge_Supervision.supports_state_reconciliation (md_transport d') = Charge_Supervision.supports_state_reconciliation (md_transport d)"
  by (cases "md_transport d") (auto simp: state_written_def)

text \<open>
  Of the settings a device gets, over the local API only and with control and its gates on, only properties
  that it offers, that belong to the value the operator set, and that its report shows at another value.
\<close>

lemma device_settings_written:
  "state_written sg sv (setting_over (md_transport d) (settings_reported s) (stored_settings entry)) d
     (fst (apply_device_settings sg sv entry s d r))"
proof -
  let ?tc = "md_transport d" and ?rep = "settings_reported s" and ?kept = "stored_settings entry" and ?e = "sg_write sg (md_name d)"
  let ?ok = "setting_over ?tc ?rep ?kept" and ?al = "device_state_writes_allowed sg sv (md_name d)"
  let ?pass = "reconcile_setting (md_name d) ?tc ?rep ?kept ?al (sg_now sg) (property_writer ?e)"
  have "state_written sg sv ?ok d (fst (snd (reconcile_each ?pass SETTINGS r d)))"
    if sup: "Charge_Supervision.supports_state_reconciliation ?tc"
  proof (rule reconcile_each_keeps [where P = "\<lambda>r d'. state_written sg sv ?ok d d'"])
    fix s r1 d1
    assume s: "s \<in> set SETTINGS" and d1: "state_written sg sv ?ok d d1"
    obtain r' d' res where one: "?pass s r1 d1 = (r', d', res)" by (metis prod_cases3)
    from s one show "state_written sg sv ?ok d (fst (snd (?pass s r1 d1)))"
    proof (cases rule: reconcile_setting_cases)
      case (sends w r2 ps ans)
      have "state_written sg sv ?ok d1 d'"
        using sends state_written_same [OF d1] sup setting_over_changes [OF sends(2,1,6)]
          write_device_properties_written [of d1 sg sv _ ?ok ?e]
        by (auto simp: property_writer_def split_beta)
      then show ?thesis using state_written_trans [OF d1] one by simp
    qed (use one d1 in simp_all)
  qed simp
  then show ?thesis by (simp add: apply_device_settings_def Let_def split_beta reconcile_settings_def)
qed

section \<open>A cycle brings the settings about\<close>

text \<open>A device that takes what is written to it and shows it.\<close>

definition take_properties :: "reported_settings setting_writer" where
  "take_properties props f rep = (rep ++ map_of props, Some True)"

text \<open>What a setting shows after a cycle: its value when it is offered and may be sent, else what it showed.\<close>

definition settled_word ::
  "string \<Rightarrow> transport_client \<Rightarrow> reported_settings \<Rightarrow> json_object \<Rightarrow> seconds \<Rightarrow> settings_reconciler \<Rightarrow> device_setting \<Rightarrow> string option" where
  "settled_word name tc rep kept t r s =
     (case fst (normalized_word s (jget kept (ds_key s))) of
        None \<Rightarrow> reported_word s rep
      | Some w \<Rightarrow> if s \<in> set (offered_settings tc rep) \<and> snd (setting_due (name, ds_key s) w t r) then Some w
                  else reported_word s rep)"

lemma taken_changes_show:
  assumes "distinct (map fst ps)" and "\<And>n. n \<in> fst ` set ps \<Longrightarrow> v n = rep n"
  shows "shows_value (v ++ map_of (filter (\<lambda>(n, x). rep n \<noteq> Some x) ps)) ps"
  unfolding shows_value_def list_all_iff
proof clarify
  fix n x
  assume mem: "(n, x) \<in> set ps"
  let ?m = "map_of (filter (\<lambda>(n, x). rep n \<noteq> Some x) ps)"
  have dist: "distinct (map fst (filter (\<lambda>(n, x). rep n \<noteq> Some x) ps))"
    using assms(1) by (rule distinct_map_filter)
  show "(v ++ ?m) n = Some x"
  proof (cases "rep n = Some x")
    case True
    have "?m n = None"
      using assms(1) mem True by (auto simp: map_of_eq_None_iff) (metis eq_key_imp_eq_value)
    then show ?thesis using True assms(2) mem by (force simp: map_add_def)
  next
    case False
    then have "?m n = Some x" using mem dist by (auto intro: map_of_is_SomeI)
    then show ?thesis by simp
  qed
qed

lemma taking_pass:
  assumes s: "s \<in> set SETTINGS" and one: "reconcile_setting name tc rep kept True t take_properties s r v = (r', v', res)"
    and v: "\<And>n. n \<in> set (setting_names s) \<Longrightarrow> v n = rep n"
  shows "reported_word s v' = settled_word name tc rep kept t r s" and "\<exists>b. res = Went_on b"
    and "n \<notin> set (setting_names s) \<Longrightarrow> v' n = v n"
proof -
  have same: "reported_word s v = reported_word s rep" using reported_word_cong [OF s v] by simp
  from s one have "reported_word s v' = settled_word name tc rep kept t r s \<and> (\<exists>b. res = Went_on b) \<and>
      (n \<notin> set (setting_names s) \<longrightarrow> v' n = v n)"
  proof (cases rule: reconcile_setting_cases)
    case let_go
    then show ?thesis using same by (auto simp: settled_word_def split: option.splits)
  next
    case (sends w r1 ps ans)
    note val = value_of_setting [OF s map_of_SomeD [OF sends(6)]]
    have v': "v' = v ++ map_of (filter (\<lambda>(n, x). rep n \<noteq> Some x) ps)" "ans = Some True"
      using sends(9) by (auto simp: take_properties_def)
    have "reported_word s v' = Some w"
      unfolding v' reported_word_iff [OF s sends(6)] using val v by (intro taken_changes_show) auto
    moreover have "v' n = v n" if "n \<notin> set (setting_names s)"
    proof -
      have "map_of (filter (\<lambda>(n, x). rep n \<noteq> Some x) ps) n = None" using that val by (auto simp: map_of_eq_None_iff)
      then show ?thesis unfolding v' by (simp add: map_add_def)
    qed
    ultimately show ?thesis using sends v'(2) by (auto simp: settled_word_def)
  qed (use same in \<open>auto simp: settled_word_def split: option.splits\<close>)
  then show "reported_word s v' = settled_word name tc rep kept t r s" and "\<exists>b. res = Went_on b"
    and "n \<notin> set (setting_names s) \<Longrightarrow> v' n = v n" by blast+
qed

lemma setting_due_cong:
  "rs_sent r slot = rs_sent r' slot \<Longrightarrow> snd (setting_due slot w t r) = snd (setting_due slot w t r')"
  by (simp add: setting_due_def Let_def split: option.splits)

lemma settled_word_cong:
  assumes "rs_sent r (name, ds_key s) = rs_sent r' (name, ds_key s)"
  shows "settled_word name tc rep kept t r s = settled_word name tc rep kept t r' s"
  unfolding settled_word_def setting_due_cong [OF assms] ..

lemma taking_cycle:
  assumes "distinct ss" and "set ss \<subseteq> set SETTINGS"
    and "reconcile_each (reconcile_setting name tc rep kept True t take_properties) ss r v = (r', v', k)"
    and "\<And>s n. s \<in> set ss \<Longrightarrow> n \<in> set (setting_names s) \<Longrightarrow> v n = rep n"
  shows "(\<forall>s \<in> set ss. reported_word s v' = settled_word name tc rep kept t r s) \<and>
    (\<forall>n. (\<forall>s \<in> set ss. n \<notin> set (setting_names s)) \<longrightarrow> v' n = v n)"
  using assms
proof (induction ss arbitrary: r v k)
  case (Cons s ss)
  let ?pass = "reconcile_setting name tc rep kept True t take_properties"
  obtain r1 v1 res where one: "?pass s r v = (r1, v1, res)" by (metis prod_cases3)
  have s: "s \<in> set SETTINGS" using Cons.prems(2) by simp
  have shown: "v n = rep n" if "n \<in> set (setting_names s)" for n using Cons.prems(4) [of s n] that by simp
  note pass = taking_pass [OF s one shown]
  obtain k' where rest: "reconcile_each ?pass ss r1 v1 = (r', v', k')"
    using Cons.prems(3) one pass(2) by (auto split: prod.splits)
  have other: "n \<notin> set (setting_names s)" if "s' \<in> set ss" "n \<in> set (setting_names s')" for s' n
    using setting_names_disjoint [OF s, of s'] Cons.prems(1,2) that by auto
  have IH: "(\<forall>s \<in> set ss. reported_word s v' = settled_word name tc rep kept t r1 s) \<and>
      (\<forall>n. (\<forall>s \<in> set ss. n \<notin> set (setting_names s)) \<longrightarrow> v' n = v1 n)"
  proof (rule Cons.IH [OF _ _ rest])
    fix s' n
    assume s': "s' \<in> set ss" and n: "n \<in> set (setting_names s')"
    have "v1 n = v n" using pass(3) other [OF s' n] by simp
    then show "v1 n = rep n" using Cons.prems(4) [of s' n] s' n by simp
  qed (use Cons.prems(1,2) in simp_all)
  have "reported_word s' v' = settled_word name tc rep kept t r s'" if s': "s' \<in> set ss" for s'
  proof -
    have "ds_key s' \<noteq> ds_key s" using setting_by_key [OF s, of s'] s' Cons.prems(1,2) by auto
    then have "rs_sent r1 (name, ds_key s') = rs_sent r (name, ds_key s')"
      using reconcile_setting_other_slot [OF s one] by simp
    then show ?thesis using IH s' settled_word_cong by metis
  qed
  moreover have "reported_word s v' = reported_word s v1"
    using IH other by (intro reported_word_cong [OF s]) blast
  ultimately show ?case using pass(1,3) IH by simp
qed simp

text \<open>
  C25. A cycle brings the settings about. On a device that takes what is written to it, with writing allowed,
  every setting the operator set, the device offers and the reconciler may send shows the operator's value after
  one cycle, whichever values it and the others showed before; every other setting shows what it showed, and
  no property that is not a setting's changes.
\<close>

theorem cycle_brings_settings_about:
  assumes "reconcile_settings name tc rep kept True t take_properties r rep = (r', rep', written)"
  shows "(\<forall>s \<in> set SETTINGS. reported_word s rep' = settled_word name tc rep kept t r s) \<and>
    (\<forall>n. n \<notin> set SETTING_PROPERTIES \<longrightarrow> rep' n = rep n)"
  using taking_cycle [OF distinct_settings subset_refl assms [unfolded reconcile_settings_def]]
  by (simp add: SETTING_PROPERTIES_def)

section \<open>What a device does not take\<close>

text \<open>A cycle of one device; the log keeps the time of every write made.\<close>

record 'd settings_event =
  ev_elapsed :: seconds
  ev_name :: string
  ev_transport :: transport_client
  ev_reported :: reported_settings
  ev_kept :: json_object
  ev_allowed :: bool
  ev_write :: "'d setting_writer"

record 'd settings_world =
  sw_clock :: seconds
  sw_reconciler :: settings_reconciler
  sw_log :: "(seconds \<times> setting_fields) list"
  sw_device :: 'd

type_synonym 'd logged = "(seconds \<times> setting_fields) list \<times> 'd"

definition logged_writer :: "seconds \<Rightarrow> 'd setting_writer \<Rightarrow> 'd logged setting_writer" where
  "logged_writer t write props f x =
     (let (d1, answer) = write props f (snd x) in ((fst x @ [(t, f)], d1), answer))"

text \<open>\<open>apply_device_settings\<close> with the write as an argument.\<close>

definition settings_machine :: "'d settings_world \<Rightarrow> 'd settings_event \<Rightarrow> 'd settings_world" where
  "settings_machine w e =
     (let t = sw_clock w + ev_elapsed e; w1 = w\<lparr>sw_clock := t\<rparr> in
      if ev_kept e = [] then w1\<lparr>sw_reconciler := forget_settings (ev_name e) (sw_reconciler w)\<rparr>
      else if \<not> Charge_Supervision.supports_state_reconciliation (ev_transport e) then w1
      else let (r1, x, n) = reconcile_settings (ev_name e) (ev_transport e) (ev_reported e) (ev_kept e) (ev_allowed e) t
                 (logged_writer t (ev_write e)) (sw_reconciler w) (sw_log w, sw_device w)
           in w1\<lparr>sw_reconciler := r1, sw_log := fst x, sw_device := snd x\<rparr>)"

text \<open>A cycle in which the operator wants the setting at \<open>word\<close> and the device does not show it there.\<close>

definition unshown_at :: "string \<Rightarrow> device_setting \<Rightarrow> string \<Rightarrow> 'd settings_event \<Rightarrow> bool" where
  "unshown_at name s word e \<longleftrightarrow> 0 \<le> ev_elapsed e \<and>
     (ev_name e = name \<longrightarrow> fst (normalized_word s (jget (ev_kept e) (ds_key s))) = Some word \<and>
        \<not> (s \<in> set (offered_settings (ev_transport e) (ev_reported e)) \<and> reported_word s (ev_reported e) = Some word))"

definition slot_sends :: "setting_slot \<Rightarrow> (seconds \<times> setting_fields) list \<Rightarrow> seconds list" where
  "slot_sends slot sent = map fst (filter (\<lambda>(t, f). (sf_device f, sf_setting f) = slot) sent)"

text \<open>Two sends after each other, with the attempts counted at each.\<close>

definition paced :: "seconds \<times> nat \<Rightarrow> seconds \<times> nat \<Rightarrow> bool" where
  "paced x y \<longleftrightarrow> (snd x < MAX_ATTEMPTS \<and> snd y = snd x + 1 \<and> fst x + RESEND_SECONDS \<le> fst y) \<or>
     (snd y = 1 \<and> fst x + HOLD_SECONDS \<le> fst y)"

text \<open>
  What the slot says of the sends so far: the word, the time of the last and its count, or no count once the
  hold has passed.
\<close>

definition slot_tells :: "string \<Rightarrow> seconds \<Rightarrow> sent_setting option \<Rightarrow> (seconds \<times> nat) list \<Rightarrow> bool" where
  "slot_tells word t sent ps \<longleftrightarrow> successively paced ps \<and> list_all (\<lambda>p. 1 \<le> snd p) ps \<and>
     (ps = [] \<or> (\<exists>st. sent = Some st \<and> st_word st = word \<and> st_last st = fst (last ps) \<and> st_last st \<le> t \<and>
        (st_attempts st = snd (last ps) \<or> st_attempts st = 0 \<and> st_last st + HOLD_SECONDS \<le> t)))"

definition told :: "string \<Rightarrow> device_setting \<Rightarrow> string \<Rightarrow> seconds \<Rightarrow> settings_reconciler \<Rightarrow> 'd logged \<Rightarrow> bool" where
  "told name s word t r x \<longleftrightarrow>
     (\<exists>ps. map fst ps = slot_sends (name, ds_key s) (fst x) \<and> slot_tells word t (rs_sent r (name, ds_key s)) ps)"

lemma slot_tells_later: "slot_tells word t sent ps \<Longrightarrow> t \<le> t' \<Longrightarrow> slot_tells word t' sent ps"
  by (auto simp: slot_tells_def)

lemma slot_tells_due:
  assumes "slot_tells word t (rs_sent r slot) ps" and "setting_due slot word t r = (r1, due)"
  shows "slot_tells word t (rs_sent r1 slot) ps"
proof (cases "rs_sent r slot")
  case (Some st)
  then show ?thesis using assms
    by (auto simp: slot_tells_def setting_due_def Let_def RESEND_SECONDS_def split: if_splits)
qed (use assms in \<open>auto simp: setting_due_def\<close>)

text \<open>A send that is due keeps the pace.\<close>

lemma slot_tells_send:
  assumes tells: "slot_tells word t (rs_sent r slot) ps" and due: "setting_due slot word t r = (r1, True)"
  shows "\<exists>a. slot_tells word t (rs_sent (setting_count slot word t (r1\<lparr>rs_held := h\<rparr>)) slot) (ps @ [(t, a)])"
proof (cases "ps = []")
  case True
  then show ?thesis
    by (auto simp: slot_tells_def setting_count_def Let_def split: option.splits)
next
  case False
  with tells obtain st where st: "rs_sent r slot = Some st" "st_word st = word" "st_last st = fst (last ps)"
    "st_attempts st = snd (last ps) \<or> st_attempts st = 0 \<and> st_last st + HOLD_SECONDS \<le> t"
    by (auto simp: slot_tells_def)
  have ps: "successively paced ps" "list_all (\<lambda>p. 1 \<le> snd p) ps" using tells by (auto simp: slot_tells_def)
  let ?a = "if st_attempts st < MAX_ATTEMPTS then st_attempts st + 1 else 1"
  have "paced (last ps) (t, ?a)"
    using due st by (auto simp: setting_due_def Let_def paced_def split: if_splits)
  then have "successively paced (ps @ [(t, ?a)])" using ps False by (simp add: successively_append_iff)
  moreover have "rs_sent (setting_count slot word t (r1\<lparr>rs_held := h\<rparr>)) slot =
      Some ((the (rs_sent r1 slot))\<lparr>st_attempts := ?a, st_last := t\<rparr>)" "st_word (the (rs_sent r1 slot)) = word"
    using due st(1,2) by (auto simp: setting_due_def setting_count_def Let_def split: if_splits)
  ultimately have "slot_tells word t (rs_sent (setting_count slot word t (r1\<lparr>rs_held := h\<rparr>)) slot) (ps @ [(t, ?a)])"
    using ps(2) by (auto simp: slot_tells_def)
  then show ?thesis ..
qed

lemma slot_sends_snoc [simp]:
  "slot_sends slot (sent @ [(t, f)]) = slot_sends slot sent @ (if (sf_device f, sf_setting f) = slot then [t] else [])"
  by (simp add: slot_sends_def)

lemma logged_write:
  "logged_writer t write props f x = (x', ans) \<Longrightarrow> fst x' = fst x @ [(t, f)]"
  by (auto simp: logged_writer_def split: prod.splits)

lemma pass_told:
  assumes s0: "s0 \<in> set SETTINGS" and s: "s \<in> set SETTINGS" and told: "told name0 s0 word t r x"
    and unshown: "name = name0 \<Longrightarrow> fst (normalized_word s0 (jget kept (ds_key s0))) = Some word \<and>
      \<not> (s0 \<in> set (offered_settings tc rep) \<and> reported_word s0 rep = Some word)"
    and one: "reconcile_setting name tc rep kept allowed t (logged_writer t write) s r x = (r', x', res)"
  shows "told name0 s0 word t r' x'"
proof (cases "(name0, ds_key s0) = (name, ds_key s)")
  case False
  have "rs_sent r' (name0, ds_key s0) = rs_sent r (name0, ds_key s0)"
    using reconcile_setting_other_slot [OF s one False] .
  moreover have "slot_sends (name0, ds_key s0) (fst x') = slot_sends (name0, ds_key s0) (fst x)"
    using s one
  proof (cases rule: reconcile_setting_cases)
    case (sends w r1 ps ans)
    then show ?thesis using logged_write [OF sends(9)] False by auto
  qed simp_all
  ultimately show ?thesis using told by (simp add: told_def)
next
  case True
  then have s: "s = s0" and name: "name0 = name" using setting_by_key [OF s0 s] by auto
  from told obtain ps where ps: "map fst ps = slot_sends (name, ds_key s0) (fst x)"
    "slot_tells word t (rs_sent r (name, ds_key s0)) ps" unfolding told_def name by blast
  note unshown = unshown [OF name [symmetric]]
  from s0 one [unfolded s] show ?thesis
  proof (cases rule: reconcile_setting_cases)
    case let_go
    then show ?thesis using unshown by auto
  next
    case not_offered
    then show ?thesis using told by simp
  next
    case (waits w r1 due held)
    then have "slot_tells word t (rs_sent r1 (name, ds_key s0)) ps" using slot_tells_due [OF ps(2)] unshown by auto
    then show ?thesis using ps(1) waits by (auto simp: told_def name)
  next
    case (sends w r1 qs ans)
    then have w: "w = word" using unshown by simp
    from slot_tells_send [OF ps(2) sends(4) [unfolded w]] obtain a where
      "slot_tells word t (rs_sent r' (name, ds_key s0)) (ps @ [(t, a)])" using sends(8) w by blast
    moreover have "map fst (ps @ [(t, a)]) = slot_sends (name, ds_key s0) (fst x')"
      using ps(1) logged_write [OF sends(9)] by simp
    ultimately show ?thesis unfolding told_def name by blast
  qed
qed

lemma told_later: "told name s word t r x \<Longrightarrow> t \<le> t' \<Longrightarrow> told name s word t' r x"
  unfolding told_def using slot_tells_later by blast

lemma told_forget: "told name s word t r x \<Longrightarrow> name' \<noteq> name \<Longrightarrow> told name s word t (forget_settings name' r) x"
  by (simp add: told_def forget_settings_def)

definition world_told :: "string \<Rightarrow> device_setting \<Rightarrow> string \<Rightarrow> 'd settings_world \<Rightarrow> bool" where
  "world_told name s word w \<longleftrightarrow> told name s word (sw_clock w) (sw_reconciler w) (sw_log w, sw_device w)"

lemma machine_told:
  fixes w :: "'d settings_world"
  assumes s: "s \<in> set SETTINGS" and w: "world_told name s word w" and e: "unshown_at name s word e"
  shows "world_told name s word (settings_machine w e)"
proof -
  let ?t = "sw_clock w + ev_elapsed e" and ?x = "(sw_log w, sw_device w)"
  have told: "told name s word ?t (sw_reconciler w) ?x"
    using w e told_later by (fastforce simp: world_told_def unshown_at_def)
  show ?thesis
  proof (cases "ev_kept e = [] \<or> \<not> Charge_Supervision.supports_state_reconciliation (ev_transport e)")
    case True
    have "ev_name e \<noteq> name" if "ev_kept e = []"
      using e that by (auto simp: unshown_at_def normalized_word_def jget_def)
    then show ?thesis using True told told_forget by (auto simp: settings_machine_def Let_def world_told_def)
  next
    case False
    let ?pass = "reconcile_setting (ev_name e) (ev_transport e) (ev_reported e) (ev_kept e) (ev_allowed e) ?t
      (logged_writer ?t (ev_write e))"
    have "told name s word ?t (fst (reconcile_each ?pass SETTINGS (sw_reconciler w) ?x))
      (fst (snd (reconcile_each ?pass SETTINGS (sw_reconciler w) ?x)))"
    proof (rule reconcile_each_keeps [where P = "\<lambda>r x. told name s word ?t r x"])
      fix s' r and x :: "'d logged"
      assume s': "s' \<in> set SETTINGS" and x: "told name s word ?t r x"
      obtain r' x' res where "?pass s' r x = (r', x', res)" by (metis prod_cases3)
      then show "told name s word ?t (fst (?pass s' r x)) (fst (snd (?pass s' r x)))"
        using pass_told [OF s s' x _ \<open>?pass s' r x = _\<close>] e by (simp add: unshown_at_def)
    qed (rule told)
    then show ?thesis
      using False by (simp add: settings_machine_def Let_def world_told_def reconcile_settings_def split_beta)
  qed
qed

text \<open>The condition on the setting is part of what a cycle has to be like, so a setting outside the table excludes it.\<close>

interpretation unshown: stepwise_invariant settings_machine
  "\<lambda>e. s \<in> set SETTINGS \<and> unshown_at name s word e" "world_told name s word" for name s word
  by unfold_locales (use machine_told in blast)

lemma paced_apart:
  assumes "successively paced ps" and "list_all (\<lambda>p. 1 \<le> snd p) ps" and "i + 3 < length ps"
  shows "fst (ps ! i) + HOLD_SECONDS + 2 * RESEND_SECONDS \<le> fst (ps ! (i + 3))"
proof -
  have p: "paced (ps ! i) (ps ! (i + 1))" "paced (ps ! (i + 1)) (ps ! (i + 2))" "paced (ps ! (i + 2)) (ps ! (i + 3))"
    using assms successively_nth [of paced ps i] successively_nth [of paced ps "i + 1"] successively_nth [of paced ps "i + 2"]
    by (simp_all add: eval_nat_numeral)
  have "1 \<le> snd (ps ! i)" using assms(2,3) by (simp add: list_all_length)
  then show ?thesis using p unfolding paced_def MAX_ATTEMPTS_def HOLD_SECONDS_def RESEND_SECONDS_def by (elim disjE conjE) linarith+
qed

text \<open>
  C24. A value the device does not take is not written over and over: whatever the cycles do with other devices and
  settings, whatever the writes answer and however writing is allowed and forbidden in between, while the
  operator leaves a setting at one value and the device does not show it, two writes of it are at least 30 seconds
  apart, and any four in a row take an hour and a minute at least.
\<close>

theorem unshown_setting_is_sent_rarely:
  assumes "s \<in> set SETTINGS" and "list_all (unshown_at name s word) es" and "sw_log w = []"
    and "ts = slot_sends (name, ds_key s) (sw_log (run_steps settings_machine w es))"
  shows "(\<forall>i. i + 1 < length ts \<longrightarrow> ts ! i + 30 \<le> ts ! (i + 1)) \<and> (\<forall>i. i + 3 < length ts \<longrightarrow> ts ! i + 3660 \<le> ts ! (i + 3))"
proof -
  have "world_told name s word w"
    using assms(3) by (auto simp: world_told_def told_def slot_sends_def slot_tells_def)
  then have "world_told name s word (run_steps settings_machine w es)"
    using unshown.run_inv [of name s word w es] assms(1,2) by (simp add: list_all_iff)
  then obtain ps where ps: "map fst ps = ts" "successively paced ps" "list_all (\<lambda>p. 1 \<le> snd p) ps"
    unfolding assms(4) world_told_def told_def slot_tells_def by auto
  have "fst (ps ! i) + 30 \<le> fst (ps ! (i + 1))" if "i + 1 < length ps" for i
    using successively_nth [OF ps(2), of i] that by (auto simp: paced_def RESEND_SECONDS_def HOLD_SECONDS_def)
  moreover have "fst (ps ! i) + 3660 \<le> fst (ps ! (i + 3))" if "i + 3 < length ps" for i
    using paced_apart [OF ps(2,3) that] by (simp add: RESEND_SECONDS_def HOLD_SECONDS_def)
  ultimately show ?thesis unfolding ps(1) [symmetric] by simp
qed

section \<open>Concrete cycles\<close>

definition demo_solarflow :: hardware_profile where
  "demo_solarflow = demo_hyper\<lparr>device_settings := [''light'', ''fan'']\<rparr>"

definition demo_settings_api :: transport_client where
  "demo_settings_api = Local_api (new_http_client (Some demo_solarflow))"

definition demo_lamp_report :: reported_settings where
  "demo_lamp_report = map_of [(''lampSwitch'', 1), (''Fanmode'', 1), (''Fanspeed'', 2), (''autoHeat'', 0)]"

definition demo_set :: json_object where
  "demo_set = [(''light'', Jstr ''off''), (''fan'', Jstr '' Auto''), (''auto_heat'', Jstr ''on'')]"

theorem cycle_brings_settings_about_witness:
  "\<exists>r' rep' written.
     reconcile_settings ''a'' demo_settings_api demo_lamp_report demo_set True 5 take_properties new_settings_reconciler demo_lamp_report =
       (r', rep', written) \<and>
     map (\<lambda>s. reported_word s rep') SETTINGS = [Some ''off'', Some ''auto'', None, Some ''off''] \<and> written = Some 2"
proof -
  let ?c = "reconcile_settings ''a'' demo_settings_api demo_lamp_report demo_set True 5 take_properties new_settings_reconciler demo_lamp_report"
  obtain r' rep' written where c: "?c = (r', rep', written)" by (metis prod_cases3)
  have "map (\<lambda>s. reported_word s rep') SETTINGS =
      map (settled_word ''a'' demo_settings_api demo_lamp_report demo_set 5 new_settings_reconciler) SETTINGS"
    using cycle_brings_settings_about [OF c] by simp
  also have "\<dots> = [Some ''off'', Some ''auto'', None, Some ''off'']" by code_simp
  finally have words: "map (\<lambda>s. reported_word s rep') SETTINGS = [Some ''off'', Some ''auto'', None, Some ''off'']" .
  have "snd (snd ?c) = Some 2" by code_simp
  then show ?thesis using c words by simp
qed

definition demo_deaf_cycle :: "seconds \<Rightarrow> unit settings_event" where
  "demo_deaf_cycle dt = \<lparr>ev_elapsed = dt, ev_name = ''a'', ev_transport = demo_settings_api, ev_reported = demo_lamp_report,
     ev_kept = [(''light'', Jstr ''off'')], ev_allowed = True, ev_write = (\<lambda>ps f u. (u, Some True))\<rparr>"

definition demo_deaf_run :: "unit settings_event list" where
  "demo_deaf_run = map demo_deaf_cycle [5, 10, 20, 30, 30, 600, 2000, 1000, 30]"

definition demo_settings_world :: "unit settings_world" where
  "demo_settings_world = \<lparr>sw_clock = 0, sw_reconciler = new_settings_reconciler, sw_log = [], sw_device = ()\<rparr>"

theorem unshown_setting_is_sent_rarely_witness:
  "\<exists>ts. ts = slot_sends (''a'', ''light'') (sw_log (run_steps settings_machine demo_settings_world demo_deaf_run)) \<and>
     ts = [5, 35, 65, 3695, 3725] \<and> ts ! 0 + 3660 \<le> ts ! 3"
proof -
  let ?s = "SETTINGS ! 0" and ?run = "slot_sends (''a'', ''light'') (sw_log (run_steps settings_machine demo_settings_world demo_deaf_run))"
  have "?s \<in> set SETTINGS" and "ds_key ?s = ''light''" by (simp_all add: SETTINGS_def)
  moreover have "list_all (unshown_at ''a'' ?s ''off'') demo_deaf_run" by code_simp
  moreover have "sw_log demo_settings_world = []" by (simp add: demo_settings_world_def)
  moreover have "?run = [5, 35, 65, 3695, 3725]" by code_simp
  ultimately show ?thesis
    using unshown_setting_is_sent_rarely [of ?s "''a''" "''off''" demo_deaf_run demo_settings_world ?run] by auto
qed

end
