(* ===== verification/Schedule_Recurrence.thy ===== *)
theory Schedule_Recurrence
  imports Time_Text
begin

text \<open>
  \<open>ems/schedule_recurrence.py\<close>: when the switch points of a schedule rule fall.

  A zone is the offset that \<open>tzinfo.utcoffset\<close> gives for a
  wall-clock time with \<open>fold = 0\<close>. A generator is a function that returns what it yields up to the
  point where its reader stops reading, and why it ended: the reader's \<open>stop\<close> test is an argument.
  A date after 9999-12-31 raises, as in Python.

  Proved: a repeat yields exactly the days that its declarative meaning \<open>occurs_on\<close> selects, in
  order and each once; and skipping ahead to a time yields the same occurrences as reading the rule
  from its start.
\<close>

definition MIN_WINDOW :: micros where "MIN_WINDOW = MINUTE"

datatype frequency = Daily | Weekly | Monthly | Yearly

record repeat =
  rp_freq :: frequency
  rp_interval :: int
  rp_by_weekday :: "int list"
  rp_by_month_day :: "int list"
  rp_by_set_pos :: "int option"
  rp_by_month :: "int list"
  rp_until :: "date option"
  rp_count :: "int option"

record when_rule =
  wh_start :: micros
  wh_end :: "micros option"
  wh_repeat :: "repeat option"
  wh_exceptions :: "date list"

definition window_length :: "when_rule \<Rightarrow> micros option" where
  "window_length w = map_option (\<lambda>e. e - wh_start w) (wh_end w)"

record occurrence =
  oc_day :: date
  oc_start :: micros
  oc_end :: "micros option"

section \<open>Periods\<close>

text \<open>
  A parsed repeat has an interval of at least 1, so the step is the interval; the maximum makes the
  loops below total on the records that no parse gives.
\<close>

definition step_of :: "repeat \<Rightarrow> int" where "step_of r = max 1 (rp_interval r)"

definition week_start :: "date \<Rightarrow> date" where "week_start d = d - weekday d"

text \<open>The start of the \<open>i\<close>-th period; \<open>None\<close> is the error of a date out of range.\<close>

definition period_start :: "repeat \<Rightarrow> date \<Rightarrow> int \<Rightarrow> date option" where
  "period_start r first i =
     (case rp_freq r of
        Daily \<Rightarrow> let p = first + i * step_of r in if MAX_ORDINAL < p then None else Some p
      | Weekly \<Rightarrow> let p = week_start first + 7 * (i * step_of r) in if MAX_ORDINAL < p then None else Some p
      | Monthly \<Rightarrow>
          let total = month_of first - 1 + i * step_of r;
              y = year_of first + total div 12
          in if 9999 < y then None else Some (make_date y (total mod 12 + 1) 1)
      | Yearly \<Rightarrow> let y = year_of first + i * step_of r in if 9999 < y then None else Some (make_date y 1 1))"

text \<open>The index of the period to begin with when everything before \<open>skip_to\<close> may be left out.\<close>

definition first_index :: "repeat \<Rightarrow> date \<Rightarrow> date option \<Rightarrow> int" where
  "first_index r first skip_to =
     (case skip_to of
        None \<Rightarrow> 0
      | Some s \<Rightarrow>
          max 0
            (case rp_freq r of
               Daily \<Rightarrow> (s - first) div step_of r
             | Weekly \<Rightarrow> (s - week_start first) div 7 div step_of r
             | Monthly \<Rightarrow> ((year_of s - year_of first) * 12 + month_of s - month_of first) div step_of r
             | Yearly \<Rightarrow> (year_of s - year_of first) div step_of r))"

text \<open>\<open>xs[i]\<close> with Python's negative indices, as a list of at most one element.\<close>

definition py_pick :: "'a list \<Rightarrow> int \<Rightarrow> 'a list" where
  "py_pick xs i =
     (if - int (length xs) \<le> i \<and> i < int (length xs)
      then [xs ! nat (if i < 0 then i + int (length xs) else i)] else [])"

definition month_days :: "repeat \<Rightarrow> date \<Rightarrow> int \<Rightarrow> int \<Rightarrow> date list" where
  "month_days r first y m =
     (let len = days_in_month y m
      in if rp_by_month_day r \<noteq> []
         then sort (remdups (map (make_date y m)
                (filter (\<lambda>n. n \<le> len) (map (\<lambda>v. if v = - 1 then len else v) (rp_by_month_day r)))))
         else if rp_by_weekday r \<noteq> []
         then let matching = filter (\<lambda>d. weekday d \<in> set (rp_by_weekday r)) (days_of_month y m)
              in case rp_by_set_pos r of
                   None \<Rightarrow> matching
                 | Some pos \<Rightarrow> py_pick matching (if 0 < pos then pos - 1 else pos)
         else if day_of first \<le> len then [make_date y m (day_of first)] else [])"

definition period_days :: "repeat \<Rightarrow> date \<Rightarrow> date \<Rightarrow> date list option" where
  "period_days r first p =
     (let days =
        (case rp_freq r of
           Daily \<Rightarrow> [p]
         | Weekly \<Rightarrow>
             map (\<lambda>d. p + d) (sort (if rp_by_weekday r \<noteq> [] then rp_by_weekday r else [weekday first]))
         | Monthly \<Rightarrow> month_days r first (year_of p) (month_of p)
         | Yearly \<Rightarrow>
             concat (map (\<lambda>m. month_days r first (year_of p) m)
               (sort (if rp_by_month r \<noteq> [] then rp_by_month r else [month_of first]))))
      in if list_ex (\<lambda>d. MAX_ORDINAL < d) days then None
         else Some (filter (\<lambda>d. (rp_by_month r = [] \<or> month_of d \<in> set (rp_by_month r)) \<and>
                (rp_freq r \<noteq> Daily \<or> rp_by_weekday r = [] \<or> weekday d \<in> set (rp_by_weekday r))) days))"

definition max_empty_periods :: "repeat \<Rightarrow> int" where
  "max_empty_periods r = (case rp_freq r of Daily \<Rightarrow> 400 | Weekly \<Rightarrow> 60 | Monthly \<Rightarrow> 100 | Yearly \<Rightarrow> 10)"

section \<open>The days of a rule\<close>

text \<open>
  Why a generator ended: its reader stopped at a day, it returned, it gave up after too many periods
  without a day, or it raised.
\<close>

datatype gen_end = Stopped date | Returned | Gave_up | Raised

text \<open>The inner loop over a period's days, with the number of days produced so far.\<close>

fun emit :: "repeat \<Rightarrow> (date \<Rightarrow> bool) \<Rightarrow> int \<Rightarrow> date list \<Rightarrow> date list \<times> int \<times> gen_end option" where
  "emit r stop produced [] = ([], produced, None)"
| "emit r stop produced (d # ds) =
     (if (case rp_until r of None \<Rightarrow> False | Some u \<Rightarrow> u < d) then ([], produced, Some Returned)
      else if (case rp_count r of None \<Rightarrow> False | Some k \<Rightarrow> k < produced + 1) then ([], produced + 1, Some Returned)
      else if stop d then ([], produced + 1, Some (Stopped d))
      else let (ys, p, st) = emit r stop (produced + 1) ds in (d # ys, p, st))"

function days_loop :: "repeat \<Rightarrow> date \<Rightarrow> (date \<Rightarrow> bool) \<Rightarrow> int \<Rightarrow> int \<Rightarrow> int \<Rightarrow> date list \<times> gen_end" where
  "days_loop r first stop i produced empties =
     (case period_start r first i of
        None \<Rightarrow> ([], Raised)
      | Some p \<Rightarrow>
          (case period_days r first p of
             None \<Rightarrow> ([], Raised)
           | Some ds \<Rightarrow>
               let candidates = filter (\<lambda>d. first \<le> d) ds;
                   empties' = (if candidates \<noteq> [] then 0 else empties + 1)
               in if max_empty_periods r < empties' then ([], Gave_up)
                  else
                    (case emit r stop produced candidates of
                       (ys, produced', Some st) \<Rightarrow> (ys, st)
                     | (ys, produced', None) \<Rightarrow>
                         let (zs, st) = days_loop r first stop (i + 1) produced' empties' in (ys @ zs, st))))"
  by pat_completeness auto

lemma div_12_le: "t div 12 \<le> n \<Longrightarrow> t < 12 * n + (12 :: int)"
  by presburger

lemma period_start_bounded:
  assumes "period_start r first i = Some p"
  shows "i \<le> \<bar>first\<bar> + 12 * \<bar>year_of first\<bar> + MAX_ORDINAL"
proof (cases "i \<le> 0")
  case False
  then have s: "i \<le> i * step_of r" by (simp add: step_of_def)
  have w: "0 \<le> weekday first" "weekday first \<le> 6" by (simp_all add: weekday_def)
  show ?thesis
  proof (cases "rp_freq r")
    case Monthly
    let ?t = "month_of first - 1 + i * step_of r"
    have "?t div 12 \<le> 9999 - year_of first"
      using assms Monthly by (auto simp: period_start_def Let_def split: if_splits)
    then have "?t < 12 * (9999 - year_of first) + 12"
      by (rule div_12_le)
    then show ?thesis using s month_of_range [of first] by (simp add: MAX_ORDINAL_def)
  qed (use assms s w in \<open>auto simp: period_start_def week_start_def MAX_ORDINAL_def Let_def split: if_splits\<close>)
qed (simp add: MAX_ORDINAL_def)

termination days_loop
  by (relation "measure (\<lambda>(r, first, stop, i, produced, empties).
        nat (\<bar>first\<bar> + 12 * \<bar>year_of first\<bar> + MAX_ORDINAL + 1 - i))")
     (auto dest!: period_start_bounded)

declare days_loop.simps [simp del]

text \<open>One turn of the loop: how the reading ends there, or what the next turn goes on with.\<close>

definition days_step :: "repeat \<Rightarrow> date \<Rightarrow> (date \<Rightarrow> bool) \<Rightarrow> int \<Rightarrow> int \<Rightarrow> int \<Rightarrow> date list \<times> gen_end + date list \<times> int \<times> int" where
  "days_step r first stop i produced empties =
     (case Option.bind (period_start r first i) (period_days r first) of
        None \<Rightarrow> Inl ([], Raised)
      | Some ds \<Rightarrow>
          let candidates = filter (\<lambda>d. first \<le> d) ds;
              empties' = (if candidates \<noteq> [] then 0 else empties + 1)
          in if max_empty_periods r < empties' then Inl ([], Gave_up)
             else let (ys, produced', st) = emit r stop produced candidates
                  in (case st of Some st \<Rightarrow> Inl (ys, st) | None \<Rightarrow> Inr (ys, produced', empties')))"

definition prepend_days :: "date list \<Rightarrow> date list \<times> gen_end \<Rightarrow> date list \<times> gen_end" where
  "prepend_days ys x = (ys @ fst x, snd x)"

lemma days_loop_code [code]:
  "days_loop r first stop i produced empties =
     (case days_step r first stop i produced empties of
        Inl x \<Rightarrow> x
      | Inr x \<Rightarrow> prepend_days (fst x) (days_loop r first stop (i + 1) (fst (snd x)) (snd (snd x))))"
  by (subst days_loop.simps)
    (auto simp: days_step_def prepend_days_def Let_def split: option.splits prod.splits)

text \<open>Where \<open>_days\<close> may begin: only without a count, and two days before the time asked for.\<close>

definition skip_to :: "when_rule \<Rightarrow> repeat \<Rightarrow> micros option \<Rightarrow> date option" where
  "skip_to w r since =
     (case since of
        None \<Rightarrow> None
      | Some t \<Rightarrow>
          if rp_count r = None
          then Some (day_part (t - (case window_length w of None \<Rightarrow> 0 | Some l \<Rightarrow> l) - 2 * DAY)) else None)"

definition days :: "when_rule \<Rightarrow> micros option \<Rightarrow> (date \<Rightarrow> bool) \<Rightarrow> date list \<times> gen_end" where
  "days w since stop =
     (let first = day_part (wh_start w)
      in case wh_repeat w of
           None \<Rightarrow> if stop first then ([], Stopped first) else ([first], Returned)
         | Some r \<Rightarrow> days_loop r first stop (first_index r first (skip_to w r since)) 0 0)"

section \<open>Occurrences\<close>

type_synonym zone = "micros \<Rightarrow> micros"

text \<open>\<open>localize\<close>, read in UTC.\<close>

definition localize :: "zone \<Rightarrow> micros \<Rightarrow> micros" where
  "localize zone naive = naive - zone naive"

definition local_start :: "when_rule \<Rightarrow> date \<Rightarrow> micros" where
  "local_start w day = combine day (time_part (wh_start w))"

definition occurrence_on :: "when_rule \<Rightarrow> zone \<Rightarrow> date \<Rightarrow> occurrence" where
  "occurrence_on w zone day =
     (let start = localize zone (local_start w day)
      in \<lparr>oc_day = day, oc_start = start,
          oc_end = (case window_length w of
             None \<Rightarrow> None
           | Some l \<Rightarrow> let e = localize zone (local_start w day + l)
                       in Some (if e \<le> start then start + l else e))\<rparr>)"

definition last_point :: "occurrence \<Rightarrow> micros" where
  "last_point oc = (case oc_end oc of None \<Rightarrow> oc_start oc | Some e \<Rightarrow> e)"

text \<open>What the reader of \<open>_days\<close> keeps of the days it reads.\<close>

definition kept_occurrences :: "when_rule \<Rightarrow> zone \<Rightarrow> micros option \<Rightarrow> date list \<Rightarrow> occurrence list" where
  "kept_occurrences w zone since ds =
     filter (\<lambda>oc. (case since of None \<Rightarrow> True | Some t \<Rightarrow> t \<le> last_point oc) \<and> oc_day oc \<notin> set (wh_exceptions w))
       (map (occurrence_on w zone) ds)"

definition past_until :: "when_rule \<Rightarrow> zone \<Rightarrow> micros option \<Rightarrow> date \<Rightarrow> bool" where
  "past_until w zone limit day =
     (case limit of None \<Rightarrow> False | Some u \<Rightarrow> u < oc_start (occurrence_on w zone day))"

definition occurrences :: "when_rule \<Rightarrow> zone \<Rightarrow> micros option \<Rightarrow> micros option \<Rightarrow> occurrence list \<times> gen_end" where
  "occurrences w zone since limit =
     (let (ds, st) = days w since (past_until w zone limit) in (kept_occurrences w zone since ds, st))"

text \<open>A window rule's windows by the wall clock, for a reader that stops at a start after \<open>limit\<close>.\<close>

definition wall_windows :: "when_rule \<Rightarrow> micros option \<Rightarrow> micros \<Rightarrow> (micros \<times> micros) list \<times> gen_end" where
  "wall_windows w since limit =
     (let l = (case window_length w of None \<Rightarrow> 0 | Some x \<Rightarrow> x);
          (ds, st) = days w since (\<lambda>d. limit < local_start w d);
          kept = filter (\<lambda>d. (case since of None \<Rightarrow> True | Some t \<Rightarrow> t \<le> local_start w d + l) \<and>
                        d \<notin> set (wh_exceptions w)) ds
      in (map (\<lambda>d. (local_start w d, local_start w d + l)) kept, st))"

section \<open>Checks of a rule\<close>

text \<open>
  Why a rule is refused, and the two errors that escape: a date out of range and an index that is not a whole
  number.
\<close>

datatype time_error =
    Never_occurs | Ends_after_next_start micros | End_before_start | Unknown_field | Bad_field string
  | Date_overflow | Type_error

definition FIRST_OCCURRENCE_HORIZON_YEARS :: int where "FIRST_OCCURRENCE_HORIZON_YEARS = 8"

definition SELF_OVERLAP_HORIZON_DAYS :: int where "SELF_OVERLAP_HORIZON_DAYS = 800"

text \<open>\<open>date + timedelta\<close>.\<close>

definition date_plus :: "date \<Rightarrow> int \<Rightarrow> time_error + date" where
  "date_plus d n = (if 1 \<le> d + n \<and> d + n \<le> MAX_ORDINAL then Inr (d + n) else Inl Date_overflow)"

definition require_an_occurrence :: "when_rule \<Rightarrow> time_error + unit" where
  "require_an_occurrence w =
     (let start = day_part (wh_start w)
      in case date_plus (make_date (year_of start) (month_of start) 1) (366 * FIRST_OCCURRENCE_HORIZON_YEARS) of
           Inl e \<Rightarrow> Inl e
         | Inr horizon \<Rightarrow>
             (case days w None (\<lambda>_. True) of
                (_, Stopped d) \<Rightarrow> if horizon < d then Inl Never_occurs else Inr ()
              | (_, Raised) \<Rightarrow> Inl Date_overflow
              | _ \<Rightarrow> Inl Never_occurs))"

text \<open>The first of a rule's days whose window starts before the one before it has ended.\<close>

fun first_self_overlap :: "when_rule \<Rightarrow> micros \<Rightarrow> date list \<Rightarrow> micros option" where
  "first_self_overlap w l (d # d' # ds) =
     (if local_start w d' < local_start w d + l then Some (local_start w d') else first_self_overlap w l (d' # ds))"
| "first_self_overlap w l ds = None"

definition refuse_self_overlap :: "when_rule \<Rightarrow> time_error + unit" where
  "refuse_self_overlap w =
     (case (window_length w, wh_repeat w) of
        (Some l, Some r) \<Rightarrow>
          (case date_plus (day_part (wh_start w)) SELF_OVERLAP_HORIZON_DAYS of
             Inl e \<Rightarrow> Inl e
           | Inr horizon \<Rightarrow>
               let (ds, st) = days w None (\<lambda>d. horizon < d)
               in (case first_self_overlap w l ds of
                     Some t \<Rightarrow> Inl (Ends_after_next_start t)
                   | None \<Rightarrow> if st = Raised then Inl Date_overflow else Inr ()))
      | _ \<Rightarrow> Inr ())"

text \<open>The checks of \<open>parse_when\<close> on the parsed fields.\<close>

definition check_when :: "when_rule \<Rightarrow> time_error + when_rule" where
  "check_when w =
     (if (case window_length w of None \<Rightarrow> False | Some l \<Rightarrow> l < MIN_WINDOW) then Inl End_before_start
      else case require_an_occurrence w of
             Inl e \<Rightarrow> Inl e
           | Inr _ \<Rightarrow> (case refuse_self_overlap w of Inl e \<Rightarrow> Inl e | Inr _ \<Rightarrow> Inr w))"

section \<open>What a repeat means\<close>

text \<open>What parsing guarantees of a repeat.\<close>

definition valid_repeat :: "repeat \<Rightarrow> bool" where
  "valid_repeat r \<longleftrightarrow>
     1 \<le> rp_interval r \<and>
     sorted_wrt (<) (rp_by_weekday r) \<and> list_all (\<lambda>d. 0 \<le> d \<and> d \<le> 6) (rp_by_weekday r) \<and>
     list_all (\<lambda>d. d = - 1 \<or> 1 \<le> d \<and> d \<le> 31) (rp_by_month_day r) \<and>
     sorted_wrt (<) (rp_by_month r) \<and> list_all (\<lambda>m. 1 \<le> m \<and> m \<le> 12) (rp_by_month r) \<and>
     (case rp_by_set_pos r of None \<Rightarrow> True | Some p \<Rightarrow> p \<in> set [1, 2, 3, 4, - 1])"

text \<open>The days of the month of \<open>d\<close> that fall on one of the weekdays named.\<close>

definition matching_days :: "repeat \<Rightarrow> int \<Rightarrow> int \<Rightarrow> date list" where
  "matching_days r y m = filter (\<lambda>d. weekday d \<in> set (rp_by_weekday r)) (days_of_month y m)"

text \<open>Whether a day is one its month is asked for: by number, by weekday and rank, or as the start's day.\<close>

definition month_pick :: "repeat \<Rightarrow> date \<Rightarrow> date \<Rightarrow> bool" where
  "month_pick r first d \<longleftrightarrow>
     (if rp_by_month_day r \<noteq> []
      then day_of d \<in> set (rp_by_month_day r) \<or>
           - 1 \<in> set (rp_by_month_day r) \<and> day_of d = days_in_month (year_of d) (month_of d)
      else if rp_by_weekday r \<noteq> []
      then weekday d \<in> set (rp_by_weekday r) \<and>
           (case rp_by_set_pos r of
              None \<Rightarrow> True
            | Some p \<Rightarrow>
                if 0 < p
                then int (length (filter (\<lambda>x. x < d) (matching_days r (year_of d) (month_of d)))) = p - 1
                else int (length (filter (\<lambda>x. d < x) (matching_days r (year_of d) (month_of d)))) = - p - 1)
      else day_of d = day_of first)"

text \<open>How many units of the frequency lie between the first day's and a day's.\<close>

definition units :: "repeat \<Rightarrow> date \<Rightarrow> date \<Rightarrow> int" where
  "units r first d =
     (case rp_freq r of
        Daily \<Rightarrow> d - first
      | Weekly \<Rightarrow> (week_start d - week_start first) div 7
      | Monthly \<Rightarrow> month_index d - month_index first
      | Yearly \<Rightarrow> year_of d - year_of first)"

definition selected :: "repeat \<Rightarrow> date \<Rightarrow> date \<Rightarrow> bool" where
  "selected r first d \<longleftrightarrow>
     (case rp_freq r of
        Daily \<Rightarrow> rp_by_weekday r = [] \<or> weekday d \<in> set (rp_by_weekday r)
      | Weekly \<Rightarrow> weekday d \<in> set (if rp_by_weekday r \<noteq> [] then rp_by_weekday r else [weekday first])
      | Monthly \<Rightarrow> month_pick r first d
      | Yearly \<Rightarrow> month_of d \<in> set (if rp_by_month r \<noteq> [] then rp_by_month r else [month_of first]) \<and>
                  month_pick r first d) \<and>
     (rp_by_month r = [] \<or> month_of d \<in> set (rp_by_month r))"

definition occurs_on :: "repeat \<Rightarrow> date \<Rightarrow> date \<Rightarrow> bool" where
  "occurs_on r first d \<longleftrightarrow> first \<le> d \<and> units r first d mod rp_interval r = 0 \<and> selected r first d"

section \<open>The days of one period\<close>

lemma rank_in_sorted:
  assumes "sorted_wrt (<) (xs :: int list)" and "n < length xs"
  shows "length (filter (\<lambda>x. x < xs ! n) xs) = n" and "length (filter (\<lambda>x. xs ! n < x) xs) = length xs - Suc n"
proof -
  have split: "xs = take n xs @ xs ! n # drop (Suc n) xs" using assms(2) by (rule id_take_nth_drop)
  have "sorted_wrt (<) (take n xs @ xs ! n # drop (Suc n) xs)" using assms(1) split by simp
  then have lo: "\<forall>x\<in>set (take n xs). x < xs ! n" and hi: "\<forall>x\<in>set (drop (Suc n) xs). xs ! n < x"
    by (auto simp: sorted_wrt_append)
  have a: "filter (\<lambda>x. x < v) (take n xs) = take n xs" "filter (\<lambda>x. x < v) (drop (Suc n) xs) = []"
    "filter (\<lambda>x. v < x) (take n xs) = []" "filter (\<lambda>x. v < x) (drop (Suc n) xs) = drop (Suc n) xs" if "v = xs ! n" for v
    using lo hi that by (auto simp: filter_id_conv filter_empty_conv)
  have parts: "filter P xs = filter P (take n xs) @ filter P (xs ! n # drop (Suc n) xs)" for P
    using arg_cong [OF split, of "filter P"] by (simp only: filter_append)
  have "filter (\<lambda>x. x < xs ! n) xs = take n xs" "filter (\<lambda>x. xs ! n < x) xs = drop (Suc n) xs"
    by (simp_all add: parts [of "\<lambda>x. x < xs ! n"] parts [of "\<lambda>x. xs ! n < x"] a)
  then show "length (filter (\<lambda>x. x < xs ! n) xs) = n" "length (filter (\<lambda>x. xs ! n < x) xs) = length xs - Suc n"
    using assms(2) by simp_all
qed

lemma set_py_pick:
  assumes "sorted_wrt (<) (xs :: int list)"
  shows "set (py_pick xs i) =
    {d \<in> set xs. if 0 \<le> i then int (length (filter (\<lambda>x. x < d) xs)) = i
                 else int (length (filter (\<lambda>x. d < x) xs)) = - i - 1}"
proof -
  define n where "n = nat (if i < 0 then i + int (length xs) else i)"
  have rank: "(if 0 \<le> i then int (length (filter (\<lambda>x. x < xs ! k) xs)) = i
      else int (length (filter (\<lambda>x. xs ! k < x) xs)) = - i - 1) \<longleftrightarrow> 
      - int (length xs) \<le> i \<and> i < int (length xs) \<and> k = n" if "k < length xs" for k
    using rank_in_sorted [OF assms that] that by (auto simp: n_def)
  show ?thesis
  proof (cases "- int (length xs) \<le> i \<and> i < int (length xs)")
    case True
    then have "n < length xs" by (auto simp: n_def)
    have "py_pick xs i = [xs ! n]" using True by (simp add: py_pick_def n_def)
    then show ?thesis
      using True rank \<open>n < length xs\<close> by (auto simp: in_set_conv_nth split del: if_split)
  next
    case False
    then have "py_pick xs i = []" by (auto simp: py_pick_def)
    then show ?thesis using False rank by (auto simp: in_set_conv_nth split del: if_split)
  qed
qed

lemma sorted_py_pick: "sorted_wrt (<) (py_pick xs i)"
  by (simp add: py_pick_def)

lemma matching_days_sorted: "sorted_wrt (<) (matching_days r y m)"
  by (simp add: matching_days_def days_of_month_sorted sorted_wrt_filter)

lemma strict_sort: "distinct xs \<Longrightarrow> sorted_wrt (<) (sort (xs :: int list))"
  by (simp add: strict_sorted_iff)

lemma month_days_by_number:
  assumes "valid_repeat r" and "1 \<le> m" and "m \<le> 12"
  shows "set (map (make_date y m) (filter (\<lambda>n. n \<le> days_in_month y m)
      (map (\<lambda>v. if v = - 1 then days_in_month y m else v) (rp_by_month_day r)))) =
    {d. year_of d = y \<and> month_of d = m \<and> (day_of d \<in> set (rp_by_month_day r) \<or>
       - 1 \<in> set (rp_by_month_day r) \<and> day_of d = days_in_month y m)}"
proof -
  let ?len = "days_in_month y m"
  have v: "v = - 1 \<or> 1 \<le> v" if "v \<in> set (rp_by_month_day r)" for v
    using assms(1) that by (auto simp: valid_repeat_def list_all_iff)
  have len: "1 \<le> ?len" using days_in_month_bounds [of y m] by linarith
  have numbers: "set (filter (\<lambda>n. n \<le> ?len) (map (\<lambda>v. if v = - 1 then ?len else v) (rp_by_month_day r))) =
      {k. 1 \<le> k \<and> k \<le> ?len \<and> (k \<in> set (rp_by_month_day r) \<or> - 1 \<in> set (rp_by_month_day r) \<and> k = ?len)}"
    using v len by (auto simp: set_eq_iff image_iff)
  have "make_date y m ` {k. 1 \<le> k \<and> k \<le> ?len \<and> Q k} = {d. year_of d = y \<and> month_of d = m \<and> Q (day_of d)}" for Q
  proof (intro equalityI subsetI)
    fix d
    assume "d \<in> {d. year_of d = y \<and> month_of d = m \<and> Q (day_of d)}"
    then show "d \<in> make_date y m ` {k. 1 \<le> k \<and> k \<le> ?len \<and> Q k}"
      using day_of_range [of d] make_date_of [of d] by force
  qed (use parts_make_date [OF assms(2,3)] in auto)
  from this [of "\<lambda>k. k \<in> set (rp_by_month_day r) \<or> - 1 \<in> set (rp_by_month_day r) \<and> k = ?len"]
  show ?thesis unfolding set_map [of "make_date y m"] numbers by blast
qed

lemma month_days_spec:
  assumes "valid_repeat r" and "1 \<le> m" and "m \<le> 12"
  shows "sorted_wrt (<) (month_days r first y m) \<and>
    set (month_days r first y m) = {d. year_of d = y \<and> month_of d = m \<and> month_pick r first d}"
proof -
  note of_month = set_days_of_month [OF assms(2,3), of y]
  consider (number) "rp_by_month_day r \<noteq> []"
    | (ranked) p where "rp_by_month_day r = []" "rp_by_weekday r \<noteq> []" "rp_by_set_pos r = Some p"
    | (every) "rp_by_month_day r = []" "rp_by_weekday r \<noteq> []" "rp_by_set_pos r = None"
    | (plain) "rp_by_month_day r = []" "rp_by_weekday r = []"
    by (cases "rp_by_set_pos r") auto
  then show ?thesis
  proof cases
    case number
    then show ?thesis
      using month_days_by_number [OF assms, of y]
      by (auto simp: month_days_def month_pick_def Let_def strict_sort)
  next
    case ranked
    let ?xs = "matching_days r y m"
    have md: "month_days r first y m = py_pick ?xs (if 0 < p then p - 1 else p)"
      using ranked by (simp add: month_days_def matching_days_def Let_def)
    have "p \<in> {1, 2, 3, 4, - 1}" using assms(1) ranked(3) by (simp add: valid_repeat_def)
    then have "set (month_days r first y m) = {d \<in> set ?xs. if 0 < p then int (length (filter (\<lambda>x. x < d) ?xs)) = p - 1
        else int (length (filter (\<lambda>x. d < x) ?xs)) = - p - 1}"
      unfolding md set_py_pick [OF matching_days_sorted] by auto
    also have "\<dots> = {d. year_of d = y \<and> month_of d = m \<and> month_pick r first d}"
      using ranked of_month by (auto simp: month_pick_def matching_days_def)
    finally show ?thesis using md sorted_py_pick by metis
  next
    case every
    then have "month_days r first y m = matching_days r y m"
      by (simp add: month_days_def matching_days_def Let_def)
    then show ?thesis using every of_month matching_days_sorted [of r y m] by (auto simp: month_pick_def matching_days_def)
  next
    case plain
    then have md: "month_days r first y m = (if day_of first \<le> days_in_month y m then [make_date y m (day_of first)] else [])"
      by (simp add: month_days_def Let_def)
    have pick: "month_pick r first d \<longleftrightarrow> day_of d = day_of first" for d using plain by (simp add: month_pick_def)
    have "{d. year_of d = y \<and> month_of d = m \<and> day_of d = day_of first} =
        (if day_of first \<le> days_in_month y m then {make_date y m (day_of first)} else {})"
      (is "?L = _")
    proof (cases "day_of first \<le> days_in_month y m")
      case True
      have "?L \<subseteq> {make_date y m (day_of first)}"
      proof
        fix d assume "d \<in> ?L"
        then show "d \<in> {make_date y m (day_of first)}" using make_date_of [of d] by auto
      qed
      moreover have "make_date y m (day_of first) \<in> ?L"
        using parts_make_date [OF assms(2,3), of "day_of first" y] day_of_range [of first] True by auto
      ultimately show ?thesis using True by auto
    next
      case False
      have "d \<notin> ?L" for d using day_of_range [of d] False by auto
      then show ?thesis using False by auto
    qed
    then show ?thesis unfolding md pick by simp
  qed
qed

lemma step_valid: "valid_repeat r \<Longrightarrow> step_of r = rp_interval r"
  by (simp add: valid_repeat_def step_of_def)

lemma week_start_mod: "(week_start d + 6) mod 7 = 0"
  unfolding week_start_def weekday_def by (simp add: mod_diff_right_eq algebra_simps)

lemma week_of_monday:
  assumes "(p + 6) mod 7 = 0" and "0 \<le> k" and "k \<le> 6"
  shows "weekday (p + k) = k" and "week_start (p + k) = p"
proof -
  show "weekday (p + k) = k" using assms unfolding weekday_def by presburger
  then show "week_start (p + k) = p" by (simp add: week_start_def)
qed

lemma weeks_between:
  "(week_start d - week_start e) div 7 = n \<longleftrightarrow> week_start d = week_start e + 7 * n"
  using week_start_mod [of d] week_start_mod [of e] by presburger

lemma sorted_plus: "sorted_wrt (<) xs \<Longrightarrow> sorted_wrt (<) (map (\<lambda>d. p + d) (xs :: int list))"
  by (simp add: sorted_wrt_map)

lemma units_mono: "d \<le> d' \<Longrightarrow> units r first d \<le> units r first d'"
proof -
  assume le: "d \<le> d'"
  have "week_start d \<le> week_start d'"
    using le week_start_mod [of d] week_start_mod [of d'] weekday_range [of d] weekday_range [of d']
    by (simp add: week_start_def) presburger
  then show ?thesis
    using le month_index_mono [OF le] year_of_mono [OF le]
    by (cases "rp_freq r") (simp_all add: units_def zdiv_mono1)
qed

lemma units_self [simp]: "units r first first = 0"
  by (cases "rp_freq r") (simp_all add: units_def)

lemma period_month:
  assumes "rp_freq r = Monthly" and "period_start r first i = Some p"
  shows "year_of p = (month_index first + i * step_of r) div 12 \<and> month_of p = (month_index first + i * step_of r) mod 12 + 1"
proof -
  let ?t = "month_of first - 1 + i * step_of r"
  have e: "month_index first + i * step_of r = ?t + 12 * year_of first" by (simp add: month_index_def)
  have p: "p = make_date (year_of first + ?t div 12) (?t mod 12 + 1) 1"
    using assms by (auto simp: period_start_def Let_def split: if_splits)
  have m: "1 \<le> ?t mod 12 + 1" "?t mod 12 + 1 \<le> 12"
    using pos_mod_bound [of 12 ?t, OF zero_less_numeral] pos_mod_sign [of 12 ?t, OF zero_less_numeral] by linarith+
  have "1 \<le> days_in_month (year_of first + ?t div 12) (?t mod 12 + 1)"
    using days_in_month_bounds [of "year_of first + ?t div 12" "?t mod 12 + 1"] by linarith
  then have "year_of p = year_of first + ?t div 12" "month_of p = ?t mod 12 + 1"
    unfolding p using parts_make_date [OF m order_refl] by simp_all
  then show ?thesis unfolding e by (simp add: add.commute)
qed

lemma period_year:
  assumes "rp_freq r = Yearly" and "period_start r first i = Some p"
  shows "year_of p = year_of first + i * step_of r"
  using assms parts_make_date(1) [of 1 1 "year_of first + i * step_of r"]
  by (auto simp: period_start_def Let_def days_in_month_def split: if_splits)

lemma months_of_year:
  assumes "valid_repeat r" and "sorted_wrt (<) ms" and "list_all (\<lambda>m. 1 \<le> m \<and> m \<le> 12) ms"
  shows "sorted_wrt (<) (concat (map (\<lambda>m. month_days r first y m) ms)) \<and>
    set (concat (map (\<lambda>m. month_days r first y m) ms)) = {d. year_of d = y \<and> month_of d \<in> set ms \<and> month_pick r first d}"
  using assms(2,3)
proof (induction ms)
  case (Cons m ms)
  have m: "1 \<le> m" "m \<le> 12" using Cons.prems by auto
  note md = month_days_spec [OF assms(1) m, of first y]
  have ih: "sorted_wrt (<) (concat (map (\<lambda>m. month_days r first y m) ms))"
    "set (concat (map (\<lambda>m. month_days r first y m) ms)) = {d. year_of d = y \<and> month_of d \<in> set ms \<and> month_pick r first d}"
    using Cons by auto
  have before: "d < e" if "year_of d = y" "month_of d = m" "year_of e = y" "month_of e \<in> set ms" for d e
  proof (rule ccontr)
    assume "\<not> d < e"
    then have "month_index e \<le> month_index d" by (intro month_index_mono) simp
    then show False using that Cons.prems(1) by (auto simp: month_index_def)
  qed
  show ?case using md ih before by (auto simp: sorted_wrt_append)
qed simp

lemma period_days_spec:
  assumes "valid_repeat r" and "period_start r first i = Some p" and "period_days r first p = Some ds"
  shows "sorted_wrt (<) ds \<and> set ds = {d. units r first d = i * step_of r \<and> selected r first d}"
proof -
  define keep where "keep d \<longleftrightarrow> (rp_by_month r = [] \<or> month_of d \<in> set (rp_by_month r)) \<and>
      (rp_freq r \<noteq> Daily \<or> rp_by_weekday r = [] \<or> weekday d \<in> set (rp_by_weekday r))" for d
  have wds: "sorted_wrt (<) (rp_by_weekday r)" "list_all (\<lambda>d. 0 \<le> d \<and> d \<le> 6) (rp_by_weekday r)"
    and mos: "sorted_wrt (<) (rp_by_month r)" "list_all (\<lambda>m. 1 \<le> m \<and> m \<le> 12) (rp_by_month r)"
    using assms(1) by (simp_all add: valid_repeat_def)
  have keep: "filter (\<lambda>d. (rp_by_month r = [] \<or> month_of d \<in> set (rp_by_month r)) \<and>
      (rp_freq r \<noteq> Daily \<or> rp_by_weekday r = [] \<or> weekday d \<in> set (rp_by_weekday r))) xs = filter keep xs" for xs
    by (simp add: keep_def [abs_def])
  note kept = assms(3) [unfolded period_days_def Let_def keep]
  show ?thesis
  proof (cases "rp_freq r")
    case Daily
    have p: "p = first + i * step_of r" "ds = filter keep [p]"
      using Daily assms(2) kept by (auto simp: period_start_def Let_def split: if_splits)
    have u: "units r first d = i * step_of r \<longleftrightarrow> d = p" for d using Daily p(1) by (auto simp: units_def)
    show ?thesis using Daily unfolding p(2) u by (auto simp: selected_def keep_def)
  next
    case Weekly
    let ?W = "if rp_by_weekday r \<noteq> [] then rp_by_weekday r else [weekday first]"
    have W: "sort ?W = ?W" "sorted_wrt (<) ?W" "\<And>k. k \<in> set ?W \<Longrightarrow> 0 \<le> k \<and> k \<le> 6"
      using wds weekday_range [of first] by (auto simp: list_all_iff strict_sorted_iff sorted_sort_id split: if_splits)
    have p: "p = week_start first + 7 * (i * step_of r)"
      using assms(2) Weekly by (auto simp: period_start_def Let_def split: if_splits)
    then have p7: "(p + 6) mod 7 = 0" using week_start_mod [of first] by presburger
    have ds: "ds = filter keep (map (\<lambda>d. p + d) ?W)"
      using kept Weekly W(1) by (simp split: if_split_asm)
    have "units r first d = i * step_of r \<and> weekday d \<in> set ?W \<longleftrightarrow> d \<in> (\<lambda>d. p + d) ` set ?W" for d
    proof
      assume "units r first d = i * step_of r \<and> weekday d \<in> set ?W"
      then have "week_start d = p" "weekday d \<in> set ?W" using Weekly p weeks_between by (simp_all add: units_def)
      then show "d \<in> (\<lambda>d. p + d) ` set ?W" by (auto simp: week_start_def intro!: image_eqI [of _ _ "weekday d"])
    next
      assume "d \<in> (\<lambda>d. p + d) ` set ?W"
      then obtain k where k: "d = p + k" "k \<in> set ?W" by auto
      with W(3) week_of_monday [OF p7, of k] have "week_start d = p" "weekday d = k" by auto
      then show "units r first d = i * step_of r \<and> weekday d \<in> set ?W"
        using Weekly p k(2) weeks_between by (simp add: units_def)
    qed
    then have "{d. units r first d = i * step_of r \<and> weekday d \<in> set ?W} = set (map (\<lambda>d. p + d) ?W)"
      unfolding set_map by blast
    then have "set ds = {d. units r first d = i * step_of r \<and> weekday d \<in> set ?W \<and> keep d}"
      unfolding ds set_filter by blast
    then show ?thesis using Weekly sorted_plus [OF W(2), of p] unfolding ds
      by (auto simp: selected_def keep_def sorted_wrt_filter)
  next
    case Monthly
    define k where "k = month_index first + i * step_of r"
    have pm: "year_of p = k div 12" "month_of p = k mod 12 + 1"
      using period_month [OF Monthly assms(2)] by (simp_all add: k_def)
    have u: "units r first d = i * step_of r \<longleftrightarrow> year_of d = year_of p \<and> month_of d = month_of p" for d
    proof -
      have "units r first d = i * step_of r \<longleftrightarrow> month_index d = k" using Monthly by (simp add: units_def k_def) linarith
      also have "\<dots> \<longleftrightarrow> month_index d div 12 = k div 12 \<and> month_index d mod 12 = k mod 12"
        by (metis div_mult_mod_eq)
      also have "\<dots> \<longleftrightarrow> year_of d = year_of p \<and> month_of d = month_of p"
        unfolding month_index_parts pm by auto
      finally show ?thesis .
    qed
    have ds: "ds = filter keep (month_days r first (year_of p) (month_of p))"
      using kept Monthly by (simp split: if_split_asm)
    show ?thesis
      using month_days_spec [OF assms(1) month_of_range, of first "year_of p" p] Monthly unfolding ds u
      by (auto simp: selected_def keep_def sorted_wrt_filter)
  next
    case Yearly
    let ?M = "if rp_by_month r \<noteq> [] then rp_by_month r else [month_of first]"
    have M: "sort ?M = ?M" "sorted_wrt (<) ?M" "list_all (\<lambda>m. 1 \<le> m \<and> m \<le> 12) ?M"
      using mos month_of_range [of first] by (auto simp: strict_sorted_iff sorted_sort_id)
    have u: "units r first d = i * step_of r \<longleftrightarrow> year_of d = year_of p" for d
      using period_year [OF Yearly assms(2)] Yearly by (auto simp: units_def)
    have ds: "ds = filter keep (concat (map (\<lambda>m. month_days r first (year_of p) m) ?M))"
      using kept Yearly M(1) by (simp split: if_split_asm)
    show ?thesis
      using months_of_year [OF assms(1) M(2,3), of first "year_of p"] Yearly unfolding ds u
      by (auto simp: selected_def keep_def sorted_wrt_filter)
  qed
qed

section \<open>The days a repeat yields\<close>

definition until_ok :: "repeat \<Rightarrow> date \<Rightarrow> bool" where
  "until_ok r d \<longleftrightarrow> (case rp_until r of None \<Rightarrow> True | Some u \<Rightarrow> d \<le> u)"

definition count_ok :: "repeat \<Rightarrow> int \<Rightarrow> bool" where
  "count_ok r n \<longleftrightarrow> (case rp_count r of None \<Rightarrow> True | Some k \<Rightarrow> n \<le> k)"

text \<open>
  How a reading that has yielded \<open>ys\<close> after \<open>n\<close> earlier days ends at the day \<open>b\<close>: the reader stopped there,
  or the repeat's own end lies before it.
\<close>

definition ends_at :: "repeat \<Rightarrow> (date \<Rightarrow> bool) \<Rightarrow> int \<Rightarrow> date list \<Rightarrow> gen_end \<Rightarrow> date \<Rightarrow> bool" where
  "ends_at r stop n ys st b \<longleftrightarrow>
     (\<forall>d\<in>set ys. \<not> stop d \<and> until_ok r d) \<and> (ys \<noteq> [] \<longrightarrow> count_ok r (n + int (length ys))) \<and>
     (case st of
        Stopped d \<Rightarrow> d = b \<and> stop b \<and> until_ok r b \<and> count_ok r (n + int (length ys) + 1)
      | Returned \<Rightarrow> \<not> until_ok r b \<or> \<not> count_ok r (n + int (length ys) + 1)
      | _ \<Rightarrow> False)"

lemma ends_at_append:
  assumes "\<forall>d\<in>set xs. \<not> stop d \<and> until_ok r d" and "xs \<noteq> [] \<longrightarrow> count_ok r (n + int (length xs))"
    and "ends_at r stop (n + int (length xs)) ys st b"
  shows "ends_at r stop n (xs @ ys) st b"
  using assms by (cases st; cases "ys = []") (auto simp: ends_at_def add.assoc)

lemma emit_spec:
  "emit r stop n ds = (ys, n', res) \<Longrightarrow>
     case res of
       None \<Rightarrow> ys = ds \<and> n' = n + int (length ds) \<and> (\<forall>d\<in>set ds. \<not> stop d \<and> until_ok r d) \<and>
               (ds \<noteq> [] \<longrightarrow> count_ok r n')
     | Some st \<Rightarrow> \<exists>b rest. ds = ys @ b # rest \<and> ends_at r stop n ys st b"
proof (induction r stop n ds arbitrary: ys n' res rule: emit.induct)
  case (2 r stop n d ds)
  consider (past) "\<not> until_ok r d" | (used) "until_ok r d" "\<not> count_ok r (n + 1)"
    | (stop) "until_ok r d" "count_ok r (n + 1)" "stop d"
    | (go) ys2 where "until_ok r d" "count_ok r (n + 1)" "\<not> stop d" "emit r stop (n + 1) ds = (ys2, n', res)" "ys = d # ys2"
    using 2(2) by (auto simp: until_ok_def count_ok_def not_le split: if_splits option.splits prod.splits)
  then show ?case
  proof cases
    case go
    have ih: "case res of
       None \<Rightarrow> ys2 = ds \<and> n' = n + 1 + int (length ds) \<and> (\<forall>d\<in>set ds. \<not> stop d \<and> until_ok r d) \<and> (ds \<noteq> [] \<longrightarrow> count_ok r n')
     | Some st \<Rightarrow> \<exists>b rest. ds = ys2 @ b # rest \<and> ends_at r stop (n + 1) ys2 st b"
      using 2(1) go 2(2) by (auto simp: until_ok_def count_ok_def split: option.splits)
    show ?thesis
    proof (cases res)
      case None
      then show ?thesis using go ih by auto
    next
      case (Some st)
      then obtain b rest where "ds = ys2 @ b # rest" "ends_at r stop (n + 1) ys2 st b"
        using ih by auto
      then show ?thesis using go Some ends_at_append [of "[d]" stop r n ys2 st b] by auto
    qed
  qed (use 2(2) in \<open>auto simp: ends_at_def until_ok_def count_ok_def not_le split: option.splits if_splits\<close>)
qed simp

text \<open>The days of a repeat from its \<open>i\<close>-th period on.\<close>

definition days_from :: "repeat \<Rightarrow> date \<Rightarrow> int \<Rightarrow> date set" where
  "days_from r first i = {d. occurs_on r first d \<and> i * step_of r \<le> units r first d}"

lemma days_from_split:
  assumes "valid_repeat r" and "0 \<le> i" and "period_start r first i = Some p" and "period_days r first p = Some ds"
  shows "days_from r first i = {d \<in> set ds. first \<le> d} \<union> days_from r first (i + 1)"
    and "\<And>d e. d \<in> set ds \<Longrightarrow> e \<in> days_from r first (i + 1) \<Longrightarrow> d < e"
    and "sorted_wrt (<) ds"
proof -
  let ?k = "step_of r"
  have k: "1 \<le> ?k" "?k = rp_interval r" using step_valid [OF assms(1)] by (simp_all add: step_of_def)
  note ds = period_days_spec [OF assms(1,3,4)]
  have "i * ?k \<le> u \<longleftrightarrow> u = i * ?k \<or> (i + 1) * ?k \<le> u" if u: "u mod ?k = 0" for u
  proof -
    obtain j where j: "u = j * ?k" using u by (metis div_mult_mod_eq add_0_right)
    have "i * ?k \<le> j * ?k \<longleftrightarrow> i \<le> j" "(i + 1) * ?k \<le> j * ?k \<longleftrightarrow> i + 1 \<le> j" "j * ?k = i * ?k \<longleftrightarrow> j = i"
      using k(1) mult_le_cancel_right_pos [of ?k] by auto
    then show ?thesis unfolding j by auto
  qed
  then show "days_from r first i = {d \<in> set ds. first \<le> d} \<union> days_from r first (i + 1)"
    using ds k by (auto simp: days_from_def occurs_on_def)
  show "d < e" if "d \<in> set ds" "e \<in> days_from r first (i + 1)" for d e
  proof (rule ccontr)
    assume "\<not> d < e"
    then have "units r first e \<le> units r first d" by (intro units_mono) simp
    then show False using that ds k(1) by (auto simp: days_from_def algebra_simps)
  qed
  show "sorted_wrt (<) ds" using ds ..
qed

text \<open>A reading of a repeat from its \<open>i\<close>-th period yields its days up to the one it ends at, in order.\<close>

definition reads_up_to :: "repeat \<Rightarrow> date set \<Rightarrow> (date \<Rightarrow> bool) \<Rightarrow> int \<Rightarrow> date list \<Rightarrow> gen_end \<Rightarrow> date \<Rightarrow> bool" where
  "reads_up_to r D stop n ys st b \<longleftrightarrow>
     b \<in> D \<and> sorted_wrt (<) ys \<and> set ys = {d \<in> D. d < b} \<and> ends_at r stop n ys st b"

lemma reads_up_to_period:
  assumes "sorted_wrt (<) cs" and "D = set cs \<union> E" and "\<And>c e. c \<in> set cs \<Longrightarrow> e \<in> E \<Longrightarrow> c < e"
    and "cs = ys @ b # rest" and "ends_at r stop n ys st b"
  shows "reads_up_to r D stop n ys st b"
proof -
  have "sorted_wrt (<) (ys @ b # rest)" using assms(1,4) by simp
  moreover from this have "e \<notin> E" if "e < b" for e using assms(3) [of b e] assms(4) that by auto
  ultimately show ?thesis
    using assms(2,4,5) by (auto simp: reads_up_to_def sorted_wrt_append)
qed

lemma reads_up_to_next:
  assumes "sorted_wrt (<) cs" and "D = set cs \<union> E" and "\<And>c e. c \<in> set cs \<Longrightarrow> e \<in> E \<Longrightarrow> c < e"
    and "\<forall>d\<in>set cs. \<not> stop d \<and> until_ok r d" and "cs \<noteq> [] \<longrightarrow> count_ok r (n + int (length cs))"
    and "reads_up_to r E stop (n + int (length cs)) zs st b"
  shows "reads_up_to r D stop n (cs @ zs) st b"
  using assms ends_at_append [OF assms(4,5)] unfolding reads_up_to_def
  by (auto simp: sorted_wrt_append)

lemma days_loop_spec:
  assumes "valid_repeat r" and "0 \<le> i" and "days_loop r first stop i n e = (ys, st)"
    and "st \<noteq> Gave_up" and "st \<noteq> Raised"
  shows "\<exists>b. reads_up_to r (days_from r first i) stop n ys st b"
  using assms
proof (induction r first stop i n e arbitrary: ys st rule: days_loop.induct)
  case (1 r first stop i n e)
  note run = 1(4) [unfolded days_loop.simps [of r first stop i n e]]
  obtain p where p: "period_start r first i = Some p" using run 1(6) by (auto split: option.splits)
  obtain ds where ds: "period_days r first p = Some ds" using run p 1(6) by (auto split: option.splits)
  define cs where "cs = filter (\<lambda>d. first \<le> d) ds"
  define e' where "e' = (if cs \<noteq> [] then 0 else e + 1)"
  note split = days_from_split [OF 1(2,3) p ds]
  have D: "days_from r first i = set cs \<union> days_from r first (i + 1)" using split(1) by (auto simp: cs_def)
  have before: "c < d" if "c \<in> set cs" "d \<in> days_from r first (i + 1)" for c d
    using split(2) that by (auto simp: cs_def)
  have sorted: "sorted_wrt (<) cs" using split(3) by (simp add: cs_def sorted_wrt_filter)
  obtain xs n' res where emit: "emit r stop n cs = (xs, n', res)" by (cases "emit r stop n cs")
  have low: "\<not> max_empty_periods r < e'"
    using run p ds 1(5) by (auto simp: Let_def cs_def [symmetric] e'_def [symmetric] split: if_splits)
  show ?case
  proof (cases res)
    case (Some st')
    then have "ys = xs" "st = st'"
      using run p ds low emit by (simp_all add: Let_def cs_def [symmetric] e'_def [symmetric])
    then show ?thesis
      using emit_spec [OF emit] Some reads_up_to_period [OF sorted D before] by fastforce
  next
    case None
    obtain zs st' where rest: "days_loop r first stop (i + 1) n' e' = (zs, st')"
      by (cases "days_loop r first stop (i + 1) n' e'")
    have ys: "ys = xs @ zs" "st = st'"
      using run p ds low emit rest None by (simp_all add: Let_def cs_def [symmetric] e'_def [symmetric])
    have xs: "xs = cs" "n' = n + int (length cs)" "\<forall>d\<in>set cs. \<not> stop d \<and> until_ok r d" "cs \<noteq> [] \<longrightarrow> count_ok r n'"
      using emit_spec [OF emit] None by auto
    obtain b where b: "reads_up_to r (days_from r first (i + 1)) stop n' zs st' b"
      using 1(1) [OF p ds cs_def e'_def low emit [symmetric] refl None] 1(2,3,5,6) rest ys(2) by auto
    have "reads_up_to r (days_from r first i) stop n (cs @ zs) st' b"
      using reads_up_to_next [OF sorted D before xs(3)] b xs(2,4) by simp
    then show ?thesis using xs(1) ys by auto
  qed
qed

lemma same_week: "(s - week_start f) div 7 = (week_start s - week_start f) div 7"
proof -
  let ?n = "(week_start s - week_start f) div 7"
  have "week_start s = week_start f + 7 * ?n" using weeks_between [of s f ?n] by simp
  then have "s - week_start f = 7 * ?n + weekday s" by (simp add: week_start_def)
  then show ?thesis using weekday_range [of s] by (intro int_div_pos_eq) auto
qed

lemma first_index_units:
  "first_index r first (Some s) = max 0 (units r first s div step_of r)"
  by (cases "rp_freq r") (simp_all add: first_index_def units_def month_index_def same_week [of s first] algebra_simps)

lemma step_pos: "0 < step_of r"
  by (simp add: step_of_def)

lemma first_index_nonneg: "0 \<le> first_index r first s"
  by (cases s) (simp_all add: first_index_def)

lemma days_from_0: "valid_repeat r \<Longrightarrow> days_from r first 0 = {d. occurs_on r first d}"
  using units_mono [of first _ r first] by (auto simp: days_from_def occurs_on_def)

text \<open>Skipping leaves out only days before the one skipped to.\<close>

lemma skipped_days_earlier:
  assumes "valid_repeat r" and "occurs_on r first d" and "d \<notin> days_from r first (first_index r first (Some s))"
  shows "d < s"
proof (rule ccontr)
  assume "\<not> d < s"
  then have u: "units r first s \<le> units r first d" by (intro units_mono) simp
  have "0 \<le> units r first d"
    using units_mono [of first d r first] assms(2) by (simp add: occurs_on_def)
  moreover have "units r first s div step_of r * step_of r \<le> units r first s"
    using pos_mod_sign [of "step_of r" "units r first s"] div_mult_mod_eq [of "units r first s" "step_of r"] step_pos [of r]
    by linarith
  ultimately have "first_index r first (Some s) * step_of r \<le> units r first d"
    using u by (auto simp: first_index_units max_def)
  then show False using assms(2,3) by (simp add: days_from_def)
qed

lemma days_spec:
  assumes "wh_repeat w = Some r" and "valid_repeat r" and "days w since stop = (ys, st)"
    and "st \<noteq> Gave_up" and "st \<noteq> Raised"
  shows "\<exists>b. reads_up_to r (days_from r (day_part (wh_start w)) (first_index r (day_part (wh_start w)) (skip_to w r since)))
           stop 0 ys st b"
  using assms days_loop_spec [OF assms(2) first_index_nonneg] by (simp add: days_def Let_def)

section \<open>Skipping ahead\<close>

text \<open>
  What is relied on of a zone: its offsets are below a day, as \<open>tzinfo\<close> demands, and two wall-clock times a
  day or more apart keep their order.
\<close>

definition orderly_zone :: "zone \<Rightarrow> bool" where
  "orderly_zone zone \<longleftrightarrow>
     (\<forall>t. \<bar>zone t\<bar> < DAY) \<and> (\<forall>t t'. t + DAY \<le> t' \<longrightarrow> localize zone t \<le> localize zone t')"

lemma local_start_day: "d < e \<Longrightarrow> local_start w d + DAY \<le> local_start w e"
proof -
  assume "d < e"
  then have "(d + 1) * DAY \<le> e * DAY" by (intro mult_right_mono) (simp_all add: DAY_def)
  then show ?thesis by (simp add: local_start_def combine_def algebra_simps)
qed

lemma past_until_later: "orderly_zone zone \<Longrightarrow> past_until w zone u d \<Longrightarrow> d < e \<Longrightarrow> past_until w zone u e"
  using local_start_day [of d e w]
  by (fastforce simp: past_until_def occurrence_on_def orderly_zone_def Let_def split: option.splits)

lemma last_point_early:
  assumes "orderly_zone zone" and "d < day_part (t - (case window_length w of None \<Rightarrow> 0 | Some l \<Rightarrow> l) - 2 * DAY)"
    and "case window_length w of None \<Rightarrow> True | Some l \<Rightarrow> 0 \<le> l"
  shows "last_point (occurrence_on w zone d) < t"
proof -
  let ?l = "case window_length w of None \<Rightarrow> 0 | Some l \<Rightarrow> l"
  have z: "localize zone x < x + DAY" for x
    using assms(1) by (auto simp: orderly_zone_def localize_def abs_less_iff dest: spec [of _ x])
  have "(d + 1) * DAY \<le> (t - ?l - 2 * DAY) div DAY * DAY"
    using assms(2) by (intro mult_right_mono) (simp_all add: day_part_def DAY_def)
  also have "\<dots> \<le> t - ?l - 2 * DAY"
    using pos_mod_sign [of DAY "t - ?l - 2 * DAY"] div_mult_mod_eq [of "t - ?l - 2 * DAY" DAY] by (simp add: DAY_def)
  finally have "local_start w d + ?l + DAY < t"
    using pos_mod_bound [of DAY "wh_start w"] by (simp add: local_start_def combine_def time_part_def DAY_def algebra_simps)
  then show ?thesis
    using z [of "local_start w d"] z [of "local_start w d + ?l"] assms(3)
    by (auto simp: last_point_def occurrence_on_def Let_def split: option.splits)
qed

lemma kept_occurrences_drop:
  assumes "\<And>d. d \<in> set xs \<Longrightarrow> d \<notin> set ys \<Longrightarrow> last_point (occurrence_on w zone d) < t"
    and "sorted_wrt (<) xs" and "sorted_wrt (<) ys" and "set ys \<subseteq> set xs"
  shows "kept_occurrences w zone (Some t) xs = kept_occurrences w zone (Some t) ys"
proof -
  let ?P = "\<lambda>d. t \<le> last_point (occurrence_on w zone d) \<and> d \<notin> set (wh_exceptions w)"
  have k: "kept_occurrences w zone (Some t) zs = map (occurrence_on w zone) (filter ?P zs)" for zs
    by (simp add: kept_occurrences_def filter_map comp_def) (simp add: occurrence_on_def Let_def)
  have "filter ?P xs = filter ?P ys"
  proof (rule strict_sorted_equal)
    show "set (filter ?P xs) = set (filter ?P ys)" using assms(1,4) by fastforce
  qed (use assms(2,3) in \<open>simp_all add: sorted_wrt_filter\<close>)
  then show ?thesis unfolding k by simp
qed

lemma reading_from_later:
  assumes "reads_up_to r D stop n xs st b" and "reads_up_to r E stop n ys st' b'" and "rp_count r = None"
    and "E \<subseteq> D" and "\<And>d e. d \<in> E \<Longrightarrow> e \<in> D \<Longrightarrow> d \<le> e \<Longrightarrow> e \<in> E"
    and "\<And>d e. stop d \<Longrightarrow> d < e \<Longrightarrow> stop e"
  shows "set ys = set xs \<inter> E"
proof -
  have c: "count_ok r k" for k using assms(3) by (simp add: count_ok_def)
  have later: "\<not> until_ok r d \<Longrightarrow> d < e \<Longrightarrow> \<not> until_ok r e" for d e by (auto simp: until_ok_def split: option.splits)
  have b: "stop b \<or> \<not> until_ok r b" "stop b' \<or> \<not> until_ok r b'"
    using assms(1,2) c by (auto simp: reads_up_to_def ends_at_def split: gen_end.splits)
  have go: "\<not> stop d \<and> until_ok r d" if "d \<in> set xs \<or> d \<in> set ys" for d
    using assms(1,2) that by (auto simp: reads_up_to_def ends_at_def)
  have xs: "set xs = {d \<in> D. d < b}" and ys: "set ys = {d \<in> E. d < b'}" and bb: "b \<in> D" "b' \<in> E"
    using assms(1,2) by (auto simp: reads_up_to_def)
  have "\<not> b' < b" using go [of b'] b(2) bb(2) xs assms(4) by auto
  moreover have "d \<notin> set ys" if "b \<le> d" for d
    using go [of d] b(1) later [of b d] assms(6) [of b d] that by (cases "b = d") auto
  ultimately show ?thesis using xs ys assms(4) by force
qed

lemma reading_sorted: "reads_up_to r D stop n xs st b \<Longrightarrow> sorted_wrt (<) xs"
  by (simp add: reads_up_to_def)

lemma days_from_upward:
  "d \<in> days_from r first i \<Longrightarrow> e \<in> days_from r first 0 \<Longrightarrow> d \<le> e \<Longrightarrow> e \<in> days_from r first i"
  using units_mono [of d e r first] by (auto simp: days_from_def)

lemma days_from_subset: "0 \<le> i \<Longrightarrow> days_from r first i \<subseteq> days_from r first 0"
proof -
  assume "0 \<le> i"
  then have "0 \<le> i * step_of r" using step_pos [of r] by simp
  then show ?thesis by (auto simp: days_from_def)
qed

lemma skip_days_same:
  assumes "wh_repeat w = Some r" and "valid_repeat r" and "orderly_zone zone"
    and "case window_length w of None \<Rightarrow> True | Some l \<Rightarrow> 0 \<le> l"
    and "days w None (past_until w zone u) = (xs, st)" and "st \<notin> {Gave_up, Raised}"
    and "days w (Some t) (past_until w zone u) = (ys, st')" and "st' \<notin> {Gave_up, Raised}"
  shows "kept_occurrences w zone (Some t) ys = kept_occurrences w zone (Some t) xs"
proof (cases "rp_count r")
  case (Some k)
  then have "skip_to w r (Some t) = skip_to w r None" by (simp add: skip_to_def)
  then show ?thesis using assms(1,5,7) by (simp add: days_def)
next
  case None
  let ?first = "day_part (wh_start w)"
  let ?s = "day_part (t - (case window_length w of None \<Rightarrow> 0 | Some l \<Rightarrow> l) - 2 * DAY)"
  let ?E = "days_from r ?first (first_index r ?first (Some ?s))"
  obtain b where full: "reads_up_to r (days_from r ?first 0) (past_until w zone u) 0 xs st b"
    using days_spec [OF assms(1,2,5)] assms(6) by (auto simp: skip_to_def first_index_def)
  obtain b' where later: "reads_up_to r ?E (past_until w zone u) 0 ys st' b'"
    using days_spec [OF assms(1,2,7)] assms(8) None by (auto simp: skip_to_def)
  have ys: "set ys = set xs \<inter> ?E"
    using reading_from_later [OF full later None days_from_subset [OF first_index_nonneg]]
      days_from_upward past_until_later [OF assms(3)] by blast
  have "last_point (occurrence_on w zone d) < t" if "d \<in> set xs" "d \<notin> set ys" for d
  proof -
    have "occurs_on r ?first d" "d \<notin> ?E" using that ys full by (auto simp: reads_up_to_def days_from_def)
    then show ?thesis using last_point_early [OF assms(3) _ assms(4)] skipped_days_earlier [OF assms(2)] by blast
  qed
  then show ?thesis
    using kept_occurrences_drop [of xs ys] reading_sorted [OF full] reading_sorted [OF later] ys by auto
qed

lemma occurrences_since:
  assumes "case wh_repeat w of None \<Rightarrow> True | Some r \<Rightarrow> valid_repeat r" and "orderly_zone zone"
    and "case window_length w of None \<Rightarrow> True | Some l \<Rightarrow> 0 \<le> l"
    and "snd (occurrences w zone None u) \<notin> {Gave_up, Raised}"
    and "snd (occurrences w zone (Some t) u) \<notin> {Gave_up, Raised}"
  shows "fst (occurrences w zone (Some t) u) = filter (\<lambda>oc. t \<le> last_point oc) (fst (occurrences w zone None u))"
proof -
  obtain xs st where xs: "days w None (past_until w zone u) = (xs, st)" by fastforce
  obtain ys st' where ys: "days w (Some t) (past_until w zone u) = (ys, st')" by fastforce
  have "kept_occurrences w zone (Some t) ys = kept_occurrences w zone (Some t) xs"
  proof (cases "wh_repeat w")
    case None
    then show ?thesis using xs ys by (simp add: days_def Let_def)
  next
    case (Some r)
    then show ?thesis using skip_days_same [OF Some _ assms(2,3) xs _ ys] assms(1,4,5) xs ys by (simp add: occurrences_def)
  qed
  also have "\<dots> = filter (\<lambda>oc. t \<le> last_point oc) (kept_occurrences w zone None xs)"
    by (simp add: kept_occurrences_def conj_commute)
  finally show ?thesis using xs ys by (simp add: occurrences_def)
qed

text \<open>The windows of a rule, those of one of its neighbours after the other.\<close>

lemma first_self_overlap_None:
  assumes "0 \<le> l" and "first_self_overlap w l ds = None"
  shows "sorted_wrt (\<lambda>d e. local_start w d + l \<le> local_start w e) ds"
proof -
  have "successively (\<lambda>d e. local_start w d + l \<le> local_start w e) ds"
    using assms(2) by (induction w l ds rule: first_self_overlap.induct) (auto split: if_splits)
  moreover have "transp (\<lambda>d e. local_start w d + l \<le> local_start w e)"
    using assms(1) by (auto intro!: transpI)
  ultimately show ?thesis by (simp add: successively_conv_sorted_wrt)
qed

section \<open>Properties of the rules\<close>

text \<open>The last day on which a repeat may first occur.\<close>

definition occurrence_horizon :: "when_rule \<Rightarrow> date" where
  "occurrence_horizon w =
     (let start = day_part (wh_start w)
      in make_date (year_of start) (month_of start) 1 + 366 * FIRST_OCCURRENCE_HORIZON_YEARS)"

text \<open>A rule for examples: 18:00 to 20:00 on Mondays and Thursdays from 2026-10-19, until 2026-11-05.\<close>

definition evening_repeat :: repeat where
  "evening_repeat = \<lparr>rp_freq = Weekly, rp_interval = 1, rp_by_weekday = [0, 3], rp_by_month_day = [],
     rp_by_set_pos = None, rp_by_month = [], rp_until = Some 739925, rp_count = None\<rparr>"

definition evening :: when_rule where
  "evening = \<lparr>wh_start = 739908 * DAY + 64800000000, wh_end = Some (739908 * DAY + 72000000000),
     wh_repeat = Some evening_repeat, wh_exceptions = [739915]\<rparr>"

lemma valid_evening: "wh_repeat evening = Some evening_repeat" "valid_repeat evening_repeat"
  by (simp_all add: evening_def evening_repeat_def valid_repeat_def)

lemma evening_days: "days evening None (\<lambda>_. False) = ([739908, 739911, 739915, 739918, 739922, 739925], Returned)"
  by code_simp

lemma evening_checked: "check_when evening = Inr evening"
  by code_simp

text \<open>A zone two hours ahead of UTC.\<close>

definition two_hours_ahead :: zone where "two_hours_ahead t = 7200000000"

lemma orderly_two_hours_ahead: "orderly_zone two_hours_ahead"
  by (simp add: orderly_zone_def two_hours_ahead_def localize_def DAY_def)

lemma evening_occurrences:
  "snd (occurrences evening two_hours_ahead None None) = Returned"
  "snd (occurrences evening two_hours_ahead (Some (739918 * DAY)) None) = Returned"
  "map oc_day (fst (occurrences evening two_hours_ahead (Some (739918 * DAY)) None)) = [739918, 739922, 739925]"
  by code_simp+

lemma horizon_stop: "(\<lambda>d. wh_start w + n * DAY < local_start w d) = (\<lambda>d. day_part (wh_start w) + n < d)"
proof
  fix d
  have "wh_start w = combine (day_part (wh_start w)) (time_part (wh_start w))"
    by (simp add: combine_def day_part_def time_part_def)
  then have "wh_start w + n * DAY < local_start w d \<longleftrightarrow> (day_part (wh_start w) + n) * DAY < d * DAY"
    by (simp add: local_start_def combine_def algebra_simps) linarith
  also have "\<dots> \<longleftrightarrow> day_part (wh_start w) + n < d" by (auto simp: DAY_def)
  finally show "(wh_start w + n * DAY < local_start w d) = (day_part (wh_start w) + n < d)" .
qed





text \<open>
  The windows of an accepted rule follow one another: none of those that start in the first 800 days
  starts before an earlier one has ended.
\<close>

lemma accepted_windows_do_not_overlap:
  assumes "check_when w = Inr w'" and "wh_end w \<noteq> None"
  shows "sorted_wrt (\<lambda>a b. snd a \<le> fst b)
    (fst (wall_windows w None (wh_start w + SELF_OVERLAP_HORIZON_DAYS * DAY)))"
proof (cases "window_length w")
  case (Some l)
  let ?first = "day_part (wh_start w)"
  let ?stop = "\<lambda>d. wh_start w + SELF_OVERLAP_HORIZON_DAYS * DAY < local_start w d"
  have l: "0 \<le> l" using assms(1) Some by (auto simp: check_when_def MIN_WINDOW_def MINUTE_def split: if_splits)
  obtain ds st where ds: "days w None ?stop = (ds, st)" by fastforce
  have "sorted_wrt (\<lambda>d e. local_start w d + l \<le> local_start w e) ds"
  proof (cases "wh_repeat w")
    case None
    then show ?thesis using ds by (auto simp: days_def Let_def split: if_splits)
  next
    case Some
    have "first_self_overlap w l (fst (days w None (\<lambda>d. ?first + SELF_OVERLAP_HORIZON_DAYS < d))) = None"
      using assms(1) \<open>window_length w = Some l\<close> Some
      by (auto simp: check_when_def refuse_self_overlap_def date_plus_def Let_def split: if_splits sum.splits option.splits prod.splits)
    then show ?thesis using first_self_overlap_None [OF l] ds horizon_stop [of w SELF_OVERLAP_HORIZON_DAYS] by simp
  qed
  then show ?thesis using Some ds by (simp add: wall_windows_def Let_def sorted_wrt_map sorted_wrt_filter)
next
  case None
  then show ?thesis using assms(2) by (simp add: window_length_def)
qed

text \<open>
  An accepted repeat occurs: it has a day not later than eight leap years after the first of the month
  of its start.
\<close>

lemma accepted_repeat_occurs:
  assumes "check_when w = Inr w'" and "wh_repeat w = Some r" and "valid_repeat r"
  shows "\<exists>d. occurs_on r (day_part (wh_start w)) d \<and> until_ok r d \<and>
    d \<le> occurrence_horizon w"
proof -
  obtain ds d where d: "days w None (\<lambda>_. True) = (ds, Stopped d)" "d \<le> occurrence_horizon w"
    using assms(1) by (auto simp: check_when_def require_an_occurrence_def occurrence_horizon_def date_plus_def Let_def not_less
        split: if_splits sum.splits option.splits prod.splits gen_end.splits)
  obtain b where "reads_up_to r (days_from r (day_part (wh_start w)) 0) (\<lambda>_. True) 0 ds (Stopped d) b"
    using days_spec [OF assms(2,3) d(1)] by (auto simp: skip_to_def first_index_def)
  then show ?thesis
    using d(2) by (auto simp: reads_up_to_def ends_at_def days_from_def)
qed

text \<open>
  A rule whose start's month is less than eight leap years before the end of the calendar is not refused
  with the error of a rule that cannot be scheduled: the check's own horizon leaves the range of dates.
\<close>

lemma start_near_the_end_of_the_calendar_overflows:
  assumes "case window_length w of None \<Rightarrow> True | Some l \<Rightarrow> MIN_WINDOW \<le> l"
    and "MAX_ORDINAL < occurrence_horizon w"
  shows "check_when w = Inl Date_overflow"
  using assms by (auto simp: check_when_def require_an_occurrence_def date_plus_def occurrence_horizon_def Let_def
      split: option.splits)

end
