(* ===== verification/Schedule_Model.thy ===== *)
theory Schedule_Model
  imports Schedule_Recurrence
begin

text \<open>
  The timing of a rule in JSON: \<open>parse_when\<close> and \<open>when_payload\<close> of \<open>ems/schedule_recurrence.py\<close>.

  A parser returns the parsed value or the error; the first failing check decides. Python sets are sorted
  lists without repetitions. Proved: every parsed rule is well formed, and a parsed rule is read back from
  its JSON form.
\<close>

section \<open>Fields of a repeat\<close>

definition WEEKDAYS :: "string list" where
  "WEEKDAYS = [''mo'', ''tu'', ''we'', ''th'', ''fr'', ''sa'', ''su'']"

definition SET_POSITIONS :: "int list" where "SET_POSITIONS = [1, 2, 3, 4, - 1]"

definition MAX_INTERVAL :: int where "MAX_INTERVAL = 366"

definition MAX_COUNT :: int where "MAX_COUNT = 1000"

definition MAX_EXCEPTIONS :: nat where "MAX_EXCEPTIONS = 50"

text \<open>\<open>sorted(set(xs))\<close>.\<close>

definition as_set :: "int list \<Rightarrow> int list" where "as_set xs = sort (remdups xs)"

definition freq_text :: "frequency \<Rightarrow> string" where
  "freq_text f = (case f of Daily \<Rightarrow> ''daily'' | Weekly \<Rightarrow> ''weekly'' | Monthly \<Rightarrow> ''monthly'' | Yearly \<Rightarrow> ''yearly'')"

definition parse_freq :: "json \<Rightarrow> time_error + frequency" where
  "parse_freq v = from_option (Bad_field ''freq'') (find (\<lambda>f. v = Jstr (freq_text f)) [Daily, Weekly, Monthly, Yearly])"

definition parse_whole :: "string \<Rightarrow> int \<Rightarrow> int \<Rightarrow> json \<Rightarrow> time_error + int" where
  "parse_whole field lo hi v =
     (case v of Jint n \<Rightarrow> if lo \<le> n \<and> n \<le> hi then Inr n else Inl (Bad_field field) | _ \<Rightarrow> Inl (Bad_field field))"

definition parse_weekday :: "json \<Rightarrow> time_error + int" where
  "parse_weekday v =
     from_option (Bad_field ''by_weekday'')
       (map_option int (find (\<lambda>i. v = Jstr (WEEKDAYS ! i)) [0..<length WEEKDAYS]))"

text \<open>A list of numbers, where null stands for none.\<close>

definition parse_set :: "string \<Rightarrow> (json \<Rightarrow> time_error + int) \<Rightarrow> json \<Rightarrow> time_error + int list" where
  "parse_set field element v =
     (case v of
        Jnull \<Rightarrow> Inr []
      | Jlist xs \<Rightarrow> ok_then (all_ok element xs) (\<lambda>ns. Inr (as_set ns))
      | _ \<Rightarrow> Inl (Bad_field field))"

definition parse_weekdays :: "json \<Rightarrow> time_error + int list" where
  "parse_weekdays v = parse_set ''by_weekday'' parse_weekday v"

definition parse_month_day :: "json \<Rightarrow> time_error + int" where
  "parse_month_day v =
     (if v = Jint (- 1) then Inr (- 1) else parse_whole ''by_month_day'' 1 31 v)"

definition parse_month_days :: "json \<Rightarrow> time_error + int list" where
  "parse_month_days v = parse_set ''by_month_day'' parse_month_day v"

definition parse_months :: "json \<Rightarrow> time_error + int list" where
  "parse_months v = parse_set ''by_month'' (parse_whole ''by_month'' 1 12) v"

text \<open>
  The position and whether it is a float: \<open>by_set_pos not in SET_POSITIONS\<close> compares by value, so \<open>1.0\<close> passes
  for 1, and stays a float.
\<close>

definition parse_set_pos :: "json \<Rightarrow> time_error + (int \<times> bool) option" where
  "parse_set_pos v =
     (case v of
        Jnull \<Rightarrow> Inr None
      | Jint n \<Rightarrow> if n \<in> set SET_POSITIONS then Inr (Some (n, False)) else Inl (Bad_field ''by_set_pos'')
      | Jfloat x \<Rightarrow>
          (case find (\<lambda>n. x = Fin (of_int n)) SET_POSITIONS of
             Some n \<Rightarrow> Inr (Some (n, True))
           | None \<Rightarrow> Inl (Bad_field ''by_set_pos''))
      | _ \<Rightarrow> Inl (Bad_field ''by_set_pos''))"

definition parse_day :: "string \<Rightarrow> json \<Rightarrow> time_error + date" where
  "parse_day field v =
     (case v of Jstr s \<Rightarrow> from_option (Bad_field field) (date_fromisoformat (py_strip s)) | _ \<Rightarrow> Inl (Bad_field field))"

definition parse_local :: "string \<Rightarrow> json \<Rightarrow> time_error + micros" where
  "parse_local field v =
     (case v of Jstr s \<Rightarrow> from_option (Bad_field field) (strptime_local (py_strip s)) | _ \<Rightarrow> Inl (Bad_field field))"

text \<open>An optional field, where null stands for none.\<close>

definition parse_optional :: "(json \<Rightarrow> 'e + 'a) \<Rightarrow> json \<Rightarrow> 'e + 'a option" where
  "parse_optional parse v = (if v = Jnull then Inr None else ok_then (parse v) (\<lambda>x. Inr (Some x)))"

definition require :: "bool \<Rightarrow> string \<Rightarrow> time_error + unit" where
  "require b field = (if b then Inr () else Inl (Bad_field field))"

section \<open>A repeat\<close>

definition REPEAT_FIELDS :: "string list" where
  "REPEAT_FIELDS =
     [''freq'', ''interval'', ''by_weekday'', ''by_month_day'', ''by_set_pos'', ''by_month'', ''until'', ''count'']"

text \<open>\<open>payload.get("interval", 1)\<close>: null is not the default.\<close>

definition parse_interval :: "json_object \<Rightarrow> time_error + int" where
  "parse_interval ob =
     (case map_of ob ''interval'' of None \<Rightarrow> Inr 1 | Some v \<Rightarrow> parse_whole ''interval'' 1 MAX_INTERVAL v)"

definition parse_repeat_object :: "micros \<Rightarrow> json_object \<Rightarrow> time_error + repeat \<times> bool" where
  "parse_repeat_object start ob =
     ok_then (if only_fields REPEAT_FIELDS ob then Inr () else Inl Unknown_field) (\<lambda>_.
     ok_then (parse_freq (jget ob ''freq'')) (\<lambda>freq.
     ok_then (parse_interval ob) (\<lambda>interval.
     ok_then (parse_weekdays (jget ob ''by_weekday'')) (\<lambda>weekdays.
     ok_then (parse_month_days (jget ob ''by_month_day'')) (\<lambda>month_days.
     ok_then (parse_months (jget ob ''by_month'')) (\<lambda>months.
     ok_then (parse_set_pos (jget ob ''by_set_pos'')) (\<lambda>pos.
     ok_then (require (pos = None \<or> (freq = Monthly \<or> freq = Yearly) \<and> weekdays \<noteq> []) ''by_set_pos'') (\<lambda>_.
     ok_then (require (pos = None \<or> month_days = []) ''by_set_pos'') (\<lambda>_.
     ok_then (require (month_days = [] \<or> freq = Monthly \<or> freq = Yearly) ''by_month_day'') (\<lambda>_.
     ok_then (require (month_days = [] \<or> weekdays = []) ''by_month_day'') (\<lambda>_.
     ok_then (require (jget ob ''until'' = Jnull \<or> jget ob ''count'' = Jnull) ''until'') (\<lambda>_.
     ok_then (parse_optional (parse_day ''until'') (jget ob ''until'')) (\<lambda>last.
     ok_then (require (case last of None \<Rightarrow> True | Some u \<Rightarrow> day_part start \<le> u) ''until'') (\<lambda>_.
     ok_then (parse_optional (parse_whole ''count'' 1 MAX_COUNT) (jget ob ''count'')) (\<lambda>count.
       Inr (\<lparr>rp_freq = freq, rp_interval = interval, rp_by_weekday = weekdays, rp_by_month_day = month_days,
             rp_by_set_pos = map_option fst pos, rp_by_month = months, rp_until = last, rp_count = count\<rparr>,
            (case pos of Some (_, float) \<Rightarrow> float | None \<Rightarrow> False)))))))))))))))))"

definition parse_repeat :: "micros \<Rightarrow> json \<Rightarrow> time_error + (repeat \<times> bool) option" where
  "parse_repeat start v =
     (case v of
        Jnull \<Rightarrow> Inr None
      | Jobj ob \<Rightarrow> ok_then (parse_repeat_object start ob) (\<lambda>r. Inr (Some r))
      | _ \<Rightarrow> Inl (Bad_field ''repeat''))"

section \<open>The timing of a rule\<close>

definition parse_exceptions :: "json \<Rightarrow> time_error + date list" where
  "parse_exceptions v =
     (case v of
        Jnull \<Rightarrow> Inr []
      | Jlist xs \<Rightarrow>
          if MAX_EXCEPTIONS < length xs then Inl (Bad_field ''exceptions'')
          else ok_then (all_ok (parse_day ''exception'') xs) (\<lambda>ds. Inr (as_set ds))
      | _ \<Rightarrow> Inl (Bad_field ''exceptions''))"

text \<open>
  The checks of a rule whose position is a float: the horizon is computed first, then the first month read
  raises for an index that is no whole number (every month has four of each weekday, so the index is in range).
\<close>

definition check_float_position :: "when_rule \<Rightarrow> time_error + when_rule" where
  "check_float_position w =
     ok_then (date_plus (make_date (year_of (day_part (wh_start w))) (month_of (day_part (wh_start w))) 1)
                (366 * FIRST_OCCURRENCE_HORIZON_YEARS))
       (\<lambda>_. Inl Type_error)"

definition check_timing :: "bool \<Rightarrow> when_rule \<Rightarrow> time_error + when_rule" where
  "check_timing float w = (if float then check_float_position w else check_when w)"

definition float_position :: "(repeat \<times> bool) option \<Rightarrow> bool" where
  "float_position rep = (case rep of Some (_, float) \<Rightarrow> float | None \<Rightarrow> False)"

definition check_end :: "micros \<Rightarrow> micros option \<Rightarrow> time_error + unit" where
  "check_end start finish =
     (case finish of None \<Rightarrow> Inr () | Some e \<Rightarrow> if e - start < MIN_WINDOW then Inl End_before_start else Inr ())"

definition WHEN_FIELDS :: "string list" where
  "WHEN_FIELDS = [''start'', ''end'', ''repeat'', ''exceptions'']"

definition parse_when :: "json \<Rightarrow> time_error + when_rule" where
  "parse_when v =
     (case v of
        Jobj ob \<Rightarrow>
          ok_then (if only_fields WHEN_FIELDS ob then Inr () else Inl Unknown_field) (\<lambda>_.
          ok_then (parse_local ''start'' (jget ob ''start'')) (\<lambda>start.
          ok_then (parse_optional (parse_local ''end'') (jget ob ''end'')) (\<lambda>last.
          ok_then (check_end start last) (\<lambda>_.
          ok_then (parse_repeat start (jget ob ''repeat'')) (\<lambda>rep.
          ok_then (parse_exceptions (jget ob ''exceptions'')) (\<lambda>exceptions.
            check_timing (float_position rep)
              \<lparr>wh_start = start, wh_end = last, wh_repeat = map_option fst rep, wh_exceptions = exceptions\<rparr>))))))
      | _ \<Rightarrow> Inl (Bad_field ''when''))"

definition repeat_payload :: "repeat \<Rightarrow> json" where
  "repeat_payload r =
     Jobj [(''freq'', Jstr (freq_text (rp_freq r))),
           (''interval'', Jint (rp_interval r)),
           (''by_weekday'', Jlist (map (\<lambda>d. Jstr (WEEKDAYS ! nat d)) (rp_by_weekday r))),
           (''by_month_day'', Jlist (map Jint (rp_by_month_day r))),
           (''by_set_pos'', (case rp_by_set_pos r of None \<Rightarrow> Jnull | Some p \<Rightarrow> Jint p)),
           (''by_month'', Jlist (map Jint (rp_by_month r))),
           (''until'', (case rp_until r of None \<Rightarrow> Jnull | Some u \<Rightarrow> Jstr (isoformat u))),
           (''count'', (case rp_count r of None \<Rightarrow> Jnull | Some k \<Rightarrow> Jint k))]"

text \<open>The dates of \<open>wh_exceptions\<close> are in order, and so are their ISO texts.\<close>

definition when_payload :: "when_rule \<Rightarrow> json" where
  "when_payload w =
     Jobj ([(''start'', Jstr (strftime_local (wh_start w)))] @
           (case wh_end w of None \<Rightarrow> [] | Some e \<Rightarrow> [(''end'', Jstr (strftime_local e))]) @
           (case wh_repeat w of None \<Rightarrow> [] | Some r \<Rightarrow> [(''repeat'', repeat_payload r)]) @
           (if wh_exceptions w = [] then []
            else [(''exceptions'', Jlist (map (\<lambda>d. Jstr (isoformat d)) (wh_exceptions w)))]))"

section \<open>Well-formed rules\<close>

definition in_calendar :: "date \<Rightarrow> bool" where
  "in_calendar d \<longleftrightarrow> 1 \<le> year_of d \<and> year_of d \<le> 9999"

definition whole_minute :: "micros \<Rightarrow> bool" where
  "whole_minute t \<longleftrightarrow> t mod MINUTE = 0 \<and> in_calendar (day_part t)"

definition well_formed_repeat :: "micros \<Rightarrow> repeat \<Rightarrow> bool" where
  "well_formed_repeat start r \<longleftrightarrow>
     valid_repeat r \<and> rp_interval r \<le> MAX_INTERVAL \<and> sorted_wrt (<) (rp_by_month_day r) \<and>
     (rp_by_set_pos r = None \<or> (rp_freq r = Monthly \<or> rp_freq r = Yearly) \<and> rp_by_weekday r \<noteq> [] \<and> rp_by_month_day r = []) \<and>
     (rp_by_month_day r = [] \<or> (rp_freq r = Monthly \<or> rp_freq r = Yearly) \<and> rp_by_weekday r = []) \<and>
     (rp_until r = None \<or> rp_count r = None) \<and>
     (case rp_until r of None \<Rightarrow> True | Some u \<Rightarrow> in_calendar u \<and> day_part start \<le> u) \<and>
     (case rp_count r of None \<Rightarrow> True | Some k \<Rightarrow> 1 \<le> k \<and> k \<le> MAX_COUNT)"

definition well_formed_when :: "when_rule \<Rightarrow> bool" where
  "well_formed_when w \<longleftrightarrow>
     whole_minute (wh_start w) \<and>
     (case wh_end w of None \<Rightarrow> True | Some e \<Rightarrow> whole_minute e \<and> wh_start w + MIN_WINDOW \<le> e) \<and>
     (case wh_repeat w of None \<Rightarrow> True | Some r \<Rightarrow> well_formed_repeat (wh_start w) r) \<and>
     sorted_wrt (<) (wh_exceptions w) \<and> length (wh_exceptions w) \<le> MAX_EXCEPTIONS \<and>
     list_all in_calendar (wh_exceptions w)"

lemma as_set_props: "sorted_wrt (<) (as_set xs)" "set (as_set xs) = set xs" "length (as_set xs) \<le> length xs"
  by (simp_all add: as_set_def strict_sorted_iff length_remdups_leq)

lemma as_set_id: "sorted_wrt (<) xs \<Longrightarrow> as_set xs = xs"
  by (simp add: as_set_def strict_sorted_iff sorted_sort_id)

lemma find_Some_mem: "find P xs = Some x \<Longrightarrow> x \<in> set xs \<and> P x"
  by (auto simp: find_Some_iff)

lemma parse_whole_Inr: "parse_whole f lo hi v = Inr n \<longleftrightarrow> v = Jint n \<and> lo \<le> n \<and> n \<le> hi"
  by (auto simp: parse_whole_def split: json.splits)

lemma parse_set_Inr:
  assumes "parse_set f element v = Inr ns" and "\<And>x n. element x = Inr n \<Longrightarrow> P n"
  shows "sorted_wrt (<) ns \<and> list_all P ns"
  using assms(1) all_ok_mem assms(2) by (fastforce simp: parse_set_def list_all_iff as_set_props split: json.splits)

lemma parse_weekday_range: "parse_weekday v = Inr n \<Longrightarrow> 0 \<le> n \<and> n \<le> 6"
proof -
  assume "parse_weekday v = Inr n"
  then obtain i where "find (\<lambda>i. v = Jstr (WEEKDAYS ! i)) [0..<length WEEKDAYS] = Some i" "n = int i"
    by (auto simp: parse_weekday_def)
  then have "i < length WEEKDAYS" "n = int i" using find_Some_mem by fastforce+
  then show ?thesis by (simp add: WEEKDAYS_def)
qed

lemma parse_month_day_range: "parse_month_day v = Inr n \<Longrightarrow> n = - 1 \<or> 1 \<le> n \<and> n \<le> 31"
  by (auto simp: parse_month_day_def parse_whole_Inr split: if_splits)

lemma parse_set_pos_range: "parse_set_pos v = Inr (Some (n, float)) \<Longrightarrow> n \<in> set SET_POSITIONS"
  by (auto simp: parse_set_pos_def split: json.splits if_splits option.splits dest!: find_Some_mem)

lemma parse_day_calendar: "parse_day f v = Inr d \<Longrightarrow> in_calendar d"
  using date_fromisoformat_year by (auto simp: parse_day_def in_calendar_def split: json.splits)

lemma parse_local_minute: "parse_local f v = Inr t \<Longrightarrow> whole_minute t"
  using strptime_local_range by (auto simp: parse_local_def whole_minute_def in_calendar_def split: json.splits)

lemma require_Inr [simp]: "require b f = Inr u \<longleftrightarrow> b"
  by (simp add: require_def)

lemma parse_optional_Inr: "parse_optional parse v = Inr x \<longleftrightarrow>
    (if v = Jnull then x = None else \<exists>y. parse v = Inr y \<and> x = Some y)"
  by (auto simp: parse_optional_def)

lemma parse_exceptions_Inr:
  "parse_exceptions v = Inr ds \<Longrightarrow> sorted_wrt (<) ds \<and> length ds \<le> MAX_EXCEPTIONS \<and> list_all in_calendar ds"
proof -
  assume "parse_exceptions v = Inr ds"
  then consider "ds = []" | xs ns where "length xs \<le> MAX_EXCEPTIONS" "all_ok (parse_day ''exception'') xs = Inr ns" "ds = as_set ns"
    by (auto simp: parse_exceptions_def not_less split: json.splits if_splits)
  then show ?thesis
  proof cases
    case 2
    have "list_all in_calendar ns" using all_ok_mem [OF 2(2)] parse_day_calendar by (fastforce simp: list_all_iff)
    then show ?thesis
      using 2(1) all_ok_length [OF 2(2)] as_set_props(3) [of ns] by (simp add: 2(3) as_set_props(1,2) list_all_iff)
  qed simp
qed

lemma parse_repeat_well_formed:
  assumes "parse_repeat_object start ob = Inr (r, float)"
  shows "well_formed_repeat start r"
proof -
  obtain freq interval weekdays month_days months pos last count where p:
      "parse_interval ob = Inr interval"
      "parse_weekdays (jget ob ''by_weekday'') = Inr weekdays" "parse_month_days (jget ob ''by_month_day'') = Inr month_days"
      "parse_months (jget ob ''by_month'') = Inr months" "parse_set_pos (jget ob ''by_set_pos'') = Inr pos"
      "pos = None \<or> (freq = Monthly \<or> freq = Yearly) \<and> weekdays \<noteq> []" "pos = None \<or> month_days = []"
      "month_days = [] \<or> freq = Monthly \<or> freq = Yearly" "month_days = [] \<or> weekdays = []"
      "jget ob ''until'' = Jnull \<or> jget ob ''count'' = Jnull" "parse_optional (parse_day ''until'') (jget ob ''until'') = Inr last"
      "case last of None \<Rightarrow> True | Some u \<Rightarrow> day_part start \<le> u"
      "parse_optional (parse_whole ''count'' 1 MAX_COUNT) (jget ob ''count'') = Inr count"
    and r: "r = \<lparr>rp_freq = freq, rp_interval = interval, rp_by_weekday = weekdays, rp_by_month_day = month_days,
             rp_by_set_pos = map_option fst pos, rp_by_month = months, rp_until = last, rp_count = count\<rparr>"
    using assms by (clarsimp simp: parse_repeat_object_def)
  have interval: "1 \<le> interval \<and> interval \<le> MAX_INTERVAL"
    using p(1) by (auto simp: parse_interval_def parse_whole_Inr MAX_INTERVAL_def split: option.splits)
  have lists: "sorted_wrt (<) weekdays \<and> list_all (\<lambda>d. 0 \<le> d \<and> d \<le> 6) weekdays"
      "sorted_wrt (<) month_days \<and> list_all (\<lambda>d. d = - 1 \<or> 1 \<le> d \<and> d \<le> 31) month_days"
      "sorted_wrt (<) months \<and> list_all (\<lambda>m. 1 \<le> m \<and> m \<le> 12) months"
    using parse_set_Inr [OF p(2) [unfolded parse_weekdays_def] parse_weekday_range]
      parse_set_Inr [OF p(3) [unfolded parse_month_days_def] parse_month_day_range]
      parse_set_Inr [OF p(4) [unfolded parse_months_def], of "\<lambda>m. 1 \<le> m \<and> m \<le> 12"] by (simp_all add: parse_whole_Inr)
  have pos: "case map_option fst pos of None \<Rightarrow> True | Some n \<Rightarrow> n \<in> set SET_POSITIONS"
    using p(5) parse_set_pos_range by (cases pos) auto
  have "case last of None \<Rightarrow> True | Some u \<Rightarrow> in_calendar u" "case count of None \<Rightarrow> True | Some k \<Rightarrow> 1 \<le> k \<and> k \<le> MAX_COUNT"
      "last = None \<or> count = None"
    using p(10,11,13) parse_day_calendar by (auto simp: parse_optional_Inr parse_whole_Inr split: if_splits)
  then show ?thesis
    using interval lists pos p(6-9,12) unfolding r well_formed_repeat_def valid_repeat_def SET_POSITIONS_def
    by (simp split: option.split_asm; blast)
qed

lemma check_when_Inr: "check_when w = Inr w' \<Longrightarrow> w' = w"
  by (auto simp: check_when_def split: if_splits sum.splits)

lemma check_timing_Inr [simp]: "check_timing float w = Inr w' \<longleftrightarrow> \<not> float \<and> check_when w = Inr w'"
  by (simp add: check_timing_def check_float_position_def)

lemma check_end_Inr [simp]:
  "check_end start finish = Inr u \<longleftrightarrow> (case finish of None \<Rightarrow> True | Some e \<Rightarrow> start + MIN_WINDOW \<le> e)"
  by (auto simp: check_end_def split: option.splits)

lemma parse_when_parts:
  assumes "parse_when v = Inr w"
  shows "well_formed_when w \<and> check_when w = Inr w"
proof -
  obtain ob start last rep exceptions where p: "parse_local ''start'' (jget ob ''start'') = Inr start"
      "parse_optional (parse_local ''end'') (jget ob ''end'') = Inr last"
      "case last of None \<Rightarrow> True | Some e \<Rightarrow> start + MIN_WINDOW \<le> e"
      "parse_repeat start (jget ob ''repeat'') = Inr rep" "parse_exceptions (jget ob ''exceptions'') = Inr exceptions"
    and w: "check_when \<lparr>wh_start = start, wh_end = last, wh_repeat = map_option fst rep, wh_exceptions = exceptions\<rparr> = Inr w"
    using assms by (auto simp: parse_when_def split: json.splits if_splits)
  have "case map_option fst rep of None \<Rightarrow> True | Some r \<Rightarrow> well_formed_repeat start r"
    using p(4) parse_repeat_well_formed by (auto simp: parse_repeat_def split: json.splits)
  moreover have "case last of None \<Rightarrow> True | Some e \<Rightarrow> whole_minute e"
    using p(2) parse_local_minute by (auto simp: parse_optional_Inr split: if_splits)
  ultimately show ?thesis
    using check_when_Inr [OF w] w p(3) parse_local_minute [OF p(1)] parse_exceptions_Inr [OF p(5)]
    by (auto simp: well_formed_when_def split: option.splits)
qed

section \<open>Reading back\<close>

lemma parse_set_map:
  assumes "\<And>x. x \<in> set xs \<Longrightarrow> element (f x) = Inr x" and "sorted_wrt (<) xs"
  shows "parse_set field element (Jlist (map f xs)) = Inr xs"
  using assms by (simp add: parse_set_def all_ok_map as_set_id)

lemma parse_freq_text [simp]: "parse_freq (Jstr (freq_text f)) = Inr f"
  by (cases f) (simp_all add: parse_freq_def freq_text_def from_option_def)

lemma parse_weekday_text: "0 \<le> d \<Longrightarrow> d \<le> 6 \<Longrightarrow> parse_weekday (Jstr (WEEKDAYS ! nat d)) = Inr d"
proof -
  assume "0 \<le> d" "d \<le> 6"
  then have "d = 0 \<or> d = 1 \<or> d = 2 \<or> d = 3 \<or> d = 4 \<or> d = 5 \<or> d = 6" by linarith
  then show ?thesis by (elim disjE; hypsubst; code_simp)
qed

lemma parse_set_pos_text:
  "case p of None \<Rightarrow> True | Some n \<Rightarrow> n \<in> set SET_POSITIONS \<Longrightarrow>
   parse_set_pos (case p of None \<Rightarrow> Jnull | Some n \<Rightarrow> Jint n) = Inr (map_option (\<lambda>n. (n, False)) p)"
  by (cases p) (simp_all add: parse_set_pos_def)

lemma parse_day_text: "in_calendar d \<Longrightarrow> parse_day f (Jstr (isoformat d)) = Inr d"
  using fromisoformat_isoformat [of d] by (simp add: parse_day_def in_calendar_def)

lemma parse_optional_text:
  "(\<And>x. p = Some x \<Longrightarrow> f x \<noteq> Jnull \<and> parse (f x) = Inr x) \<Longrightarrow>
   parse_optional parse (case p of None \<Rightarrow> Jnull | Some x \<Rightarrow> f x) = Inr p"
  by (cases p) (simp_all add: parse_optional_def)

lemma parse_repeat_payload:
  assumes "well_formed_repeat start r"
  shows "parse_repeat start (repeat_payload r) = Inr (Some (r, False))"
proof -
  note wf = assms [unfolded well_formed_repeat_def valid_repeat_def]
  have sets: "parse_weekdays (Jlist (map (\<lambda>d. Jstr (WEEKDAYS ! nat d)) (rp_by_weekday r))) = Inr (rp_by_weekday r)"
      "parse_month_days (Jlist (map Jint (rp_by_month_day r))) = Inr (rp_by_month_day r)"
      "parse_months (Jlist (map Jint (rp_by_month r))) = Inr (rp_by_month r)"
    unfolding parse_weekdays_def parse_month_days_def parse_months_def
    using wf by (auto intro!: parse_set_map simp: list_all_iff parse_weekday_text parse_month_day_def parse_whole_Inr)
  have pos: "parse_set_pos (case rp_by_set_pos r of None \<Rightarrow> Jnull | Some n \<Rightarrow> Jint n) =
      Inr (map_option (\<lambda>n. (n, False)) (rp_by_set_pos r))"
    using wf by (intro parse_set_pos_text) (auto simp: SET_POSITIONS_def split: option.splits)
  have ends: "parse_optional (parse_day ''until'') (case rp_until r of None \<Rightarrow> Jnull | Some u \<Rightarrow> Jstr (isoformat u)) = Inr (rp_until r)"
      "parse_optional (parse_whole ''count'' 1 MAX_COUNT) (case rp_count r of None \<Rightarrow> Jnull | Some k \<Rightarrow> Jint k) = Inr (rp_count r)"
    using wf by (auto intro!: parse_optional_text simp: parse_day_text parse_whole_Inr)
  have interval: "parse_whole ''interval'' 1 MAX_INTERVAL (Jint (rp_interval r)) = Inr (rp_interval r)"
    using wf by (simp add: parse_whole_Inr)
  show ?thesis
    using wf
    by (simp add: parse_repeat_def repeat_payload_def parse_repeat_object_def only_fields_def REPEAT_FIELDS_def jget_def
        parse_interval_def interval sets pos ends option.map_comp comp_def option.map_ident)
       (auto split: option.splits)
qed

lemma parse_exceptions_text:
  assumes "sorted_wrt (<) ds" and "length ds \<le> MAX_EXCEPTIONS" and "list_all in_calendar ds"
  shows "parse_exceptions (if ds = [] then Jnull else Jlist (map (\<lambda>d. Jstr (isoformat d)) ds)) = Inr ds"
  using assms by (simp add: parse_exceptions_def all_ok_map as_set_id list_all_iff parse_day_text)

lemma parse_local_text:
  "whole_minute t \<Longrightarrow> 1000 \<le> year_of (day_part t) \<Longrightarrow> parse_local f (Jstr (strftime_local t)) = Inr t"
  using strptime_local_strftime [of t] strftime_local_strip [of t]
  by (simp add: parse_local_def whole_minute_def in_calendar_def)

lemma when_payload_fields:
  obtains ob where "when_payload w = Jobj ob" and "only_fields WHEN_FIELDS ob"
    and "jget ob ''start'' = Jstr (strftime_local (wh_start w))"
    and "jget ob ''end'' = (case wh_end w of None \<Rightarrow> Jnull | Some e \<Rightarrow> Jstr (strftime_local e))"
    and "jget ob ''repeat'' = (case wh_repeat w of None \<Rightarrow> Jnull | Some r \<Rightarrow> repeat_payload r)"
    and "jget ob ''exceptions'' = (if wh_exceptions w = [] then Jnull else Jlist (map (\<lambda>d. Jstr (isoformat d)) (wh_exceptions w)))"
  unfolding when_payload_def
  by (cases "wh_end w"; cases "wh_repeat w") (auto simp: jget_def only_fields_def WHEN_FIELDS_def)

lemma parse_when_payload:
  assumes "well_formed_when w" and "check_when w = Inr w" and "1000 \<le> year_of (day_part (wh_start w))"
  shows "parse_when (when_payload w) = Inr w"
proof -
  note wf = assms(1) [unfolded well_formed_when_def]
  have late: "1000 \<le> year_of (day_part e)" if "wh_end w = Some e" for e
  proof -
    have "wh_start w \<le> e" using wf that by (simp add: MIN_WINDOW_def MINUTE_def)
    then have "day_part (wh_start w) \<le> day_part e" by (simp add: day_part_def DAY_def zdiv_mono1)
    then show ?thesis using year_of_mono assms(3) by fastforce
  qed
  have finish: "parse_optional (parse_local ''end'') (case wh_end w of None \<Rightarrow> Jnull | Some e \<Rightarrow> Jstr (strftime_local e)) = Inr (wh_end w)"
    using wf late by (auto intro!: parse_optional_text parse_local_text)
  have rep: "parse_repeat (wh_start w) (case wh_repeat w of None \<Rightarrow> Jnull | Some r \<Rightarrow> repeat_payload r) =
      Inr (map_option (\<lambda>r. (r, False)) (wh_repeat w))"
    using wf parse_repeat_payload by (cases "wh_repeat w") (simp_all add: parse_repeat_def)
  have float: "\<not> float_position (map_option (\<lambda>r. (r, False)) (wh_repeat w))"
    by (cases "wh_repeat w") (simp_all add: float_position_def)
  obtain ob where ob: "when_payload w = Jobj ob" "only_fields WHEN_FIELDS ob"
    "jget ob ''start'' = Jstr (strftime_local (wh_start w))"
    "jget ob ''end'' = (case wh_end w of None \<Rightarrow> Jnull | Some e \<Rightarrow> Jstr (strftime_local e))"
    "jget ob ''repeat'' = (case wh_repeat w of None \<Rightarrow> Jnull | Some r \<Rightarrow> repeat_payload r)"
    "jget ob ''exceptions'' = (if wh_exceptions w = [] then Jnull else Jlist (map (\<lambda>d. Jstr (isoformat d)) (wh_exceptions w)))"
    by (rule when_payload_fields)
  have w: "check_when \<lparr>wh_start = wh_start w, wh_end = wh_end w, wh_repeat = wh_repeat w, wh_exceptions = wh_exceptions w\<rparr> = Inr w"
  proof -
    have "\<lparr>wh_start = wh_start w, wh_end = wh_end w, wh_repeat = wh_repeat w, wh_exceptions = wh_exceptions w\<rparr> = w" by simp
    then show ?thesis by (rule ssubst) (rule assms(2))
  qed
  have len: "case wh_end w of None \<Rightarrow> True | Some e \<Rightarrow> wh_start w + MIN_WINDOW \<le> e"
    using wf by (cases "wh_end w") simp_all
  show ?thesis
    using wf assms(3)
    by (simp add: w len parse_when_def ob parse_local_text finish rep float parse_exceptions_text comp_def option.map_comp
        option.map_ident)
qed

section \<open>Properties of the timing\<close>

text \<open>
  C33. Whatever JSON is parsed, a rule that comes out is well formed: its times are whole minutes of the
  calendar, its lists are ordered sets in range, its position belongs to a monthly or yearly repeat with
  weekdays, it ends by a date or by a count and not by both, its end is at least a minute after its start,
  and it passed the checks of its occurrences.
\<close>

theorem parsed_timing_is_well_formed:
  assumes "parse_when v = Inr w"
  shows "well_formed_when w \<and> check_when w = Inr w"
  using assms by (rule parse_when_parts)

lemma evening_well_formed: "well_formed_when evening"
  by code_simp

lemma evening_year: "1000 \<le> year_of (day_part (wh_start evening))"
  by code_simp

theorem parsed_timing_is_well_formed_witness:
  "parse_when (when_payload evening) = Inr evening \<and> well_formed_when evening"
  using parsed_timing_is_well_formed [OF parse_when_payload [OF evening_well_formed evening_checked evening_year]]
    parse_when_payload [OF evening_well_formed evening_checked evening_year] by blast

text \<open>
  A parsed rule is read back unchanged from the JSON that \<open>when_payload\<close> writes for it, if it starts in
  the year 1000 or later (the C library writes earlier years with fewer digits than are read).
\<close>

lemma timing_is_read_back:
  assumes "parse_when v = Inr w" and "1000 \<le> year_of (day_part (wh_start w))"
  shows "parse_when (when_payload w) = Inr w"
  using parse_when_parts [OF assms(1)] assms(2) parse_when_payload by blast

text \<open>
  A position written as a float passes the check of \<open>by_set_pos\<close> and is never refused as a rule that
  cannot be scheduled: reading the rule's first month raises, because a float is no index.
\<close>

lemma float_position_is_not_refused:
  assumes "parse_repeat start (jget ob ''repeat'') = Inr (Some (r, True))"
    and "only_fields WHEN_FIELDS ob" and "parse_local ''start'' (jget ob ''start'') = Inr start"
    and "jget ob ''end'' = Jnull" and "jget ob ''exceptions'' = Jnull"
  shows "parse_when (Jobj ob) = Inl Type_error \<or> parse_when (Jobj ob) = Inl Date_overflow"
  using assms
  by (simp add: parse_when_def parse_optional_def check_end_def parse_exceptions_def check_timing_def float_position_def
      check_float_position_def date_plus_def)

end
