(* ===== verification/Schedule_Actions.thy ===== *)
theory Schedule_Actions
  imports Runtime_Commands
begin

text \<open>
  \<open>ems/schedule_actions.py\<close>: what a schedule rule can do. Labels, help texts and groups are left out.

  Proved: the catalogue has every operator control point of the runtime commands exactly once, and a switch
  point sets its action's runtime keys and no other.
\<close>

datatype value_type = SWITCH | WATTS | FACTOR | CHOICE | CHARGE

record schedule_action =
  ac_id :: string
  ac_scope :: string
  ac_keys :: "string list"
  ac_type :: value_type
  ac_command :: string
  ac_choices :: "string list"
  ac_per_device :: bool

definition system_action :: "string \<Rightarrow> string \<Rightarrow> string \<Rightarrow> value_type \<Rightarrow> string \<Rightarrow> schedule_action" where
  "system_action i scope key t command =
     \<lparr>ac_id = i, ac_scope = scope, ac_keys = [key], ac_type = t, ac_command = command, ac_choices = [], ac_per_device = False\<rparr>"

definition device_action :: "string \<Rightarrow> string list \<Rightarrow> value_type \<Rightarrow> string \<Rightarrow> string list \<Rightarrow> schedule_action" where
  "device_action i keys t command choices =
     \<lparr>ac_id = i, ac_scope = ''device'', ac_keys = keys, ac_type = t, ac_command = command, ac_choices = choices,
      ac_per_device = True\<rparr>"

definition ACTIONS :: "schedule_action list" where
  "ACTIONS =
     [system_action ''total_output_limit'' ''system'' ''max_total_power'' WATTS ''max-power'',
      device_action ''device_output_limit'' [''max_power''] WATTS ''max-power'' [],
      device_action ''pv_priority'' [''pv_priority_factor''] FACTOR ''pv-priority-factor'' [],
      device_action ''offgrid_socket'' [''offgrid_socket_mode''] CHOICE ''offgrid'' OFFGRID_SOCKET_MODES,
      device_action ''charge_from_grid'' [''runtime_role'', ''ac_charge_power_w''] CHARGE [] [],
      system_action ''surplus_charging'' ''ac_charge_control'' ''enabled'' SWITCH [],
      device_action ''device_surplus_charging'' [''ac_charge_enabled''] SWITCH ''ac-charge'' [],
      system_action ''winter_mode'' ''winter'' ''enabled'' SWITCH [],
      system_action ''ems_control'' ''system'' ''enabled'' SWITCH [],
      device_action ''device_control'' [''enabled''] SWITCH [] []] @
     map (\<lambda>s. device_action (ds_key s) [ds_key s] CHOICE (ds_command s) (ds_words s @ [UNMANAGED])) SETTINGS @
     [system_action ''minimum_output_limit'' ''system'' ''min_output_limit'' WATTS ''min-output-limit'']"

definition EXCLUDED_KEYS :: "string list" where "EXCLUDED_KEYS = [''system.loop_interval'']"

text \<open>\<open>ScheduleActionError\<close>, and the \<open>OverflowError\<close> of \<open>math.isfinite\<close> for a whole number that no float holds.\<close>

datatype action_error = Unknown_action | Bad_action_value string | Value_overflow

definition schedule_action_of :: "json \<Rightarrow> action_error + schedule_action" where
  "schedule_action_of v =
     (case v of
        Jstr s \<Rightarrow> from_option Unknown_action (find (\<lambda>a. ac_id a = s) ACTIONS)
      | _ \<Rightarrow> Inl Unknown_action)"

definition action_key_paths :: "schedule_action \<Rightarrow> string \<Rightarrow> string list" where
  "action_key_paths a device =
     (let holder = (if ac_scope a = ''device'' then ''devices.'' @ device else ac_scope a)
      in map (\<lambda>k. holder @ ''.'' @ k) (ac_keys a))"

definition action_slot :: "schedule_action \<Rightarrow> string \<Rightarrow> string" where
  "action_slot a device = py_join '','' (action_key_paths a device)"

definition whole_watts :: "schedule_action \<Rightarrow> json \<Rightarrow> action_error + int" where
  "whole_watts a v =
     (case v of Jint n \<Rightarrow> if n < 0 then Inl (Bad_action_value (ac_id a)) else Inr n | _ \<Rightarrow> Inl (Bad_action_value (ac_id a)))"

definition action_commands :: "schedule_action \<Rightarrow> json \<Rightarrow> action_error + (string \<times> json) list" where
  "action_commands a v =
     (case ac_type a of
        SWITCH \<Rightarrow>
          (case v of
             Jbool b \<Rightarrow>
               if ac_command a = ''ac-charge'' then Inr [(''ac-charge'', Jstr (if b then ''on'' else ''off''))]
               else Inr [(if b then ''enable'' else ''disable'', Jnull)]
           | _ \<Rightarrow> Inl (Bad_action_value (ac_id a)))
      | CHARGE \<Rightarrow>
          ok_then (whole_watts a v) (\<lambda>w.
            if w = 0 then Inr [(''ac-mode'', Jstr ''output'')]
            else Inr [(''ac-charge-power'', Jint w), (''ac-mode'', Jstr ''input'')])
      | WATTS \<Rightarrow> ok_then (whole_watts a v) (\<lambda>w. Inr [(ac_command a, Jint w)])
      | CHOICE \<Rightarrow>
          (case v of
             Jstr s \<Rightarrow> if s \<in> set (ac_choices a) then Inr [(ac_command a, v)] else Inl (Bad_action_value (ac_id a))
           | _ \<Rightarrow> Inl (Bad_action_value (ac_id a)))
      | FACTOR \<Rightarrow>
          (case v of
             Jint n \<Rightarrow> if 2 ^ 1024 - 2 ^ 970 \<le> \<bar>n\<bar> then Inl Value_overflow else Inr [(ac_command a, v)]
           | Jfloat (Fin x) \<Rightarrow> Inr [(ac_command a, v)]
           | _ \<Rightarrow> Inl (Bad_action_value (ac_id a))))"

section \<open>Properties of the catalogue\<close>

text \<open>The runtime-state paths of every key the runtime commands may write, for one device.\<close>

definition control_points :: "string \<Rightarrow> string list" where
  "control_points device =
     map (\<lambda>(k, _). ''system.'' @ k) SYSTEM_FIELDS @
     concat (map (\<lambda>(section, known). map (\<lambda>(k, _). section @ ''.'' @ k) known) SECTION_FIELDS) @
     map (\<lambda>(k, _). ''devices.'' @ device @ ''.'' @ k) WRITABLE_DEVICE_FIELDS"

text \<open>
  The catalogue covers every operator control point: the keys the runtime commands may write are exactly
  those of the actions and the excluded ones, and no key belongs to two actions.
\<close>

lemma catalogue_covers_every_control_point:
  "set (control_points device) = set (concat (map (\<lambda>a. action_key_paths a device) ACTIONS)) \<union> set EXCLUDED_KEYS \<and>
   distinct (concat (map (\<lambda>a. map (\<lambda>k. (ac_scope a, k)) (ac_keys a)) ACTIONS)) \<and>
   distinct (map ac_id ACTIONS)"
proof (intro conjI)
  show "set (control_points device) = set (concat (map (\<lambda>a. action_key_paths a device) ACTIONS)) \<union> set EXCLUDED_KEYS"
    by (simp add: control_points_def action_key_paths_def ACTIONS_def SYSTEM_FIELDS_def SECTION_FIELDS_def
        WRITABLE_DEVICE_FIELDS_def DEVICE_FIELDS_def DEVICE_AC_FIELDS_def DEVICE_SETTING_FIELDS_def SETTINGS_def
        system_action_def device_action_def EXCLUDED_KEYS_def insert_commute)
  show "distinct (concat (map (\<lambda>a. map (\<lambda>k. (ac_scope a, k)) (ac_keys a)) ACTIONS))" by code_simp
  show "distinct (map ac_id ACTIONS)" by code_simp
qed

text \<open>What each command of the catalogue sets.\<close>

lemmas command_tables = command_values_def runtime_command_def command_in_def from_option_def SYSTEM_COMMANDS_def
  DEVICE_COMMANDS_def SECTION_COMMANDS_def SECTION_FIELDS_def SETTINGS_def switches_def sets_key_def

lemma switch_commands:
  assumes "scope = ''system'' \<or> scope = ''device'' \<or> scope = ''winter'' \<or> scope = ''ac_charge_control''"
  shows "command_values scope (if b then ''enable'' else ''disable'') Jnull = Inr [(''enabled'', Jbool b)]"
  using assms by (elim disjE) (simp_all add: command_tables)

lemma ac_commands:
  "command_values ''device'' ''ac-charge'' (Jstr (if b then ''on'' else ''off'')) = Inr [(''ac_charge_enabled'', Jbool b)]"
  "command_values ''device'' ''ac-mode'' (Jstr ''output'') = Inr [(''runtime_role'', Jstr ''ac_output'')]"
  "command_values ''device'' ''ac-mode'' (Jstr ''input'') = Inr [(''runtime_role'', Jstr ''ac_input'')]"
  "command_values ''device'' ''ac-charge-power'' (Jint n) = Inr [(''ac_charge_power_w'', Jint n)]"
proof -
  have "word_of ''on'' = ''on''" "word_of ''off'' = ''off''" "word_of ''output'' = ''output''" "word_of ''input'' = ''input''"
      "py_strip ''on'' \<noteq> []" "py_strip ''off'' \<noteq> []" "py_strip ''output'' \<noteq> []" "py_strip ''input'' \<noteq> []"
    by code_simp+
  then show "command_values ''device'' ''ac-charge'' (Jstr (if b then ''on'' else ''off'')) = Inr [(''ac_charge_enabled'', Jbool b)]"
    "command_values ''device'' ''ac-mode'' (Jstr ''output'') = Inr [(''runtime_role'', Jstr ''ac_output'')]"
    "command_values ''device'' ''ac-mode'' (Jstr ''input'') = Inr [(''runtime_role'', Jstr ''ac_input'')]"
    "command_values ''device'' ''ac-charge-power'' (Jint n) = Inr [(''ac_charge_power_w'', Jint n)]"
    by (cases b; simp add: command_tables)+
qed

lemma number_commands:
  "command_values ''system'' ''max-power'' (Jint n) = Inr [(''max_total_power'', Jint n)]"
  "command_values ''system'' ''min-output-limit'' (Jint n) = Inr [(''min_output_limit'', Jint n)]"
  "command_values ''device'' ''max-power'' (Jint n) = Inr [(''max_power'', Jint n)]"
  "command_values ''device'' ''pv-priority-factor'' (Jint n) = Inr [(''pv_priority_factor'', Jint n)]"
  "command_values ''device'' ''pv-priority-factor'' (Jfloat x) = Inr [(''pv_priority_factor'', Jfloat x)]"
  by (simp_all add: command_tables)

text \<open>The actions of each type.\<close>

lemma actions_by_type:
  assumes "a \<in> set ACTIONS"
  shows "ac_type a = SWITCH \<Longrightarrow> ac_command a = ''ac-charge'' \<and> ac_scope a = ''device'' \<and> ac_keys a = [''ac_charge_enabled''] \<or>
      ac_command a = [] \<and> ac_scope a \<in> {''system'', ''device'', ''winter'', ''ac_charge_control''} \<and> ac_keys a = [''enabled'']"
    and "ac_type a = WATTS \<Longrightarrow> (ac_scope a, ac_command a, ac_keys a) \<in> {(''system'', ''max-power'', [''max_total_power'']),
      (''system'', ''min-output-limit'', [''min_output_limit'']), (''device'', ''max-power'', [''max_power''])}"
    and "ac_type a = FACTOR \<Longrightarrow> (ac_scope a, ac_command a, ac_keys a) = (''device'', ''pv-priority-factor'', [''pv_priority_factor''])"
    and "ac_type a = CHARGE \<Longrightarrow> (ac_scope a, ac_keys a) = (''device'', [''runtime_role'', ''ac_charge_power_w''])"
proof -
  have "list_all (\<lambda>a. case ac_type a of
        SWITCH \<Rightarrow> ac_command a = ''ac-charge'' \<and> ac_scope a = ''device'' \<and> ac_keys a = [''ac_charge_enabled''] \<or>
          ac_command a = [] \<and> ac_scope a \<in> set [''system'', ''device'', ''winter'', ''ac_charge_control''] \<and> ac_keys a = [''enabled'']
      | WATTS \<Rightarrow> (ac_scope a, ac_command a, ac_keys a) \<in> set [(''system'', ''max-power'', [''max_total_power'']),
          (''system'', ''min-output-limit'', [''min_output_limit'']), (''device'', ''max-power'', [''max_power''])]
      | FACTOR \<Rightarrow> (ac_scope a, ac_command a, ac_keys a) = (''device'', ''pv-priority-factor'', [''pv_priority_factor''])
      | CHARGE \<Rightarrow> (ac_scope a, ac_keys a) = (''device'', [''runtime_role'', ''ac_charge_power_w''])
      | CHOICE \<Rightarrow> True) ACTIONS"
    (is "list_all ?P _") by code_simp
  then have p: "?P a" using assms by (simp only: list_all_iff)
  show "ac_type a = SWITCH \<Longrightarrow> ac_command a = ''ac-charge'' \<and> ac_scope a = ''device'' \<and> ac_keys a = [''ac_charge_enabled''] \<or>
      ac_command a = [] \<and> ac_scope a \<in> {''system'', ''device'', ''winter'', ''ac_charge_control''} \<and> ac_keys a = [''enabled'']"
    "ac_type a = WATTS \<Longrightarrow> (ac_scope a, ac_command a, ac_keys a) \<in> {(''system'', ''max-power'', [''max_total_power'']),
      (''system'', ''min-output-limit'', [''min_output_limit'']), (''device'', ''max-power'', [''max_power''])}"
    "ac_type a = FACTOR \<Longrightarrow> (ac_scope a, ac_command a, ac_keys a) = (''device'', ''pv-priority-factor'', [''pv_priority_factor''])"
    "ac_type a = CHARGE \<Longrightarrow> (ac_scope a, ac_keys a) = (''device'', [''runtime_role'', ''ac_charge_power_w''])"
    using p by simp_all
qed

text \<open>Every word of a choice is a word the command takes.\<close>

lemma choice_commands:
  assumes "a \<in> set ACTIONS" and "ac_type a = CHOICE" and "s \<in> set (ac_choices a)"
  shows "\<exists>k. command_values (ac_scope a) (ac_command a) (Jstr s) = Inr [(k, Jstr s)] \<and> ac_keys a = [k]"
proof -
  have "list_all (\<lambda>a. ac_type a = CHOICE \<longrightarrow>
      list_all (\<lambda>s. \<exists>k\<in>set (ac_keys a). command_values (ac_scope a) (ac_command a) (Jstr s) = Inr [(k, Jstr s)] \<and> ac_keys a = [k])
        (ac_choices a)) ACTIONS"
    by code_simp
  then show ?thesis using assms by (auto simp: list_all_iff)
qed

text \<open>
  A switch point sets the runtime keys of its action and no other: for an action of the catalogue and a
  value it takes, the commands run in its scope are known, and together they set only keys the action names;
  a charge from the grid sets the power and the AC role, a charge of 0 W the role only.
\<close>

lemma switch_point_sets_its_own_keys:
  assumes "a \<in> set ACTIONS" and "action_commands a v = Inr cs"
  shows "\<exists>payload. commands_payload (ac_scope a) cs [] = Inr payload \<and> payload \<noteq> [] \<and>
    set (map fst payload) \<subseteq> set (ac_keys a) \<and>
    (ac_type a = CHARGE \<longrightarrow>
       (if v = Jint 0 then payload = [(''runtime_role'', Jstr ''ac_output'')]
        else payload = [(''ac_charge_power_w'', v), (''runtime_role'', Jstr ''ac_input'')]))"
proof (cases "ac_type a")
  case SWITCH
  then obtain b where b: "v = Jbool b" using assms(2) by (auto simp: action_commands_def split: json.splits)
  show ?thesis
    using actions_by_type(1) [OF assms(1) SWITCH] assms(2) SWITCH switch_commands [of "ac_scope a" b] ac_commands(1) [of b]
    by (auto simp: action_commands_def b jupdate_def split: if_split_asm)
next
  case WATTS
  then obtain w where "cs = [(ac_command a, Jint w)]" using assms(2) by (auto simp: action_commands_def)
  then show ?thesis using actions_by_type(2) [OF assms(1) WATTS] WATTS number_commands by (auto simp: jupdate_def)
next
  case FACTOR
  then have "cs = [(ac_command a, v)]" "(\<exists>n. v = Jint n) \<or> (\<exists>x. v = Jfloat x)"
    using assms(2) by (auto simp: action_commands_def split: json.splits pyfloat.splits if_splits)
  then show ?thesis using actions_by_type(3) [OF assms(1) FACTOR] FACTOR number_commands by (auto simp: jupdate_def)
next
  case CHARGE
  then obtain w where w: "v = Jint w" "cs = (if w = 0 then [(''ac-mode'', Jstr ''output'')]
      else [(''ac-charge-power'', Jint w), (''ac-mode'', Jstr ''input'')])"
    using assms(2) by (auto simp: action_commands_def whole_watts_def split: json.splits if_splits)
  then show ?thesis using actions_by_type(4) [OF assms(1) CHARGE] ac_commands by (auto simp: jupdate_def)
next
  case CHOICE
  then obtain s where s: "v = Jstr s" "s \<in> set (ac_choices a)" "cs = [(ac_command a, Jstr s)]"
    using assms(2) by (auto simp: action_commands_def split: json.splits if_splits)
  then show ?thesis using choice_commands [OF assms(1) CHOICE s(2)] CHOICE by (auto simp: jupdate_def)
qed

end
