(* ===== verification/Schedule_Rules.thy ===== *)
theory Schedule_Rules
  imports Schedule_Model Schedule_Actions
begin

text \<open>
  \<open>ems/schedule_model.py\<close>: a schedule rule as the store keeps it, validated by its shape.

  \<open>None\<close> among the values is null. Proved: a parsed rule is well formed, and it is read back from the JSON
  form that \<open>rule_payload\<close> writes.
\<close>

definition NAME_MAX_LENGTH :: nat where "NAME_MAX_LENGTH = 80"

definition DEVICE_NAME_MAX_LENGTH :: nat where "DEVICE_NAME_MAX_LENGTH = 64"

definition EDITORS :: "string list" where "EDITORS = [''dashboard'', ''emsctl'']"

definition EDITABLE_FIELDS :: "string list" where
  "EDITABLE_FIELDS = [''name'', ''enabled'', ''target'', ''action'', ''when'']"

definition STORED_FIELDS :: "string list" where
  "STORED_FIELDS = EDITABLE_FIELDS @ [''id'', ''revision'', ''updated_at'', ''updated_by'']"

text \<open>Why a rule is refused. \<open>Bad_when\<close> of an overflow or a type error and \<open>Bad_action\<close> of an overflow are errors that escape.\<close>

datatype rule_error = Bad_rule string | Bad_when time_error | Bad_action action_error

record rule_fields =
  sr_name :: string
  sr_enabled :: bool
  sr_action :: schedule_action
  sr_device :: "string option"
  sr_identity :: "string option"
  sr_value :: json
  sr_end_value :: json
  sr_when :: when_rule

record schedule_rule = rule_fields +
  sr_id :: string
  sr_revision :: int
  sr_updated_at :: micros
  sr_updated_by :: string

definition is_window :: "'a rule_fields_scheme \<Rightarrow> bool" where
  "is_window r \<longleftrightarrow> wh_end (sr_when r) \<noteq> None"

definition check_rule_part :: "bool \<Rightarrow> string \<Rightarrow> rule_error + unit" where
  "check_rule_part b what = (if b then Inr () else Inl (Bad_rule what))"

fun lift_error :: "('e \<Rightarrow> 'f) \<Rightarrow> 'e + 'a \<Rightarrow> 'f + 'a" where
  "lift_error f (Inl e) = Inl (f e)"
| "lift_error f (Inr a) = Inr a"

lemma lift_error_Inr [simp]: "lift_error f x = Inr a \<longleftrightarrow> x = Inr a"
  by (cases x) simp_all

lemma check_rule_part_Inr [simp]: "check_rule_part b what = Inr u \<longleftrightarrow> b"
  by (simp add: check_rule_part_def)

text \<open>A dictionary, or the error that it is none.\<close>

definition as_object :: "string \<Rightarrow> json \<Rightarrow> rule_error + json_object" where
  "as_object what v = (case v of Jobj ob \<Rightarrow> Inr ob | _ \<Rightarrow> Inl (Bad_rule what))"

definition as_text :: "string \<Rightarrow> json \<Rightarrow> rule_error + string" where
  "as_text what v = (case v of Jstr s \<Rightarrow> Inr s | _ \<Rightarrow> Inl (Bad_rule what))"

lemma as_object_Inr [simp]: "as_object what v = Inr ob \<longleftrightarrow> v = Jobj ob"
  by (auto simp: as_object_def split: json.splits)

lemma as_text_Inr [simp]: "as_text what v = Inr s \<longleftrightarrow> v = Jstr s"
  by (auto simp: as_text_def split: json.splits)

section \<open>Parsing\<close>

definition parse_name :: "json \<Rightarrow> rule_error + string" where
  "parse_name v =
     ok_then (as_text ''name'' v) (\<lambda>s.
       if py_strip s = [] \<or> NAME_MAX_LENGTH < length (py_strip s) then Inl (Bad_rule ''name'') else Inr (py_strip s))"

definition parse_enabled :: "json_object \<Rightarrow> rule_error + bool" where
  "parse_enabled ob =
     (case map_of ob ''enabled'' of None \<Rightarrow> Inr True | Some (Jbool b) \<Rightarrow> Inr b | _ \<Rightarrow> Inl (Bad_rule ''enabled''))"

definition parse_action :: "when_rule \<Rightarrow> json \<Rightarrow> rule_error + schedule_action \<times> json \<times> json" where
  "parse_action w v =
     ok_then (as_object ''action'' v) (\<lambda>ob.
     ok_then (check_rule_part (only_fields [''id'', ''value'', ''end_value''] ob) ''action'') (\<lambda>_.
     ok_then (lift_error Bad_action (schedule_action_of (jget ob ''id''))) (\<lambda>a.
     ok_then (lift_error Bad_action (action_commands a (jget ob ''value''))) (\<lambda>_.
       let e = jget ob ''end_value''
       in if wh_end w = None
          then if e \<noteq> Jnull then Inl (Bad_rule ''end_value'') else Inr (a, jget ob ''value'', e)
          else if e = Jnull then Inl (Bad_rule ''end_value'')
          else ok_then (lift_error Bad_action (action_commands a e)) (\<lambda>_. Inr (a, jget ob ''value'', e))))))"

definition parse_device :: "json \<Rightarrow> rule_error + string" where
  "parse_device v =
     ok_then (as_text ''device'' v) (\<lambda>s.
       if py_strip s = [] \<or> DEVICE_NAME_MAX_LENGTH < length s then Inl (Bad_rule ''device'') else Inr (py_strip s))"

definition parse_identity :: "json \<Rightarrow> rule_error + string option" where
  "parse_identity v =
     (case v of
        Jnull \<Rightarrow> Inr None
      | Jstr s \<Rightarrow> if py_strip s = [] then Inl (Bad_rule ''identity'') else Inr (Some (py_strip s))
      | _ \<Rightarrow> Inl (Bad_rule ''identity''))"

definition parse_target :: "schedule_action \<Rightarrow> json \<Rightarrow> rule_error + string option \<times> string option" where
  "parse_target a v =
     ok_then (as_object ''target'' v) (\<lambda>ob.
     ok_then (check_rule_part (only_fields [''scope'', ''device'', ''identity''] ob) ''target'') (\<lambda>_.
     ok_then (check_rule_part (jget ob ''scope'' = Jstr (if ac_per_device a then ''device'' else ''system'')) ''scope'') (\<lambda>_.
       if \<not> ac_per_device a
       then if jget ob ''device'' \<noteq> Jnull \<or> jget ob ''identity'' \<noteq> Jnull then Inl (Bad_rule ''target'') else Inr (None, None)
       else ok_then (parse_device (jget ob ''device'')) (\<lambda>d.
            ok_then (parse_identity (jget ob ''identity'')) (\<lambda>i. Inr (Some d, i))))))"

definition parse_editable :: "json \<Rightarrow> rule_error + rule_fields" where
  "parse_editable v =
     ok_then (as_object ''rule'' v) (\<lambda>ob.
     ok_then (check_rule_part (only_fields EDITABLE_FIELDS ob) ''field'') (\<lambda>_.
     ok_then (parse_name (jget ob ''name'')) (\<lambda>name.
     ok_then (parse_enabled ob) (\<lambda>enabled.
     ok_then (lift_error Bad_when (parse_when (jget ob ''when''))) (\<lambda>w.
     ok_then (parse_action w (jget ob ''action'')) (\<lambda>(a, value, end_value).
     ok_then (parse_target a (jget ob ''target'')) (\<lambda>(device, identity).
       Inr \<lparr>sr_name = name, sr_enabled = enabled, sr_action = a, sr_device = device, sr_identity = identity,
            sr_value = value, sr_end_value = end_value, sr_when = w\<rparr>)))))))"

text \<open>\<open>RULE_ID\<close>: its \<open>$\<close> also matches before a line feed at the end.\<close>

definition hex_digit :: "char \<Rightarrow> bool" where
  "hex_digit c \<longleftrightarrow> digit c \<or> c \<in> set ''abcdef''"

definition rule_id_ok :: "string \<Rightarrow> bool" where
  "rule_id_ok s \<longleftrightarrow>
     take 2 s = ''r_'' \<and> length (take 8 (drop 2 s)) = 8 \<and> list_all hex_digit (take 8 (drop 2 s)) \<and>
     (drop 10 s = [] \<or> drop 10 s = [char_of (10 :: nat)])"

definition parse_utc :: "string \<Rightarrow> json \<Rightarrow> rule_error + micros" where
  "parse_utc field v = ok_then (as_text field v) (\<lambda>s. from_option (Bad_rule field) (strptime_utc s))"

definition parse_revision :: "json \<Rightarrow> rule_error + int" where
  "parse_revision v = (case v of Jint n \<Rightarrow> if n < 1 then Inl (Bad_rule ''revision'') else Inr n | _ \<Rightarrow> Inl (Bad_rule ''revision''))"

definition parse_rule :: "json \<Rightarrow> rule_error + schedule_rule" where
  "parse_rule v =
     ok_then (as_object ''rule'' v) (\<lambda>ob.
     ok_then (check_rule_part (only_fields STORED_FIELDS ob) ''field'') (\<lambda>_.
     ok_then (as_text ''id'' (jget ob ''id'')) (\<lambda>i.
     ok_then (check_rule_part (rule_id_ok i) ''id'') (\<lambda>_.
     ok_then (parse_revision (jget ob ''revision'')) (\<lambda>revision.
     ok_then (as_text ''updated_by'' (jget ob ''updated_by'')) (\<lambda>by.
     ok_then (check_rule_part (by \<in> set EDITORS) ''updated_by'') (\<lambda>_.
     ok_then (parse_utc ''updated_at'' (jget ob ''updated_at'')) (\<lambda>t.
     ok_then (parse_editable (Jobj (filter (\<lambda>(k, _). k \<in> set EDITABLE_FIELDS) ob))) (\<lambda>f.
       Inr (rule_fields.extend f (schedule_rule.fields i revision t by)))))))))))"

section \<open>Writing\<close>

definition target_payload :: "'a rule_fields_scheme \<Rightarrow> json" where
  "target_payload r =
     Jobj ([(''scope'', Jstr (if ac_per_device (sr_action r) then ''device'' else ''system''))] @
           (case sr_device r of None \<Rightarrow> [] | Some d \<Rightarrow> [(''device'', Jstr d)]) @
           (case sr_identity r of None \<Rightarrow> [] | Some i \<Rightarrow> [(''identity'', Jstr i)]))"

definition action_payload :: "'a rule_fields_scheme \<Rightarrow> json" where
  "action_payload r =
     Jobj ([(''id'', Jstr (ac_id (sr_action r))), (''value'', sr_value r)] @
           (if sr_end_value r = Jnull then [] else [(''end_value'', sr_end_value r)]))"

text \<open>The fields that an editor sends, as \<open>_editable\<close> of the store and \<open>rule_payload\<close> write them.\<close>

definition editable_payload :: "'a rule_fields_scheme \<Rightarrow> json_object" where
  "editable_payload r =
     [(''name'', Jstr (sr_name r)), (''enabled'', Jbool (sr_enabled r)), (''target'', target_payload r),
      (''action'', action_payload r), (''when'', when_payload (sr_when r))]"

definition stamp_payload :: "string \<Rightarrow> int \<Rightarrow> json_object \<Rightarrow> micros \<Rightarrow> string \<Rightarrow> json" where
  "stamp_payload i revision ob t by =
     Jobj ([(''id'', Jstr i), (''revision'', Jint revision)] @ ob @
           [(''updated_at'', Jstr (strftime_utc t)), (''updated_by'', Jstr by)])"

definition rule_payload :: "schedule_rule \<Rightarrow> json" where
  "rule_payload r = stamp_payload (sr_id r) (sr_revision r) (editable_payload r) (sr_updated_at r) (sr_updated_by r)"

section \<open>Well-formed rules\<close>

definition takes :: "schedule_action \<Rightarrow> json \<Rightarrow> bool" where
  "takes a v = (case action_commands a v of Inl _ \<Rightarrow> False | Inr _ \<Rightarrow> True)"

definition stripped :: "string \<Rightarrow> bool" where "stripped s \<longleftrightarrow> s \<noteq> [] \<and> py_strip s = s"

definition well_formed_fields :: "'a rule_fields_scheme \<Rightarrow> bool" where
  "well_formed_fields r \<longleftrightarrow>
     stripped (sr_name r) \<and> length (sr_name r) \<le> NAME_MAX_LENGTH \<and>
     well_formed_when (sr_when r) \<and> check_when (sr_when r) = Inr (sr_when r) \<and>
     sr_action r \<in> set ACTIONS \<and> takes (sr_action r) (sr_value r) \<and>
     (if is_window r then takes (sr_action r) (sr_end_value r) else sr_end_value r = Jnull) \<and>
     (if ac_per_device (sr_action r)
      then (case sr_device r of None \<Rightarrow> False | Some d \<Rightarrow> stripped d \<and> length d \<le> DEVICE_NAME_MAX_LENGTH) \<and>
           (case sr_identity r of None \<Rightarrow> True | Some i \<Rightarrow> stripped i)
      else sr_device r = None \<and> sr_identity r = None)"

definition well_formed_rule :: "schedule_rule \<Rightarrow> bool" where
  "well_formed_rule r \<longleftrightarrow>
     well_formed_fields r \<and> rule_id_ok (sr_id r) \<and> 1 \<le> sr_revision r \<and> sr_updated_by r \<in> set EDITORS \<and>
     sr_updated_at r mod SECOND = 0 \<and> in_calendar (day_part (sr_updated_at r))"

lemma py_strip_ends: "py_strip s \<noteq> [] \<Longrightarrow> \<not> py_space (hd (py_strip s)) \<and> \<not> py_space (last (py_strip s))"
proof -
  define t where "t = dropWhile py_space s"
  define u where "u = dropWhile py_space (rev t)"
  assume "py_strip s \<noteq> []"
  then have u: "u \<noteq> []" "py_strip s = rev u" by (simp_all add: py_strip_def t_def u_def)
  have "rev t = takeWhile py_space (rev t) @ u" unfolding u_def by simp
  then have "t = rev u @ rev (takeWhile py_space (rev t))" by (metis rev_append rev_rev_ident)
  then have "t \<noteq> []" using u(1) by auto
  have "hd t = hd (rev u)" using \<open>t = rev u @ _\<close> u(1) by (metis hd_append2 rev_is_Nil_conv)
  then have "\<not> py_space (hd (rev u))" using hd_dropWhile [of py_space s] \<open>t \<noteq> []\<close> \<open>hd t = _\<close> unfolding t_def by metis
  moreover have "\<not> py_space (hd u)" using u(1) hd_dropWhile unfolding u_def by blast
  ultimately show ?thesis using u by (simp add: last_rev)
qed

lemma stripped_py_strip: "py_strip s \<noteq> [] \<Longrightarrow> stripped (py_strip s)"
  using py_strip_ends py_strip_id by (simp add: stripped_def)

lemma length_py_strip: "length (py_strip s) \<le> length s"
proof -
  have "length (dropWhile py_space (rev (dropWhile py_space s))) \<le> length (dropWhile py_space s)"
    using length_dropWhile_le [of py_space "rev (dropWhile py_space s)"] by simp
  then show ?thesis using length_dropWhile_le [of py_space s] by (simp add: py_strip_def)
qed

lemma takes_Inr: "action_commands a v = Inr cs \<Longrightarrow> takes a v"
  by (simp add: takes_def)

lemma takes_not_null: "takes a v \<Longrightarrow> v \<noteq> Jnull"
  by (auto simp: takes_def action_commands_def whole_watts_def split: value_type.splits)

lemma schedule_action_of_id: "a \<in> set ACTIONS \<Longrightarrow> schedule_action_of (Jstr (ac_id a)) = Inr a"
proof -
  have "list_all (\<lambda>a. find (\<lambda>b. ac_id b = ac_id a) ACTIONS = Some a) ACTIONS" by code_simp
  then show "a \<in> set ACTIONS \<Longrightarrow> ?thesis" by (simp add: schedule_action_of_def list_all_iff)
qed

lemma schedule_action_of_mem: "schedule_action_of v = Inr a \<Longrightarrow> a \<in> set ACTIONS"
  using find_Some_mem by (fastforce simp: schedule_action_of_def split: json.splits)

lemma parse_action_Inr:
  "parse_action w v = Inr (a, value, e) \<Longrightarrow> a \<in> set ACTIONS \<and> takes a value \<and> (if wh_end w = None then e = Jnull else takes a e)"
  using schedule_action_of_mem takes_Inr by (auto simp: parse_action_def Let_def split: if_splits)

lemma parse_target_Inr:
  assumes "parse_target a v = Inr (device, identity)"
  shows "if ac_per_device a
      then (case device of None \<Rightarrow> False | Some d \<Rightarrow> stripped d \<and> length d \<le> DEVICE_NAME_MAX_LENGTH) \<and>
           (case identity of None \<Rightarrow> True | Some i \<Rightarrow> stripped i)
      else device = None \<and> identity = None"
proof -
  have d: "stripped d \<and> length d \<le> DEVICE_NAME_MAX_LENGTH" if "parse_device x = Inr d" for x d
    using that stripped_py_strip order_trans [OF length_py_strip] by (auto simp: parse_device_def not_less split: if_splits)
  have i: "stripped i" if "parse_identity x = Inr (Some i)" for x i
    using that stripped_py_strip by (auto simp: parse_identity_def split: json.splits if_splits)
  show ?thesis using assms d i by (auto simp: parse_target_def split: if_splits option.splits)
qed

lemma parse_editable_well_formed:
  assumes "parse_editable v = Inr f"
  shows "well_formed_fields f"
proof -
  obtain ob name enabled w a x e d i where p: "parse_name (jget ob ''name'') = Inr name"
      "parse_when (jget ob ''when'') = Inr w" "parse_action w (jget ob ''action'') = Inr (a, x, e)"
      "parse_target a (jget ob ''target'') = Inr (d, i)"
    and f: "f = \<lparr>sr_name = name, sr_enabled = enabled, sr_action = a, sr_device = d, sr_identity = i,
            sr_value = x, sr_end_value = e, sr_when = w\<rparr>"
    using assms by (auto simp: parse_editable_def)
  have "stripped name" "length name \<le> NAME_MAX_LENGTH"
    using p(1) stripped_py_strip by (auto simp: parse_name_def split: if_splits)
  then show ?thesis
    using parse_when_parts [OF p(2)] parse_action_Inr [OF p(3)] parse_target_Inr [OF p(4)]
    by (simp add: f well_formed_fields_def is_window_def)
qed

lemma strptime_utc_range:
  "strptime_utc s = Some t \<Longrightarrow> t mod SECOND = 0 \<and> in_calendar (day_part t)"
proof -
  assume "strptime_utc s = Some t"
  then obtain d r h hs mi ms se ss where p: "strptime_day s = Some (d, r)" "number_field 0 23 hs = Some h"
      "number_field 0 59 ms = Some mi" "number_field 0 59 ss = Some se" "t = combine d (((h * 60 + mi) * 60 + se) * SECOND)"
    by (auto simp: strptime_utc_def bind_eq_Some_conv split: if_splits)
  have "0 \<le> ((h * 60 + mi) * 60 + se) * SECOND" "((h * 60 + mi) * 60 + se) * SECOND < DAY"
    using number_field_range [OF p(2)] number_field_range [OF p(3)] number_field_range [OF p(4)]
    by (simp_all add: SECOND_def DAY_def)
  then have "day_part t = d" using p(5) combine_day by simp
  moreover have "t = (d * 86400 + ((h * 60 + mi) * 60 + se)) * SECOND" by (simp add: p(5) combine_def DAY_def SECOND_def)
  then have "t mod SECOND = 0" by simp
  ultimately show ?thesis using strptime_day_year [OF p(1)] by (simp add: in_calendar_def)
qed

lemma parse_revision_Inr [simp]: "parse_revision v = Inr n \<longleftrightarrow> v = Jint n \<and> 1 \<le> n"
  by (auto simp: parse_revision_def split: json.splits)

lemma parse_rule_well_formed:
  assumes "parse_rule v = Inr r"
  shows "well_formed_rule r"
proof -
  obtain ob i revision editor t f where p: "rule_id_ok i" "1 \<le> revision" "editor \<in> set EDITORS"
      "parse_utc ''updated_at'' (jget ob ''updated_at'') = Inr t"
      "parse_editable (Jobj (filter (\<lambda>(k, _). k \<in> set EDITABLE_FIELDS) ob)) = Inr f"
    and r: "r = rule_fields.extend f (schedule_rule.fields i revision t editor)"
    using assms by (auto simp: parse_rule_def)
  have "well_formed_fields r"
    using parse_editable_well_formed [OF p(5)]
    by (simp add: r well_formed_fields_def is_window_def rule_fields.defs schedule_rule.defs)
  then show ?thesis
    using p(1-4) strptime_utc_range by (auto simp: well_formed_rule_def r rule_fields.defs schedule_rule.defs parse_utc_def)
qed

section \<open>Reading back\<close>

lemma parse_name_text: "stripped s \<Longrightarrow> length s \<le> NAME_MAX_LENGTH \<Longrightarrow> parse_name (Jstr s) = Inr s"
  by (simp add: parse_name_def stripped_def as_text_def)

lemma parse_device_text: "stripped s \<Longrightarrow> length s \<le> DEVICE_NAME_MAX_LENGTH \<Longrightarrow> parse_device (Jstr s) = Inr s"
  by (simp add: parse_device_def stripped_def as_text_def)

lemma parse_identity_text:
  "case i of None \<Rightarrow> True | Some s \<Rightarrow> stripped s \<Longrightarrow> parse_identity (case i of None \<Rightarrow> Jnull | Some s \<Rightarrow> Jstr s) = Inr i"
  by (cases i) (simp_all add: parse_identity_def stripped_def)

lemma parse_action_payload:
  assumes "sr_action r \<in> set ACTIONS" and "takes (sr_action r) (sr_value r)"
    and "if is_window r then takes (sr_action r) (sr_end_value r) else sr_end_value r = Jnull"
  shows "parse_action (sr_when r) (action_payload r) = Inr (sr_action r, sr_value r, sr_end_value r)"
proof -
  obtain ob where ob: "action_payload r = Jobj ob" "only_fields [''id'', ''value'', ''end_value''] ob"
    "jget ob ''id'' = Jstr (ac_id (sr_action r))" "jget ob ''value'' = sr_value r" "jget ob ''end_value'' = sr_end_value r"
    by (cases "sr_end_value r = Jnull") (auto simp: action_payload_def jget_def only_fields_def)
  have commands: "\<exists>cs. action_commands (sr_action r) v = Inr cs" if "takes (sr_action r) v" for v
    using that by (auto simp: takes_def split: sum.splits)
  obtain cs where cs: "action_commands (sr_action r) (sr_value r) = Inr cs" using commands assms(2) by blast
  note parts = parse_action_def ob schedule_action_of_id [OF assms(1)] cs check_rule_part_def as_object_def Let_def
  show ?thesis
  proof (cases "is_window r")
    case True
    then have e: "takes (sr_action r) (sr_end_value r)" "wh_end (sr_when r) \<noteq> None" using assms(3) by (simp_all add: is_window_def)
    then obtain es where "action_commands (sr_action r) (sr_end_value r) = Inr es" using commands by blast
    then show ?thesis using e takes_not_null by (simp add: parts)
  next
    case False
    then show ?thesis using assms(3) by (simp add: parts is_window_def)
  qed
qed

lemma parse_target_payload:
  assumes "if ac_per_device (sr_action r)
      then (case sr_device r of None \<Rightarrow> False | Some d \<Rightarrow> stripped d \<and> length d \<le> DEVICE_NAME_MAX_LENGTH) \<and>
           (case sr_identity r of None \<Rightarrow> True | Some i \<Rightarrow> stripped i)
      else sr_device r = None \<and> sr_identity r = None"
  shows "parse_target (sr_action r) (target_payload r) = Inr (sr_device r, sr_identity r)"
proof -
  obtain ob where ob: "target_payload r = Jobj ob" "only_fields [''scope'', ''device'', ''identity''] ob"
    "jget ob ''scope'' = Jstr (if ac_per_device (sr_action r) then ''device'' else ''system'')"
    "jget ob ''device'' = (case sr_device r of None \<Rightarrow> Jnull | Some d \<Rightarrow> Jstr d)"
    "jget ob ''identity'' = (case sr_identity r of None \<Rightarrow> Jnull | Some i \<Rightarrow> Jstr i)"
    by (cases "sr_device r"; cases "sr_identity r") (auto simp: target_payload_def jget_def only_fields_def)
  show ?thesis
  proof (cases "ac_per_device (sr_action r)")
    case True
    then obtain d where "sr_device r = Some d" "stripped d" "length d \<le> DEVICE_NAME_MAX_LENGTH"
      using assms by (auto split: option.splits)
    then show ?thesis
      using True assms parse_device_text parse_identity_text [of "sr_identity r"] by (simp add: parse_target_def ob)
  qed (use assms in \<open>simp add: parse_target_def ob\<close>)
qed

definition late_enough :: "'a rule_fields_scheme \<Rightarrow> bool" where
  "late_enough r \<longleftrightarrow> 1000 \<le> year_of (day_part (wh_start (sr_when r)))"

lemma parse_editable_payload:
  assumes "well_formed_fields r" and "late_enough r"
  shows "parse_editable (Jobj (editable_payload r)) = Inr (rule_fields.truncate r)"
proof -
  note wf = assms(1) [unfolded well_formed_fields_def]
  have "parse_when (when_payload (sr_when r)) = Inr (sr_when r)"
    using wf assms(2) parse_when_payload by (simp add: late_enough_def)
  moreover have "parse_action (sr_when r) (action_payload r) = Inr (sr_action r, sr_value r, sr_end_value r)"
    using wf by (intro parse_action_payload) simp_all
  moreover have "parse_target (sr_action r) (target_payload r) = Inr (sr_device r, sr_identity r)"
    using wf by (intro parse_target_payload) simp
  ultimately show ?thesis
    using wf by (simp add: parse_editable_def editable_payload_def as_object_def check_rule_part_def only_fields_def
        EDITABLE_FIELDS_def jget_def parse_enabled_def parse_name_text rule_fields.defs)
qed

lemma editable_payload_editable [simp]:
  "filter (\<lambda>(k, _). k \<in> set EDITABLE_FIELDS) (editable_payload r) = editable_payload r"
  by (simp add: editable_payload_def EDITABLE_FIELDS_def)

lemma parse_stamped:
  assumes "well_formed_fields f" and "late_enough f" and "rule_id_ok i" and "1 \<le> n" and "editor \<in> set EDITORS"
    and "t mod SECOND = 0" and "1000 \<le> year_of (day_part t)" and "year_of (day_part t) \<le> 9999"
  shows "parse_rule (stamp_payload i n (editable_payload f) t editor) =
    Inr (rule_fields.extend (rule_fields.truncate f) (schedule_rule.fields i n t editor))"
proof -
  let ?ob = "[(''id'', Jstr i), (''revision'', Jint n)] @ editable_payload f @
    [(''updated_at'', Jstr (strftime_utc t)), (''updated_by'', Jstr editor)]"
  have fields: "filter (\<lambda>(k, _). k \<in> set EDITABLE_FIELDS) ?ob = editable_payload f" "only_fields STORED_FIELDS ?ob"
    "jget ?ob ''id'' = Jstr i" "jget ?ob ''revision'' = Jint n" "jget ?ob ''updated_at'' = Jstr (strftime_utc t)"
    "jget ?ob ''updated_by'' = Jstr editor"
    by (simp_all add: editable_payload_def EDITABLE_FIELDS_def STORED_FIELDS_def only_fields_def jget_def)
  then show ?thesis
    using parse_editable_payload [OF assms(1,2)] assms(3-5) strptime_utc_strftime [OF assms(6-8)]
    by (simp add: parse_rule_def stamp_payload_def parse_revision_def parse_utc_def as_object_def as_text_def
        check_rule_part_def from_option_def)
qed

section \<open>Properties of the rules\<close>

text \<open>
  C39. A rule that is parsed is read back unchanged from the JSON form that \<open>rule_payload\<close> writes, when its
  start and its time of saving are in the year 1000 or later.
\<close>

theorem rule_is_read_back:
  assumes "parse_rule v = Inr r" and "1000 \<le> year_of (day_part (wh_start (sr_when r)))"
    and "1000 \<le> year_of (day_part (sr_updated_at r))"
  shows "parse_rule (rule_payload r) = Inr r"
proof -
  note wf = parse_rule_well_formed [OF assms(1), unfolded well_formed_rule_def in_calendar_def]
  have "rule_fields.extend (rule_fields.truncate r) (schedule_rule.fields (sr_id r) (sr_revision r) (sr_updated_at r) (sr_updated_by r)) = r"
    by (simp add: rule_fields.defs schedule_rule.defs)
  then show ?thesis
    using wf assms(2,3) parse_stamped [of r] by (simp add: rule_payload_def late_enough_def)
qed

text \<open>A rule for examples: a charge of 600 W from the grid in the evening window.\<close>

definition evening_charge :: schedule_rule where
  "evening_charge =
     \<lparr>sr_name = ''Evening charge'', sr_enabled = True, sr_action = ACTIONS ! 4, sr_device = Some ''WR1'', sr_identity = None,
      sr_value = Jint 600, sr_end_value = Jint 0, sr_when = evening,
      sr_id = ''r_0123abcd'', sr_revision = 1, sr_updated_at = 739907 * DAY, sr_updated_by = ''dashboard''\<rparr>"

lemma evening_charge_fields: "well_formed_fields evening_charge"
proof -
  have "stripped ''Evening charge''" "length ''Evening charge'' \<le> NAME_MAX_LENGTH" "ACTIONS ! 4 \<in> set ACTIONS"
      "takes (ACTIONS ! 4) (Jint 600)" "takes (ACTIONS ! 4) (Jint 0)" "ac_per_device (ACTIONS ! 4)" "stripped ''WR1''"
      "length ''WR1'' \<le> DEVICE_NAME_MAX_LENGTH" "wh_end evening \<noteq> None"
    by code_simp+
  then show ?thesis
    using evening_checked evening_well_formed by (simp add: well_formed_fields_def evening_charge_def is_window_def)
qed

lemma evening_charge_stamp:
  "1000 \<le> year_of (day_part (sr_updated_at evening_charge))" "year_of (day_part (sr_updated_at evening_charge)) \<le> 9999"
  "rule_id_ok ''r_0123abcd''" "late_enough evening_charge"
  by code_simp+

lemma evening_charge_read: "parse_rule (rule_payload evening_charge) = Inr evening_charge"
proof -
  have "parse_rule (rule_payload evening_charge) = Inr (rule_fields.extend (rule_fields.truncate evening_charge)
      (schedule_rule.fields ''r_0123abcd'' 1 (sr_updated_at evening_charge) ''dashboard''))"
    using parse_stamped [OF evening_charge_fields evening_charge_stamp(4,3), of 1 "''dashboard''" "sr_updated_at evening_charge"]
      evening_charge_stamp(1,2) by (simp add: rule_payload_def evening_charge_def EDITORS_def DAY_def SECOND_def)
  then show ?thesis by (simp add: evening_charge_def rule_fields.defs schedule_rule.defs)
qed

theorem rule_is_read_back_witness:
  "parse_rule (rule_payload evening_charge) = Inr evening_charge \<and> sr_revision evening_charge = 1"
  using rule_is_read_back [OF evening_charge_read] evening_charge_stamp(1,4)
  by (simp add: late_enough_def) (simp add: evening_charge_def)

end
