(* ===== verification/Schedule_Store.thy ===== *)
theory Schedule_Store
  imports Schedule_Rules "HOL-Library.Multiset"
begin

text \<open>
  \<open>ems/schedule_store.py\<close>: the one writer of \<open>schedules.json\<close>.

  The file's content is a JSON value; reading and writing its text is the standard library's. An operation
  takes what the file holds, under the store's lock, and returns its result and what the file holds after:
  \<open>None\<close> for the content stands for no file. The clock, the identifiers the random source gives and the hash
  of an entry without an identifier are arguments.

  Proved: whatever operations run, in whatever order, every entry of the file stays a rule that can be read,
  identifiers stay distinct and the number of rules bounded; and an edit made against a revision that is no longer the
  stored one is refused.
\<close>

definition SCHEMA_VERSION :: int where "SCHEMA_VERSION = 1"

definition MAX_RULES :: nat where "MAX_RULES = 100"

text \<open>
  The errors. \<open>Not_found\<close> and \<open>Conflict\<close> are \<open>ScheduleStoreError\<close>s; \<open>No_identifier\<close> stands for a loop of
  \<open>_new_id\<close> that goes on because every identifier drawn is taken.
\<close>

datatype store_error =
    Unreadable | Lock_busy | Not_found | Conflict | Rule_error rule_error | Too_many_rules | Bad_editor | Bad_direction
  | No_identifier

section \<open>The content of the file\<close>

record store_data =
  sd_enabled :: bool
  sd_rules :: "json list"
  sd_applied :: json_object
  sd_rest :: json_object

definition empty_data :: store_data where
  "empty_data = \<lparr>sd_enabled = True, sd_rules = [], sd_applied = [], sd_rest = [(''schema_version'', Jint SCHEMA_VERSION)]\<rparr>"

text \<open>\<open>v == n\<close> for a whole number.\<close>

definition equals_int :: "json \<Rightarrow> int \<Rightarrow> bool" where
  "equals_int v n =
     (case v of Jint m \<Rightarrow> m = n | Jbool b \<Rightarrow> (if b then 1 else 0) = n | Jfloat x \<Rightarrow> x = Fin (of_int n) | _ \<Rightarrow> False)"

definition decode :: "json option \<Rightarrow> store_error + store_data" where
  "decode raw =
     (case raw of
        None \<Rightarrow> Inr empty_data
      | Some (Jobj ob) \<Rightarrow>
          if \<not> equals_int (jget ob ''schema_version'') SCHEMA_VERSION then Inl Unreadable
          else (case (case map_of ob ''enabled'' of None \<Rightarrow> Jbool True | Some v \<Rightarrow> v,
                      case map_of ob ''rules'' of None \<Rightarrow> Jlist [] | Some v \<Rightarrow> v,
                      case map_of ob ''applied'' of None \<Rightarrow> Jobj [] | Some v \<Rightarrow> v) of
                  (Jbool e, Jlist rules, Jobj applied) \<Rightarrow>
                    Inr \<lparr>sd_enabled = e, sd_rules = rules, sd_applied = applied,
                         sd_rest = filter (\<lambda>(k, _). k \<notin> set [''enabled'', ''rules'', ''applied'']) ob\<rparr>
                | _ \<Rightarrow> Inl Unreadable)
      | Some _ \<Rightarrow> Inl Unreadable)"

definition encode :: "store_data \<Rightarrow> json" where
  "encode d =
     Jobj (sd_rest d @ [(''enabled'', Jbool (sd_enabled d)), (''rules'', Jlist (sd_rules d)), (''applied'', Jobj (sd_applied d))])"

section \<open>Entries\<close>

definition entry_field :: "json \<Rightarrow> string \<Rightarrow> json" where
  "entry_field v k = (case v of Jobj ob \<Rightarrow> jget ob k | _ \<Rightarrow> Jnull)"

definition entry_id :: "(json \<Rightarrow> string) \<Rightarrow> json \<Rightarrow> string" where
  "entry_id digest v =
     (case entry_field v ''id'' of Jstr s \<Rightarrow> if s \<noteq> [] then s else ''x_'' @ digest v | _ \<Rightarrow> ''x_'' @ digest v)"

fun index_from :: "(json \<Rightarrow> string) \<Rightarrow> string \<Rightarrow> int option \<Rightarrow> nat \<Rightarrow> json list \<Rightarrow> store_error + nat" where
  "index_from digest i revision n [] = Inl Not_found"
| "index_from digest i revision n (v # vs) =
     (if entry_id digest v = i
      then if (case revision of None \<Rightarrow> False | Some r \<Rightarrow> \<not> equals_int (entry_field v ''revision'') r) then Inl Conflict else Inr n
      else index_from digest i revision (Suc n) vs)"

definition index_of :: "(json \<Rightarrow> string) \<Rightarrow> store_data \<Rightarrow> string \<Rightarrow> int option \<Rightarrow> store_error + nat" where
  "index_of digest d i revision = index_from digest i revision 0 (sd_rules d)"

text \<open>\<open>_editable\<close>: the fields of an edit, parsed and written again.\<close>

definition editable :: "json \<Rightarrow> string \<Rightarrow> store_error + rule_fields" where
  "editable payload editor =
     (if editor \<notin> set EDITORS then Inl Bad_editor else lift_error Rule_error (parse_editable payload))"

definition stamped_entry :: "micros \<Rightarrow> rule_fields \<Rightarrow> string \<Rightarrow> int \<Rightarrow> string \<Rightarrow> json" where
  "stamped_entry now f i revision editor = stamp_payload i revision (editable_payload f) now editor"

definition stored_rule :: "json \<Rightarrow> store_error + schedule_rule" where
  "stored_rule v = lift_error Rule_error (parse_rule v)"

definition new_id :: "string list \<Rightarrow> json list \<Rightarrow> store_error + string" where
  "new_id drawn taken = from_option No_identifier (find (\<lambda>i. Jstr i \<notin> set taken) drawn)"

section \<open>Operations\<close>

text \<open>
  Each takes the data read under the lock and returns the result and the data written, \<open>None\<close> when it writes
  nothing. \<open>check\<close> is the check of the caller on the book.
\<close>

type_synonym 'a store_write = "(store_error + 'a) \<times> store_data option"

definition writes :: "store_error + 'a \<times> store_data \<Rightarrow> 'a store_write" where
  "writes x = (case x of Inl e \<Rightarrow> (Inl e, None) | Inr (a, d) \<Rightarrow> (Inr a, Some d))"

text \<open>A rule is written before it is parsed for the answer: an error of that parse comes after the write.\<close>

definition create ::
  "micros \<Rightarrow> string list \<Rightarrow> (store_data \<Rightarrow> store_error + unit) \<Rightarrow> string \<Rightarrow> rule_fields \<Rightarrow> store_data \<Rightarrow> schedule_rule store_write" where
  "create now drawn check editor f d =
     (case ok_then (check d) (\<lambda>_.
           ok_then (if MAX_RULES \<le> length (sd_rules d) then Inl Too_many_rules else Inr ()) (\<lambda>_.
           ok_then (new_id drawn (map (\<lambda>v. entry_field v ''id'') (sd_rules d))) (\<lambda>i.
             Inr (stamped_entry now f i 1 editor)))) of
        Inl e \<Rightarrow> (Inl e, None)
      | Inr stored \<Rightarrow> (stored_rule stored, Some (d\<lparr>sd_rules := sd_rules d @ [stored]\<rparr>)))"

definition replace_rule ::
  "micros \<Rightarrow> (json \<Rightarrow> string) \<Rightarrow> (store_data \<Rightarrow> store_error + unit) \<Rightarrow> string \<Rightarrow> int \<Rightarrow> string \<Rightarrow> rule_fields \<Rightarrow> store_data \<Rightarrow>
   schedule_rule store_write" where
  "replace_rule now digest check i revision editor f d =
     (case ok_then (index_of digest d i (Some revision)) (\<lambda>n.
           ok_then (check d) (\<lambda>_. Inr (n, stamped_entry now f i (revision + 1) editor))) of
        Inl e \<Rightarrow> (Inl e, None)
      | Inr (n, stored) \<Rightarrow> (stored_rule stored, Some (d\<lparr>sd_rules := (sd_rules d)[n := stored]\<rparr>)))"

definition delete_rule :: "(json \<Rightarrow> string) \<Rightarrow> string \<Rightarrow> int option \<Rightarrow> store_data \<Rightarrow> unit store_write" where
  "delete_rule digest i revision d =
     writes (ok_then (index_of digest d i revision) (\<lambda>n.
       Inr ((), d\<lparr>sd_rules := take n (sd_rules d) @ drop (Suc n) (sd_rules d)\<rparr>)))"

definition swap :: "'a list \<Rightarrow> nat \<Rightarrow> nat \<Rightarrow> 'a list" where
  "swap xs i j = xs[i := xs ! j, j := xs ! i]"

definition move_rule :: "(json \<Rightarrow> string) \<Rightarrow> string \<Rightarrow> string \<Rightarrow> store_data \<Rightarrow> unit store_write" where
  "move_rule digest i direction d =
     (if direction \<notin> set [''up'', ''down''] then (Inl Bad_direction, None)
      else case index_of digest d i None of
             Inl e \<Rightarrow> (Inl e, None)
           | Inr n \<Rightarrow>
               let other = (if direction = ''up'' then int n - 1 else int n + 1)
               in if 0 \<le> other \<and> other < int (length (sd_rules d))
                  then (Inr (), Some (d\<lparr>sd_rules := swap (sd_rules d) n (nat other)\<rparr>))
                  else (Inr (), None))"

text \<open>
  \<open>skip\<close>: the day is added to the skipped dates, and those before yesterday in UTC are dropped.
\<close>

definition with_skipped :: "date \<Rightarrow> micros \<Rightarrow> when_rule \<Rightarrow> when_rule" where
  "with_skipped day now w =
     w\<lparr>wh_exceptions := as_set (day # filter (\<lambda>d. day_part now - 1 \<le> d) (wh_exceptions w))\<rparr>"

definition skip_rule ::
  "micros \<Rightarrow> (json \<Rightarrow> string) \<Rightarrow> string \<Rightarrow> date \<Rightarrow> int \<Rightarrow> string \<Rightarrow> store_data \<Rightarrow> schedule_rule store_write" where
  "skip_rule now digest i day revision editor d =
     (case ok_then (index_of digest d i (Some revision)) (\<lambda>n.
           ok_then (stored_rule (sd_rules d ! n)) (\<lambda>r.
           ok_then (editable (Jobj (editable_payload (r\<lparr>sr_when := with_skipped day now (sr_when r)\<rparr>))) editor) (\<lambda>f.
             Inr (n, stamped_entry now f i (revision + 1) editor)))) of
        Inl e \<Rightarrow> (Inl e, None)
      | Inr (n, stored) \<Rightarrow> (stored_rule stored, Some (d\<lparr>sd_rules := (sd_rules d)[n := stored]\<rparr>)))"

definition set_enabled :: "micros \<Rightarrow> bool \<Rightarrow> store_data \<Rightarrow> unit store_write" where
  "set_enabled now enabled d =
     (Inr (), Some (d\<lparr>sd_enabled := enabled,
        sd_rest := (if enabled \<and> \<not> sd_enabled d
                    then AList.update ''resumed_at'' (Jstr (strftime_utc now)) (sd_rest d) else sd_rest d)\<rparr>))"

definition record_applied :: "string \<Rightarrow> json \<Rightarrow> store_data \<Rightarrow> unit store_write" where
  "record_applied path rec d = (Inr (), Some (d\<lparr>sd_applied := AList.update path rec (sd_applied d)\<rparr>))"

text \<open>One change at a time: the lock may stay taken, and the file may be unreadable.\<close>

definition exclusive :: "bool \<Rightarrow> (store_data \<Rightarrow> 'a store_write) \<Rightarrow> json option \<Rightarrow> (store_error + 'a) \<times> json option" where
  "exclusive lock_free operation file =
     (if \<not> lock_free then (Inl Lock_busy, file)
      else case decode file of
             Inl e \<Rightarrow> (Inl e, file)
           | Inr d \<Rightarrow> (case operation d of (res, None) \<Rightarrow> (res, file) | (res, Some d') \<Rightarrow> (res, Some (encode d'))))"

text \<open>The payload of an edit is parsed before the lock is waited for.\<close>

definition edit ::
  "json \<Rightarrow> string \<Rightarrow> (rule_fields \<Rightarrow> store_data \<Rightarrow> 'a store_write) \<Rightarrow> bool \<Rightarrow> json option \<Rightarrow> (store_error + 'a) \<times> json option" where
  "edit payload editor operation lock_free file =
     (case editable payload editor of Inl e \<Rightarrow> (Inl e, file) | Inr f \<Rightarrow> exclusive lock_free (operation f) file)"

section \<open>Restoring a backup\<close>

text \<open>\<open>entry["updated_at"] = stamp\<close>, for an entry that has the field.\<close>

definition restamp :: "micros \<Rightarrow> json \<Rightarrow> json" where
  "restamp now v =
     (case v of
        Jobj ob \<Rightarrow> if map_of ob ''updated_at'' = None then v else Jobj (AList.update ''updated_at'' (Jstr (strftime_utc now)) ob)
      | _ \<Rightarrow> v)"

text \<open>
  The resume times that the backup and the current file name, and the restore's own where it resumes; the
  latest of them by its text.
\<close>

definition later_text :: "string \<Rightarrow> string \<Rightarrow> string" where
  "later_text a b = (if ord_class.lexordp (map (of_char :: char \<Rightarrow> nat) a) (map of_char b) then b else a)"

definition resume_times :: "micros \<Rightarrow> store_data \<Rightarrow> store_data \<Rightarrow> string list" where
  "resume_times now backup current =
     concat (map (\<lambda>v. case v of Jstr s \<Rightarrow> [s] | _ \<Rightarrow> [])
       [jget (sd_rest backup) ''resumed_at'', jget (sd_rest current) ''resumed_at'']) @
     (if sd_enabled backup \<and> \<not> sd_enabled current then [strftime_utc now] else [])"

definition restored :: "micros \<Rightarrow> bool \<Rightarrow> store_data \<Rightarrow> (store_error + store_data) \<Rightarrow> store_data" where
  "restored now keep_applied backup current =
     (let d = backup\<lparr>sd_rules := map (restamp now) (sd_rules backup)\<rparr>
      in case current of
           Inl _ \<Rightarrow> if keep_applied then d\<lparr>sd_applied := []\<rparr> else d
         | Inr c \<Rightarrow>
             let d = (if keep_applied then d\<lparr>sd_applied := sd_applied c\<rparr> else d)
             in case resume_times now backup c of
                  [] \<Rightarrow> d
                | t # ts \<Rightarrow> d\<lparr>sd_rest := AList.update ''resumed_at'' (Jstr (fold later_text ts t)) (sd_rest d)\<rparr>)"

text \<open>A backup that cannot be read is put in place as it is.\<close>

definition restore_backup :: "micros \<Rightarrow> bool \<Rightarrow> json option \<Rightarrow> json option \<Rightarrow> json option" where
  "restore_backup now keep_applied raw file =
     (case decode raw of
        Inl _ \<Rightarrow> raw
      | Inr backup \<Rightarrow> Some (encode (restored now keep_applied backup (decode file))))"

section \<open>Following a renamed device\<close>

text \<open>What an entry's rename is: the old and the new name, when the entry names a device by a known identity.\<close>

definition rename_of :: "(string \<times> string) list \<Rightarrow> json \<Rightarrow> (string \<times> string) option" where
  "rename_of names v =
     (case entry_field v ''target'' of
        Jobj target \<Rightarrow>
          (case (jget target ''identity'', jget target ''device'') of
             (Jstr i, Jstr old) \<Rightarrow>
               (case map_of names i of
                  Some name \<Rightarrow> if name \<noteq> [] \<and> old \<noteq> name then Some (old, name) else None
                | None \<Rightarrow> None)
           | _ \<Rightarrow> None)
      | _ \<Rightarrow> None)"

definition renamed_entry :: "(string \<times> string) list \<Rightarrow> json \<Rightarrow> json" where
  "renamed_entry names v =
     (case rename_of names v of
        None \<Rightarrow> v
      | Some (_, name) \<Rightarrow>
          (case (v, entry_field v ''target'') of
             (Jobj ob, Jobj target) \<Rightarrow>
               Jobj (AList.update ''target'' (Jobj (AList.update ''device'' (Jstr name) target)) ob)
           | _ \<Rightarrow> v))"

definition moved_slot :: "(string \<times> string) list \<Rightarrow> json \<Rightarrow> (string \<times> string) list" where
  "moved_slot names v =
     (case rename_of names v of
        None \<Rightarrow> []
      | Some (old, name) \<Rightarrow>
          (case schedule_action_of (entry_field (entry_field v ''action'') ''id'') of
             Inl _ \<Rightarrow> []
           | Inr a \<Rightarrow> [(action_slot a old, action_slot a name)]))"

definition rename_window :: "(string \<times> string) list \<Rightarrow> json \<Rightarrow> json" where
  "rename_window renamed rec =
     (case (rec, entry_field rec ''window'') of
        (Jobj ob, Jobj window) \<Rightarrow>
          (case jget window ''device'' of
             Jstr d \<Rightarrow>
               (case map_of renamed d of
                  Some name \<Rightarrow> Jobj (AList.update ''window'' (Jobj (AList.update ''device'' (Jstr name) window)) ob)
                | None \<Rightarrow> rec)
           | _ \<Rightarrow> rec)
      | _ \<Rightarrow> rec)"

text \<open>A record that moves replaces one left on the new name; the last rename of a name wins.\<close>

definition move_applied :: "(string \<times> string) list \<Rightarrow> (string \<times> string) list \<Rightarrow> json_object \<Rightarrow> json_object" where
  "move_applied moved renamed applied =
     fold (\<lambda>(slot, rec) ob.
       let key = (case map_of moved slot of Some k \<Rightarrow> k | None \<Rightarrow> slot)
       in if map_of ob key = None \<or> map_of moved slot \<noteq> None
          then AList.update key (rename_window renamed rec) ob else ob) applied []"

definition rename_devices :: "(string \<times> string) list \<Rightarrow> store_data \<Rightarrow> bool store_write" where
  "rename_devices names d =
     (let renames = List.map_filter (rename_of names) (sd_rules d)
      in if renames = [] then (Inr False, None)
         else (Inr True,
               Some (d\<lparr>sd_rules := map (renamed_entry names) (sd_rules d),
                       sd_applied := move_applied (rev (concat (map (moved_slot names) (sd_rules d)))) (rev renames)
                                       (sd_applied d)\<rparr>)))"

section \<open>What the operations keep\<close>

text \<open>A UTC time is written to the second.\<close>

lemma strftime_utc_floor: "strftime_utc (SECOND * (t div SECOND)) = strftime_utc t"
proof -
  define q where "q = t div SECOND mod 86400"
  have day: "DAY = SECOND * 86400" by (simp add: DAY_def SECOND_def)
  have parts: "time_part t = SECOND * q + t mod SECOND" "time_part (SECOND * (t div SECOND)) = SECOND * q"
    unfolding time_part_def day q_def by (rule zmod_zmult2_eq, simp) (rule mult_mod_right [symmetric])
  have "(SECOND * q + t mod SECOND) div SECOND = q" by (simp add: SECOND_def)
  then have units: "time_part t div (SECOND * k) = q div k" "time_part (SECOND * (t div SECOND)) div (SECOND * k) = q div k" if "0 \<le> k" for k
    unfolding parts using that by (simp_all add: zdiv_zmult2_eq SECOND_def)
  have "day_part (SECOND * (t div SECOND)) = day_part t"
    unfolding day_part_def day by (simp add: zdiv_zmult2_eq SECOND_def)
  moreover have "hour_of x = time_part x div (SECOND * 3600)" "minute_of x = time_part x div (SECOND * 60) mod 60"
      "second_of x = time_part x div (SECOND * 1) mod 60" for x
    by (simp_all add: hour_of_def minute_of_def second_of_def SECOND_def MINUTE_def)
  ultimately show ?thesis using units [of 1] by (simp add: strftime_utc_def strftime_local_def units)
qed

text \<open>A clock of this time: the C library writes its year with four digits.\<close>

definition clock_ok :: "micros \<Rightarrow> bool" where
  "clock_ok now \<longleftrightarrow> 1000 \<le> year_of (day_part now) \<and> year_of (day_part now) \<le> 9999"

definition entry_ok :: "json \<Rightarrow> bool" where
  "entry_ok v = (case parse_rule v of Inl _ \<Rightarrow> False | Inr r \<Rightarrow> late_enough r)"

definition data_ok :: "store_data \<Rightarrow> bool" where
  "data_ok d \<longleftrightarrow>
     list_all entry_ok (sd_rules d) \<and> distinct (map (\<lambda>v. entry_field v ''id'') (sd_rules d)) \<and> length (sd_rules d) \<le> MAX_RULES"

lemma entry_ok_id: "entry_ok v \<Longrightarrow> \<exists>i. entry_field v ''id'' = Jstr i \<and> rule_id_ok i \<and> entry_id digest v = i"
proof -
  assume "entry_ok v"
  then obtain ob i where "v = Jobj ob" "jget ob ''id'' = Jstr i" "rule_id_ok i"
    by (auto simp: entry_ok_def parse_rule_def split: sum.splits)
  moreover from this have "i \<noteq> []" by (auto simp: rule_id_ok_def)
  ultimately show ?thesis by (auto simp: entry_field_def entry_id_def)
qed

lemma stamp_ok:
  assumes "well_formed_fields f" and "late_enough f" and "rule_id_ok i" and "1 \<le> n" and "editor \<in> set EDITORS" and "clock_ok now"
  shows "entry_ok (stamped_entry now f i n editor)" and "entry_field (stamped_entry now f i n editor) ''id'' = Jstr i"
    and "entry_field (stamped_entry now f i n editor) ''revision'' = Jint n"
proof -
  let ?t = "SECOND * (now div SECOND)"
  have "stamped_entry now f i n editor = stamp_payload i n (editable_payload f) ?t editor"
    by (simp add: stamped_entry_def stamp_payload_def strftime_utc_floor)
  moreover have "?t mod SECOND = 0" by simp
  moreover have "day_part ?t = day_part now"
    by (simp add: day_part_def DAY_def SECOND_def zdiv_zmult2_eq [of 86400 now 1000000, simplified])
  ultimately have "parse_rule (stamped_entry now f i n editor) =
      Inr (rule_fields.extend (rule_fields.truncate f) (schedule_rule.fields i n ?t editor))"
    using parse_stamped [OF assms(1-5)] assms(6) by (simp add: clock_ok_def)
  then show "entry_ok (stamped_entry now f i n editor)"
    using assms(2) by (simp add: entry_ok_def late_enough_def rule_fields.defs schedule_rule.defs)
  show "entry_field (stamped_entry now f i n editor) ''id'' = Jstr i" "entry_field (stamped_entry now f i n editor) ''revision'' = Jint n"
    by (simp_all add: stamped_entry_def stamp_payload_def entry_field_def jget_def)
qed

lemma index_from_Inr:
  "index_from digest i revision n vs = Inr k \<Longrightarrow>
     n \<le> k \<and> k < n + length vs \<and> entry_id digest (vs ! (k - n)) = i \<and>
     (\<forall>j < k - n. entry_id digest (vs ! j) \<noteq> i) \<and>
     (case revision of None \<Rightarrow> True | Some r \<Rightarrow> equals_int (entry_field (vs ! (k - n)) ''revision'') r)"
proof (induction digest i revision n vs rule: index_from.induct)
  case (2 digest i revision n v vs)
  show ?case
  proof (cases "entry_id digest v = i")
    case True
    then show ?thesis using 2(2) by (auto split: if_splits option.splits)
  next
    case False
    then have ih: "Suc n \<le> k \<and> k < Suc n + length vs \<and> entry_id digest (vs ! (k - Suc n)) = i \<and>
        (\<forall>j < k - Suc n. entry_id digest (vs ! j) \<noteq> i) \<and>
        (case revision of None \<Rightarrow> True | Some r \<Rightarrow> equals_int (entry_field (vs ! (k - Suc n)) ''revision'') r)"
      using 2 by simp
    then have k: "k - n = Suc (k - Suc n)" by linarith
    have "entry_id digest ((v # vs) ! j) \<noteq> i" if "j < k - n" for j
      using that ih False k by (cases j) auto
    then show ?thesis using ih by (cases revision) (simp_all add: k)
  qed
qed simp

lemma index_of_Inr:
  "index_of digest d i revision = Inr k \<Longrightarrow> k < length (sd_rules d) \<and> entry_id digest (sd_rules d ! k) = i \<and>
     (\<forall>j < k. entry_id digest (sd_rules d ! j) \<noteq> i)"
  unfolding index_of_def by (drule index_from_Inr) auto

lemma index_from_conflict:
  "k < length vs \<Longrightarrow> entry_id digest (vs ! k) = i \<Longrightarrow> \<forall>j < k. entry_id digest (vs ! j) \<noteq> i \<Longrightarrow>
   \<not> equals_int (entry_field (vs ! k) ''revision'') r \<Longrightarrow> index_from digest i (Some r) n vs = Inl Conflict"
proof (induction vs arbitrary: k n)
  case (Cons v vs)
  show ?case
  proof (cases k)
    case 0
    then show ?thesis using Cons.prems by simp
  next
    case (Suc m)
    then have "entry_id digest v \<noteq> i" "\<forall>j < m. entry_id digest (vs ! j) \<noteq> i" using Cons.prems(3) by auto
    then show ?thesis using Cons.IH [of m "Suc n"] Cons.prems Suc by simp
  qed
qed simp

section \<open>Runs of the store\<close>

text \<open>The operations that an editor and the scheduler run, with what the environment gives each.\<close>

datatype store_event =
    Create_event micros "string list" json string
  | Replace_event micros string json int string
  | Delete_event string "int option"
  | Move_event string string
  | Skip_event micros string date int string
  | Enable_event micros bool
  | Applied_event string json

definition edited :: "json \<Rightarrow> string \<Rightarrow> (rule_fields \<Rightarrow> store_data \<Rightarrow> 'a store_write) \<Rightarrow> store_data \<Rightarrow> 'a store_write" where
  "edited payload editor operation d =
     (case editable payload editor of Inl e \<Rightarrow> (Inl e, None) | Inr f \<Rightarrow> operation f d)"

definition data_after :: "store_data \<Rightarrow> 'a store_write \<Rightarrow> store_data" where
  "data_after d w = (case snd w of None \<Rightarrow> d | Some d' \<Rightarrow> d')"

definition store_step :: "(json \<Rightarrow> string) \<Rightarrow> (store_data \<Rightarrow> store_error + unit) \<Rightarrow> store_data \<Rightarrow> store_event \<Rightarrow> store_data" where
  "store_step digest check d e =
     (case e of
        Create_event now drawn payload editor \<Rightarrow> data_after d (edited payload editor (create now drawn check editor) d)
      | Replace_event now i payload revision editor \<Rightarrow>
          data_after d (edited payload editor (replace_rule now digest check i revision editor) d)
      | Delete_event i revision \<Rightarrow> data_after d (delete_rule digest i revision d)
      | Move_event i direction \<Rightarrow> data_after d (move_rule digest i direction d)
      | Skip_event now i day revision editor \<Rightarrow> data_after d (skip_rule now digest i day revision editor d)
      | Enable_event now b \<Rightarrow> data_after d (set_enabled now b d)
      | Applied_event path rec \<Rightarrow> data_after d (record_applied path rec d))"

text \<open>
  What is relied on: the clock's year has four digits, the identifiers drawn look like \<open>r_\<close> and eight hexadecimal
  digits, and an edited rule does not start before the year 1000.
\<close>

definition payload_late :: "json \<Rightarrow> bool" where
  "payload_late payload = (case parse_editable payload of Inl _ \<Rightarrow> True | Inr f \<Rightarrow> late_enough f)"

definition event_ok :: "store_event \<Rightarrow> bool" where
  "event_ok e =
     (case e of
        Create_event now drawn payload _ \<Rightarrow> clock_ok now \<and> list_all rule_id_ok drawn \<and> payload_late payload
      | Replace_event now _ payload _ _ \<Rightarrow> clock_ok now \<and> payload_late payload
      | Skip_event now _ _ _ _ \<Rightarrow> clock_ok now
      | _ \<Rightarrow> True)"

lemma editable_Inr:
  "editable payload editor = Inr f \<Longrightarrow> editor \<in> set EDITORS \<and> parse_editable payload = Inr f \<and> well_formed_fields f"
  using parse_editable_well_formed by (auto simp: editable_def split: if_splits)

lemma data_ok_append:
  "data_ok d \<Longrightarrow> entry_ok v \<Longrightarrow> entry_field v ''id'' \<notin> (\<lambda>v. entry_field v ''id'') ` set (sd_rules d) \<Longrightarrow>
   length (sd_rules d) < MAX_RULES \<Longrightarrow> data_ok (d\<lparr>sd_rules := sd_rules d @ [v]\<rparr>)"
  by (simp add: data_ok_def)

lemma data_ok_update:
  assumes "data_ok d" and "n < length (sd_rules d)" and "entry_ok v"
    and "entry_field v ''id'' = entry_field (sd_rules d ! n) ''id''"
  shows "data_ok (d\<lparr>sd_rules := (sd_rules d)[n := v]\<rparr>)"
proof -
  have "map (\<lambda>v. entry_field v ''id'') ((sd_rules d)[n := v]) = map (\<lambda>v. entry_field v ''id'') (sd_rules d)"
    using assms(2,4) by (simp add: map_update list_update_same_conv)
  moreover have "list_all entry_ok ((sd_rules d)[n := v])"
    using assms(1,3) set_update_subset_insert [of "sd_rules d" n v] by (auto simp: data_ok_def list_all_iff)
  ultimately show ?thesis using assms(1) by (simp add: data_ok_def)
qed

lemma data_ok_mset:
  assumes "data_ok d" and "mset rules \<subseteq># mset (sd_rules d)"
  shows "data_ok (d\<lparr>sd_rules := rules\<rparr>)"
proof -
  let ?id = "\<lambda>v. entry_field v ''id''"
  obtain rest where m: "mset (sd_rules d) = mset (rules @ rest)"
    using assms(2) by (metis ex_mset mset_append mset_subset_eq_exists_conv)
  have "mset (map ?id (sd_rules d)) = mset (map ?id (rules @ rest))" by (simp only: mset_map m)
  then have "distinct (map ?id (rules @ rest)) = distinct (map ?id (sd_rules d))"
    by (rule mset_eq_imp_distinct_iff [symmetric])
  then have "distinct (map ?id rules)" using assms(1) by (simp add: data_ok_def)
  moreover have "set rules \<subseteq> set (sd_rules d)" using mset_eq_setD [OF m] by simp
  moreover have "length rules \<le> length (sd_rules d)" using mset_eq_length [OF m] by simp
  ultimately show ?thesis using assms(1) by (simp add: data_ok_def list_all_iff subset_iff)
qed

text \<open>A written rule takes the identifier of the entry it replaces.\<close>

lemma replaced_ok:
  assumes "data_ok d" and "index_of digest d i revision = Inr n" and "well_formed_fields f" and "late_enough f"
    and "editor \<in> set EDITORS" and "clock_ok now" and "0 \<le> r"
  shows "data_ok (d\<lparr>sd_rules := (sd_rules d)[n := stamped_entry now f i (r + 1) editor]\<rparr>)"
proof -
  have n: "n < length (sd_rules d)" "entry_id digest (sd_rules d ! n) = i" using index_of_Inr [OF assms(2)] by auto
  then have "entry_ok (sd_rules d ! n)" using assms(1) by (simp add: data_ok_def list_all_length)
  then have "entry_field (sd_rules d ! n) ''id'' = Jstr i" "rule_id_ok i" using entry_ok_id n(2) by auto
  then show ?thesis
    using data_ok_update [OF assms(1) n(1)] stamp_ok [OF assms(3,4) _ _ assms(5,6), of i "r + 1"] assms(7) by simp
qed

lemma revision_stored:
  assumes "data_ok d" and "index_of digest d i (Some r) = Inr n"
  shows "1 \<le> r"
proof -
  have n: "n < length (sd_rules d)" "equals_int (entry_field (sd_rules d ! n) ''revision'') r"
    using index_from_Inr [OF assms(2) [unfolded index_of_def]] by auto
  then have "entry_ok (sd_rules d ! n)" using assms(1) by (simp add: data_ok_def list_all_length)
  then obtain ob m where "sd_rules d ! n = Jobj ob" "jget ob ''revision'' = Jint m" "1 \<le> m"
    by (auto simp: entry_ok_def parse_rule_def split: sum.splits)
  then show ?thesis using n(2) by (simp add: entry_field_def equals_int_def)
qed

lemma parse_when_start:
  assumes "parse_when (when_payload w) = Inr w'" and "whole_minute (wh_start w)" and "1000 \<le> year_of (day_part (wh_start w))"
  shows "wh_start w' = wh_start w"
proof -
  obtain ob where ob: "when_payload w = Jobj ob" "jget ob ''start'' = Jstr (strftime_local (wh_start w))"
    by (rule when_payload_fields) blast
  then obtain start w0 where "parse_local ''start'' (jget ob ''start'') = Inr start" "check_when w0 = Inr w'" "wh_start w0 = start"
    using assms(1) by (auto simp: parse_when_def)
  then show ?thesis using ob(2) parse_local_text [OF assms(2,3)] check_when_Inr by fastforce
qed

lemma parse_editable_when: "parse_editable (Jobj ob) = Inr f \<Longrightarrow> parse_when (jget ob ''when'') = Inr (sr_when f)"
  by (auto simp: parse_editable_def)

lemma skipped_late:
  assumes "well_formed_rule r" and "late_enough r"
    and "parse_editable (Jobj (editable_payload (r\<lparr>sr_when := with_skipped day now (sr_when r)\<rparr>))) = Inr f"
  shows "late_enough f"
proof -
  let ?w = "with_skipped day now (sr_when r)"
  have "jget (editable_payload (r\<lparr>sr_when := ?w\<rparr>)) ''when'' = when_payload ?w"
    by (simp add: editable_payload_def jget_def)
  then have "parse_when (when_payload ?w) = Inr (sr_when f)"
    using parse_editable_when [OF assms(3)] by simp
  moreover have "wh_start ?w = wh_start (sr_when r)" by (simp add: with_skipped_def)
  moreover have "whole_minute (wh_start (sr_when r))"
    using assms(1) by (simp add: well_formed_rule_def well_formed_fields_def well_formed_when_def)
  ultimately have "wh_start (sr_when f) = wh_start (sr_when r)"
    using parse_when_start [of ?w "sr_when f"] assms(2) by (simp add: late_enough_def)
  then show ?thesis using assms(2) by (simp add: late_enough_def)
qed

lemma new_id_fresh:
  "new_id drawn (map f vs) = Inr i \<Longrightarrow> i \<in> set drawn \<and> Jstr i \<notin> f ` set vs"
  by (auto simp: new_id_def dest: find_Some_mem)

lemma mset_swap_rules:
  assumes "i < length xs" and "j < length xs"
  shows "mset (swap xs i j) = mset xs"
  using assms mset_swap [of j xs i] by (simp add: swap_def)

lemma step_keeps:
  assumes "data_ok d" and "event_ok e"
  shows "data_ok (store_step digest check d e)"
proof (cases e)
  case (Create_event now drawn payload editor)
  show ?thesis
  proof (cases "store_step digest check d e = d")
    case False
    then obtain f i where f: "editable payload editor = Inr f" "\<not> MAX_RULES \<le> length (sd_rules d)"
        "new_id drawn (map (\<lambda>v. entry_field v ''id'') (sd_rules d)) = Inr i"
        "store_step digest check d e = d\<lparr>sd_rules := sd_rules d @ [stamped_entry now f i 1 editor]\<rparr>"
      by (auto simp: Create_event store_step_def data_after_def edited_def create_def split: sum.splits if_splits)
    note ids = new_id_fresh [OF f(3)]
    have "rule_id_ok i" using ids assms(2) by (auto simp: Create_event event_ok_def list_all_iff)
    moreover have "clock_ok now" "late_enough f"
      using assms(2) editable_Inr [OF f(1)] by (auto simp: Create_event event_ok_def payload_late_def)
    ultimately show ?thesis
      using data_ok_append [OF assms(1)] stamp_ok [of f i 1 editor now] editable_Inr [OF f(1)] ids f(2) unfolding f(4) by simp
  qed (use assms in simp)
next
  case (Replace_event now i payload revision editor)
  show ?thesis
  proof (cases "store_step digest check d e = d")
    case False
    then obtain f n where f: "editable payload editor = Inr f" "index_of digest d i (Some revision) = Inr n"
        "store_step digest check d e = d\<lparr>sd_rules := (sd_rules d)[n := stamped_entry now f i (revision + 1) editor]\<rparr>"
      by (auto simp: Replace_event store_step_def data_after_def edited_def replace_rule_def split: sum.splits)
    have "clock_ok now" "late_enough f"
      using assms(2) editable_Inr [OF f(1)] by (auto simp: Replace_event event_ok_def payload_late_def)
    then show ?thesis
      using replaced_ok [OF assms(1) f(2)] revision_stored [OF assms(1) f(2)] editable_Inr [OF f(1)] unfolding f(3) by simp
  qed (use assms in simp)
next
  case (Delete_event i revision)
  show ?thesis
  proof (cases "store_step digest check d e = d")
    case False
    then obtain n where n: "store_step digest check d e = d\<lparr>sd_rules := take n (sd_rules d) @ drop (Suc n) (sd_rules d)\<rparr>"
        "index_of digest d i revision = Inr n"
      by (auto simp: Delete_event store_step_def data_after_def delete_rule_def writes_def split: sum.splits)
    have "sd_rules d = take n (sd_rules d) @ sd_rules d ! n # drop (Suc n) (sd_rules d)"
      using index_of_Inr [OF n(2)] id_take_nth_drop by blast
    then have "mset (sd_rules d) = add_mset (sd_rules d ! n) (mset (take n (sd_rules d) @ drop (Suc n) (sd_rules d)))"
      by (metis mset_append mset.simps(2) union_mset_add_mset_right)
    then show ?thesis unfolding n(1) by (intro data_ok_mset [OF assms(1)]) (simp only: mset_subset_eq_add_mset_cancel subset_mset.order_refl | simp)+
  qed (use assms in simp)
next
  case (Move_event i direction)
  show ?thesis
  proof (cases "store_step digest check d e = d")
    case False
    then obtain n m where n: "store_step digest check d e = d\<lparr>sd_rules := swap (sd_rules d) n m\<rparr>"
        "index_of digest d i None = Inr n" "m < length (sd_rules d)"
      by (auto simp: Move_event store_step_def data_after_def move_rule_def Let_def split: sum.splits if_splits)
    then have "mset (swap (sd_rules d) n m) = mset (sd_rules d)" using index_of_Inr [OF n(2)] mset_swap_rules by blast
    then show ?thesis unfolding n(1) by (intro data_ok_mset [OF assms(1)]) simp
  qed (use assms in simp)
next
  case (Skip_event now i day revision editor)
  show ?thesis
  proof (cases "store_step digest check d e = d")
    case False
    then obtain n r f where f: "index_of digest d i (Some revision) = Inr n" "stored_rule (sd_rules d ! n) = Inr r"
        "editable (Jobj (editable_payload (r\<lparr>sr_when := with_skipped day now (sr_when r)\<rparr>))) editor = Inr f"
        "store_step digest check d e = d\<lparr>sd_rules := (sd_rules d)[n := stamped_entry now f i (revision + 1) editor]\<rparr>"
      by (auto simp: Skip_event store_step_def data_after_def skip_rule_def split: sum.splits)
    have r: "parse_rule (sd_rules d ! n) = Inr r" using f(2) by (simp add: stored_rule_def)
    have "entry_ok (sd_rules d ! n)" using index_of_Inr [OF f(1)] assms(1) by (simp add: data_ok_def list_all_length)
    then have "late_enough r" using r by (simp add: entry_ok_def)
    then have "late_enough f" using skipped_late [OF parse_rule_well_formed [OF r]] editable_Inr [OF f(3)] by blast
    moreover have "clock_ok now" using assms(2) by (simp add: Skip_event event_ok_def)
    ultimately show ?thesis
      using replaced_ok [OF assms(1) f(1)] revision_stored [OF assms(1) f(1)] editable_Inr [OF f(3)] unfolding f(4) by simp
  qed (use assms in simp)
next
  case (Enable_event now b)
  then show ?thesis using assms(1) by (simp add: store_step_def data_after_def set_enabled_def data_ok_def)
next
  case (Applied_event path rec)
  then show ?thesis using assms(1) by (simp add: store_step_def data_after_def record_applied_def data_ok_def)
qed

section \<open>Properties of the store\<close>

interpretation store: stepwise_invariant "store_step digest check" event_ok data_ok
  by unfold_locales (rule step_keeps)

lemma data_ok_empty: "data_ok empty_data"
  by (simp add: data_ok_def empty_data_def)

text \<open>The new rule of the examples, and a store that holds it.\<close>

definition evening_event :: store_event where
  "evening_event = Create_event (739907 * DAY) [''r_0123abcd''] (Jobj (editable_payload evening_charge)) ''dashboard''"

lemma evening_payload: "parse_editable (Jobj (editable_payload evening_charge)) = Inr (rule_fields.truncate evening_charge)"
  by (rule parse_editable_payload [OF evening_charge_fields evening_charge_stamp(4)])

lemma evening_clock: "clock_ok (739907 * DAY)"
  using evening_charge_stamp(1,2) by (simp add: clock_ok_def evening_charge_def)

lemma evening_event_ok: "event_ok evening_event"
  using evening_clock evening_charge_stamp(3,4)
  by (simp add: event_ok_def evening_event_def payload_late_def evening_payload late_enough_def rule_fields.defs)

text \<open>
  Whatever editors and the scheduler do, and in whatever order, every entry of the schedules stays a rule that can
  be read, every identifier belongs to one entry, and there are at most \<open>MAX_RULES\<close> of them: for operations whose
  clock reads a year with four digits and whose rules start in the year 1000 or later.
\<close>

lemma store_keeps_readable_rules:
  assumes "list_all event_ok es" and "d = run_steps (store_step digest check) empty_data es"
  shows "(\<forall>v \<in> set (sd_rules d). \<exists>r. parse_rule v = Inr r \<and> well_formed_rule r) \<and>
    distinct (map (\<lambda>v. entry_field v ''id'') (sd_rules d)) \<and> length (sd_rules d) \<le> MAX_RULES"
proof -
  have d: "data_ok d" unfolding assms(2) by (rule store.run_inv [OF data_ok_empty assms(1)])
  have "\<exists>r. parse_rule v = Inr r \<and> well_formed_rule r" if "v \<in> set (sd_rules d)" for v
  proof -
    have "entry_ok v" using d that by (simp add: data_ok_def list_all_iff)
    then obtain r where "parse_rule v = Inr r" by (auto simp: entry_ok_def split: sum.splits)
    then show ?thesis using parse_rule_well_formed by blast
  qed
  then show ?thesis using d by (simp add: data_ok_def)
qed

lemma entry_id_nonempty: "entry_id digest v \<noteq> []"
  by (auto simp: entry_id_def split: json.splits)

lemma stamp_id: "i \<noteq> [] \<Longrightarrow> entry_id digest (stamped_entry now f i n editor) = i"
  by (simp add: entry_id_def entry_field_def stamped_entry_def stamp_payload_def jget_def)

lemma stamp_revision: "entry_field (stamped_entry now f i n editor) ''revision'' = Jint n"
  by (simp add: entry_field_def stamped_entry_def stamp_payload_def jget_def)

text \<open>
  C38. An edit is refused when the rule changed since the editor read it: after one edit made at a revision went
  through, a second edit, a deletion or a skipped day that names the same revision is a conflict and writes nothing.
\<close>

theorem stale_revision_is_refused:
  assumes "replace_rule now digest check i n editor f d = (res, Some d')"
  shows "replace_rule now' digest check' i n editor' f' d' = (Inl Conflict, None) \<and>
    delete_rule digest i (Some n) d' = (Inl Conflict, None) \<and>
    skip_rule now' digest i day n editor' d' = (Inl Conflict, None)"
proof -
  obtain k where k: "index_of digest d i (Some n) = Inr k" "d' = d\<lparr>sd_rules := (sd_rules d)[k := stamped_entry now f i (n + 1) editor]\<rparr>"
    using assms by (auto simp: replace_rule_def split: sum.splits)
  have found: "k < length (sd_rules d)" "entry_id digest (sd_rules d ! k) = i"
      "\<forall>j < k. entry_id digest (sd_rules d ! j) \<noteq> i"
    using index_of_Inr [OF k(1)] by auto
  then have "i \<noteq> []" using entry_id_nonempty by blast
  then have "entry_id digest (sd_rules d' ! k) = i" "entry_field (sd_rules d' ! k) ''revision'' = Jint (n + 1)"
      "k < length (sd_rules d')" "\<forall>j < k. entry_id digest (sd_rules d' ! j) \<noteq> i"
    using found by (simp_all add: k(2) stamp_id stamp_revision)
  note later = this
  have "\<not> equals_int (entry_field (sd_rules d' ! k) ''revision'') n" unfolding later(2) by (simp add: equals_int_def)
  then have "index_of digest d' i (Some n) = Inl Conflict"
    unfolding index_of_def by (rule index_from_conflict [OF later(3,1,4)])
  then show ?thesis by (simp add: replace_rule_def delete_rule_def skip_rule_def writes_def)
qed

definition evening_store :: store_data where
  "evening_store = empty_data\<lparr>sd_rules := [stamped_entry 0 (rule_fields.truncate evening_charge) ''r_0123abcd'' 1 ''dashboard'']\<rparr>"

lemma evening_index: "index_of digest evening_store ''r_0123abcd'' (Some 1) = Inr 0"
  by (simp add: index_of_def evening_store_def stamp_id stamp_revision equals_int_def)

theorem stale_revision_is_refused_witness:
  "delete_rule (\<lambda>_. []) ''r_0123abcd'' (Some 1)
     (data_after evening_store (replace_rule 0 (\<lambda>_. []) (\<lambda>_. Inr ()) ''r_0123abcd'' 1 ''emsctl'' (rule_fields.truncate evening_charge) evening_store)) =
     (Inl Conflict, None)"
proof -
  have "replace_rule 0 (\<lambda>_. []) (\<lambda>_. Inr ()) ''r_0123abcd'' 1 ''emsctl'' (rule_fields.truncate evening_charge) evening_store =
      (fst (replace_rule 0 (\<lambda>_. []) (\<lambda>_. Inr ()) ''r_0123abcd'' 1 ''emsctl'' (rule_fields.truncate evening_charge) evening_store),
       Some (data_after evening_store (replace_rule 0 (\<lambda>_. []) (\<lambda>_. Inr ()) ''r_0123abcd'' 1 ''emsctl'' (rule_fields.truncate evening_charge) evening_store)))"
    by (simp add: replace_rule_def evening_index data_after_def)
  then show ?thesis using stale_revision_is_refused by blast
qed

end
