(* ===== verification/Schedule_Book.thy ===== *)
theory Schedule_Book
  imports Schedule_Store "HOL-Library.Product_Lexorder"
begin

text \<open>
  The book of rules that \<open>ems/schedule_store.py\<close> reads out of the file, and what \<open>ems/scheduler.py\<close> works out of
  it without keeping a state: the switch points of a rule, those that are due, the window that is still open, and
  the check of a rule against the others.

  A reading of a rule's days may raise (\<open>Date_overflow\<close>): a date after 9999-12-31. A generator's reader that stops
  early does not meet what comes later.

  Proved: the point that is due on a setting is the latest of all enabled rules' points that have come since the
  setting's last applied point, the rule's last save and the last resume.
\<close>

section \<open>The book\<close>

datatype book_rule = Rule schedule_rule | Broken string json

record window_record =
  wr_action :: string
  wr_device :: json
  wr_end_value :: json
  wr_ends_at :: micros

record applied_record =
  ap_rule :: string
  ap_at :: micros
  ap_value :: json
  ap_window :: "window_record option"

record schedule_book =
  bk_enabled :: bool
  bk_rules :: "book_rule list"
  bk_applied :: "(string \<times> applied_record) list"
  bk_resumed_at :: "micros option"

text \<open>\<open>_closable\<close>: a recorded window whose action is known and takes its end value.\<close>

definition closable :: "json \<Rightarrow> bool" where
  "closable v =
     (case v of
        Jobj ob \<Rightarrow>
          (case schedule_action_of (jget ob ''action'') of
             Inl _ \<Rightarrow> False
           | Inr a \<Rightarrow> takes a (jget ob ''end_value''))
      | _ \<Rightarrow> False)"

definition json_text :: "json \<Rightarrow> string" where
  "json_text v = (case v of Jstr s \<Rightarrow> s | _ \<Rightarrow> [])"

definition parse_window_record :: "json \<Rightarrow> rule_error + window_record" where
  "parse_window_record w =
     ok_then (parse_utc ''applied window end'' (entry_field w ''ends_at'')) (\<lambda>t.
       Inr \<lparr>wr_action = json_text (entry_field w ''action''), wr_device = entry_field w ''device'',
            wr_end_value = entry_field w ''end_value'', wr_ends_at = t\<rparr>)"

text \<open>A record that cannot be read is left out of the book.\<close>

definition parse_applied :: "json \<Rightarrow> applied_record option" where
  "parse_applied v =
     (case entry_field v ''rule'' of
        Jstr rule \<Rightarrow>
          (case ok_then (check_rule_part (case entry_field v ''value'' of Jfloat x \<Rightarrow> isfinite x | _ \<Rightarrow> True) ''applied value'') (\<lambda>_.
                ok_then (parse_utc ''applied at'' (entry_field v ''at'')) (\<lambda>t.
                ok_then (if closable (entry_field v ''window'')
                         then ok_then (parse_window_record (entry_field v ''window'')) (\<lambda>w. Inr (Some w))
                         else Inr None) (\<lambda>w.
                  Inr \<lparr>ap_rule = rule, ap_at = t, ap_value = entry_field v ''value'', ap_window = w\<rparr>))) of
             Inl _ \<Rightarrow> None
           | Inr rec \<Rightarrow> Some rec)
      | _ \<Rightarrow> None)"

text \<open>The errors of a rule that are no \<open>ScheduleRuleError\<close>, and so are not caught where a rule is read.\<close>

definition escapes :: "rule_error \<Rightarrow> bool" where
  "escapes e \<longleftrightarrow> e \<in> {Bad_when Date_overflow, Bad_when Type_error, Bad_action Value_overflow}"

definition book_rule_of :: "(json \<Rightarrow> string) \<Rightarrow> json \<Rightarrow> rule_error + book_rule" where
  "book_rule_of digest v =
     (case parse_rule v of
        Inr r \<Rightarrow> Inr (Rule r)
      | Inl e \<Rightarrow> if escapes e then Inl e else Inr (Broken (entry_id digest v) v))"

definition book_of :: "(json \<Rightarrow> string) \<Rightarrow> store_data \<Rightarrow> rule_error + schedule_book" where
  "book_of digest d =
     ok_then (all_ok (book_rule_of digest) (sd_rules d)) (\<lambda>rules.
       Inr \<lparr>bk_enabled = sd_enabled d, bk_rules = rules,
            bk_applied = List.map_filter (\<lambda>(path, v). map_option (Pair path) (parse_applied v)) (sd_applied d),
            bk_resumed_at = (case parse_utc ''resumed_at'' (jget (sd_rest d) ''resumed_at'') of Inl _ \<Rightarrow> None | Inr t \<Rightarrow> Some t)\<rparr>)"

section \<open>Switch points\<close>

definition LOOKAHEAD :: micros where "LOOKAHEAD = 400 * DAY"

definition FAR_AHEAD :: micros where "FAR_AHEAD = 366 * 500 * DAY"

definition CLASH_HORIZON :: micros where "CLASH_HORIZON = 366 * 28 * DAY"

definition FUTURE_TOLERANCE :: micros where "FUTURE_TOLERANCE = DAY"

definition NEVER :: micros where "NEVER = make_date 1970 1 1 * DAY"

definition CLOCK_FLOOR :: micros where "CLOCK_FLOOR = make_date 2026 10 1 * DAY"

record switch_point =
  sp_at :: micros
  sp_slot :: string
  sp_rule :: schedule_rule
  sp_value :: json
  sp_start :: bool
  sp_rank :: nat
  sp_ends_at :: "micros option"

text \<open>\<open>SwitchPoint.order\<close>: later wins, at one instant a start beats an end, then the higher rule.\<close>

definition sp_order :: "switch_point \<Rightarrow> micros \<times> bool \<times> int" where
  "sp_order p = (sp_at p, sp_start p, - int (sp_rank p))"

definition slot_of :: "schedule_rule \<Rightarrow> string" where
  "slot_of r = action_slot (sr_action r) (case sr_device r of None \<Rightarrow> ''None'' | Some d \<Rightarrow> d)"

definition valid_rules :: "schedule_book \<Rightarrow> (nat \<times> schedule_rule) list" where
  "valid_rules bk =
     List.map_filter (\<lambda>(rank, br). case br of Rule r \<Rightarrow> if sr_enabled r then Some (rank, r) else None | Broken _ _ \<Rightarrow> None)
       (enumerate 0 (bk_rules bk))"

text \<open>What a generator yields to a reader that reads all of it.\<close>

definition read_all :: "'a list \<times> gen_end \<Rightarrow> time_error + 'a list" where
  "read_all g = (if snd g = Raised then Inl Date_overflow else Inr (fst g))"

definition points_of :: "schedule_rule \<Rightarrow> micros \<Rightarrow> micros \<Rightarrow> nat \<Rightarrow> occurrence \<Rightarrow> switch_point list" where
  "points_of r after limit rank oc =
     (if after < oc_start oc \<and> oc_start oc \<le> limit
      then [\<lparr>sp_at = oc_start oc, sp_slot = slot_of r, sp_rule = r, sp_value = sr_value r, sp_start = True, sp_rank = rank,
             sp_ends_at = oc_end oc\<rparr>] else []) @
     (case oc_end oc of
        None \<Rightarrow> []
      | Some e \<Rightarrow>
          if after < e \<and> e \<le> limit
          then [\<lparr>sp_at = e, sp_slot = slot_of r, sp_rule = r, sp_value = sr_end_value r, sp_start = False, sp_rank = rank,
                 sp_ends_at = None\<rparr>] else [])"

definition switch_points :: "schedule_rule \<Rightarrow> zone \<Rightarrow> micros \<Rightarrow> micros \<Rightarrow> nat \<Rightarrow> switch_point list \<times> gen_end" where
  "switch_points r zone after limit rank =
     (let (ocs, st) = occurrences (sr_when r) zone (Some after) (Some limit)
      in (concat (map (points_of r after limit rank) ocs), st))"

section \<open>What is due\<close>

text \<open>\<open>_bound\<close>: of the times a clock can have stamped, the latest.\<close>

definition bound_of :: "schedule_rule \<Rightarrow> micros \<Rightarrow> schedule_book \<Rightarrow> micros \<Rightarrow> micros" where
  "bound_of r applied_at bk now =
     (case filter (\<lambda>b. b \<le> now + FUTURE_TOLERANCE)
             [sr_updated_at r, applied_at, case bk_resumed_at bk of None \<Rightarrow> NEVER | Some t \<Rightarrow> t] of
        [] \<Rightarrow> NEVER
      | b # bs \<Rightarrow> fold max bs b)"

definition applied_at :: "schedule_book \<Rightarrow> string \<Rightarrow> micros" where
  "applied_at bk slot = (case map_of (bk_applied bk) slot of None \<Rightarrow> NEVER | Some rec \<Rightarrow> ap_at rec)"

definition due_of_rule :: "zone \<Rightarrow> micros \<Rightarrow> schedule_book \<Rightarrow> nat \<times> schedule_rule \<Rightarrow> time_error + switch_point list" where
  "due_of_rule zone now bk x =
     (let (rank, r) = x
      in read_all (switch_points r zone (bound_of r (applied_at bk (slot_of r)) bk now) now rank))"

definition keep_latest :: "switch_point \<Rightarrow> (string \<times> switch_point) list \<Rightarrow> (string \<times> switch_point) list" where
  "keep_latest p due =
     (case map_of due (sp_slot p) of
        None \<Rightarrow> AList.update (sp_slot p) p due
      | Some q \<Rightarrow> if sp_order q < sp_order p then AList.update (sp_slot p) p due else due)"

definition due_switch_points :: "schedule_book \<Rightarrow> zone \<Rightarrow> micros \<Rightarrow> time_error + (string \<times> switch_point) list" where
  "due_switch_points bk zone now =
     (if \<not> bk_enabled bk then Inr []
      else ok_then (all_ok (due_of_rule zone now bk) (valid_rules bk)) (\<lambda>pss. Inr (fold keep_latest (concat pss) [])))"

section \<open>What comes\<close>

definition upcoming_switch_points :: "schedule_book \<Rightarrow> zone \<Rightarrow> micros \<Rightarrow> micros option \<Rightarrow> time_error + switch_point list" where
  "upcoming_switch_points bk zone now limit =
     (if \<not> bk_enabled bk then Inr []
      else ok_then
             (all_ok (\<lambda>(rank, r). read_all (switch_points r zone now (case limit of None \<Rightarrow> now + LOOKAHEAD | Some u \<Rightarrow> u) rank))
               (valid_rules bk))
             (\<lambda>pss. Inr (sort_key sp_order (concat pss))))"

text \<open>\<open>next(iter(...), None)\<close> reads one point only.\<close>

definition next_switch_point :: "schedule_rule \<Rightarrow> zone \<Rightarrow> micros \<Rightarrow> time_error + switch_point option" where
  "next_switch_point r zone now =
     (case switch_points r zone now (now + FAR_AHEAD) 0 of
        (p # ps, st) \<Rightarrow> Inr (Some p)
      | ([], st) \<Rightarrow> if st = Raised then Inl Date_overflow else Inr None)"

definition next_switch_at :: "schedule_book \<Rightarrow> zone \<Rightarrow> micros \<Rightarrow> time_error + micros option" where
  "next_switch_at bk zone now =
     (if \<not> bk_enabled bk then Inr None
      else ok_then (all_ok (\<lambda>(_, r). next_switch_point r zone now) (valid_rules bk)) (\<lambda>ps.
             Inr (case List.map_filter (map_option sp_at) ps of [] \<Rightarrow> None | t # ts \<Rightarrow> Some (fold min ts t))))"

section \<open>Windows that run\<close>

definition device_json :: "string option \<Rightarrow> json" where
  "device_json d = (case d of None \<Rightarrow> Jnull | Some s \<Rightarrow> Jstr s)"

definition same_window_rule :: "string \<Rightarrow> window_record \<Rightarrow> schedule_book \<Rightarrow> schedule_rule option" where
  "same_window_rule i w bk =
     find (\<lambda>r. sr_id r = i \<and> is_window r \<and> ac_id (sr_action r) = wr_action w \<and> device_json (sr_device r) = wr_device w)
       (map snd (valid_rules bk))"

definition covers :: "micros \<Rightarrow> micros \<Rightarrow> occurrence \<Rightarrow> bool" where
  "covers moment bound oc =
     (case oc_end oc of None \<Rightarrow> False | Some e \<Rightarrow> oc_start oc \<le> moment \<and> moment < e \<and> bound < e)"

definition window_still_open :: "applied_record \<Rightarrow> window_record \<Rightarrow> schedule_book \<Rightarrow> zone \<Rightarrow> micros \<Rightarrow> time_error + bool" where
  "window_still_open rec w bk zone now =
     (case if bk_enabled bk then same_window_rule (ap_rule rec) w bk else None of
        None \<Rightarrow> Inr False
      | Some r \<Rightarrow>
          let bound = bound_of r (ap_at rec) bk now;
              moment = (if now < ap_at rec \<and> ap_at rec \<le> now + FUTURE_TOLERANCE then ap_at rec else now);
              (ocs, st) = occurrences (sr_when r) zone (Some moment) (Some moment)
          in if list_ex (covers moment bound) ocs then Inr True
             else if st = Raised then Inl Date_overflow else Inr False)"

section \<open>The latest point wins\<close>

text \<open>What holds of the points kept: each is one of those read, on its own slot, and none of those read is later.\<close>

definition keeps_latest :: "switch_point set \<Rightarrow> (string \<times> switch_point) list \<Rightarrow> bool" where
  "keeps_latest ps due \<longleftrightarrow>
     (\<forall>slot p. map_of due slot = Some p \<longrightarrow> p \<in> ps \<and> sp_slot p = slot) \<and>
     (\<forall>q \<in> ps. \<exists>p. map_of due (sp_slot q) = Some p \<and> sp_order q \<le> sp_order p)"

lemma keep_latest_step: "keeps_latest ps due \<Longrightarrow> keeps_latest (insert p ps) (keep_latest p due)"
proof -
  assume k: "keeps_latest ps due"
  show ?thesis
  proof (cases "map_of due (sp_slot p)")
    case None
    then show ?thesis using k by (auto simp: keeps_latest_def keep_latest_def update_conv')
  next
    case (Some q)
    then have "sp_slot q = sp_slot p" using k by (auto simp: keeps_latest_def)
    show ?thesis
    proof (cases "sp_order q < sp_order p")
      case True
      have map: "map_of (keep_latest p due) = (map_of due)(sp_slot p \<mapsto> p)"
        using True Some by (simp add: keep_latest_def update_conv')
      have later: "\<exists>y. ((map_of due)(sp_slot p \<mapsto> p)) (sp_slot x) = Some y \<and> sp_order x \<le> sp_order y" if mem: "x \<in> ps" for x
      proof -
        obtain y where "map_of due (sp_slot x) = Some y" "sp_order x \<le> sp_order y" using mem k by (auto simp: keeps_latest_def)
        then show ?thesis using True Some by (cases "sp_slot x = sp_slot p") auto
      qed
      have "\<forall>slot x. ((map_of due)(sp_slot p \<mapsto> p)) slot = Some x \<longrightarrow> x \<in> insert p ps \<and> sp_slot x = slot"
        using k unfolding keeps_latest_def by simp
      moreover have "\<forall>x \<in> insert p ps. \<exists>y. ((map_of due)(sp_slot p \<mapsto> p)) (sp_slot x) = Some y \<and> sp_order x \<le> sp_order y"
        using later by simp
      ultimately show ?thesis unfolding keeps_latest_def map by (rule conjI)
    next
      case False
      then have same: "keep_latest p due = due" using Some by (simp add: keep_latest_def)
      have "map_of due (sp_slot p) = Some q \<and> sp_order p \<le> sp_order q" using False Some by (simp add: not_less)
      then show ?thesis using k unfolding keeps_latest_def same by blast
    qed
  qed
qed

lemma keep_latest_fold: "keeps_latest ps due \<Longrightarrow> keeps_latest (ps \<union> set qs) (fold keep_latest qs due)"
proof (induction qs arbitrary: ps due)
  case (Cons q qs)
  then show ?case using Cons.IH [OF keep_latest_step [OF Cons.prems]] by simp
qed simp

lemma all_ok_set: "all_ok f xs = Inr ys \<Longrightarrow> set ys = {y. \<exists>x\<in>set xs. f x = Inr y}"
  by (induction xs arbitrary: ys) auto

text \<open>The points that \<open>due_switch_points\<close> chooses among.\<close>

lemma due_latest:
  assumes "due_switch_points bk zone now = Inr due" and "bk_enabled bk"
  shows "keeps_latest {p. \<exists>x ps. x \<in> set (valid_rules bk) \<and> due_of_rule zone now bk x = Inr ps \<and> p \<in> set ps} due"
proof -
  obtain pss where pss: "all_ok (due_of_rule zone now bk) (valid_rules bk) = Inr pss" "due = fold keep_latest (concat pss) []"
    using assms by (auto simp: due_switch_points_def)
  have "set (concat pss) = {p. \<exists>x ps. x \<in> set (valid_rules bk) \<and> due_of_rule zone now bk x = Inr ps \<and> p \<in> set ps}"
    using all_ok_set [OF pss(1)] by auto
  then show ?thesis
    using keep_latest_fold [of "{}" "[]" "concat pss"] unfolding pss(2) by (simp add: keeps_latest_def)
qed

lemma points_of_slot: "p \<in> set (points_of r after limit rank oc) \<Longrightarrow> sp_slot p = slot_of r \<and> sp_rule p = r \<and> sp_rank p = rank \<and>
    after < sp_at p \<and> sp_at p \<le> limit \<and> (sp_start p \<longrightarrow> sp_value p = sr_value r) \<and> (\<not> sp_start p \<longrightarrow> sp_value p = sr_end_value r)"
  by (auto simp: points_of_def split: if_splits option.splits)

lemma points_of_early: "oc_start oc \<le> last_point oc \<Longrightarrow> last_point oc < after \<Longrightarrow> points_of r after limit rank oc = []"
  by (auto simp: points_of_def last_point_def split: option.splits)

lemma occurrence_ordered:
  assumes "case window_length w of None \<Rightarrow> True | Some l \<Rightarrow> 0 \<le> l" and "oc \<in> set (fst (occurrences w zone since limit))"
  shows "oc_start oc \<le> last_point oc"
  using assms
  by (auto simp: occurrences_def kept_occurrences_def occurrence_on_def last_point_def Let_def split: prod.splits option.splits)

lemma switch_points_mem:
  "p \<in> set (fst (switch_points r zone after limit rank)) \<longleftrightarrow>
     (\<exists>oc \<in> set (fst (occurrences (sr_when r) zone (Some after) (Some limit))). p \<in> set (points_of r after limit rank oc))"
  by (auto simp: switch_points_def split: prod.splits)

lemma set_map_filter: "set (List.map_filter f xs) = {y. \<exists>x\<in>set xs. f x = Some y}"
  by (induction xs) (auto simp: map_filter_simps split: option.splits)

lemma valid_rules_mem: "(rank, r) \<in> set (valid_rules bk) \<longleftrightarrow> rank < length (bk_rules bk) \<and> bk_rules bk ! rank = Rule r \<and> sr_enabled r"
  by (auto simp: valid_rules_def set_map_filter in_set_enumerate_eq split: book_rule.splits if_splits
      intro!: bexI [of _ "(rank, bk_rules bk ! rank)"])

text \<open>
  The point a rule has come to, read from the rule's own start: the start or the end of an occurrence, after the
  rule's bound and not after now.
\<close>

definition has_come :: "schedule_book \<Rightarrow> zone \<Rightarrow> micros \<Rightarrow> switch_point \<Rightarrow> bool" where
  "has_come bk zone now p \<longleftrightarrow>
     (\<exists>(rank, r) \<in> set (valid_rules bk). \<exists>oc \<in> set (fst (occurrences (sr_when r) zone None (Some now))).
        p \<in> set (points_of r (bound_of r (applied_at bk (slot_of r)) bk now) now rank oc))"

definition gives_up :: "gen_end \<Rightarrow> bool" where
  "gives_up st \<longleftrightarrow> st = Gave_up \<or> st = Raised"

text \<open>What is relied on of a rule: it is well formed, and its days can be read up to now.\<close>

definition readable :: "schedule_rule \<Rightarrow> schedule_book \<Rightarrow> zone \<Rightarrow> micros \<Rightarrow> bool" where
  "readable r bk zone now \<longleftrightarrow>
     well_formed_fields r \<and>
     \<not> gives_up (snd (occurrences (sr_when r) zone None (Some now))) \<and>
     \<not> gives_up (snd (occurrences (sr_when r) zone (Some (bound_of r (applied_at bk (slot_of r)) bk now)) (Some now)))"

lemma well_formed_reading:
  "well_formed_fields r \<Longrightarrow> (case wh_repeat (sr_when r) of None \<Rightarrow> True | Some p \<Rightarrow> valid_repeat p) \<and>
     (case window_length (sr_when r) of None \<Rightarrow> True | Some l \<Rightarrow> 0 \<le> l)"
  by (auto simp: well_formed_fields_def well_formed_when_def well_formed_repeat_def check_when_def MIN_WINDOW_def MINUTE_def
      split: option.splits if_splits)

lemma due_of_rule_come:
  assumes "orderly_zone zone" and "readable r bk zone now" and "due_of_rule zone now bk (rank, r) = Inr ps"
  shows "p \<in> set ps \<longleftrightarrow> (\<exists>oc \<in> set (fst (occurrences (sr_when r) zone None (Some now))).
    p \<in> set (points_of r (bound_of r (applied_at bk (slot_of r)) bk now) now rank oc))"
proof -
  let ?b = "bound_of r (applied_at bk (slot_of r)) bk now"
  have wf: "well_formed_fields r" using assms(2) by (simp add: readable_def)
  note r = well_formed_reading [OF wf]
  have same: "fst (occurrences (sr_when r) zone (Some ?b) (Some now)) =
      filter (\<lambda>oc. ?b \<le> last_point oc) (fst (occurrences (sr_when r) zone None (Some now)))"
    using assms(2) by (intro occurrences_since [OF _ assms(1)]) (use r in \<open>auto simp: readable_def gives_up_def\<close>)
  have ps: "ps = fst (switch_points r zone ?b now rank)"
    using assms(3) by (auto simp: due_of_rule_def read_all_def split: if_splits)
  have "?b \<le> last_point oc" if "oc \<in> set (fst (occurrences (sr_when r) zone None (Some now)))"
      "p \<in> set (points_of r ?b now rank oc)" for oc
    using that points_of_early [of oc ?b r now rank] occurrence_ordered [of "sr_when r" oc zone None "Some now"] r by force
  then show ?thesis unfolding ps switch_points_mem same by auto
qed

section \<open>Properties of what is due\<close>

lemma bound_of_below:
  "b \<in> {sr_updated_at r, t, case bk_resumed_at bk of None \<Rightarrow> NEVER | Some u \<Rightarrow> u} \<Longrightarrow> b \<le> now + FUTURE_TOLERANCE \<Longrightarrow>
   b \<le> bound_of r t bk now"
  by (auto simp: bound_of_def)

lemma latest_due:
  assumes "due_switch_points bk zone now = Inr due" and "bk_enabled bk" and "orderly_zone zone"
    and "\<forall>(rank, r) \<in> set (valid_rules bk). readable r bk zone now"
  shows "(\<forall>slot p. map_of due slot = Some p \<longrightarrow> has_come bk zone now p \<and> sp_slot p = slot \<and>
       (\<forall>q. has_come bk zone now q \<and> sp_slot q = slot \<longrightarrow> sp_order q \<le> sp_order p)) \<and>
    (\<forall>q. has_come bk zone now q \<longrightarrow> map_of due (sp_slot q) \<noteq> None)"
proof -
  let ?read = "{p. \<exists>x ps. x \<in> set (valid_rules bk) \<and> due_of_rule zone now bk x = Inr ps \<and> p \<in> set ps}"
  have latest: "keeps_latest ?read due" by (rule due_latest [OF assms(1,2)])
  have all: "\<exists>ps. due_of_rule zone now bk x = Inr ps" if "x \<in> set (valid_rules bk)" for x
    using assms(4) that by (cases x) (auto simp: due_of_rule_def read_all_def switch_points_def readable_def gives_up_def Let_def split: prod.splits)
  have "p \<in> ?read \<longleftrightarrow> has_come bk zone now p" for p
  proof
    assume "p \<in> ?read"
    then obtain rank r ps where x: "(rank, r) \<in> set (valid_rules bk)" "due_of_rule zone now bk (rank, r) = Inr ps" "p \<in> set ps"
      by auto
    then show "has_come bk zone now p"
      using due_of_rule_come [OF assms(3) _ x(2)] assms(4) unfolding has_come_def by blast
  next
    assume "has_come bk zone now p"
    then obtain rank r where x: "(rank, r) \<in> set (valid_rules bk)"
        "\<exists>oc \<in> set (fst (occurrences (sr_when r) zone None (Some now))).
           p \<in> set (points_of r (bound_of r (applied_at bk (slot_of r)) bk now) now rank oc)"
      unfolding has_come_def by blast
    then obtain ps where ps: "due_of_rule zone now bk (rank, r) = Inr ps" using all by blast
    have "readable r bk zone now" using assms(4) x(1) by blast
    then have "p \<in> set ps" using due_of_rule_come [OF assms(3) _ ps] x(2) by blast
    then show "p \<in> ?read" using x(1) ps by blast
  qed
  then have "?read = {p. has_come bk zone now p}" by blast
  then have l: "keeps_latest {p. has_come bk zone now p} due" using latest by simp
  show ?thesis using l unfolding keeps_latest_def by force
qed

lemma due_point_bounds:
  assumes "due_switch_points bk zone now = Inr due" and "map_of due slot = Some p"
  shows "sp_at p \<le> now \<and> sr_enabled (sp_rule p) \<and>
    (\<forall>rec. map_of (bk_applied bk) slot = Some rec \<longrightarrow> ap_at rec \<le> now + FUTURE_TOLERANCE \<longrightarrow> ap_at rec < sp_at p) \<and>
    (sr_updated_at (sp_rule p) \<le> now + FUTURE_TOLERANCE \<longrightarrow> sr_updated_at (sp_rule p) < sp_at p) \<and>
    (\<forall>t. bk_resumed_at bk = Some t \<longrightarrow> t \<le> now + FUTURE_TOLERANCE \<longrightarrow> t < sp_at p)"
proof -
  have "bk_enabled bk" using assms by (auto simp: due_switch_points_def split: if_splits)
  then have latest: "keeps_latest {p. \<exists>x ps. x \<in> set (valid_rules bk) \<and> due_of_rule zone now bk x = Inr ps \<and> p \<in> set ps} due"
    by (rule due_latest [OF assms(1)])
  then have p: "sp_slot p = slot" "\<exists>x ps. x \<in> set (valid_rules bk) \<and> due_of_rule zone now bk x = Inr ps \<and> p \<in> set ps"
    using assms(2) unfolding keeps_latest_def by blast+
  then obtain rank r ps where x: "(rank, r) \<in> set (valid_rules bk)" "due_of_rule zone now bk (rank, r) = Inr ps" "p \<in> set ps"
    by (metis surj_pair)
  let ?b = "bound_of r (applied_at bk (slot_of r)) bk now"
  have ps: "ps = fst (switch_points r zone ?b now rank)"
    using x(2) by (auto simp: due_of_rule_def read_all_def split: if_splits)
  then obtain oc where oc: "p \<in> set (points_of r ?b now rank oc)" using x(3) unfolding ps switch_points_mem by blast
  have q: "slot_of r = slot" "sp_rule p = r" "?b < sp_at p" "sp_at p \<le> now"
    using points_of_slot [OF oc] p(1) by simp_all
  note below = bound_of_below [of _ r "applied_at bk (slot_of r)" bk now]
  have "sr_enabled r" using x(1) by (simp add: valid_rules_mem)
  moreover have "ap_at rec < sp_at p" if "map_of (bk_applied bk) slot = Some rec" "ap_at rec \<le> now + FUTURE_TOLERANCE" for rec
    using below [of "ap_at rec"] that q by (simp add: applied_at_def)
  moreover have "sr_updated_at r < sp_at p" if "sr_updated_at r \<le> now + FUTURE_TOLERANCE"
    using below [of "sr_updated_at r"] that q(3) by simp
  moreover have "t < sp_at p" if "bk_resumed_at bk = Some t" "t \<le> now + FUTURE_TOLERANCE" for t
    using below [of t] that q(3) by simp
  ultimately show ?thesis using q by blast
qed


text \<open>
  C35. No switch point fires twice, and none fires for a time that an edit, a resume or a later point has overtaken: a
  point that is due lies after what was last applied to its setting, after its rule's last save and after the last
  resume, each unless it is stamped more than a day ahead of now; and it is not in the future.
\<close>

theorem no_switch_point_fires_twice:
  assumes "due_switch_points bk zone now = Inr due" and "map_of due slot = Some p"
  shows "sp_at p \<le> now \<and> sr_enabled (sp_rule p) \<and>
    (\<forall>rec. map_of (bk_applied bk) slot = Some rec \<longrightarrow> ap_at rec \<le> now + FUTURE_TOLERANCE \<longrightarrow> ap_at rec < sp_at p) \<and>
    (sr_updated_at (sp_rule p) \<le> now + FUTURE_TOLERANCE \<longrightarrow> sr_updated_at (sp_rule p) < sp_at p) \<and>
    (\<forall>t. bk_resumed_at bk = Some t \<longrightarrow> t \<le> now + FUTURE_TOLERANCE \<longrightarrow> t < sp_at p)"
  using due_point_bounds [OF assms] .

text \<open>The examples' book, an hour into the first evening.\<close>

definition evening_book :: schedule_book where
  "evening_book = \<lparr>bk_enabled = True, bk_rules = [Rule evening_charge], bk_applied = [], bk_resumed_at = None\<rparr>"

definition in_the_evening :: micros where "in_the_evening = 739908 * DAY + 17 * 60 * MINUTE"

definition evening_start :: switch_point where
  "evening_start = \<lparr>sp_at = 739908 * DAY + 16 * 60 * MINUTE, sp_slot = ''devices.WR1.runtime_role,devices.WR1.ac_charge_power_w'',
     sp_rule = evening_charge, sp_value = Jint 600, sp_start = True, sp_rank = 0, sp_ends_at = Some (739908 * DAY + 18 * 60 * MINUTE)\<rparr>"

lemma evening_due: "due_switch_points evening_book two_hours_ahead in_the_evening =
    Inr [(''devices.WR1.runtime_role,devices.WR1.ac_charge_power_w'', evening_start)]"
  by code_simp

lemma evening_readable: "readable evening_charge evening_book two_hours_ahead in_the_evening"
proof -
  have "\<not> gives_up (snd (occurrences (sr_when evening_charge) two_hours_ahead None (Some in_the_evening)))" by code_simp
  moreover have "\<not> gives_up (snd (occurrences (sr_when evening_charge) two_hours_ahead
      (Some (bound_of evening_charge (applied_at evening_book (slot_of evening_charge)) evening_book in_the_evening)) (Some in_the_evening)))"
    by code_simp
  ultimately show ?thesis using evening_charge_fields by (simp add: readable_def)
qed


theorem no_switch_point_fires_twice_witness:
  "sr_updated_at evening_charge < sp_at evening_start \<and> sp_at evening_start \<le> in_the_evening"
proof -
  have "sr_updated_at evening_charge \<le> in_the_evening + FUTURE_TOLERANCE" by code_simp
  then show ?thesis
    using no_switch_point_fires_twice [OF evening_due, of "''devices.WR1.runtime_role,devices.WR1.ac_charge_power_w''" evening_start]
    by (simp add: evening_start_def)
qed

end
