(* ===== verification/Schedule_Check.thy ===== *)
theory Schedule_Check
  imports Schedule_Book
begin

text \<open>
  \<open>ems/scheduler.py\<close>: whether a rule can be saved on this installation. Two windows on one setting are
  compared in wall-clock time, over a span worked out from how the two repeat; the local time of an instant is an
  argument. The zone that a fixed \<open>TZ\<close> names is here too.

  Proved: two rules of daily or weekly pattern, between which the search finds no overlap, never overlap.
\<close>

section \<open>Two rules' windows\<close>

text \<open>\<open>_period_days\<close>.\<close>

definition pattern_days :: "when_rule \<Rightarrow> int option" where
  "pattern_days w =
     (case wh_repeat w of
        None \<Rightarrow> None
      | Some r \<Rightarrow>
          if rp_by_month r \<noteq> [] \<or> rp_by_month_day r \<noteq> [] \<or> rp_by_set_pos r \<noteq> None then None
          else (case rp_freq r of
                  Daily \<Rightarrow> Some (if rp_by_weekday r \<noteq> [] then lcm (rp_interval r) 7 else rp_interval r)
                | Weekly \<Rightarrow> Some (7 * rp_interval r)
                | _ \<Rightarrow> None))"

text \<open>\<open>datetime + timedelta\<close>, for a span from 0.\<close>

definition time_plus :: "micros \<Rightarrow> micros \<Rightarrow> time_error + micros" where
  "time_plus t dt = (if MAX_ORDINAL < day_part (t + dt) then Inl Date_overflow else Inr (t + dt))"

text \<open>
  \<open>_overlap_in_order\<close> on what the two generators yield up to \<open>limit\<close> and how they end: a generator that stopped there
  has nothing that starts in time.
\<close>

fun overlap_in_order ::
  "gen_end \<Rightarrow> gen_end \<Rightarrow> micros \<Rightarrow> (micros \<times> micros) list \<Rightarrow> (micros \<times> micros) list \<Rightarrow> time_error + micros option" where
  "overlap_in_order st su limit [] ys = (if st = Raised then Inl Date_overflow else Inr None)"
| "overlap_in_order st su limit (x # xs) [] = (if su = Raised then Inl Date_overflow else Inr None)"
| "overlap_in_order st su limit (x # xs) (y # ys) =
     (if limit < min (fst x) (fst y) then Inr None
      else if snd x \<le> fst y then overlap_in_order st su limit xs (y # ys)
      else if snd y \<le> fst x then overlap_in_order st su limit (x # xs) ys
      else Inr (if max (fst x) (fst y) \<le> limit then Some (max (fst x) (fst y)) else None))"

definition merge_windows ::
  "(micros \<times> micros) list \<times> gen_end \<Rightarrow> (micros \<times> micros) list \<times> gen_end \<Rightarrow> micros \<Rightarrow> time_error + micros option" where
  "merge_windows mine theirs limit =
     (if fst mine = [] \<and> snd mine = Raised \<or> fst theirs = [] \<and> snd theirs = Raised then Inl Date_overflow
      else overlap_in_order (snd mine) (snd theirs) limit (fst mine) (fst theirs))"

definition windows_in_a_year :: "when_rule \<Rightarrow> micros \<Rightarrow> time_error + nat" where
  "windows_in_a_year w since =
     ok_then (read_all (wall_windows w (Some since) (since + 366 * DAY))) (\<lambda>ws. Inr (length ws))"

text \<open>
  The windows of the sparser rule, one by one: of the other rule, the first that ends after the window's start. Reading the
  other rule up to the window's end is enough: one that starts after it does not overlap.
\<close>

fun look_around :: "when_rule \<Rightarrow> gen_end \<Rightarrow> (micros \<times> micros) list \<Rightarrow> time_error + micros option" where
  "look_around dense st [] = (if st = Raised then Inl Date_overflow else Inr None)"
| "look_around dense st ((start, finish) # ws) =
     (let (others, su) = wall_windows dense (Some start) finish
      in case find (\<lambda>y. start < snd y) others of
           Some y \<Rightarrow> if fst y < finish then Inr (Some (max start (fst y))) else look_around dense st ws
         | None \<Rightarrow> if su = Raised then Inl Date_overflow else look_around dense st ws)"

definition length_of :: "when_rule \<Rightarrow> micros" where
  "length_of w = (case window_length w of None \<Rightarrow> 0 | Some l \<Rightarrow> l)"

text \<open>From when both patterns run undisturbed: both have begun and their last skipped date has passed.\<close>

definition both_begun :: "when_rule \<Rightarrow> when_rule \<Rightarrow> micros \<Rightarrow> micros" where
  "both_begun w v since =
     fold max ([wh_start w, wh_start v] @ map (\<lambda>d. (d + 1) * DAY) (wh_exceptions w @ wh_exceptions v)) since"

definition first_overlap :: "when_rule \<Rightarrow> when_rule \<Rightarrow> micros \<Rightarrow> time_error + micros option" where
  "first_overlap w v since =
     (case (pattern_days w, pattern_days v) of
        (Some p, Some q) \<Rightarrow>
          if list_ex (\<lambda>d. MAX_ORDINAL < d + 1) (wh_exceptions w @ wh_exceptions v) then Inl Date_overflow
          else ok_then (time_plus (both_begun w v since) (lcm p q * DAY + max (length_of w) (length_of v))) (\<lambda>limit.
                 merge_windows (wall_windows w (Some since) limit) (wall_windows v (Some since) limit) limit)
      | _ \<Rightarrow>
          ok_then (time_plus since CLASH_HORIZON) (\<lambda>limit.
          ok_then (windows_in_a_year w since) (\<lambda>m.
          ok_then (windows_in_a_year v since) (\<lambda>n.
            let (sparse, dense) = (if n < m then (v, w) else (w, v));
                (ws, st) = wall_windows sparse (Some since) limit
            in look_around dense st ws))))"

fun clash_among :: "schedule_rule \<Rightarrow> zone \<Rightarrow> micros \<Rightarrow> schedule_rule list \<Rightarrow> time_error + (schedule_rule \<times> micros) option" where
  "clash_among r zone since [] = Inr None"
| "clash_among r zone since (v # vs) =
     (if sr_id v = sr_id r \<or> \<not> is_window v \<or> slot_of v \<noteq> slot_of r then clash_among r zone since vs
      else ok_then (first_overlap (sr_when r) (sr_when v) since) (\<lambda>x.
             case x of
               Some t \<Rightarrow> Inr (Some (v, localize zone t))
             | None \<Rightarrow> clash_among r zone since vs))"

definition window_clash :: "schedule_rule \<Rightarrow> schedule_book \<Rightarrow> zone \<Rightarrow> micros \<Rightarrow> time_error + (schedule_rule \<times> micros) option" where
  "window_clash r bk zone local_now =
     (if \<not> is_window r then Inr None else clash_among r zone local_now (map snd (valid_rules bk)))"

section \<open>The check of a rule\<close>

datatype check_error =
    Rule_shape rule_error | Missing_device string | Refused_value write_error | In_the_past | Has_ended
  | Overlaps string micros | Cannot_read time_error

definition device_arg :: "schedule_rule \<Rightarrow> string" where
  "device_arg r = (case sr_device r of None \<Rightarrow> [] | Some d \<Rightarrow> d)"

definition values_of :: "schedule_rule \<Rightarrow> json list" where
  "values_of r = (if is_window r then [sr_value r, sr_end_value r] else [sr_value r])"

definition check_values :: "(string \<Rightarrow> pyfloat option) \<Rightarrow> validation_context \<Rightarrow> schedule_rule \<Rightarrow> check_error + unit" where
  "check_values pf c r =
     ok_then (all_ok (\<lambda>v.
       ok_then (lift_error (\<lambda>e. Rule_shape (Bad_action e)) (action_commands (sr_action r) v))
         (all_ok (\<lambda>(command, x). lift_error Refused_value (validate_command pf c (ac_scope (sr_action r)) (device_arg r) command x))))
       (values_of r)) (\<lambda>_. Inr ())"

definition check_coming :: "schedule_rule \<Rightarrow> zone \<Rightarrow> micros \<Rightarrow> check_error + unit" where
  "check_coming r zone now =
     (if wh_repeat (sr_when r) = None
      then if localize zone (case wh_end (sr_when r) of None \<Rightarrow> wh_start (sr_when r) | Some e \<Rightarrow> e) \<le> now
           then Inl In_the_past else Inr ()
      else ok_then (lift_error Cannot_read (next_switch_point r zone now)) (\<lambda>x. if x = None then Inl Has_ended else Inr ()))"

definition check_clash :: "schedule_rule \<Rightarrow> schedule_book \<Rightarrow> zone \<Rightarrow> micros \<Rightarrow> check_error + unit" where
  "check_clash r bk zone local_now =
     ok_then (lift_error Cannot_read (window_clash r bk zone local_now)) (\<lambda>x.
       case x of None \<Rightarrow> Inr () | Some (v, t) \<Rightarrow> Inl (Overlaps (sr_name v) t))"

definition check_rule ::
  "(string \<Rightarrow> pyfloat option) \<Rightarrow> validation_context \<Rightarrow> string list \<Rightarrow> zone \<Rightarrow> micros \<Rightarrow> micros \<Rightarrow> schedule_book \<Rightarrow> string option \<Rightarrow> json \<Rightarrow>
   check_error + schedule_rule" where
  "check_rule pf c devices zone now local_now bk rule_id payload =
     ok_then (lift_error Rule_shape (parse_editable payload)) (\<lambda>f.
       let i = (case rule_id of Some s \<Rightarrow> if s \<noteq> [] then s else ''r_00000000'' | None \<Rightarrow> ''r_00000000'');
           r = rule_fields.extend f (schedule_rule.fields i 1 now ''dashboard'')
       in if \<not> sr_enabled r then Inr r
          else ok_then (case sr_device r of None \<Rightarrow> Inr () | Some d \<Rightarrow> if d \<in> set devices then Inr () else Inl (Missing_device d)) (\<lambda>_.
               ok_then (check_values pf c r) (\<lambda>_.
               ok_then (check_coming r zone now) (\<lambda>_.
               ok_then (check_clash r bk zone local_now) (\<lambda>_. Inr r)))))"

text \<open>\<open>with_device_identity\<close>: \<open>devices\<close> gives the serial of each configured device that has one.\<close>

definition identity_of :: "(string \<times> string option) list \<Rightarrow> book_rule option \<Rightarrow> string \<Rightarrow> string option" where
  "identity_of devices previous d =
     (case map_of devices d of
        Some (Some i) \<Rightarrow> Some i
      | _ \<Rightarrow> (case previous of Some (Rule r) \<Rightarrow> if sr_device r = Some d then sr_identity r else None | _ \<Rightarrow> None))"

definition with_device_identity :: "(string \<times> string option) list \<Rightarrow> book_rule option \<Rightarrow> json \<Rightarrow> json" where
  "with_device_identity devices previous payload =
     (case (payload, entry_field payload ''target'') of
        (Jobj ob, Jobj target) \<Rightarrow>
          (case (jget target ''scope'', jget target ''device'') of
             (Jstr scope, Jstr d) \<Rightarrow>
               if scope \<noteq> ''device'' then payload
               else let rest = filter (\<lambda>(k, _). k \<noteq> ''identity'') target;
                        target' = (case identity_of devices previous d of
                          Some i \<Rightarrow> if i \<noteq> [] then AList.update ''identity'' (Jstr i) rest else rest
                        | None \<Rightarrow> rest)
                    in Jobj (AList.update ''target'' (Jobj target') ob)
           | _ \<Rightarrow> payload)
      | _ \<Rightarrow> payload)"

text \<open>\<open>next_occurrence_day\<close>: \<open>local_day\<close> is the local date of an instant.\<close>

definition next_occurrence_day :: "schedule_rule \<Rightarrow> zone \<Rightarrow> (micros \<Rightarrow> date) \<Rightarrow> micros \<Rightarrow> time_error + date option" where
  "next_occurrence_day r zone local_day now =
     (let (ocs, st) = occurrences (sr_when r) zone (Some now) (Some now)
      in case find (\<lambda>oc. case oc_end oc of None \<Rightarrow> False | Some e \<Rightarrow> oc_start oc \<le> now \<and> now < e) ocs of
           Some oc \<Rightarrow> Inr (Some (oc_day oc))
         | None \<Rightarrow>
             if st = Raised then Inl Date_overflow
             else let (ps, su) = switch_points r zone now (now + FAR_AHEAD) 0
                  in case find sp_start ps of
                       Some p \<Rightarrow> Inr (Some (local_day (sp_at p)))
                     | None \<Rightarrow> if su = Raised then Inl Date_overflow else Inr None)"

definition clock_trusted :: "micros \<Rightarrow> bool" where
  "clock_trusted now \<longleftrightarrow> CLOCK_FLOOR \<le> now"

section \<open>The zone of a fixed TZ\<close>

definition letter :: "char \<Rightarrow> bool" where
  "letter c \<longleftrightarrow> c \<in> set ''ABCDEFGHIJKLMNOPQRSTUVWXYZabcdefghijklmnopqrstuvwxyz''"

text \<open>The name at the front of a POSIX \<open>TZ\<close>, and what follows it.\<close>

definition after_name :: "string \<Rightarrow> string option" where
  "after_name s =
     (case s of
        CHR ''<'' # t \<Rightarrow>
          let name = takeWhile (\<lambda>c. letter c \<or> digit c \<or> c = CHR ''+'' \<or> c = CHR ''-'') t
          in if 3 \<le> length name \<and> take 1 (drop (length name) t) = ''>'' then Some (drop (Suc (length name)) t) else None
      | _ \<Rightarrow>
          let name = takeWhile letter s in if 3 \<le> length name then Some (drop (length name) s) else None)"

definition two_digits :: "string \<Rightarrow> (int \<times> string) option" where
  "two_digits s =
     (if length (take 2 s) = 2 \<and> list_all digit (take 2 s) then Some (digits_val (take 2 s), drop 2 s) else None)"

text \<open>\<open>(?::(\d{2}))?\<close>, 0 where the group is missing.\<close>

definition colon_group :: "string \<Rightarrow> int \<times> string" where
  "colon_group s =
     (case s of
        CHR '':'' # t \<Rightarrow> (case two_digits t of Some x \<Rightarrow> x | None \<Rightarrow> (0, s))
      | _ \<Rightarrow> (0, s))"

definition hours_group :: "string \<Rightarrow> (int \<times> string) option" where
  "hours_group s =
     (case two_digits s of
        Some x \<Rightarrow> Some x
      | None \<Rightarrow> (case s of c # t \<Rightarrow> if digit c then Some (digits_val [c], t) else None | [] \<Rightarrow> None))"

definition fixed_offset_zone :: "string \<Rightarrow> micros option" where
  "fixed_offset_zone name =
     Option.bind (after_name name) (\<lambda>s.
       let sign = take 1 s;
           digits = (if sign = ''+'' \<or> sign = ''-'' then drop 1 s else s)
       in Option.bind (hours_group digits) (\<lambda>(h, s).
          let (m, s) = colon_group s;
              (sec, s) = colon_group s;
              west = ((h * 60 + m) * 60 + sec) * SECOND
          in if s \<noteq> [] \<or> DAY \<le> west \<or> 59 < m \<or> 59 < sec then None
             else Some (if sign = ''-'' then west else - west)))"

section \<open>Windows in order\<close>

definition overlaps :: "micros \<times> micros \<Rightarrow> micros \<times> micros \<Rightarrow> bool" where
  "overlaps x y \<longleftrightarrow> fst x < snd y \<and> fst y < snd x"

definition follow :: "(micros \<times> micros) list \<Rightarrow> bool" where
  "follow ws \<longleftrightarrow> sorted_wrt (\<lambda>a b. snd a \<le> fst b) ws \<and> (\<forall>x \<in> set ws. fst x \<le> snd x)"

lemma follow_Cons: "follow (x # xs) \<Longrightarrow> follow xs \<and> fst x \<le> snd x \<and> (\<forall>y \<in> set xs. snd x \<le> fst y \<and> fst y \<le> snd y)"
  by (auto simp: follow_def)

lemma overlap_in_order_None:
  "overlap_in_order st su limit xs ys = Inr None \<Longrightarrow> follow xs \<Longrightarrow> follow ys \<Longrightarrow> x \<in> set xs \<Longrightarrow> y \<in> set ys \<Longrightarrow>
   overlaps x y \<Longrightarrow> limit < max (fst x) (fst y)"
proof (induction st su limit xs ys rule: overlap_in_order.induct)
  case (3 st su limit a as b bs)
  note a = follow_Cons [OF 3(4)] and b = follow_Cons [OF 3(5)]
  have later: "fst a \<le> fst x" "fst b \<le> fst y" using 3(6,7) a b by fastforce+
  consider (past) "limit < min (fst a) (fst b)" | (first) "\<not> limit < min (fst a) (fst b)" "snd a \<le> fst b"
    | (second) "\<not> limit < min (fst a) (fst b)" "\<not> snd a \<le> fst b" "snd b \<le> fst a"
    | (meet) "\<not> limit < min (fst a) (fst b)" "\<not> snd a \<le> fst b" "\<not> snd b \<le> fst a" by blast
  then show ?case
  proof cases
    case past
    then show ?thesis using later by linarith
  next
    case first
    then have "x \<noteq> a" using 3(8) later by (auto simp: overlaps_def)
    then show ?thesis using 3(1) [OF first] 3(3-8) first a by simp
  next
    case second
    then have "y \<noteq> b" using 3(8) later by (auto simp: overlaps_def)
    then show ?thesis using 3(2) [OF second] 3(3-8) second b by simp
  next
    case meet
    then have "limit < max (fst a) (fst b)" using 3(3) by (auto split: if_splits)
    then show ?thesis using later by linarith
  qed
qed (auto split: if_splits)

section \<open>The days of a rule's windows\<close>

text \<open>Whether a repeat comes to a day: it occurs there, before its last date and within its count.\<close>

definition comes_to :: "when_rule \<Rightarrow> repeat \<Rightarrow> date \<Rightarrow> bool" where
  "comes_to w r d \<longleftrightarrow>
     occurs_on r (day_part (wh_start w)) d \<and> until_ok r d \<and>
     count_ok r (int (card {e. occurs_on r (day_part (wh_start w)) e \<and> e < d}) + 1)"

definition window_on :: "when_rule \<Rightarrow> date \<Rightarrow> micros \<times> micros" where
  "window_on w d = (local_start w d, local_start w d + length_of w)"

text \<open>The windows of a rule, skipped dates left out.\<close>

definition has_window :: "when_rule \<Rightarrow> repeat \<Rightarrow> date \<Rightarrow> bool" where
  "has_window w r d \<longleftrightarrow> comes_to w r d \<and> d \<notin> set (wh_exceptions w)"

lemma until_ok_earlier: "until_ok r d \<Longrightarrow> e \<le> d \<Longrightarrow> until_ok r e"
  by (auto simp: until_ok_def split: option.splits)

lemma count_ok_less: "count_ok r n \<Longrightarrow> m \<le> n \<Longrightarrow> count_ok r m"
  by (auto simp: count_ok_def split: option.splits)

lemma finite_earlier: "finite {e. occurs_on r f e \<and> e < d}"
  by (rule finite_subset [of _ "{f..d}"]) (auto simp: occurs_on_def)

lemma comes_to_earlier:
  assumes "comes_to w r d" and "occurs_on r (day_part (wh_start w)) e" and "e \<le> d"
  shows "comes_to w r e"
proof -
  have "card {x. occurs_on r (day_part (wh_start w)) x \<and> x < e} \<le> card {x. occurs_on r (day_part (wh_start w)) x \<and> x < d}"
    using assms(3) by (intro card_mono finite_earlier) auto
  then show ?thesis
    using assms until_ok_earlier count_ok_less by (auto simp: comes_to_def)
qed

lemma days_complete:
  assumes "wh_repeat w = Some r" and "valid_repeat r" and "days w None stop = (ys, st)" and "\<not> gives_up st"
    and "\<And>d e. stop d \<Longrightarrow> d \<le> e \<Longrightarrow> stop e"
  shows "sorted_wrt (<) ys" and "d \<in> set ys \<longleftrightarrow> comes_to w r d \<and> \<not> stop d"
proof -
  let ?occ = "occurs_on r (day_part (wh_start w))"
  obtain b where b: "reads_up_to r (days_from r (day_part (wh_start w)) 0) stop 0 ys st b"
    using days_spec [OF assms(1,2,3)] assms(4) by (auto simp: gives_up_def skip_to_def first_index_def)
  then have ys: "sorted_wrt (<) ys" "set ys = {d. ?occ d \<and> d < b}" "\<forall>d\<in>set ys. \<not> stop d \<and> until_ok r d"
      "ys \<noteq> [] \<longrightarrow> count_ok r (int (length ys))"
      "stop b \<or> \<not> until_ok r b \<or> \<not> count_ok r (int (length ys) + 1)"
    using days_from_0 [OF assms(2)] by (auto simp: reads_up_to_def ends_at_def split: gen_end.splits)
  show "sorted_wrt (<) ys" by (rule ys(1))
  have len: "length ys = card {e. ?occ e \<and> e < b}"
    using distinct_card [of ys] ys(1,2) by (simp add: strict_sorted_iff)
  show "d \<in> set ys \<longleftrightarrow> comes_to w r d \<and> \<not> stop d"
  proof
    assume d: "d \<in> set ys"
    then have db: "?occ d" "d < b" using ys(2) by simp_all
    then have "{e. ?occ e \<and> e < d} \<subseteq> {e. ?occ e \<and> e < b}" "d \<in> {e. ?occ e \<and> e < b}" "d \<notin> {e. ?occ e \<and> e < d}" by auto
    then have "{e. ?occ e \<and> e < d} \<subset> {e. ?occ e \<and> e < b}" by blast
    then have "card {e. ?occ e \<and> e < d} < card {e. ?occ e \<and> e < b}"
      by (rule psubset_card_mono [OF finite_earlier])
    then have "int (card {e. ?occ e \<and> e < d}) + 1 \<le> int (length ys)" unfolding len by simp
    moreover have "count_ok r (int (length ys))" using d ys(4) by fastforce
    ultimately have "count_ok r (int (card {e. ?occ e \<and> e < d}) + 1)" using count_ok_less by blast
    then show "comes_to w r d \<and> \<not> stop d" using d ys(2,3) by (simp add: comes_to_def)
  next
    assume d: "comes_to w r d \<and> \<not> stop d"
    show "d \<in> set ys"
    proof (rule ccontr)
      assume "d \<notin> set ys"
      then have bd: "b \<le> d" using d ys(2) by (auto simp: comes_to_def)
      then have "card {e. ?occ e \<and> e < b} \<le> card {e. ?occ e \<and> e < d}" by (intro card_mono finite_earlier) auto
      then have "count_ok r (int (length ys) + 1)" using d len count_ok_less by (auto simp: comes_to_def)
      moreover have "until_ok r b" using d bd until_ok_earlier by (auto simp: comes_to_def)
      moreover have "\<not> stop b" using d bd assms(5) by blast
      ultimately show False using ys(5) by blast
    qed
  qed
qed

section \<open>Patterns that run on\<close>

text \<open>In a zone without an offset, a window's wall-clock times are its instants.\<close>

definition no_offset :: zone where "no_offset t = 0"

lemma orderly_no_offset: "orderly_zone no_offset"
  by (simp add: orderly_zone_def no_offset_def localize_def DAY_def)

lemma occurrence_no_offset:
  "window_length w = Some l \<Longrightarrow> 0 \<le> l \<Longrightarrow>
     (oc_start (occurrence_on w no_offset d), last_point (occurrence_on w no_offset d)) = window_on w d"
  by (simp add: occurrence_on_def window_on_def length_of_def last_point_def localize_def no_offset_def Let_def)

lemma wall_windows_occurrences:
  assumes "window_length w = Some l" and "0 \<le> l"
  shows "fst (wall_windows w since limit) =
      map (\<lambda>oc. (oc_start oc, last_point oc)) (fst (occurrences w no_offset since (Some limit)))"
    and "snd (wall_windows w since limit) = snd (occurrences w no_offset since (Some limit))"
proof -
  note o = occurrence_no_offset [OF assms, unfolded window_on_def]
  have stop: "past_until w no_offset (Some limit) = (\<lambda>d. limit < local_start w d)"
    using o by (auto simp: past_until_def)
  have day: "oc_day (occurrence_on w no_offset d) = d" for d by (simp add: occurrence_on_def Let_def)
  have last: "last_point (occurrence_on w no_offset d) = local_start w d + l" for d
    using o [of d] assms(1) by (simp add: length_of_def)
  show "snd (wall_windows w since limit) = snd (occurrences w no_offset since (Some limit))"
    by (simp add: wall_windows_def occurrences_def stop Let_def split: prod.split)
  show "fst (wall_windows w since limit) =
      map (\<lambda>oc. (oc_start oc, last_point oc)) (fst (occurrences w no_offset since (Some limit)))"
    using o assms(1)
    by (simp add: wall_windows_def occurrences_def stop kept_occurrences_def filter_map comp_def day last length_of_def Let_def
        split: prod.split cong: option.case_cong)
qed

text \<open>What is relied on of a window rule: it is well formed, and its days can be read.\<close>

definition readable_windows :: "when_rule \<Rightarrow> repeat \<Rightarrow> micros \<Rightarrow> micros \<Rightarrow> bool" where
  "readable_windows w r since limit \<longleftrightarrow>
     wh_repeat w = Some r \<and> valid_repeat r \<and> wh_end w \<noteq> None \<and> 0 \<le> length_of w \<and>
     \<not> gives_up (snd (wall_windows w None limit)) \<and> \<not> gives_up (snd (wall_windows w (Some since) limit))"

lemma local_start_le: "local_start w d \<le> local_start w e \<longleftrightarrow> d \<le> e"
  by (simp add: local_start_def combine_def DAY_def)

lemma wall_windows_days:
  assumes "readable_windows w r since limit"
  shows "\<exists>ds. fst (wall_windows w (Some since) limit) = map (window_on w) ds \<and> sorted_wrt (<) ds \<and>
    (\<forall>d. d \<in> set ds \<longleftrightarrow> has_window w r d \<and> local_start w d \<le> limit \<and> since \<le> snd (window_on w d))"
proof -
  obtain l where l: "window_length w = Some l" "0 \<le> l" "length_of w = l"
    using assms by (auto simp: readable_windows_def window_length_def length_of_def)
  note wall = wall_windows_occurrences [OF l(1,2)]
  have ends: "\<not> gives_up (snd (occurrences w no_offset None (Some limit)))" "\<not> gives_up (snd (occurrences w no_offset (Some since) (Some limit)))"
    using assms unfolding readable_windows_def wall(2) by blast+
  have "fst (occurrences w no_offset (Some since) (Some limit)) =
      filter (\<lambda>oc. since \<le> last_point oc) (fst (occurrences w no_offset None (Some limit)))"
    by (rule occurrences_since [OF _ orderly_no_offset])
      (use assms l ends in \<open>auto simp: readable_windows_def gives_up_def\<close>)
  then have w: "fst (wall_windows w (Some since) limit) = filter (\<lambda>x. since \<le> snd x) (fst (wall_windows w None limit))"
    by (simp add: wall filter_map comp_def)
  obtain ys st where ys: "days w None (\<lambda>d. limit < local_start w d) = (ys, st)" by fastforce
  have st: "\<not> gives_up st" using assms ys by (simp add: readable_windows_def wall_windows_def Let_def)
  have up: "limit < local_start w d \<Longrightarrow> d \<le> e \<Longrightarrow> limit < local_start w e" for d e
    using local_start_le [of w d e] by linarith
  have r: "wh_repeat w = Some r" "valid_repeat r" using assms by (simp_all add: readable_windows_def)
  note complete = days_complete [OF r ys st up]
  have "fst (wall_windows w None limit) = map (window_on w) (filter (\<lambda>d. d \<notin> set (wh_exceptions w)) ys)"
    using ys l by (simp add: wall_windows_def window_on_def [abs_def] Let_def)
  then have "fst (wall_windows w (Some since) limit) =
      map (window_on w) (filter (\<lambda>d. since \<le> snd (window_on w d) \<and> d \<notin> set (wh_exceptions w)) ys)"
    by (simp add: w filter_map comp_def conj_commute)
  moreover have "sorted_wrt (<) (filter (\<lambda>d. since \<le> snd (window_on w d) \<and> d \<notin> set (wh_exceptions w)) ys)"
    using complete(1) by (simp add: sorted_wrt_filter)
  moreover have "d \<in> set (filter (\<lambda>d. since \<le> snd (window_on w d) \<and> d \<notin> set (wh_exceptions w)) ys) \<longleftrightarrow>
      has_window w r d \<and> local_start w d \<le> limit \<and> since \<le> snd (window_on w d)" for d
    using complete(2) by (auto simp: has_window_def not_less)
  ultimately show ?thesis by blast
qed

text \<open>A daily or weekly pattern repeats after its period.\<close>

lemma weekday_shift: "7 dvd n \<Longrightarrow> weekday (d - n) = weekday d"
  unfolding weekday_def by presburger

lemma week_start_shift: "7 dvd n \<Longrightarrow> week_start (d - n) = week_start d - n"
  by (simp add: week_start_def weekday_shift)

lemma pattern_repeats:
  assumes "pattern_days w = Some p" and "wh_repeat w = Some r" and "valid_repeat r" and "p dvd n"
    and "occurs_on r f d" and "f \<le> d - n"
  shows "occurs_on r f (d - n)"
proof -
  have plain: "rp_by_month r = []" "rp_by_month_day r = []" "rp_by_set_pos r = None"
    using assms(1,2) by (auto simp: pattern_days_def split: if_splits)
  have freq: "rp_freq r = Daily \<or> rp_freq r = Weekly"
    using assms(1,2) by (auto simp: pattern_days_def split: if_splits frequency.splits)
  then show ?thesis
  proof
    assume daily: "rp_freq r = Daily"
    then have "rp_interval r dvd n" "rp_by_weekday r \<noteq> [] \<longrightarrow> 7 dvd n"
      using assms(1,2,4) plain by (auto simp: pattern_days_def split: if_splits)
    then have "(d - n - f) mod rp_interval r = (d - f) mod rp_interval r" "rp_by_weekday r \<noteq> [] \<longrightarrow> weekday (d - n) = weekday d"
      using weekday_shift by (simp_all add: mod_eq_dvd_iff)
    then show ?thesis using assms(5,6) daily plain by (auto simp: occurs_on_def units_def selected_def)
  next
    assume weekly: "rp_freq r = Weekly"
    then have "7 * rp_interval r dvd n" using assms(1,2,4) plain by (simp add: pattern_days_def)
    then obtain k where k: "n = 7 * (rp_interval r * k)" unfolding dvd_def by (metis mult.assoc)
    then have seven: "7 dvd n" by simp
    have "(week_start d - n - week_start f) div 7 = (week_start d - week_start f) div 7 - rp_interval r * k"
      unfolding k by simp
    then have "((week_start d - n - week_start f) div 7) mod rp_interval r = ((week_start d - week_start f) div 7) mod rp_interval r"
      by (simp add: mod_eq_dvd_iff)
    then show ?thesis
      using assms(5,6) weekly plain weekday_shift [OF seven] week_start_shift [OF seven]
      by (simp add: occurs_on_def units_def selected_def)
  qed
qed

lemma local_start_shift: "local_start w (d - n) = local_start w d - n * DAY"
  by (simp add: local_start_def combine_def algebra_simps)

lemma local_start_begin: "wh_start w \<le> local_start w d \<longleftrightarrow> day_part (wh_start w) \<le> d"
proof -
  have "wh_start w = local_start w (day_part (wh_start w))"
    by (simp add: local_start_def combine_def day_part_def time_part_def)
  then show ?thesis using local_start_le by metis
qed

lemma has_window_earlier:
  assumes "has_window w r d" and "pattern_days w = Some p" and "wh_repeat w = Some r" and "valid_repeat r" and "p dvd n" and "0 \<le> n"
    and "wh_start w < local_start w (d - n)" and "\<forall>x \<in> set (wh_exceptions w). (x + 1) * DAY \<le> local_start w (d - n)"
  shows "has_window w r (d - n)"
proof -
  have "day_part (wh_start w) \<le> d - n" using local_start_begin [of w "d - n"] assms(7) by simp
  then have "occurs_on r (day_part (wh_start w)) (d - n)"
    using pattern_repeats [OF assms(2-5)] assms(1) by (auto simp: has_window_def comes_to_def)
  then have "comes_to w r (d - n)" using comes_to_earlier [of w r d] assms(1,6) by (simp add: has_window_def)
  moreover have "d - n \<notin> set (wh_exceptions w)"
  proof
    assume "d - n \<in> set (wh_exceptions w)"
    then have "(d - n + 1) * DAY \<le> local_start w (d - n)" using assms(8) by blast
    then show False
      using pos_mod_bound [of DAY "wh_start w"] by (simp add: local_start_def combine_def time_part_def DAY_def algebra_simps)
  qed
  ultimately show ?thesis by (simp add: has_window_def)
qed

section \<open>Properties of the check\<close>

text \<open>The end of the span that is searched.\<close>

definition search_limit :: "when_rule \<Rightarrow> when_rule \<Rightarrow> int \<Rightarrow> micros \<Rightarrow> micros" where
  "search_limit w v period since = both_begun w v since + (period * DAY + max (length_of w) (length_of v))"

text \<open>A rule's own windows follow one another.\<close>

definition own_windows_follow :: "when_rule \<Rightarrow> repeat \<Rightarrow> bool" where
  "own_windows_follow w r \<longleftrightarrow> (\<forall>d e. has_window w r d \<and> has_window w r e \<and> d < e \<longrightarrow> snd (window_on w d) \<le> fst (window_on w e))"

lemma fold_max_le: "fold max xs (t :: int) \<le> b \<longleftrightarrow> t \<le> b \<and> (\<forall>x \<in> set xs. x \<le> b)"
  by (induction xs arbitrary: t) auto

lemma both_begun_le: "both_begun w v since \<le> b \<longleftrightarrow> since \<le> b \<and> wh_start w \<le> b \<and> wh_start v \<le> b \<and>
    (\<forall>d \<in> set (wh_exceptions w) \<union> set (wh_exceptions v). (d + 1) * DAY \<le> b)"
  unfolding both_begun_def fold_max_le by auto

lemma follow_days:
  assumes "own_windows_follow w r" and "sorted_wrt (<) ds" and "\<forall>d \<in> set ds. has_window w r d" and "0 \<le> length_of w"
  shows "follow (map (window_on w) ds)"
proof -
  have "sorted_wrt (\<lambda>d e. snd (window_on w d) \<le> fst (window_on w e)) ds"
    by (rule sorted_wrt_mono_rel [OF _ assms(2)]) (use assms(1,3) in \<open>auto simp: own_windows_follow_def\<close>)
  then show ?thesis using assms(4) by (simp add: follow_def sorted_wrt_map) (simp add: window_on_def)
qed

text \<open>No overlap up to the end of the span.\<close>

lemma no_overlap_in_span:
  assumes "merge_windows (wall_windows w (Some since) limit) (wall_windows v (Some since) limit) limit = Inr None"
    and "readable_windows w r since limit" and "readable_windows v q since limit"
    and "own_windows_follow w r" and "own_windows_follow v q" and "has_window w r d" and "has_window v q e"
    and "since \<le> snd (window_on w d)" and "since \<le> snd (window_on v e)" and "overlaps (window_on w d) (window_on v e)"
  shows "limit < max (local_start w d) (local_start v e)"
proof (rule ccontr)
  assume near: "\<not> limit < max (local_start w d) (local_start v e)"
  obtain ds where ds: "fst (wall_windows w (Some since) limit) = map (window_on w) ds" "sorted_wrt (<) ds"
      "\<forall>d. d \<in> set ds \<longleftrightarrow> has_window w r d \<and> local_start w d \<le> limit \<and> since \<le> snd (window_on w d)"
    using wall_windows_days [OF assms(2)] by blast
  obtain es where es: "fst (wall_windows v (Some since) limit) = map (window_on v) es" "sorted_wrt (<) es"
      "\<forall>d. d \<in> set es \<longleftrightarrow> has_window v q d \<and> local_start v d \<le> limit \<and> since \<le> snd (window_on v d)"
    using wall_windows_days [OF assms(3)] by blast
  have f: "follow (map (window_on w) ds)" "follow (map (window_on v) es)"
    using follow_days [OF assms(4) ds(2)] follow_days [OF assms(5) es(2)] ds(3) es(3) assms(2,3)
    by (simp_all add: readable_windows_def)
  have m: "window_on w d \<in> set (map (window_on w) ds)" "window_on v e \<in> set (map (window_on v) es)"
    using ds(3) es(3) assms(6-9) near by (auto simp: not_less)
  have ov: "overlap_in_order (snd (wall_windows w (Some since) limit)) (snd (wall_windows v (Some since) limit)) limit
      (map (window_on w) ds) (map (window_on v) es) = Inr None"
    using assms(1) unfolding merge_windows_def ds(1) es(1) by (auto split: if_splits)
  have "limit < max (fst (window_on w d)) (fst (window_on v e))"
    by (rule overlap_in_order_None [OF ov f m assms(10)])
  then show False using near by (simp add: window_on_def)
qed

lemma pattern_pos: "pattern_days w = Some p \<Longrightarrow> wh_repeat w = Some r \<Longrightarrow> valid_repeat r \<Longrightarrow> 0 < p"
  using lcm_pos_int [of "rp_interval r" 7]
  by (auto simp: pattern_days_def valid_repeat_def split: if_splits frequency.splits)

lemma shift_into_span:
  assumes "b + m + M < t" and "0 < (M :: int)"
  shows "\<exists>j \<ge> 0. b + m < t - j * M \<and> t - j * M \<le> b + m + M"
proof (intro exI conjI)
  let ?j = "(t - b - m - 1) div M"
  have "0 \<le> (t - b - m - 1) mod M" "(t - b - m - 1) mod M < M" using assms(2) by simp_all
  moreover have "(t - b - m - 1) = ?j * M + (t - b - m - 1) mod M" by simp
  ultimately show "b + m < t - ?j * M" "t - ?j * M \<le> b + m + M" by linarith+
  show "0 \<le> ?j" using assms by (simp add: pos_imp_zdiv_nonneg_iff)
qed

text \<open>
  C37. Two rules of daily or weekly pattern for which the search finds no overlap never overlap: the span searched,
  the least common multiple of their periods after both have begun and their last skipped date has passed, is
  enough for all time. This holds when each rule's own windows follow one another and its days can be read up to the
  end of the span.
\<close>

theorem no_overlap_found_means_none_ever:
  assumes "first_overlap w v since = Inr None" and "pattern_days w = Some p" and "pattern_days v = Some p'"
    and "readable_windows w r since (search_limit w v (lcm p p') since)"
    and "readable_windows v q since (search_limit w v (lcm p p') since)"
    and "own_windows_follow w r" and "own_windows_follow v q" and "has_window w r d" and "has_window v q e"
    and "since \<le> snd (window_on w d)" and "since \<le> snd (window_on v e)"
  shows "\<not> overlaps (window_on w d) (window_on v e)"
proof
  let ?L = "lcm p p'" and ?m = "max (length_of w) (length_of v)" and ?b = "both_begun w v since"
  let ?M = "?L * DAY" and ?t = "max (local_start w d) (local_start v e)"
  assume meet: "overlaps (window_on w d) (window_on v e)"
  have limit: "search_limit w v ?L since = ?b + ?m + ?M" by (simp add: search_limit_def)
  have found: "merge_windows (wall_windows w (Some since) (?b + ?m + ?M)) (wall_windows v (Some since) (?b + ?m + ?M)) (?b + ?m + ?M) = Inr None"
    using assms(1-3) by (auto simp: first_overlap_def time_plus_def limit [symmetric] search_limit_def split: if_splits)
  note span = no_overlap_in_span [OF found assms(4,5) [unfolded limit] assms(6,7)]
  have r: "wh_repeat w = Some r" "valid_repeat r" "wh_repeat v = Some q" "valid_repeat q" "0 \<le> length_of w" "0 \<le> length_of v"
    using assms(4,5) by (simp_all add: readable_windows_def)
  have "0 < ?L" using pattern_pos [OF assms(2) r(1,2)] pattern_pos [OF assms(3) r(3,4)] by (simp add: lcm_pos_int)
  then have "0 < ?M" by (simp add: DAY_def)
  then obtain j where j: "0 \<le> j" "?b + ?m < ?t - j * ?M" "?t - j * ?M \<le> ?b + ?m + ?M"
    using shift_into_span [OF span [OF assms(8-11) meet]] by blast
  let ?n = "j * ?L"
  have shift: "local_start w (d - ?n) = local_start w d - j * ?M" "local_start v (e - ?n) = local_start v e - j * ?M"
    by (simp_all add: local_start_shift)
  have near: "?t \<le> local_start w d + ?m" "?t \<le> local_start v e + ?m"
    using meet r(5,6) by (auto simp: overlaps_def window_on_def)
  have after: "?b < local_start w (d - ?n)" "?b < local_start v (e - ?n)" using near j(2) unfolding shift by linarith+
  have begun: "since \<le> ?b" "wh_start w \<le> ?b" "wh_start v \<le> ?b" "\<forall>x \<in> set (wh_exceptions w) \<union> set (wh_exceptions v). (x + 1) * DAY \<le> ?b"
    using both_begun_le [of w v since ?b] by auto
  have "0 \<le> ?n" using j(1) \<open>0 < ?L\<close> by simp
  have past: "\<forall>x \<in> set (wh_exceptions w). (x + 1) * DAY \<le> local_start w (d - ?n)"
      "\<forall>x \<in> set (wh_exceptions v). (x + 1) * DAY \<le> local_start v (e - ?n)"
    using begun(4) after by (meson UnI1 UnI2 less_imp_le order_trans)+
  have "has_window w r (d - ?n)"
    by (rule has_window_earlier [OF assms(8,2) r(1,2) _ \<open>0 \<le> ?n\<close> _ past(1)]) (use after begun in simp_all)
  moreover have "has_window v q (e - ?n)"
    by (rule has_window_earlier [OF assms(9,3) r(3,4) _ \<open>0 \<le> ?n\<close> _ past(2)]) (use after begun in simp_all)
  moreover have "since \<le> snd (window_on w (d - ?n))" "since \<le> snd (window_on v (e - ?n))"
    using after begun(1) r(5,6) by (simp_all add: window_on_def)
  moreover have "overlaps (window_on w (d - ?n)) (window_on v (e - ?n))"
    using meet unfolding overlaps_def window_on_def shift by simp
  ultimately have "?b + ?m + ?M < max (local_start w (d - ?n)) (local_start v (e - ?n))" by (rule span)
  then show False using j(3) unfolding shift by simp
qed
text \<open>Two rules for examples: the evening window, and 06:00 to 07:00 every day from 2026-10-19.\<close>

definition every_day :: repeat where
  "every_day = evening_repeat\<lparr>rp_freq := Daily, rp_by_weekday := [], rp_until := None\<rparr>"

definition morning :: when_rule where
  "morning = \<lparr>wh_start = 739908 * DAY + 360 * MINUTE, wh_end = Some (739908 * DAY + 420 * MINUTE), wh_repeat = Some every_day,
     wh_exceptions = []\<rparr>"

lemma short_windows_follow: "length_of w \<le> DAY \<Longrightarrow> own_windows_follow w r"
  using local_start_day [of _ _ w] by (fastforce simp: own_windows_follow_def window_on_def)

lemma example_windows:
  "readable_windows evening evening_repeat (739908 * DAY) (search_limit evening morning (lcm 7 1) (739908 * DAY))"
  "readable_windows morning every_day (739908 * DAY) (search_limit evening morning (lcm 7 1) (739908 * DAY))"
  "first_overlap evening morning (739908 * DAY) = Inr None" "pattern_days evening = Some 7" "pattern_days morning = Some 1"
  "length_of evening \<le> DAY" "length_of morning \<le> DAY"
  by code_simp+

theorem no_overlap_found_means_none_ever_witness:
  "\<not> overlaps (window_on evening 739908) (window_on morning 739908)"
proof (rule no_overlap_found_means_none_ever [OF example_windows(3-5,1,2) short_windows_follow [OF example_windows(6)]
        short_windows_follow [OF example_windows(7)]])
  have "occurs_on evening_repeat (day_part (wh_start evening)) 739908" "until_ok evening_repeat 739908"
      "occurs_on every_day (day_part (wh_start morning)) 739908" "until_ok every_day 739908"
      "rp_count evening_repeat = None" "rp_count every_day = None" "739908 \<notin> set (wh_exceptions evening)" "739908 \<notin> set (wh_exceptions morning)"
    by code_simp+
  then show "has_window evening evening_repeat 739908" "has_window morning every_day 739908"
    by (simp_all add: has_window_def comes_to_def count_ok_def)
  show "739908 * DAY \<le> snd (window_on evening 739908)" "739908 * DAY \<le> snd (window_on morning 739908)" by code_simp+
qed
text \<open>
  A rule's own windows are compared over its first 800 days only: one every 150 weeks that lasts 151 weeks is accepted, and
  its second window starts before the first has ended.
\<close>

definition every_150_weeks :: when_rule where
  "every_150_weeks = \<lparr>wh_start = 739908 * DAY, wh_end = Some ((739908 + 7 * 151) * DAY),
     wh_repeat = Some (evening_repeat\<lparr>rp_interval := 150, rp_by_weekday := [], rp_until := None\<rparr>), wh_exceptions = []\<rparr>"

lemma sparse_windows_may_overlap:
  "check_when every_150_weeks = Inr every_150_weeks \<and>
   fst (wall_windows every_150_weeks None ((739908 + 1500) * DAY)) =
     [(739908 * DAY, (739908 + 1057) * DAY), ((739908 + 1050) * DAY, (739908 + 2107) * DAY)]"
  by (rule conjI; code_simp)

end
