(* ===== verification/Scheduler.thy ===== *)
theory Scheduler
  imports Schedule_Check
begin

text \<open>
  \<open>ems/scheduler.py\<close>, the class \<open>Scheduler\<close>: once per cycle, each due switch point is run through the runtime
  commands and recorded in the store. The state is what the object keeps, the schedules file and the runtime state. How
  each runtime write and each store write goes, what another process changed before, the file's signature and
  the clock come from the surroundings of a tick. Logging, the lock between threads and what the status page shows
  (\<open>_upcoming\<close>, \<open>_reported\<close>, the messages of refusals) are left out. An exception that leaves \<open>tick\<close> ends it where
  it is raised, with the state reached there.

  Proved: what was applied but could not be recorded stays part of the book, so it is not applied again; nothing fires while
  the clock is untrusted or the schedule is paused; and a point that was written leaves nothing due on its setting.
\<close>

definition RELOAD_EVERY :: micros where "RELOAD_EVERY = 60 * SECOND"

text \<open>The bytes of the file with the JSON value they hold; \<open>None\<close> is no file.\<close>

type_synonym raw_file = "(string \<times> json) option"

record scheduler =
  sc_book :: "schedule_book option"
  sc_signature :: "nat option"
  sc_raw :: "raw_file option"
  sc_loaded_at :: "micros option"
  sc_next_at :: "micros option"
  sc_last_now :: "micros option"
  sc_stale :: bool
  sc_unrecorded :: "(string \<times> applied_record) list"
  sc_open_windows :: "(string \<times> applied_record) list"
  sc_store_busy :: bool
  sc_unreadable :: bool
  sc_refused :: "(string \<times> int) list"
  sc_file :: raw_file
  sc_runtime :: json_object
  sc_store_writes :: nat
  sc_runtime_writes :: nat

text \<open>
  The surroundings of a tick. The \<open>n\<close>-th store write and the \<open>n\<close>-th runtime write since the start go as
  \<open>en_store n\<close> and \<open>en_write n\<close> say; \<open>en_disk\<close> is what the re-read of the runtime state finds, given the one in memory.
\<close>

record surroundings =
  en_now :: micros
  en_devices :: "(string \<times> string option) list option"
  en_signature :: "nat option"
  en_renamed_signature :: "nat option"
  en_read_fails :: bool
  en_store :: "nat \<Rightarrow> write_outcome"
  en_write :: "nat \<Rightarrow> write_outcome"
  en_disk :: "json_object \<Rightarrow> json_object"
  en_context :: validation_context

text \<open>What stays the same: the zone, the hash of an entry without an identifier, JSON's text and the reading of a number.\<close>

record installation =
  in_zone :: "zone option"
  in_digest :: "json \<Rightarrow> string"
  in_text :: "json \<Rightarrow> string"
  in_float :: "string \<Rightarrow> pyfloat option"

definition fresh_scheduler :: "raw_file \<Rightarrow> json_object \<Rightarrow> scheduler" where
  "fresh_scheduler file runtime =
     \<lparr>sc_book = None, sc_signature = None, sc_raw = None, sc_loaded_at = None, sc_next_at = None, sc_last_now = None,
      sc_stale = True, sc_unrecorded = [], sc_open_windows = [], sc_store_busy = False, sc_unreadable = False, sc_refused = [],
      sc_file = file, sc_runtime = runtime, sc_store_writes = 0, sc_runtime_writes = 0\<rparr>"

section \<open>Recording what was applied\<close>

definition record_json :: "applied_record \<Rightarrow> json" where
  "record_json rec =
     Jobj ([(''rule'', Jstr (ap_rule rec)), (''at'', Jstr (strftime_utc (ap_at rec))), (''value'', ap_value rec)] @
       (case ap_window rec of
          None \<Rightarrow> []
        | Some w \<Rightarrow> [(''window'', Jobj [(''action'', Jstr (wr_action w)), (''device'', wr_device w),
                       (''end_value'', wr_end_value w), (''ends_at'', Jstr (strftime_utc (wr_ends_at w)))])]))"

definition store_file :: "installation \<Rightarrow> json option \<Rightarrow> raw_file" where
  "store_file inst content = map_option (\<lambda>j. (in_text inst j, j)) content"

text \<open>\<open>_record\<close>, with its exceptions as \<open>False\<close>: every caller takes them so.\<close>

definition record_in_store ::
  "installation \<Rightarrow> surroundings \<Rightarrow> string \<Rightarrow> applied_record \<Rightarrow> scheduler \<Rightarrow> scheduler \<times> bool" where
  "record_in_store inst env slot rec s =
     (if sc_store_busy s then (s, False)
      else let outcome = en_store env (sc_store_writes s);
               s = s\<lparr>sc_store_writes := Suc (sc_store_writes s)\<rparr>
           in case exclusive (outcome \<noteq> Lock_taken) (record_applied slot (record_json rec)) (map_option snd (sc_file s)) of
                (Inl Lock_busy, _) \<Rightarrow> (s\<lparr>sc_store_busy := True\<rparr>, False)
              | (Inl _, _) \<Rightarrow> (s, False)
              | (Inr _, content) \<Rightarrow>
                  if outcome = Save_failed then (s, False) else (s\<lparr>sc_file := store_file inst content\<rparr>, True))"

fun record_unrecorded ::
  "installation \<Rightarrow> surroundings \<Rightarrow> (string \<times> applied_record) list \<Rightarrow> scheduler \<Rightarrow> scheduler" where
  "record_unrecorded inst env [] s = s"
| "record_unrecorded inst env ((slot, rec) # xs) s =
     (case record_in_store inst env slot rec s of
        (s, False) \<Rightarrow> s\<lparr>sc_stale := True\<rparr>
      | (s, True) \<Rightarrow>
          record_unrecorded inst env xs
            (s\<lparr>sc_unrecorded := AList.delete slot (sc_unrecorded s), sc_signature := None, sc_raw := None\<rparr>))"

section \<open>Reading the book\<close>

datatype read_failure = Not_readable | Escaped rule_error

definition read_book :: "installation \<Rightarrow> raw_file \<Rightarrow> read_failure + schedule_book" where
  "read_book inst raw =
     ok_then (lift_error (\<lambda>_. Not_readable) (decode (map_option snd raw))) (\<lambda>d. lift_error Escaped (book_of (in_digest inst) d))"

text \<open>\<open>_follow_renames\<close>: the devices whose serial exactly one configured device has, under the name it has now.\<close>

definition names_of :: "(string \<times> string option) list \<Rightarrow> string \<Rightarrow> string list" where
  "names_of devices i = map fst (filter (\<lambda>(_, x). x = Some i \<and> i \<noteq> []) devices)"

definition renamed_devices :: "(string \<times> string option) list \<Rightarrow> schedule_book \<Rightarrow> (string \<times> string) list" where
  "renamed_devices devices bk =
     concat (map (\<lambda>br. case br of
         Broken _ _ \<Rightarrow> []
       | Rule r \<Rightarrow>
           (case sr_identity r of
              None \<Rightarrow> []
            | Some i \<Rightarrow> (case names_of devices i of [name] \<Rightarrow> if sr_device r \<noteq> Some name then [(i, name)] else [] | _ \<Rightarrow> [])))
       (bk_rules bk))"

definition follow_renames ::
  "installation \<Rightarrow> surroundings \<Rightarrow> schedule_book \<Rightarrow> scheduler \<Rightarrow> scheduler \<times> (read_failure + schedule_book \<times> raw_file option)" where
  "follow_renames inst env bk s =
     (let renamed = renamed_devices (case en_devices env of None \<Rightarrow> [] | Some ds \<Rightarrow> ds) bk
      in if renamed = [] then (s, Inr (bk, Some (sc_file s)))
         else let outcome = en_store env (sc_store_writes s);
                  s = s\<lparr>sc_store_writes := Suc (sc_store_writes s)\<rparr>
              in case exclusive (outcome \<noteq> Lock_taken) (rename_devices renamed) (map_option snd (sc_file s)) of
                   (Inl Lock_busy, _) \<Rightarrow> (s\<lparr>sc_store_busy := True\<rparr>, Inr (bk, None))
                 | (Inl _, _) \<Rightarrow> (s, Inr (bk, None))
                 | (Inr False, _) \<Rightarrow> (s, Inr (bk, Some (sc_file s)))
                 | (Inr True, content) \<Rightarrow>
                     if outcome = Save_failed then (s, Inr (bk, None))
                     else let s = s\<lparr>sc_file := store_file inst content, sc_signature := en_renamed_signature env\<rparr>
                          in case read_book inst (sc_file s) of
                               Inr bk' \<Rightarrow> (s, Inr (bk', Some (sc_file s)))
                             | Inl Not_readable \<Rightarrow> (s, Inr (bk, None))
                             | Inl e \<Rightarrow> (s, Inl e))"

text \<open>\<open>_carry_open_windows\<close> and \<open>_with_unrecorded\<close>.\<close>

definition carried :: "schedule_book \<Rightarrow> string \<times> applied_record \<Rightarrow> (string \<times> applied_record) list \<Rightarrow> (string \<times> applied_record) list" where
  "carried bk x unrecorded =
     (let (slot, rec) = x
      in if ap_window rec = None \<or> map_of unrecorded slot \<noteq> None \<or>
            (case map_of (bk_applied bk) slot of None \<Rightarrow> False | Some d \<Rightarrow> ap_at rec \<le> ap_at d) \<or>
            list_ex (\<lambda>(_, d). ap_rule d = ap_rule rec \<and> ap_at d = ap_at rec) (bk_applied bk)
         then unrecorded else AList.update slot rec unrecorded)"

definition carry_open_windows :: "schedule_book \<Rightarrow> scheduler \<Rightarrow> scheduler" where
  "carry_open_windows bk s =
     s\<lparr>sc_unrecorded := fold (carried bk) (case sc_book s of Some b \<Rightarrow> bk_applied b | None \<Rightarrow> sc_open_windows s) (sc_unrecorded s)\<rparr>"

fun with_unrecorded ::
  "(string \<times> applied_record) list \<Rightarrow> (string \<times> applied_record) list \<Rightarrow> (string \<times> applied_record) list \<Rightarrow>
   (string \<times> applied_record) list \<times> (string \<times> applied_record) list" where
  "with_unrecorded [] applied unrecorded = (applied, unrecorded)"
| "with_unrecorded ((slot, rec) # xs) applied unrecorded =
     (if (case map_of applied slot of None \<Rightarrow> False | Some d \<Rightarrow> ap_at rec \<le> ap_at d)
      then with_unrecorded xs applied (AList.delete slot unrecorded)
      else with_unrecorded xs (AList.update slot rec applied) unrecorded)"

text \<open>Two dictionaries with the same entries.\<close>

definition same_entries :: "(string \<times> 'a) list \<Rightarrow> (string \<times> 'a) list \<Rightarrow> bool" where
  "same_entries a b \<longleftrightarrow>
     list_all (\<lambda>(k, _). map_of a k = map_of b k) a \<and> list_all (\<lambda>(k, _). map_of a k = map_of b k) b"

definition same_book :: "schedule_book \<Rightarrow> schedule_book \<Rightarrow> bool" where
  "same_book a b \<longleftrightarrow>
     bk_enabled a = bk_enabled b \<and> bk_rules a = bk_rules b \<and> bk_resumed_at a = bk_resumed_at b \<and>
     same_entries (bk_applied a) (bk_applied b)"

definition take_book :: "schedule_book \<times> raw_file option \<Rightarrow> scheduler \<Rightarrow> scheduler \<times> bool" where
  "take_book x s =
     (let s = (carry_open_windows (fst x) s)\<lparr>sc_open_windows := []\<rparr>;
          (applied, unrecorded) = with_unrecorded (sc_unrecorded s) (bk_applied (fst x)) (sc_unrecorded s);
          bk = (fst x)\<lparr>bk_applied := applied\<rparr>
      in (s\<lparr>sc_unrecorded := unrecorded, sc_book := Some bk, sc_raw := snd x\<rparr>,
          case sc_book s of None \<Rightarrow> True | Some b \<Rightarrow> \<not> same_book bk b))"

definition lose_book :: "scheduler \<Rightarrow> scheduler" where
  "lose_book s =
     s\<lparr>sc_unreadable := True,
       sc_open_windows := (case sc_book s of
          None \<Rightarrow> sc_open_windows s
        | Some b \<Rightarrow> filter (\<lambda>(_, rec). ap_window rec \<noteq> None) (bk_applied b)),
       sc_book := None, sc_raw := None\<rparr>"

definition reload_due :: "surroundings \<Rightarrow> scheduler \<Rightarrow> bool" where
  "reload_due env s \<longleftrightarrow>
     en_signature env \<noteq> sc_signature s \<or> sc_book s = None \<and> \<not> sc_unreadable s \<or>
     (case sc_loaded_at s of None \<Rightarrow> True | Some t \<Rightarrow> RELOAD_EVERY \<le> en_now env - t \<or> en_now env < t)"

text \<open>\<open>_refresh\<close>: whether the book changed, or the exception that leaves it.\<close>

definition refresh :: "installation \<Rightarrow> surroundings \<Rightarrow> scheduler \<Rightarrow> scheduler \<times> (read_failure + bool)" where
  "refresh inst env s =
     (if \<not> reload_due env s then (s, Inr False)
      else let s = s\<lparr>sc_loaded_at := Some (en_now env), sc_signature := en_signature env\<rparr>
           in if en_read_fails env then (lose_book s, Inr True)
              else if sc_book s \<noteq> None \<and> sc_raw s = Some (sc_file s) then (s, Inr False)
              else case read_book inst (sc_file s) of
                     Inl Not_readable \<Rightarrow> (lose_book s, Inr True)
                   | Inl e \<Rightarrow> (s, Inl e)
                   | Inr bk \<Rightarrow>
                       (case follow_renames inst env bk (s\<lparr>sc_unreadable := False\<rparr>) of
                          (s, Inl e) \<Rightarrow> (s, Inl e)
                        | (s, Inr x) \<Rightarrow> (let (s, changed) = take_book x s in (s, Inr changed))))"

section \<open>Applying a value\<close>

text \<open>
  How \<open>_write\<close> ends: \<open>True\<close>, \<open>BUSY\<close>, \<open>FAILED\<close>, \<open>False\<close>, or with an exception that leaves the tick.
\<close>

datatype write_result = Written | Busy | Failed | Refused | Aborted

definition remember_refusal :: "string \<Rightarrow> int option \<Rightarrow> scheduler \<Rightarrow> scheduler" where
  "remember_refusal i revision s =
     (case revision of None \<Rightarrow> s | Some n \<Rightarrow> s\<lparr>sc_refused := AList.update i n (sc_refused s)\<rparr>)"

text \<open>The record of what was written, kept until the file holds it.\<close>

definition remember_applied :: "installation \<Rightarrow> surroundings \<Rightarrow> string \<Rightarrow> applied_record \<Rightarrow> scheduler \<Rightarrow> scheduler" where
  "remember_applied inst env slot rec s =
     (let (s, recorded) = record_in_store inst env slot rec s;
          s = (if recorded then s\<lparr>sc_unrecorded := AList.delete slot (sc_unrecorded s)\<rparr>
               else s\<lparr>sc_unrecorded := AList.update slot rec (sc_unrecorded s), sc_stale := True\<rparr>)
      in s\<lparr>sc_book := map_option (\<lambda>bk. bk\<lparr>bk_applied := AList.update slot rec (bk_applied bk)\<rparr>) (sc_book s),
           sc_signature := None, sc_raw := None\<rparr>)"

text \<open>A recorded device that is no text names no device.\<close>

definition write_value ::
  "installation \<Rightarrow> surroundings \<Rightarrow> schedule_action \<Rightarrow> json \<Rightarrow> json \<Rightarrow> string \<Rightarrow> string \<Rightarrow> micros \<Rightarrow> window_record option \<Rightarrow> int option \<Rightarrow>
   scheduler \<Rightarrow> scheduler \<times> write_result" where
  "write_value inst env a device v i slot t window revision s =
     (case action_commands a v of
        Inl Value_overflow \<Rightarrow> (s, Aborted)
      | Inl _ \<Rightarrow> (remember_refusal i revision s, Refused)
      | Inr cs \<Rightarrow>
          let (res, runtime) = run_commands (in_float inst) (en_context env) (en_write env (sc_runtime_writes s)) (sc_runtime s)
                (en_disk env (sc_runtime s)) (ac_scope a) (json_text device) cs ''schedule'';
              s = s\<lparr>sc_runtime := runtime, sc_runtime_writes := Suc (sc_runtime_writes s)\<rparr>
          in case res of
               Inl State_busy \<Rightarrow> (s\<lparr>sc_stale := True\<rparr>, Busy)
             | Inl Save_error \<Rightarrow> (s\<lparr>sc_stale := True\<rparr>, Failed)
             | Inl Number_overflow \<Rightarrow> (s, Aborted)
             | Inl _ \<Rightarrow> (remember_refusal i revision s, Refused)
             | Inr _ \<Rightarrow>
                 (remember_applied inst env slot \<lparr>ap_rule = i, ap_at = t, ap_value = v, ap_window = window\<rparr>
                    (s\<lparr>sc_refused := AList.delete i (sc_refused s)\<rparr>), Written))"

definition window_of_point :: "switch_point \<Rightarrow> window_record option" where
  "window_of_point p =
     (case sp_ends_at p of
        Some e \<Rightarrow> if sp_start p
          then Some \<lparr>wr_action = ac_id (sr_action (sp_rule p)), wr_device = device_json (sr_device (sp_rule p)),
                     wr_end_value = sr_end_value (sp_rule p), wr_ends_at = e\<rparr> else None
      | None \<Rightarrow> None)"

definition apply_point :: "installation \<Rightarrow> surroundings \<Rightarrow> switch_point \<Rightarrow> scheduler \<Rightarrow> scheduler \<times> write_result" where
  "apply_point inst env p s =
     write_value inst env (sr_action (sp_rule p)) (device_json (sr_device (sp_rule p))) (sp_value p) (sr_id (sp_rule p)) (sp_slot p)
       (sp_at p) (window_of_point p) (Some (sr_revision (sp_rule p))) s"

section \<open>One tick\<close>

definition orphaned :: "surroundings \<Rightarrow> switch_point \<Rightarrow> bool" where
  "orphaned env p \<longleftrightarrow>
     (case (sr_device (sp_rule p), en_devices env) of
        (Some d, Some ds) \<Rightarrow> map_of ds d = None
      | _ \<Rightarrow> False)"

text \<open>The due points, in order, until the runtime state is busy.\<close>

fun apply_due :: "installation \<Rightarrow> surroundings \<Rightarrow> switch_point list \<Rightarrow> scheduler \<Rightarrow> scheduler \<times> write_result" where
  "apply_due inst env [] s = (s, Written)"
| "apply_due inst env (p # ps) s =
     (if orphaned env p then apply_due inst env ps s
      else case apply_point inst env p s of
             (s, Busy) \<Rightarrow> (s, Busy)
           | (s, Aborted) \<Rightarrow> (s, Aborted)
           | (s, _) \<Rightarrow> apply_due inst env ps s)"

text \<open>\<open>_close_lost_windows\<close>, over the records as they were when it began.\<close>

fun close_lost_windows ::
  "installation \<Rightarrow> surroundings \<Rightarrow> zone \<Rightarrow> (string \<times> applied_record) list \<Rightarrow> scheduler \<Rightarrow> scheduler \<times> write_result" where
  "close_lost_windows inst env zone [] s = (s, Written)"
| "close_lost_windows inst env zone ((slot, rec) # xs) s =
     (case (ap_window rec, sc_book s) of
        (Some w, Some bk) \<Rightarrow>
          (case window_still_open rec w bk zone (en_now env) of
             Inl _ \<Rightarrow> (s, Aborted)
           | Inr True \<Rightarrow> close_lost_windows inst env zone xs s
           | Inr False \<Rightarrow>
               (case schedule_action_of (Jstr (wr_action w)) of
                  Inl _ \<Rightarrow> (s, Aborted)
                | Inr a \<Rightarrow>
                    let v = (case same_window_rule (ap_rule rec) w bk of None \<Rightarrow> wr_end_value w | Some r \<Rightarrow> sr_end_value r)
                    in case write_value inst env a (wr_device w) v (ap_rule rec) slot (en_now env) None None s of
                         (s, Busy) \<Rightarrow> (s, Busy)
                       | (s, Aborted) \<Rightarrow> (s, Aborted)
                       | (s, _) \<Rightarrow> close_lost_windows inst env zone xs s))
      | _ \<Rightarrow> close_lost_windows inst env zone xs s)"

text \<open>\<open>_end_open_windows\<close>, while the file cannot be read.\<close>

definition window_end :: "string \<times> applied_record \<Rightarrow> micros" where
  "window_end x = (case ap_window (snd x) of None \<Rightarrow> 0 | Some w \<Rightarrow> wr_ends_at w)"

fun end_open_windows ::
  "installation \<Rightarrow> surroundings \<Rightarrow> (string \<times> applied_record) list \<Rightarrow> scheduler \<Rightarrow> scheduler \<times> write_result" where
  "end_open_windows inst env [] s = (s, Written)"
| "end_open_windows inst env ((slot, rec) # xs) s =
     (case ap_window rec of
        None \<Rightarrow> end_open_windows inst env xs s
      | Some w \<Rightarrow>
          if en_now env < wr_ends_at w then end_open_windows inst env xs s
          else (case schedule_action_of (Jstr (wr_action w)) of
                  Inl _ \<Rightarrow> (s, Aborted)
                | Inr a \<Rightarrow>
                    (case write_value inst env a (wr_device w) (wr_end_value w) (ap_rule rec) slot (wr_ends_at w) None None s of
                       (s, Written) \<Rightarrow>
                         end_open_windows inst env xs (s\<lparr>sc_open_windows := AList.delete slot (sc_open_windows s)\<rparr>)
                     | (s, Refused) \<Rightarrow> end_open_windows inst env xs s
                     | (s, x) \<Rightarrow> (s, x))))"

definition went_back :: "surroundings \<Rightarrow> scheduler \<Rightarrow> bool" where
  "went_back env s \<longleftrightarrow> (case sc_last_now s of None \<Rightarrow> False | Some t \<Rightarrow> en_now env < t)"

definition reached_next :: "surroundings \<Rightarrow> scheduler \<Rightarrow> bool" where
  "reached_next env s \<longleftrightarrow> (case sc_next_at s of None \<Rightarrow> False | Some t \<Rightarrow> t \<le> en_now env)"

text \<open>The part of a tick that looks for what is due; the flag says that no exception left it.\<close>

definition evaluate_book :: "installation \<Rightarrow> surroundings \<Rightarrow> zone \<Rightarrow> scheduler \<Rightarrow> scheduler \<times> bool" where
  "evaluate_book inst env zone s =
     (let s = record_unrecorded inst env (sc_unrecorded s) (s\<lparr>sc_stale := False\<rparr>)
      in case sc_book s of
           None \<Rightarrow> (s, True)
         | Some bk \<Rightarrow>
             (case due_switch_points bk zone (en_now env) of
                Inl _ \<Rightarrow> (s, False)
              | Inr due \<Rightarrow>
                  (case apply_due inst env (sort_key sp_order (map snd due)) s of
                     (s, Aborted) \<Rightarrow> (s, False)
                   | (s, x) \<Rightarrow>
                       (case if x = Busy then (s, Written)
                             else close_lost_windows inst env zone (case sc_book s of None \<Rightarrow> [] | Some bk \<Rightarrow> bk_applied bk) s of
                          (s, Aborted) \<Rightarrow> (s, False)
                        | (s, _) \<Rightarrow>
                            (case sc_book s of
                               None \<Rightarrow> (s, True)
                             | Some bk \<Rightarrow>
                                 (case next_switch_at bk zone (en_now env) of
                                    Inl _ \<Rightarrow> (s, False)
                                  | Inr t \<Rightarrow> (s\<lparr>sc_next_at := t\<rparr>, True)))))))"

definition tick :: "installation \<Rightarrow> surroundings \<Rightarrow> scheduler \<Rightarrow> scheduler \<times> bool" where
  "tick inst env s =
     (case in_zone inst of
        None \<Rightarrow> (s, True)
      | Some zone \<Rightarrow>
          (case refresh inst env (s\<lparr>sc_store_busy := False\<rparr>) of
             (s, Inl _) \<Rightarrow> (s, False)
           | (s, Inr changed) \<Rightarrow>
               (if sc_book s = None
                then if clock_trusted (en_now env)
                     then (case end_open_windows inst env (sort_key window_end (sc_open_windows s)) s of (s, x) \<Rightarrow> (s, x \<noteq> Aborted))
                     else (s, True)
                else if \<not> clock_trusted (en_now env) then (s\<lparr>sc_stale := True\<rparr>, True)
                else if \<not> (changed \<or> went_back env s \<or> reached_next env s \<or> sc_stale s)
                     then (s\<lparr>sc_last_now := Some (en_now env)\<rparr>, True)
                     else evaluate_book inst env zone (s\<lparr>sc_last_now := Some (en_now env)\<rparr>))))"

section \<open>What each part leaves alone\<close>

lemma record_in_store_keeps:
  assumes "record_in_store inst env slot rec s = (s', ok)"
  shows "sc_book s' = sc_book s \<and> sc_unrecorded s' = sc_unrecorded s \<and> sc_open_windows s' = sc_open_windows s \<and>
    sc_runtime s' = sc_runtime s \<and> sc_stale s' = sc_stale s"
  using assms by (auto simp: record_in_store_def Let_def split: if_splits prod.splits sum.splits store_error.splits)

lemma record_unrecorded_keeps:
  "sc_book (record_unrecorded inst env xs s) = sc_book s \<and> sc_open_windows (record_unrecorded inst env xs s) = sc_open_windows s \<and>
   sc_runtime (record_unrecorded inst env xs s) = sc_runtime s"
proof (induction xs arbitrary: s)
  case (Cons x xs)
  obtain slot rec where x: "x = (slot, rec)" by fastforce
  obtain t ok where t: "record_in_store inst env slot rec s = (t, ok)" by fastforce
  show ?case using record_in_store_keeps [OF t] Cons.IH by (cases ok) (simp_all add: x t)
qed simp

lemma follow_renames_keeps:
  assumes "follow_renames inst env bk s = (s', x)"
  shows "sc_book s' = sc_book s \<and> sc_unrecorded s' = sc_unrecorded s \<and> sc_open_windows s' = sc_open_windows s \<and>
    sc_runtime s' = sc_runtime s"
  using assms
  by (auto simp: follow_renames_def Let_def
      split: if_splits prod.splits sum.splits store_error.splits bool.splits read_failure.splits)

text \<open>The states in which a reload can end.\<close>

lemma refresh_induct:
  assumes "refresh inst env s = (s', x)" and "P s"
    and "\<And>t g. P s \<Longrightarrow> P (s\<lparr>sc_loaded_at := t, sc_signature := g\<rparr>)"
    and "\<And>t g. P (lose_book (s\<lparr>sc_loaded_at := t, sc_signature := g\<rparr>))"
    and "\<And>t g bk u y. follow_renames inst env bk (s\<lparr>sc_loaded_at := t, sc_signature := g, sc_unreadable := False\<rparr>) = (u, Inl y) \<Longrightarrow> P u"
    and "\<And>t g bk u y. follow_renames inst env bk (s\<lparr>sc_loaded_at := t, sc_signature := g, sc_unreadable := False\<rparr>) = (u, Inr y) \<Longrightarrow>
      P (fst (take_book y u))"
  shows "P s'"
proof (cases "reload_due env s")
  case False
  then show ?thesis using assms(1,2) by (simp add: refresh_def)
next
  case due: True
  let ?s = "s\<lparr>sc_loaded_at := Some (en_now env), sc_signature := en_signature env\<rparr>"
  note lost = assms(4) [of "en_signature env" "Some (en_now env)"] and same = assms(3) [OF assms(2), of "en_signature env" "Some (en_now env)"]
  show ?thesis
  proof (cases "en_read_fails env")
    case True
    then show ?thesis using assms(1) due lost by (simp add: refresh_def)
  next
    case reads: False
    show ?thesis
    proof (cases "sc_book s \<noteq> None \<and> sc_raw s = Some (sc_file s)")
      case True
      then show ?thesis using assms(1) due reads same by (simp add: refresh_def)
    next
      case new: False
      have r: "refresh inst env s = (case read_book inst (sc_file s) of
          Inl Not_readable \<Rightarrow> (lose_book ?s, Inr True)
        | Inl e \<Rightarrow> (?s, Inl e)
        | Inr bk \<Rightarrow> (case follow_renames inst env bk (?s\<lparr>sc_unreadable := False\<rparr>) of
              (s, Inl e) \<Rightarrow> (s, Inl e)
            | (s, Inr x) \<Rightarrow> (let (s, changed) = take_book x s in (s, Inr changed))))"
        using due reads new by (auto simp: refresh_def Let_def)
      show ?thesis
      proof (cases "read_book inst (sc_file s)")
        case (Inl e)
        then show ?thesis using assms(1) lost same by (cases e) (simp_all add: r)
      next
        case (Inr bk)
        obtain u y where f: "follow_renames inst env bk (?s\<lparr>sc_unreadable := False\<rparr>) = (u, y)" by fastforce
        show ?thesis
        proof (cases y)
          case (Inl e)
          then show ?thesis using assms(1) assms(5) f \<open>read_book inst (sc_file s) = Inr bk\<close> by (auto simp: r)
        next
          case y: (Inr z)
          have "s' = fst (take_book z u)" using assms(1) y f Inr by (auto simp: r split: prod.splits)
          moreover have "P (fst (take_book z u))" using assms(6) f y by auto
          ultimately show ?thesis by simp
        qed
      qed
    qed
  qed
qed

lemma take_book_keeps: "sc_runtime (fst (take_book x s)) = sc_runtime s"
  by (simp add: take_book_def carry_open_windows_def Let_def split: prod.split)

lemma refresh_keeps_runtime: "refresh inst env s = (s', x) \<Longrightarrow> sc_runtime s' = sc_runtime s"
  by (rule refresh_induct [where P = "\<lambda>t. sc_runtime t = sc_runtime s"])
    (auto simp: lose_book_def take_book_keeps dest!: follow_renames_keeps)

section \<open>What was applied is remembered\<close>

text \<open>What could not be recorded is part of the book.\<close>

definition agrees :: "(string \<times> 'a) list \<Rightarrow> (string \<times> 'a) list \<Rightarrow> bool" where
  "agrees unrecorded applied \<longleftrightarrow>
     distinct (map fst unrecorded) \<and> (\<forall>slot rec. map_of unrecorded slot = Some rec \<longrightarrow> map_of applied slot = Some rec)"

definition remembers :: "scheduler \<Rightarrow> bool" where
  "remembers s \<longleftrightarrow>
     distinct (map fst (sc_unrecorded s)) \<and>
     (case sc_book s of None \<Rightarrow> True | Some bk \<Rightarrow> agrees (sc_unrecorded s) (bk_applied bk))"

lemma remembers_same: "sc_book s' = sc_book s \<Longrightarrow> sc_unrecorded s' = sc_unrecorded s \<Longrightarrow> remembers s' = remembers s"
  by (simp add: remembers_def cong: option.case_cong)

lemma remembers_other [simp]:
  "remembers (s\<lparr>sc_stale := b\<rparr>) = remembers s" "remembers (s\<lparr>sc_last_now := n\<rparr>) = remembers s"
  "remembers (s\<lparr>sc_next_at := n\<rparr>) = remembers s" "remembers (s\<lparr>sc_open_windows := ws\<rparr>) = remembers s"
  "remembers (s\<lparr>sc_store_busy := b\<rparr>) = remembers s"
  "remembers (s\<lparr>sc_loaded_at := t, sc_signature := g\<rparr>) = remembers s"
  by (rule remembers_same; simp)+

lemma remembers_distinct: "remembers s \<Longrightarrow> distinct (map fst (sc_unrecorded s))"
  by (simp add: remembers_def)

lemma agrees_delete: "agrees u a \<Longrightarrow> agrees (AList.delete slot u) a"
  by (auto simp: agrees_def delete_conv' distinct_delete split: if_splits)

lemma agrees_update: "agrees u a \<Longrightarrow> agrees (AList.update slot rec u) (AList.update slot rec a)"
  by (auto simp: agrees_def update_conv' distinct_update split: if_splits)

lemma agrees_delete_update: "agrees u a \<Longrightarrow> agrees (AList.delete slot u) (AList.update slot rec a)"
  by (auto simp: agrees_def delete_conv' update_conv' distinct_delete split: if_splits)

lemma with_unrecorded_agrees:
  assumes "distinct (map fst xs)" and "distinct (map fst u)" and "\<forall>(k, r) \<in> set xs. map_of u k = Some r"
    and "\<forall>k r. k \<notin> fst ` set xs \<longrightarrow> map_of u k = Some r \<longrightarrow> map_of a k = Some r"
  shows "agrees (snd (with_unrecorded xs a u)) (fst (with_unrecorded xs a u))"
  using assms
proof (induction xs a u rule: with_unrecorded.induct)
  case (1 a u)
  then show ?case by (auto simp: agrees_def)
next
  case (2 slot rec xs a u)
  let ?newer = "case map_of a slot of None \<Rightarrow> False | Some d \<Rightarrow> ap_at rec \<le> ap_at d"
  have rest: "slot \<notin> fst ` set xs" "distinct (map fst xs)" "map_of u slot = Some rec" using 2(3,5) by auto
  show ?case
  proof (cases ?newer)
    case True
    have "agrees (snd (with_unrecorded xs a (AList.delete slot u))) (fst (with_unrecorded xs a (AList.delete slot u)))"
    proof (rule 2(1) [OF True rest(2)])
      show "\<forall>(k, r)\<in>set xs. map_of (AList.delete slot u) k = Some r"
      proof clarify
        fix k r
        assume "(k, r) \<in> set xs"
        then have "k \<noteq> slot" "map_of u k = Some r" using rest(1) 2(5) by force+
        then show "map_of (AList.delete slot u) k = Some r" by (simp add: delete_conv')
      qed
      show "\<forall>k r. k \<notin> fst ` set xs \<longrightarrow> map_of (AList.delete slot u) k = Some r \<longrightarrow> map_of a k = Some r"
        using 2(6) by (auto simp: delete_conv')
    qed (use 2(4) in \<open>simp add: distinct_delete\<close>)
    then show ?thesis using True by simp
  next
    case False
    have "agrees (snd (with_unrecorded xs (AList.update slot rec a) u)) (fst (with_unrecorded xs (AList.update slot rec a) u))"
    proof (rule 2(2) [OF False rest(2) 2(4)])
      show "\<forall>(k, r)\<in>set xs. map_of u k = Some r" using 2(5) by simp
      show "\<forall>k r. k \<notin> fst ` set xs \<longrightarrow> map_of u k = Some r \<longrightarrow> map_of (AList.update slot rec a) k = Some r"
        using 2(6) rest(3) by (auto simp: update_conv')
    qed
    then show ?thesis using False by simp
  qed
qed

lemma carried_distinct: "distinct (map fst u) \<Longrightarrow> distinct (map fst (fold (carried bk) xs u))"
proof (induction xs arbitrary: u)
  case (Cons x xs)
  have "distinct (map fst (carried bk x u))" using Cons.prems by (simp add: carried_def Let_def distinct_update split: prod.split)
  then show ?case using Cons.IH by simp
qed simp

lemma take_book_remembers: "distinct (map fst (sc_unrecorded s)) \<Longrightarrow> remembers (fst (take_book x s))"
proof -
  assume "distinct (map fst (sc_unrecorded s))"
  then have d: "distinct (map fst (sc_unrecorded (carry_open_windows (fst x) s)))"
    by (simp add: carry_open_windows_def carried_distinct)
  let ?u = "sc_unrecorded (carry_open_windows (fst x) s)"
  have "agrees (snd (with_unrecorded ?u (bk_applied (fst x)) ?u)) (fst (with_unrecorded ?u (bk_applied (fst x)) ?u))"
  proof (rule with_unrecorded_agrees [OF d d])
    show "\<forall>(k, r)\<in>set ?u. map_of ?u k = Some r" using d by auto
    show "\<forall>k r. k \<notin> fst ` set ?u \<longrightarrow> map_of ?u k = Some r \<longrightarrow> map_of (bk_applied (fst x)) k = Some r"
      by (metis map_of_eq_None_iff option.distinct(1))
  qed
  then show ?thesis
    by (simp add: take_book_def remembers_def Let_def agrees_def case_prod_beta)
qed
text \<open>A write that goes through records itself; any other leaves the book as it is.\<close>

lemma remember_applied_effect:
  "sc_book (remember_applied inst env slot rec s) =
     map_option (\<lambda>bk. bk\<lparr>bk_applied := AList.update slot rec (bk_applied bk)\<rparr>) (sc_book s)"
  "sc_runtime (remember_applied inst env slot rec s) = sc_runtime s"
  "sc_unrecorded (remember_applied inst env slot rec s) \<in>
     {AList.delete slot (sc_unrecorded s), AList.update slot rec (sc_unrecorded s)}"
proof -
  obtain t ok where t: "record_in_store inst env slot rec s = (t, ok)" by fastforce
  note k = record_in_store_keeps [OF t]
  show "sc_book (remember_applied inst env slot rec s) =
     map_option (\<lambda>bk. bk\<lparr>bk_applied := AList.update slot rec (bk_applied bk)\<rparr>) (sc_book s)"
    "sc_runtime (remember_applied inst env slot rec s) = sc_runtime s"
    "sc_unrecorded (remember_applied inst env slot rec s) \<in>
       {AList.delete slot (sc_unrecorded s), AList.update slot rec (sc_unrecorded s)}"
    using k by (simp_all add: remember_applied_def t Let_def)
qed

lemma remember_refusal_keeps:
  "sc_book (remember_refusal i n s) = sc_book s" "sc_unrecorded (remember_refusal i n s) = sc_unrecorded s"
  "sc_stale (remember_refusal i n s) = sc_stale s"
  by (simp_all add: remember_refusal_def split: option.split)

lemma write_value_result:
  assumes "write_value inst env a device v i slot t window revision s = (s', x)"
  shows "if x = Written
    then \<exists>s1. sc_book s1 = sc_book s \<and> sc_unrecorded s1 = sc_unrecorded s \<and>
      s' = remember_applied inst env slot \<lparr>ap_rule = i, ap_at = t, ap_value = v, ap_window = window\<rparr> s1
    else sc_book s' = sc_book s \<and> sc_unrecorded s' = sc_unrecorded s"
proof (cases "action_commands a v")
  case (Inl e)
  then show ?thesis using assms by (cases e) (auto simp: write_value_def remember_refusal_keeps)
next
  case (Inr cs)
  obtain res runtime where r: "run_commands (in_float inst) (en_context env) (en_write env (sc_runtime_writes s)) (sc_runtime s)
      (en_disk env (sc_runtime s)) (ac_scope a) (json_text device) cs ''schedule'' = (res, runtime)" by fastforce
  show ?thesis
  proof (cases res)
    case (Inl e)
    then show ?thesis using assms Inr r by (cases e) (auto simp: write_value_def remember_refusal_keeps)
  next
    case (Inr entry)
    let ?s1 = "s\<lparr>sc_runtime := runtime, sc_runtime_writes := Suc (sc_runtime_writes s), sc_refused := AList.delete i (sc_refused s)\<rparr>"
    have "s' = remember_applied inst env slot \<lparr>ap_rule = i, ap_at = t, ap_value = v, ap_window = window\<rparr> ?s1" "x = Written"
      using assms \<open>action_commands a v = Inr cs\<close> r Inr by (simp_all add: write_value_def)
    then show ?thesis by (auto intro: exI [of _ ?s1])
  qed
qed

lemma write_value_remembers:
  assumes "write_value inst env a device v i slot t window revision s = (s', x)" and "remembers s"
  shows "remembers s'"
proof (cases "x = Written")
  case True
  let ?rec = "\<lparr>ap_rule = i, ap_at = t, ap_value = v, ap_window = window\<rparr>"
  obtain s1 where s1: "sc_book s1 = sc_book s" "sc_unrecorded s1 = sc_unrecorded s" "s' = remember_applied inst env slot ?rec s1"
    using write_value_result [OF assms(1)] True by auto
  note e = remember_applied_effect [of inst env slot ?rec s1, folded s1(3), unfolded s1(1,2)]
  have d: "distinct (map fst (sc_unrecorded s))" using assms(2) by (simp add: remembers_def)
  have "distinct (map fst (sc_unrecorded s'))" using e(3) d by (auto simp: distinct_delete distinct_update)
  moreover have "agrees (sc_unrecorded s') (bk_applied bk')" if "sc_book s' = Some bk'" for bk'
  proof -
    obtain bk where bk: "sc_book s = Some bk" "bk_applied bk' = AList.update slot ?rec (bk_applied bk)"
      using e(1) \<open>sc_book s' = Some bk'\<close> by (cases "sc_book s") auto
    then have a: "agrees (sc_unrecorded s) (bk_applied bk)" using assms(2) by (simp add: remembers_def)
    have "sc_unrecorded s' = AList.delete slot (sc_unrecorded s) \<or> sc_unrecorded s' = AList.update slot ?rec (sc_unrecorded s)"
      using e(3) by simp
    then show ?thesis
    proof
      assume u: "sc_unrecorded s' = AList.delete slot (sc_unrecorded s)"
      show ?thesis unfolding u bk(2) by (rule agrees_delete_update [OF a])
    next
      assume u: "sc_unrecorded s' = AList.update slot ?rec (sc_unrecorded s)"
      show ?thesis unfolding u bk(2) by (rule agrees_update [OF a])
    qed
  qed
  ultimately show ?thesis by (simp add: remembers_def split: option.split)
next
  case False
  then show ?thesis using write_value_result [OF assms(1)] assms(2) remembers_same [of s' s] by simp
qed

section \<open>Every tick remembers\<close>

lemma refresh_remembers:
  assumes "refresh inst env s = (s', x)" and "remembers s"
  shows "remembers s'"
  using assms(1)
proof (rule refresh_induct [where P = remembers])
  show "remembers (lose_book (s\<lparr>sc_loaded_at := t, sc_signature := g\<rparr>))" for t g
    using assms(2) by (simp add: remembers_def lose_book_def)
next
  fix t g bk u y
  assume "follow_renames inst env bk (s\<lparr>sc_loaded_at := t, sc_signature := g, sc_unreadable := False\<rparr>) = (u, Inl y)"
  from follow_renames_keeps [OF this] have "sc_book u = sc_book s" "sc_unrecorded u = sc_unrecorded s" by simp_all
  from remembers_same [OF this] show "remembers u" using assms(2) by simp
next
  fix t g bk u y
  assume "follow_renames inst env bk (s\<lparr>sc_loaded_at := t, sc_signature := g, sc_unreadable := False\<rparr>) = (u, Inr y)"
  from follow_renames_keeps [OF this] have "distinct (map fst (sc_unrecorded u))" using assms(2) by (simp add: remembers_def)
  then show "remembers (fst (take_book y u))" by (rule take_book_remembers)
qed (use assms(2) in simp_all)

lemma record_unrecorded_remembers: "remembers s \<Longrightarrow> remembers (record_unrecorded inst env xs s)"
proof (induction xs arbitrary: s)
  case (Cons x xs)
  obtain slot rec where x: "x = (slot, rec)" by fastforce
  obtain t ok where t: "record_in_store inst env slot rec s = (t, ok)" by fastforce
  note k = record_in_store_keeps [OF t]
  show ?case
  proof (cases ok)
    case True
    have "remembers (t\<lparr>sc_unrecorded := AList.delete slot (sc_unrecorded t), sc_signature := None, sc_raw := None\<rparr>)"
      using k Cons.prems agrees_delete by (auto simp: remembers_def distinct_delete split: option.splits)
    then show ?thesis using Cons.IH True by (simp add: x t)
  next
    case False
    then show ?thesis using k Cons.prems remembers_same [of t s] by (simp add: x t)
  qed
qed simp

lemma apply_due_remembers: "apply_due inst env ps s = (s', x) \<Longrightarrow> remembers s \<Longrightarrow> remembers s'"
proof (induction ps arbitrary: s)
  case (Cons p ps)
  show ?case
  proof (cases "orphaned env p")
    case True
    then show ?thesis using Cons by simp
  next
    case False
    obtain t y where t: "apply_point inst env p s = (t, y)" by fastforce
    have "remembers t" using write_value_remembers [OF t [unfolded apply_point_def] Cons.prems(2)] .
    then show ?thesis using Cons.IH [of t] Cons.prems(1) False t by (cases y) auto
  qed
qed simp

lemma close_lost_windows_remembers: "close_lost_windows inst env zone xs s = (s', x) \<Longrightarrow> remembers s \<Longrightarrow> remembers s'"
proof (induction xs arbitrary: s)
  case (Cons y ys)
  obtain slot rec where y: "y = (slot, rec)" by fastforce
  show ?case
  proof (cases "ap_window rec = None \<or> sc_book s = None")
    case True
    then have "close_lost_windows inst env zone ys s = (s', x)" using Cons.prems(1) by (auto simp: y split: option.splits)
    then show ?thesis using Cons.IH Cons.prems(2) by blast
  next
    case False
    then obtain w bk where w: "ap_window rec = Some w" "sc_book s = Some bk" by auto
    show ?thesis
    proof (cases "window_still_open rec w bk zone (en_now env)")
      case (Inl e)
      then show ?thesis using Cons.prems w by (simp add: y)
    next
      case (Inr b)
      show ?thesis
      proof (cases b)
        case True
        then show ?thesis using Cons Inr w by (simp add: y)
      next
        case False
        let ?v = "case same_window_rule (ap_rule rec) w bk of None \<Rightarrow> wr_end_value w | Some r \<Rightarrow> sr_end_value r"
        show ?thesis
        proof (cases "schedule_action_of (Jstr (wr_action w))")
          case (Inl e)
          then show ?thesis using Cons.prems w Inr False \<open>window_still_open _ _ _ _ _ = Inr b\<close> by (simp add: y)
        next
          case a: (Inr a)
          obtain t z where t: "write_value inst env a (wr_device w) ?v (ap_rule rec) slot (en_now env) None None s = (t, z)" by fastforce
          have "remembers t" using write_value_remembers [OF t Cons.prems(2)] .
          then show ?thesis
            using Cons.IH [of t] Cons.prems w Inr False a t by (cases z) (auto simp: y)
        qed
      qed
    qed
  qed
qed simp

lemma end_open_windows_remembers: "end_open_windows inst env xs s = (s', x) \<Longrightarrow> remembers s \<Longrightarrow> remembers s'"
proof (induction xs arbitrary: s)
  case (Cons y ys)
  obtain slot rec where y: "y = (slot, rec)" by fastforce
  show ?case
  proof (cases "ap_window rec")
    case None
    then show ?thesis using Cons by (simp add: y)
  next
    case (Some w)
    show ?thesis
    proof (cases "en_now env < wr_ends_at w")
      case True
      then show ?thesis using Cons Some by (simp add: y)
    next
      case False
      show ?thesis
      proof (cases "schedule_action_of (Jstr (wr_action w))")
        case (Inl e)
        then show ?thesis using Cons.prems Some False by (simp add: y)
      next
        case (Inr a)
        obtain t z where t: "write_value inst env a (wr_device w) (wr_end_value w) (ap_rule rec) slot (wr_ends_at w) None None s = (t, z)"
          by fastforce
        have "remembers t" using write_value_remembers [OF t Cons.prems(2)] .
        then have "remembers t" "remembers (t\<lparr>sc_open_windows := ws\<rparr>)" for ws by simp_all
        then show ?thesis
          using Cons.IH Cons.prems Some False Inr t by (cases z) (auto simp: y)
      qed
    qed
  qed
qed simp

lemma evaluate_book_remembers:
  assumes "remembers s"
  shows "remembers (fst (evaluate_book inst env zone s))"
proof -
  let ?s = "record_unrecorded inst env (sc_unrecorded s) (s\<lparr>sc_stale := False\<rparr>)"
  have s: "remembers ?s" using assms by (intro record_unrecorded_remembers) simp
  show ?thesis
  proof (cases "sc_book ?s")
    case None
    then show ?thesis using s by (simp add: evaluate_book_def Let_def)
  next
    case (Some bk)
    show ?thesis
    proof (cases "due_switch_points bk zone (en_now env)")
      case (Inl e)
      then show ?thesis using s Some by (simp add: evaluate_book_def Let_def)
    next
      case (Inr due)
      obtain t x where t: "apply_due inst env (sort_key sp_order (map snd due)) ?s = (t, x)" by fastforce
      have rt: "remembers t" by (rule apply_due_remembers [OF t s])
      obtain u y where u: "(if x = Busy then (t, Written)
          else close_lost_windows inst env zone (case sc_book t of None \<Rightarrow> [] | Some bk \<Rightarrow> bk_applied bk) t) = (u, y)" by fastforce
      have ru: "remembers u" using u rt close_lost_windows_remembers by (cases "x = Busy") auto
      show ?thesis
      proof (cases "x = Aborted")
        case True
        then show ?thesis using t rt Some Inr by (simp add: evaluate_book_def Let_def)
      next
        case False
        then have e: "evaluate_book inst env zone s =
            (case (u, y) of (s, Aborted) \<Rightarrow> (s, False)
               | (s, _) \<Rightarrow> (case sc_book s of None \<Rightarrow> (s, True)
                   | Some bk \<Rightarrow> (case next_switch_at bk zone (en_now env) of Inl _ \<Rightarrow> (s, False) | Inr t \<Rightarrow> (s\<lparr>sc_next_at := t\<rparr>, True))))"
          using t u Some Inr by (cases x) (simp_all add: evaluate_book_def Let_def)
        have "remembers (u\<lparr>sc_next_at := n\<rparr>)" for n using ru by simp
        then show ?thesis
          using ru unfolding e by (cases y; cases "sc_book u"; simp split: sum.split)
      qed
    qed
  qed
qed

lemma tick_remembers:
  assumes "remembers s"
  shows "remembers (fst (tick inst env s))"
proof (cases "in_zone inst")
  case None
  then show ?thesis using assms by (simp add: tick_def)
next
  case (Some zone)
  obtain t x where t: "refresh inst env (s\<lparr>sc_store_busy := False\<rparr>) = (t, x)" by fastforce
  have rt: "remembers t" by (rule refresh_remembers [OF t]) (use assms in simp)
  show ?thesis
  proof (cases x)
    case (Inl e)
    then show ?thesis using t rt Some by (simp add: tick_def)
  next
    case (Inr changed)
    obtain u y where u: "end_open_windows inst env (sort_key window_end (sc_open_windows t)) t = (u, y)" by fastforce
    have "remembers u" by (rule end_open_windows_remembers [OF u rt])
    moreover have "remembers (t\<lparr>sc_stale := b\<rparr>)" "remembers (t\<lparr>sc_last_now := n\<rparr>)" for b n using rt by simp_all
    ultimately show ?thesis using t u rt Some Inr evaluate_book_remembers by (simp add: tick_def)
  qed
qed

interpretation scheduler: stepwise_invariant "\<lambda>s env. fst (tick inst env s)" "\<lambda>_. True" remembers
  by unfold_locales (rule tick_remembers)

section \<open>Properties of the scheduler\<close>


text \<open>Nothing is closed where nothing is open, and nothing is applied where nothing is due.\<close>

lemma close_nothing:
  "\<forall>(slot, rec) \<in> set xs. ap_window rec = None \<Longrightarrow> close_lost_windows inst env zone xs s = (s, Written)"
  by (induction xs arbitrary: s) (auto split: option.splits)

lemma paused_changes_nothing:
  assumes "sc_book s = Some bk" and "\<not> bk_enabled bk" and "\<forall>(slot, rec) \<in> set (bk_applied bk). ap_window rec = None"
  shows "sc_runtime (fst (evaluate_book inst env zone s)) = sc_runtime s"
proof -
  let ?s = "record_unrecorded inst env (sc_unrecorded s) (s\<lparr>sc_stale := False\<rparr>)"
  have k: "sc_book ?s = Some bk" "sc_runtime ?s = sc_runtime s" using assms(1) record_unrecorded_keeps by simp_all
  have "due_switch_points bk zone (en_now env) = Inr []" "next_switch_at bk zone (en_now env) = Inr None"
    using assms(2) by (simp_all add: due_switch_points_def next_switch_at_def)
  then show ?thesis using k close_nothing [OF assms(3)] by (simp add: evaluate_book_def Let_def)
qed

text \<open>
  Nothing fires while the clock cannot be trusted, and a paused schedule without a running window fires nothing: a
  tick then leaves the runtime state as it is.
\<close>

lemma nothing_fires_on_an_untrusted_clock_or_while_paused:
  assumes "refresh inst env (s\<lparr>sc_store_busy := False\<rparr>) = (t, x)"
    and "\<not> clock_trusted (en_now env) \<or>
      (\<exists>bk. sc_book t = Some bk \<and> \<not> bk_enabled bk \<and> (\<forall>(slot, rec) \<in> set (bk_applied bk). ap_window rec = None))"
  shows "sc_runtime (fst (tick inst env s)) = sc_runtime s"
proof -
  have t: "sc_runtime t = sc_runtime s" using refresh_keeps_runtime [OF assms(1)] by simp
  show ?thesis
  proof (cases "clock_trusted (en_now env)")
    case False
    then show ?thesis using assms(1) t by (simp add: tick_def split: option.split sum.split)
  next
    case True
    then obtain bk where bk: "sc_book t = Some bk" "\<not> bk_enabled bk" "\<forall>(slot, rec) \<in> set (bk_applied bk). ap_window rec = None"
      using assms(2) by blast
    have "sc_runtime (fst (evaluate_book inst env zone (t\<lparr>sc_last_now := Some (en_now env)\<rparr>))) = sc_runtime s" for zone
      using paused_changes_nothing [of "t\<lparr>sc_last_now := Some (en_now env)\<rparr>" bk] bk t by simp
    then show ?thesis using assms(1) t True bk(1) by (simp add: tick_def split: option.split sum.split)
  qed
qed

lemma bound_of_mono:
  assumes "u \<le> now + FUTURE_TOLERANCE" and "NEVER \<le> u" and "t \<le> now + FUTURE_TOLERANCE \<Longrightarrow> t < u"
    and "bk_resumed_at bk' = bk_resumed_at bk"
  shows "bound_of r t bk now \<le> bound_of r u bk' now"
  using assms by (auto simp: bound_of_def)

lemma points_of_mono: "a \<le> b \<Longrightarrow> set (points_of r b limit rank oc) \<subseteq> set (points_of r a limit rank oc)"
  by (auto simp: points_of_def split: if_splits option.splits)

lemma apply_point_book:
  assumes "apply_point inst env p s = (s', Written)" and "sc_book s = Some bk"
  shows "sc_book s' = Some (bk\<lparr>bk_applied := AList.update (sp_slot p)
    \<lparr>ap_rule = sr_id (sp_rule p), ap_at = sp_at p, ap_value = sp_value p, ap_window = window_of_point p\<rparr> (bk_applied bk)\<rparr>)"
  using write_value_result [OF assms(1) [unfolded apply_point_def]] assms(2)
  by (auto simp: remember_applied_effect)

text \<open>
  A point that was written leaves nothing due on its setting: evaluated again at the same time, the book then
  has no point due there. The point is not of a time before 1970.
\<close>

lemma written_point_settles_its_setting:
  assumes "due_switch_points bk zone now = Inr due" and "map_of due slot = Some p" and "orderly_zone zone"
    and "sc_book s = Some bk" and "apply_point inst env p s = (s', Written)" and "sc_book s' = Some bk'"
    and "\<forall>(rank, r) \<in> set (valid_rules bk). readable r bk zone now \<and> readable r bk' zone now"
    and "due_switch_points bk' zone now = Inr due'" and "NEVER \<le> sp_at p"
  shows "map_of due' slot = None"
proof (rule ccontr)
  assume "map_of due' slot \<noteq> None"
  then obtain q where q: "map_of due' slot = Some q" by auto
  have enabled: "bk_enabled bk" using assms(1,2) by (auto simp: due_switch_points_def split: if_splits)
  have all: "\<forall>(rank, r) \<in> set (valid_rules bk). readable r bk zone now" using assms(7) by blast
  note latest = latest_due [OF assms(1) enabled assms(3) all]
  have p: "sp_slot p = slot" using latest assms(2) by blast
  let ?rec = "\<lparr>ap_rule = sr_id (sp_rule p), ap_at = sp_at p, ap_value = sp_value p, ap_window = window_of_point p\<rparr>"
  have bk': "bk' = bk\<lparr>bk_applied := AList.update slot ?rec (bk_applied bk)\<rparr>"
    using apply_point_book [OF assms(5,4)] assms(6) p by simp
  then have same: "valid_rules bk' = valid_rules bk" "bk_enabled bk'" "bk_resumed_at bk' = bk_resumed_at bk"
      "map_of (bk_applied bk') slot = Some ?rec"
    using enabled by (simp_all add: valid_rules_def update_conv')
  have all': "\<forall>(rank, r) \<in> set (valid_rules bk'). readable r bk' zone now" using assms(7) same(1) by auto
  have come: "has_come bk' zone now q" "sp_slot q = slot" using latest_due [OF assms(8) same(2) assms(3) all'] q by blast+
  have now: "sp_at p \<le> now" "sp_at p \<le> now + FUTURE_TOLERANCE"
    using due_point_bounds [OF assms(1,2)] by (simp_all add: FUTURE_TOLERANCE_def DAY_def)
  have later: "sp_at p < sp_at q" using due_point_bounds [OF assms(8) q] same(4) now(2) by fastforce
  obtain rank r oc where r: "(rank, r) \<in> set (valid_rules bk)" "oc \<in> set (fst (occurrences (sr_when r) zone None (Some now)))"
      "q \<in> set (points_of r (bound_of r (applied_at bk' (slot_of r)) bk' now) now rank oc)"
    using come(1) same(1) unfolding has_come_def by auto
  then have slot: "slot_of r = slot" using points_of_slot come(2) by metis
  have "has_come bk zone now p" using latest assms(2) by blast
  then obtain rank0 r0 oc0 where "p \<in> set (points_of r0 (bound_of r0 (applied_at bk (slot_of r0)) bk now) now rank0 oc0)"
    unfolding has_come_def by blast
  from points_of_slot [OF this] have "bound_of r0 (applied_at bk slot) bk now < sp_at p" using p by simp
  then have "applied_at bk slot \<le> now + FUTURE_TOLERANCE \<Longrightarrow> applied_at bk slot < sp_at p"
    using bound_of_below [of "applied_at bk slot" r0 "applied_at bk slot" bk now] by simp
  then have "bound_of r (applied_at bk slot) bk now \<le> bound_of r (applied_at bk' slot) bk' now"
    using bound_of_mono [OF now(2) assms(9) _ same(3)] same(4) by (simp add: applied_at_def)
  then have "q \<in> set (points_of r (bound_of r (applied_at bk (slot_of r)) bk now) now rank oc)"
    using points_of_mono r(3) unfolding slot by blast
  then have "has_come bk zone now q" using r(1,2) unfolding has_come_def by blast
  then have "sp_order q \<le> sp_order p" using latest assms(2) come(2) by blast
  then show False using later by (auto simp: sp_order_def less_eq_prod_def)
qed

text \<open>The examples' scheduler.\<close>

definition evening_runtime :: json_object where
  "evening_runtime = [(''devices'', Jobj [(''WR1'', Jobj [(''runtime_role'', Jstr ''ac_output''), (''ac_charge_power_w'', Jint 0)])])]"

definition evening_file :: raw_file where
  "evening_file = Some ([], Jobj [(''schema_version'', Jint 1), (''rules'', Jlist [rule_payload evening_charge])])"

definition two_hours_home :: installation where
  "two_hours_home = \<lparr>in_zone = Some two_hours_ahead, in_digest = (\<lambda>_. []), in_text = (\<lambda>_. []), in_float = (\<lambda>_. None)\<rparr>"

text \<open>A tick in the first evening, with the store's lock taken or free.\<close>

definition evening_tick :: "write_outcome \<Rightarrow> surroundings" where
  "evening_tick store =
     \<lparr>en_now = in_the_evening, en_devices = None, en_signature = Some 1, en_renamed_signature = None, en_read_fails = False,
      en_store = (\<lambda>_. store), en_write = (\<lambda>_. Saved), en_disk = (\<lambda>x. x), en_context = no_context\<rparr>"

definition evening_loaded :: scheduler where
  "evening_loaded = (fresh_scheduler evening_file evening_runtime)
     \<lparr>sc_loaded_at := Some in_the_evening, sc_signature := Some 1, sc_book := Some evening_book, sc_raw := Some evening_file\<rparr>"

lemma evening_read: "read_book two_hours_home evening_file = Inr evening_book"
  by (simp add: read_book_def evening_file_def decode_def equals_int_def jget_def SCHEMA_VERSION_def book_of_def book_rule_of_def
      evening_charge_read evening_book_def two_hours_home_def parse_utc_def as_text_def map_filter_simps)

lemma evening_refresh: "refresh two_hours_home (evening_tick store) ((fresh_scheduler evening_file evening_runtime)\<lparr>sc_store_busy := False\<rparr>) =
    (evening_loaded, Inr True)"
  by (simp add: refresh_def reload_due_def evening_tick_def fresh_scheduler_def evening_read follow_renames_def renamed_devices_def
      take_book_def carry_open_windows_def evening_loaded_def Let_def)
    (simp add: evening_book_def evening_charge_def)

definition evening_window :: window_record where
  "evening_window = \<lparr>wr_action = ''charge_from_grid'', wr_device = Jstr ''WR1'', wr_end_value = Jint 0,
     wr_ends_at = 739908 * DAY + 18 * 60 * MINUTE\<rparr>"

definition evening_record :: applied_record where
  "evening_record = \<lparr>ap_rule = ''r_0123abcd'', ap_at = 739908 * DAY + 16 * 60 * MINUTE, ap_value = Jint 600,
     ap_window = Some evening_window\<rparr>"

definition evening_slot :: string where
  "evening_slot = ''devices.WR1.runtime_role,devices.WR1.ac_charge_power_w''"

definition evening_applied :: schedule_book where
  "evening_applied = evening_book\<lparr>bk_applied := [(evening_slot, evening_record)]\<rparr>"

definition evening_entry :: json_object where
  "evening_entry = [(''runtime_role'', Jstr ''ac_input''), (''ac_charge_power_w'', Jint 600), (''runtime_role_reason'', Jstr ''schedule'')]"

lemma evening_run:
  "run_commands (\<lambda>_. None) no_context Saved evening_runtime evening_runtime ''device'' ''WR1''
     [(''ac-charge-power'', Jint 600), (''ac-mode'', Jstr ''input'')] ''schedule'' =
   (Inr evening_entry, [(''devices'', Jobj [(''WR1'', Jobj evening_entry)])])"
  by code_simp

lemma evening_commands: "action_commands (sr_action evening_charge) (Jint 600) = Inr [(''ac-charge-power'', Jint 600), (''ac-mode'', Jstr ''input'')]"
  "ac_scope (sr_action evening_charge) = ''device''" "ac_id (sr_action evening_charge) = ''charge_from_grid''"
  by code_simp+

lemma evening_point_parts: "sp_rule evening_start = evening_charge" "sp_value evening_start = Jint 600" "sp_start evening_start"
  "sp_slot evening_start = evening_slot" "sp_at evening_start = ap_at evening_record" "window_of_point evening_start = ap_window evening_record"
  "sr_device evening_charge = Some ''WR1''" "sr_id evening_charge = ''r_0123abcd''" "sr_revision evening_charge = 1"
  using evening_commands(3)
  by (simp_all add: evening_start_def evening_slot_def evening_record_def evening_window_def window_of_point_def evening_charge_def device_json_def)

lemma evening_applied_point:
  assumes "sc_runtime s = evening_runtime" and "sc_book s = Some evening_book" and "sc_unrecorded s = []" and "\<not> sc_store_busy s"
  shows "\<exists>s'. apply_point two_hours_home (evening_tick Lock_taken) evening_start s = (s', Written) \<and>
    sc_book s' = Some evening_applied \<and> sc_unrecorded s' = [(evening_slot, evening_record)]"
  using assms evening_run
  by (simp add: apply_point_def evening_point_parts write_value_def evening_commands device_json_def json_text_def two_hours_home_def
      evening_tick_def remember_applied_def record_in_store_def exclusive_def evening_applied_def Let_def)
    (simp add: evening_record_def evening_book_def)

lemma evening_window_open:
  "window_still_open evening_record evening_window evening_applied two_hours_ahead in_the_evening = Inr True"
  by code_simp

lemma evening_next: "next_switch_at evening_applied two_hours_ahead in_the_evening = Inr (Some (739908 * DAY + 18 * 60 * MINUTE))"
  by code_simp

lemma evening_first_tick:
  "\<exists>s. fst (tick two_hours_home (evening_tick Lock_taken) (fresh_scheduler evening_file evening_runtime)) = s \<and>
     sc_book s = Some evening_applied \<and> sc_unrecorded s = [(evening_slot, evening_record)]"
proof -
  let ?s = "evening_loaded\<lparr>sc_last_now := Some in_the_evening, sc_stale := False\<rparr>"
  have s: "sc_runtime ?s = evening_runtime" "sc_book ?s = Some evening_book" "sc_unrecorded ?s = []" "\<not> sc_store_busy ?s"
    by (simp_all add: evening_loaded_def fresh_scheduler_def)
  obtain t where t: "apply_point two_hours_home (evening_tick Lock_taken) evening_start ?s = (t, Written)"
      "sc_book t = Some evening_applied" "sc_unrecorded t = [(evening_slot, evening_record)]"
    using evening_applied_point [OF s] by blast
  have w: "ap_window evening_record = Some evening_window" by (simp add: evening_record_def)
  have c: "close_lost_windows two_hours_home (evening_tick Lock_taken) two_hours_ahead [(evening_slot, evening_record)] t = (t, Written)"
    using w t(2) evening_window_open by (simp add: evening_tick_def)
  have now: "en_now (evening_tick Lock_taken) = in_the_evening" "clock_trusted in_the_evening" "\<not> orphaned (evening_tick Lock_taken) evening_start"
      "bk_applied evening_applied = [(evening_slot, evening_record)]" "in_zone two_hours_home = Some two_hours_ahead"
    by (simp add: evening_tick_def) (code_simp, simp_all add: orphaned_def evening_tick_def evening_applied_def two_hours_home_def split: option.split)
  have e: "evaluate_book two_hours_home (evening_tick Lock_taken) two_hours_ahead (evening_loaded\<lparr>sc_last_now := Some in_the_evening\<rparr>) =
      (t\<lparr>sc_next_at := Some (739908 * DAY + 18 * 60 * MINUTE)\<rparr>, True)"
    using t c evening_due evening_next now s by (simp add: evaluate_book_def)
  have "tick two_hours_home (evening_tick Lock_taken) (fresh_scheduler evening_file evening_runtime) =
      evaluate_book two_hours_home (evening_tick Lock_taken) two_hours_ahead (evening_loaded\<lparr>sc_last_now := Some in_the_evening\<rparr>)"
    using evening_refresh [of Lock_taken] now s by (simp add: tick_def)
  then show ?thesis using e t by simp
qed

text \<open>What the properties say of the examples.\<close>

definition second_evening :: micros where "second_evening = 739911 * DAY + 17 * 60 * MINUTE"

definition second_start :: switch_point where
  "second_start = evening_start\<lparr>sp_at := 739911 * DAY + 16 * 60 * MINUTE, sp_ends_at := Some (739911 * DAY + 18 * 60 * MINUTE)\<rparr>"

lemma second_due: "due_switch_points evening_applied two_hours_ahead second_evening = Inr [(evening_slot, second_start)]"
  by code_simp


section \<open>What is recorded\<close>

definition readable_time :: "micros \<Rightarrow> bool" where
  "readable_time t \<longleftrightarrow> t mod SECOND = 0 \<and> 1000 \<le> year_of (day_part t) \<and> year_of (day_part t) \<le> 9999"

definition closable_record :: "window_record \<Rightarrow> bool" where
  "closable_record w \<longleftrightarrow>
     readable_time (wr_ends_at w) \<and>
     (case schedule_action_of (Jstr (wr_action w)) of Inl _ \<Rightarrow> False | Inr a \<Rightarrow> takes a (wr_end_value w))"

lemma parse_utc_back: "readable_time t \<Longrightarrow> parse_utc f (Jstr (strftime_utc t)) = Inr t"
  using strptime_utc_strftime by (simp add: parse_utc_def as_text_def readable_time_def)

text \<open>
  What the scheduler records as applied, the store's reader gives back unchanged: for a time in whole seconds of a year with
  four digits, a value that is no infinite number, and a window whose action takes its end value.
\<close>

lemma recorded_point_is_read_back:
  assumes "readable_time (ap_at rec)" and "case ap_value rec of Jfloat x \<Rightarrow> isfinite x | _ \<Rightarrow> True"
    and "case ap_window rec of None \<Rightarrow> True | Some w \<Rightarrow> closable_record w"
  shows "parse_applied (record_json rec) = Some rec"
proof (cases "ap_window rec")
  case None
  then show ?thesis
    using parse_utc_back [OF assms(1)] assms(2)
    by (simp add: parse_applied_def record_json_def entry_field_def jget_def closable_def check_rule_part_def)
next
  case (Some w)
  then have w: "readable_time (wr_ends_at w)" "case schedule_action_of (Jstr (wr_action w)) of Inl _ \<Rightarrow> False | Inr a \<Rightarrow> takes a (wr_end_value w)"
    using assms(3) by (simp_all add: closable_record_def)
  then obtain a where "schedule_action_of (Jstr (wr_action w)) = Inr a" "takes a (wr_end_value w)" by (auto split: sum.splits)
  then show ?thesis
    using parse_utc_back [OF assms(1)] parse_utc_back [OF w(1)] assms(2) Some
    by (simp add: parse_applied_def record_json_def entry_field_def jget_def closable_def check_rule_part_def parse_window_record_def
        json_text_def)
qed

end
