(* ===== verification/Spec2Isabelle.thy ===== *)
theory Spec2Isabelle
  imports Output_Regulation Control_Writes Full_Charge_Assist Device_Settings Scheduler
begin

text \<open>
  A verification library for the control core of the EMS of the SolarFlow API control repository.

  The program runs a loop on a home energy system. Each cycle it reads the grid meter and the
  reports of the storage inverters, decides one total to feed out (or, when there is a surplus to
  store, to draw from AC), splits it into one signed target per device and writes the targets over
  HTTP or MQTT, following each command until the device confirms it. Before a cycle reads its settings from
  the runtime state, the scheduler writes there what the rules of \<open>schedules.json\<close> have come to.

  \<^bold>\<open>Parts and theories.\<close>

  \<^item> \<open>Ems_Prelude\<close>: Python numbers and strings, sums over lists, machines and their runs. Watts,
    percentages and seconds are exact rationals (\<open>rat\<close>): the theorems are about the arithmetic
    the code writes, without binary rounding; \<open>py_round\<close> is Python's \<open>round\<close>.
  \<^item> \<open>Power_Direction\<close>: the device report (\<open>ems/models.py\<close>), the direction predicates
    (\<open>ems/power_direction.py\<close>) and the ZenSDK command (\<open>ems/power_command.py\<close>).
  \<^item> \<open>Allocation\<close>: \<open>weighted_limited_allocation\<close> and the redistribution loop of
    \<open>ems/target_control.py\<close>. The locale \<open>limited_allocator\<close> states what a splitter promises; it is
    interpreted on the code's loop (\<open>wla\<close>) and both the discharge and the charge side rest on it.
  \<^item> \<open>Target_Control\<close>: the rest of \<open>ems/target_control.py\<close>, up to \<open>calculate_targets\<close>.
  \<^item> \<open>Ac_Charge_Control\<close>: \<open>ems/ac_charge_control.py\<close>, the charge direction and its allocation.
  \<^item> \<open>Output_Regulation\<close>: the loop of \<open>ems/controller.py\<close> from the meter reading to the ramped
    targets, and who may charge.
  \<^item> \<open>Runtime_Intents\<close>: \<open>ems/runtime_intents.py\<close> and the resolution of the claims on a device. The
    locale \<open>priority_arbiter\<close> states what the arbiter promises.
  \<^item> \<open>Command_State\<close>: \<open>ems/mqtt_control/command_state.py\<close>, \<open>confirmation.py\<close> and
    \<open>reply_contracts.py\<close>, the life of a command.
  \<^item> \<open>Power_Write\<close>: \<open>ems/mqtt_control/power_capability.py\<close>, \<open>zendure_commands.py\<close>,
    \<open>ems/zendure_mqtt/write_protocols.py\<close> and the write builder of the device client: when a
    target may be written and what the message says.
  \<^item> \<open>Device_Client\<close>: \<open>ems/zendure_mqtt/device_client.py\<close>, the slot of one command per device.
    It keeps commands by the contract \<open>command_operation\<close> that \<open>Command_State\<close> provides.
  \<^item> \<open>Charge_Record\<close>: \<open>ems/charge_record.py\<close>, the system's own claim to a charge.
  \<^item> \<open>Http_Client\<close>: \<open>ZendureClient\<close> of \<open>ems/clients.py\<close>, the same targets over the local HTTP API. The locale
    \<open>charge_keeper\<close> states what the controller relies on of either client.
  \<^item> \<open>Charge_Supervision\<close>: the part of \<open>ems/controller.py\<close> that answers for a charge over either transport: the
    exits at a stop, a switch-off and after failed cycles, the assist's charge, and \<open>run_guarded\<close>. The locale
    \<open>device_loop\<close> states that a loop over the devices treats each on its own.
  \<^item> \<open>Control_Writes\<close>: the end of a cycle in \<open>ems/controller.py\<close>: which devices are commanded, the effective
    targets, the loop that writes them and the night idle, with the write gates of \<open>ems/config.py\<close>. The loop that
    writes is the second reading of \<open>device_loop\<close>.
  \<^item> \<open>State_Reconciliation\<close>: the writes of \<open>ems/controller.py\<close> that keep the SoC window, the modes and a claim's AC mode
    and charge power, with \<open>ems/property_writes.py\<close>. \<open>Assist_Store\<close>: \<open>BatteryFullChargeStateStore\<close> of
    \<open>ems/state_store.py\<close>; the locale \<open>simulated\<close> states that it keeps what a store that writes every report would.
    \<open>Full_Charge_Assist\<close>: the schedule of the full-charge assist in \<open>ems/controller.py\<close>, on both.
  \<^item> \<open>Device_Settings\<close>: \<open>ems/device_settings.py\<close> and \<open>apply_device_settings\<close> of \<open>ems/controller.py\<close>: light, fan, buzzer
    and battery heating, kept where the operator set them, through the writes of \<open>State_Reconciliation\<close>.
  \<^item> \<open>Winter_Reserve\<close>: \<open>ems/winter_policies.py\<close>, \<open>ems/winter_reserve.py\<close> and the winter functions of
    \<open>ems/config.py\<close>: the daily raise of the reserve, its store, and the export hold.
  \<^item> \<open>Calendar\<close> and \<open>Time_Text\<close>: the dates, times, JSON values and texts of Python that the schedules use. A date
    is its proleptic Gregorian ordinal, a time whole microseconds from the day before the first of year 1.
  \<^item> \<open>Schedule_Recurrence\<close> and \<open>Schedule_Model\<close>: \<open>ems/schedule_recurrence.py\<close>, the days and occurrences of a
    repeat with the checks of a rule's timing, and the parsing and writing of the timing. \<open>Schedule_Rules\<close>:
    \<open>ems/schedule_model.py\<close>, a whole rule. \<open>Schedule_Actions\<close>: \<open>ems/schedule_actions.py\<close>.
  \<^item> \<open>Runtime_Commands\<close>: \<open>ems/runtime_commands.py\<close> and the writing part of \<open>ems/runtime_state.py\<close>, the one path on which a
    person, the dashboard and the scheduler change the runtime state.
  \<^item> \<open>Schedule_Store\<close>: \<open>ems/schedule_store.py\<close>, the operations on the file. \<open>Schedule_Book\<close>: the book read out of it, and the
    functions of \<open>ems/scheduler.py\<close> that say what is due. \<open>Schedule_Check\<close>: the search for overlapping windows and
    the check of a rule before it is saved. \<open>Scheduler\<close>: the class that applies what is due, once per cycle.

  \<^bold>\<open>How state and operations correspond.\<close> Every class or dataclass is a \<open>record\<close> with the code's
  fields, every enumeration or set of string constants a \<open>datatype\<close>, and every method a function
  from the old state to the new state and its result. Errors and \<open>None\<close> are values of sum and
  option types. Runs are folds of a step function over the list of calls (\<open>run_steps\<close>); the
  locale \<open>stepwise_invariant\<close> carries an invariant of a step over every run and is interpreted on
  the charge direction, the commands, the load filter, the schedule store, the scheduler and the device settings. A generator is the list
  of what it yields to its reader with the reason why the reading ended; an exception that leaves a handler is its last
  value, with the state reached there.

  \<^bold>\<open>What the lemmas show.\<close> Targets are within every device limit and sum to the request up to
  rounding; the splitter is the water level split; PV is exported before a battery is discharged;
  charging is entered only on enough evidence, at most so often per hour, and is left at once; the
  commanded total is bounded, follows the load and is ramped; a command reaches exactly one
  terminal outcome, is confirmed only by fresh telemetry that proves it and never occupies its
  slot forever; a device has
  one command in flight, the last one sent, only allowed targets are sent and a safety reduction
  never waits; a charge on record is closed only by the device, its exits are repeated and
  bounded; a stop returns every charge and a switch-off ends it, with bounded exits to the assist's; failing cycles hold
  the assist's AC input until as many went through; a cycle writes only what the operator and the limits permit, and
  the night idle parks its devices once; a state write goes only over what a device reports, and differs from it; the
  full-charge assist starts only where it can work, and owes the configured maximum and AC mode back until they are there;
  its store loses at most minutes of times in a crash; a cycle brings the device settings
  about, and a value a device does not take goes out at most three times an hour; every device has one owner per cycle by rank; the winter reserve is raised at most once a
  day, near the battery, and its hold ends by itself. A repeat yields the days its meaning selects, reading
  from a later time changes nothing, and a rule that is stored is read back. The latest switch point of a setting
  wins; none fires twice, none fires on an untrusted clock or while paused, and what could not be recorded is
  remembered; two rules between whose windows no overlap is found never overlap; the store keeps every entry readable
  and refuses an edit made against an older revision.

  \<^bold>\<open>Termination.\<close> No fuel is used: the two allocation loops and the concentrating loop are total,
  by the number of devices still in play and, for the redistribution, the watts left to move; the loop over a repeat's
  periods ends with the calendar.

  \<^bold>\<open>Interaction.\<close> \<open>Output_Regulation\<close> calls \<open>decide_charge_direction\<close> and the ceilings of
  \<open>Ac_Charge_Control\<close>; that uses the splitter of \<open>Allocation\<close>; \<open>Command_State\<close> compares
  telemetry with the properties \<open>build_zensdk_power_operation\<close> wrote; \<open>Charge_Record\<close> and
  \<open>Runtime_Intents\<close> read the direction predicates. \<open>Charge_Supervision\<close> drives either client, keeps the regulator's
  state and resolves the claims; \<open>Control_Writes\<close> writes what the regulator decided through it. \<open>State_Reconciliation\<close>
  writes the floor \<open>Winter_Reserve\<close> plans; \<open>Full_Charge_Assist\<close> runs on \<open>Assist_Store\<close>, whose rows are what
  \<open>Charge_Supervision\<close> reads of an assist. \<open>Scheduler\<close> runs \<open>due_switch_points\<close> of \<open>Schedule_Book\<close> on the
  book, each point through \<open>action_commands\<close> and \<open>run_commands\<close>, and records it with \<open>record_applied\<close> of
  \<open>Schedule_Store\<close> under the store's lock.

  \<^bold>\<open>Not modelled.\<close> Transports, brokers and HTTP, logging and the explanation objects built for
  diagnostics, configuration loading, the history and telemetry databases, the web interfaces and the appliance. Of the
  controller: the reading of the devices and the meter, and the text of
  the cycle as one function: its parts are modelled, from the reports to the writes, and the cycle itself is an
  argument of \<open>run_guarded\<close>. Of the device client: its diagnostic
  description and the delivery receipts it keeps for it. Of the scheduler: the status view and \<open>local_zone\<close>, which looks
  for zone files; a zone is its offset at a wall-clock time, and what is relied on of it is \<open>orderly_zone\<close>.
\<close>

end
